(* ===== verification/RouterPrelude.thy ===== *)
theory RouterPrelude
  imports Complex_Main "HOL-Library.AList" "HOL-Library.Signed_Division" "HOL-Library.Multiset"
begin

text \<open>
  Shared material of the development: the clock types, the generic lemmas on lists and
  association lists the components use, and the interface locales for components whose
  state is changed by a closed set of operations.

  Instants (\<open>time.Time\<close>) are nanoseconds since Go's zero time, so that the zero value
  \<open>time.Time{}\<close> is \<open>0\<close> and \<open>IsZero\<close> is a comparison with it; durations
  (\<open>time.Duration\<close>) are nanoseconds. Both are unbounded integers: the code never comes
  near the 292-year limit of the machine type on the paths that are modelled.
  A critical section reads the clock once in the model, where the code may call
  \<open>time.Now\<close> twice under the same lock.
\<close>

type_synonym instant = int
type_synonym duration = int

definition nanosecond :: duration where
  "nanosecond = 1"

definition millisecond :: duration where
  "millisecond = 1000000"

definition second :: duration where
  "second = 1000000000"

definition minute :: duration where
  "minute = 60 * second"

definition hour :: duration where
  "hour = 60 * minute"

lemma second_pos [simp]: "0 < second" "second \<noteq> 0" "0 \<le> second"
  by (simp_all add: second_def)

lemma minute_pos [simp]: "0 < minute" "0 \<le> minute"
  by (simp_all add: minute_def second_def)

lemmas duration_defs = nanosecond_def millisecond_def second_def minute_def hour_def

subsection \<open>Integer division as Go has it\<close>

lemma sdiv_nonneg [simp]: "0 \<le> a \<Longrightarrow> 0 \<le> b \<Longrightarrow> a sdiv b = a div b" for a b :: int
  by (cases "a = 0 \<or> b = 0") (auto simp: signed_divide_int_def)

text \<open>Two's complement arithmetic of an \<open>int64\<close>.\<close>

definition wrap_int64 :: "int \<Rightarrow> int" where
  "wrap_int64 n = (n + 9223372036854775808) mod 18446744073709551616 - 9223372036854775808"

lemma wrap_int64_id: "- 9223372036854775808 \<le> n \<Longrightarrow> n < 9223372036854775808 \<Longrightarrow> wrap_int64 n = n"
  by (simp add: wrap_int64_def)

subsection \<open>Association lists\<close>

text \<open>
  Go maps whose size or iteration matters are association lists with distinct keys;
  \<open>lookup\<close> is \<open>map_of\<close>.
\<close>

abbreviation keys :: "('k \<times> 'v) list \<Rightarrow> 'k list" where
  "keys m \<equiv> map fst m"

abbreviation is_map :: "('k \<times> 'v) list \<Rightarrow> bool" where
  "is_map m \<equiv> distinct (map fst m)"

lemma is_map_update [simp]: "is_map m \<Longrightarrow> is_map (AList.update k v m)"
  by (rule distinct_update)

lemma is_map_delete [simp]: "is_map m \<Longrightarrow> is_map (AList.delete k m)"
  by (rule distinct_delete)

lemma map_of_update [simp]: "map_of (AList.update k v m) = (map_of m)(k \<mapsto> v)"
  by (rule update_conv')

lemma map_of_delete [simp]: "map_of (AList.delete k m) = (map_of m)(k := None)"
  by (rule delete_conv')

lemma length_update:
  "length (AList.update k v m) = (if k \<in> set (keys m) then length m else Suc (length m))"
  by (induction m) auto

lemma in_set_updateD:
  "(k', v') \<in> set (AList.update k v m) \<Longrightarrow> k' = k \<and> v' = v \<or> (k', v') \<in> set m"
  by (induction m) (auto split: if_splits)

lemma in_set_deleteD: "x \<in> set (AList.delete k m) \<Longrightarrow> x \<in> set m \<and> fst x \<noteq> k"
  by (auto simp: AList.delete_eq)

lemma update_twice [simp]: "AList.update k v (AList.update k w m) = AList.update k v m"
  by (induction m) auto

lemma set_keys_update [simp]: "fst ` set (AList.update k v m) = insert k (fst ` set m)"
  by (simp add: AList.dom_update)

lemma set_keys_delete [simp]: "fst ` set (AList.delete k m) = fst ` set m - {k}"
  by (auto simp: AList.delete_eq)

text \<open>An entry-wise property of a map, and its preservation by insertion and removal.\<close>

definition all_entries :: "('k \<Rightarrow> 'v \<Rightarrow> bool) \<Rightarrow> ('k \<times> 'v) list \<Rightarrow> bool" where
  "all_entries P m \<longleftrightarrow> (\<forall>(k, v)\<in>set m. P k v)"

lemma all_entries_Nil [simp]: "all_entries P []"
  by (simp add: all_entries_def)

lemma all_entries_update [intro]: "all_entries P m \<Longrightarrow> P k v \<Longrightarrow> all_entries P (AList.update k v m)"
  by (auto simp: all_entries_def dest!: in_set_updateD)

lemma all_entries_delete [intro]: "all_entries P m \<Longrightarrow> all_entries P (AList.delete k m)"
  by (auto simp: all_entries_def dest!: in_set_deleteD)

lemma all_entriesD: "all_entries P m \<Longrightarrow> map_of m k = Some v \<Longrightarrow> P k v"
  by (auto simp: all_entries_def dest: map_of_SomeD)

lemma map_of_some_in_keys: "map_of m k = Some v \<Longrightarrow> k \<in> set (keys m)"
  by (metis domI dom_map_of_conv_image_fst list.set_map)

subsection \<open>Lists without duplicates, first-seen order kept\<close>

primrec dedupe_onto :: "'a list \<Rightarrow> 'a list \<Rightarrow> 'a list" where
  "dedupe_onto seen [] = []"
| "dedupe_onto seen (x # xs) =
     (if x \<in> set seen then dedupe_onto seen xs else x # dedupe_onto (x # seen) xs)"

lemma set_dedupe_onto [simp]: "set (dedupe_onto seen xs) = set xs - set seen"
  by (induction xs arbitrary: seen) auto

lemma distinct_dedupe_onto [simp]: "distinct (dedupe_onto seen xs)"
  by (induction xs arbitrary: seen) auto

lemma dedupe_onto_id: "distinct xs \<Longrightarrow> set xs \<inter> set seen = {} \<Longrightarrow> dedupe_onto seen xs = xs"
  by (induction xs arbitrary: seen) auto

subsection \<open>Sorting by a comparison\<close>

text \<open>\<open>sort.SliceStable\<close>: an element goes behind those the comparison puts before it.\<close>

fun insert_by :: "('a \<Rightarrow> 'a \<Rightarrow> bool) \<Rightarrow> 'a \<Rightarrow> 'a list \<Rightarrow> 'a list" where
  "insert_by lt x [] = [x]"
| "insert_by lt x (y # ys) = (if lt y x then y # insert_by lt x ys else x # y # ys)"

definition sort_by :: "('a \<Rightarrow> 'a \<Rightarrow> bool) \<Rightarrow> 'a list \<Rightarrow> 'a list" where
  "sort_by lt xs = foldr (insert_by lt) xs []"

lemma mset_sort_by [simp]: "mset (sort_by lt xs) = mset xs"
proof -
  have ins: "mset (insert_by lt x ys) = add_mset x (mset ys)" for x ys by (induction ys) auto
  show ?thesis unfolding sort_by_def by (induction xs) (simp_all add: ins)
qed

lemma set_sort_by [simp]: "set (sort_by lt xs) = set xs"
  by (metis mset_sort_by set_mset_mset)

lemma length_sort_by [simp]: "length (sort_by lt xs) = length xs"
  by (metis mset_sort_by size_mset)

lemma sort_by_key: "sort_by (\<lambda>a b. f a < f b) xs = sort_key f xs" for f :: "'a \<Rightarrow> 'k :: linorder"
proof -
  have ins: "insert_by (\<lambda>a b. f a < f b) x ys = insort_key f x ys" for x ys by (induction ys) auto
  show ?thesis unfolding sort_by_def sort_key_def by (rule foldr_cong) (simp_all add: ins)
qed

lemma mset_rotate [simp]: "mset (rotate k xs) = mset xs"
  by (metis rotate_drop_take mset_append add.commute append_take_drop_id)

subsection \<open>Runs of operations\<close>

text \<open>
  The interface of a component that other components only reach through its operations:
  every operation, in whatever order the callers issue them, keeps the invariant. Each
  stateful component below interprets it on its own operations.
\<close>

locale invariant_system =
  fixes exec :: "'op \<Rightarrow> 's \<Rightarrow> 's"
    and inv :: "'s \<Rightarrow> bool"
  assumes inv_exec: "inv s \<Longrightarrow> inv (exec e s)"
begin

lemma inv_run: "inv s \<Longrightarrow> inv (fold exec es s)"
  by (induction es arbitrary: s) (auto intro: inv_exec)

lemma inv_run_prefix: "inv s \<Longrightarrow> inv (fold exec (take n es) s)"
  by (rule inv_run)

end

text \<open>
  The same for a component some of whose operations carry a precondition (a clock that does
  not run backwards, a release by a holder): every operation of the run is legal where it
  happens.
\<close>

primrec ok_run :: "('op \<Rightarrow> 's \<Rightarrow> 's) \<Rightarrow> ('op \<Rightarrow> 's \<Rightarrow> bool) \<Rightarrow> 'op list \<Rightarrow> 's \<Rightarrow> bool" where
  "ok_run exec ok [] s \<longleftrightarrow> True"
| "ok_run exec ok (e # es) s \<longleftrightarrow> ok e s \<and> ok_run exec ok es (exec e s)"

locale guarded_system =
  fixes exec :: "'op \<Rightarrow> 's \<Rightarrow> 's"
    and ok :: "'op \<Rightarrow> 's \<Rightarrow> bool"
    and inv :: "'s \<Rightarrow> bool"
  assumes inv_exec: "inv s \<Longrightarrow> ok e s \<Longrightarrow> inv (exec e s)"
begin

lemma inv_run: "inv s \<Longrightarrow> ok_run exec ok es s \<Longrightarrow> inv (fold exec es s)"
  by (induction es arbitrary: s) (auto intro: inv_exec)

end

end
