(* ===== verification/Breaker.thy ===== *)
theory Breaker
  imports RouterPrelude
begin

text \<open>
  The per-provider circuit breaker, \<open>internal/resilience/circuitbreaker.go\<close>: its four
  states, the operations on one breaker, and the registry of breakers keyed by provider
  and egress. The clock reading of an operation is its \<open>now\<close> argument. The reset
  timeout is scaled by a \<open>float64\<close> multiplier that is only ever doubled or capped;
  it is an exact rational here.
\<close>

section \<open>States and options\<close>

datatype bstate = Closed | Degraded | Open | HalfOpen

record breaker_options =
  failure_threshold :: int
  reset_timeout :: duration
  half_open_requests :: int
  max_backoff_multiplier :: rat
  backoff_escalation_count :: int

definition default_failure_threshold :: int where
  "default_failure_threshold = 5"

definition default_reset_timeout :: duration where
  "default_reset_timeout = 30 * second"

definition default_half_open_requests :: int where
  "default_half_open_requests = 1"

definition default_max_backoff_multiplier :: rat where
  "default_max_backoff_multiplier = 16"

definition default_backoff_escalation_count :: int where
  "default_backoff_escalation_count = 3"

lemmas breaker_defaults =
  default_failure_threshold_def default_reset_timeout_def default_half_open_requests_def
  default_max_backoff_multiplier_def default_backoff_escalation_count_def

definition with_defaults :: "breaker_options \<Rightarrow> breaker_options" where
  "with_defaults o' = \<lparr>
     failure_threshold =
       (if failure_threshold o' \<le> 0 then default_failure_threshold else failure_threshold o'),
     reset_timeout =
       (if reset_timeout o' \<le> 0 then default_reset_timeout else reset_timeout o'),
     half_open_requests =
       (if half_open_requests o' \<le> 0 then default_half_open_requests else half_open_requests o'),
     max_backoff_multiplier =
       (if max_backoff_multiplier o' \<le> 0 then default_max_backoff_multiplier
        else max_backoff_multiplier o'),
     backoff_escalation_count =
       (if backoff_escalation_count o' \<le> 0 then default_backoff_escalation_count
        else backoff_escalation_count o') \<rparr>"

definition provider_failure_codes :: "int list" where
  "provider_failure_codes = [408, 500, 502, 503, 504, 520, 524]"

definition is_provider_failure_status :: "int \<Rightarrow> bool" where
  "is_provider_failure_status status \<longleftrightarrow> status \<in> set provider_failure_codes"

record breaker =
  b_name :: string
  b_opts :: breaker_options
  b_state :: bstate
  b_failures :: int
  b_successes :: int
  b_opened_at :: instant
  b_probe_cycles :: int
  b_remaining :: int
  b_half_open_at :: instant
  b_last_failure :: instant

section \<open>Operations\<close>

definition degradation_threshold :: "breaker \<Rightarrow> int" where
  "degradation_threshold b =
     (let t = (failure_threshold (b_opts b) * 3) sdiv 5 in if t < 1 then 1 else t)"

text \<open>The doubling loop of \<open>effectiveTimeout\<close>; \<open>n\<close> is what is left of \<open>steps\<close>.\<close>

primrec backoff_mult :: "nat \<Rightarrow> rat \<Rightarrow> rat \<Rightarrow> rat" where
  "backoff_mult 0 factor mx = factor"
| "backoff_mult (Suc n) factor mx = (if factor < mx then backoff_mult n (factor * 2) mx else factor)"

definition effective_timeout :: "breaker \<Rightarrow> duration" where
  "effective_timeout b =
     (let mx = max_backoff_multiplier (b_opts b);
          factor = (if backoff_escalation_count (b_opts b) > 0
                  then backoff_mult (nat (b_probe_cycles b sdiv backoff_escalation_count (b_opts b))) 1 mx
                  else 1);
          factor = (if factor > mx then mx else factor)
      in \<lfloor>of_int (reset_timeout (b_opts b)) * factor\<rfloor>)"

fun transition :: "breaker \<Rightarrow> instant \<Rightarrow> bstate \<Rightarrow> breaker" where
  "transition b now Open = b\<lparr>b_state := Open, b_opened_at := now, b_remaining := 0\<rparr>"
| "transition b now HalfOpen =
     b\<lparr>b_state := HalfOpen, b_remaining := half_open_requests (b_opts b), b_half_open_at := now\<rparr>"
| "transition b now Closed =
     b\<lparr>b_state := Closed, b_failures := 0, b_successes := 0, b_probe_cycles := 0, b_opened_at := 0\<rparr>"
| "transition b now Degraded = b\<lparr>b_state := Degraded\<rparr>"

definition allow :: "breaker \<Rightarrow> instant \<Rightarrow> bool \<times> breaker" where
  "allow b now =
     (case b_state b of
        Closed \<Rightarrow> (True, b)
      | Degraded \<Rightarrow> (True, b)
      | Open \<Rightarrow>
          (if now - b_opened_at b \<ge> effective_timeout b
           then (let b' = transition b now HalfOpen
                 in (True, b'\<lparr>b_remaining := b_remaining b' - 1\<rparr>))
           else (False, b))
      | HalfOpen \<Rightarrow>
          (if b_remaining b > 0
           then (let r = b_remaining b - 1;
                     b' = b\<lparr>b_remaining := r\<rparr>
                 in (True, if r = 0 then b'\<lparr>b_half_open_at := now\<rparr> else b'))
           else if now - b_half_open_at b \<ge> effective_timeout b
           then (False, transition (b\<lparr>b_probe_cycles := b_probe_cycles b + 1\<rparr>) now Open)
           else (False, b)))"

definition record_success :: "breaker \<Rightarrow> instant \<Rightarrow> breaker" where
  "record_success b now =
     (let b = b\<lparr>b_successes := b_successes b + 1\<rparr>
      in case b_state b of
           HalfOpen \<Rightarrow> transition b now Closed
         | Degraded \<Rightarrow>
             (if b_successes b \<ge> failure_threshold (b_opts b) then transition b now Closed else b)
         | _ \<Rightarrow> b)"

definition record_failure :: "breaker \<Rightarrow> instant \<Rightarrow> breaker" where
  "record_failure b now =
     (let b = b\<lparr>b_failures := b_failures b + 1, b_last_failure := now\<rparr>
      in case b_state b of
           HalfOpen \<Rightarrow> transition (b\<lparr>b_probe_cycles := b_probe_cycles b + 1\<rparr>) now Open
         | Open \<Rightarrow> b
         | _ \<Rightarrow>
             (if b_failures b \<ge> failure_threshold (b_opts b) then transition b now Open
              else if b_failures b \<ge> degradation_threshold b \<and> b_state b = Closed
              then transition b now Degraded
              else b))"

definition retry_after :: "breaker \<Rightarrow> instant \<Rightarrow> duration" where
  "retry_after b now =
     (if b_state b \<noteq> Open then 0
      else (let remaining = effective_timeout b - (now - b_opened_at b)
            in if remaining < 0 then 0 else remaining))"

definition reset_breaker :: "breaker \<Rightarrow> instant \<Rightarrow> breaker" where
  "reset_breaker b now = transition b now Closed"

record breaker_status =
  bs_name :: string
  bs_state :: bstate
  bs_failures :: int
  bs_successes :: int
  bs_retry_after_ms :: int
  bs_opened_at :: "instant option"

definition breaker_status :: "breaker \<Rightarrow> instant \<Rightarrow> breaker_status" where
  "breaker_status b now =
     (let st = \<lparr>bs_name = b_name b, bs_state = b_state b, bs_failures = b_failures b,
                bs_successes = b_successes b, bs_retry_after_ms = 0, bs_opened_at = None\<rparr>
      in if b_state b = Open
         then (let remaining = effective_timeout b - (now - b_opened_at b);
                   st = (if remaining > 0
                         then st\<lparr>bs_retry_after_ms := remaining sdiv millisecond\<rparr> else st)
               in st\<lparr>bs_opened_at := Some (b_opened_at b)\<rparr>)
         else st)"

section \<open>The registry\<close>

type_synonym breaker_registry = "(string \<times> breaker) list"

definition breaker_key :: "string \<Rightarrow> string \<Rightarrow> string" where
  "breaker_key provider proxy_hash =
     (if proxy_hash = [] \<or> proxy_hash = ''direct'' then provider
      else provider @ ''|'' @ proxy_hash)"

definition fresh_breaker :: "string \<Rightarrow> breaker_options \<Rightarrow> breaker" where
  "fresh_breaker key opts =
     \<lparr>b_name = key, b_opts = with_defaults opts, b_state = Closed, b_failures = 0,
      b_successes = 0, b_opened_at = 0, b_probe_cycles = 0, b_remaining = 0,
      b_half_open_at = 0, b_last_failure = 0\<rparr>"

definition breaker_for_key ::
  "breaker_registry \<Rightarrow> string \<Rightarrow> string \<Rightarrow> breaker_options \<Rightarrow> breaker \<times> breaker_registry" where
  "breaker_for_key reg provider proxy_hash opts =
     (let key = breaker_key provider proxy_hash
      in case map_of reg key of
           Some b \<Rightarrow> (b, reg)
         | None \<Rightarrow> (let b = fresh_breaker key opts in (b, AList.update key b reg)))"

definition breaker_for :: "breaker_registry \<Rightarrow> string \<Rightarrow> breaker_options \<Rightarrow> breaker \<times> breaker_registry" where
  "breaker_for reg provider opts = breaker_for_key reg provider [] opts"

definition all_breaker_statuses :: "breaker_registry \<Rightarrow> instant \<Rightarrow> breaker_status list" where
  "all_breaker_statuses reg now = map (\<lambda>(_, b). breaker_status b now) reg"

definition reset_all_breakers :: "breaker_registry \<Rightarrow> instant \<Rightarrow> breaker_registry" where
  "reset_all_breakers reg now = map (\<lambda>(k, b). (k, reset_breaker b now)) reg"

section \<open>Well-formedness\<close>

definition opts_ok :: "breaker_options \<Rightarrow> bool" where
  "opts_ok o' \<longleftrightarrow> 0 < failure_threshold o' \<and> 0 < reset_timeout o' \<and> 0 < half_open_requests o'
     \<and> 0 < max_backoff_multiplier o' \<and> 0 < backoff_escalation_count o'"

definition breaker_inv :: "breaker \<Rightarrow> bool" where
  "breaker_inv b \<longleftrightarrow> opts_ok (b_opts b) \<and> 0 \<le> b_failures b \<and> 0 \<le> b_successes b
     \<and> 0 \<le> b_probe_cycles b
     \<and> (case b_state b of
          Closed \<Rightarrow> b_failures b < degradation_threshold b
        | Degraded \<Rightarrow> degradation_threshold b \<le> b_failures b
                      \<and> b_failures b < failure_threshold (b_opts b)
        | Open \<Rightarrow> b_remaining b = 0
        | HalfOpen \<Rightarrow> 0 \<le> b_remaining b \<and> b_remaining b < half_open_requests (b_opts b))"

datatype breaker_op =
  OpAllow instant | OpSuccess instant | OpFailure instant | OpReset instant

fun exec_breaker :: "breaker_op \<Rightarrow> breaker \<Rightarrow> breaker" where
  "exec_breaker (OpAllow now) b = snd (allow b now)"
| "exec_breaker (OpSuccess now) b = record_success b now"
| "exec_breaker (OpFailure now) b = record_failure b now"
| "exec_breaker (OpReset now) b = reset_breaker b now"

lemmas breaker_op_defs =
  allow_def record_success_def record_failure_def reset_breaker_def Let_def

lemma opts_ok_with_defaults [simp]: "opts_ok (with_defaults o')"
  by (auto simp: opts_ok_def with_defaults_def breaker_defaults)

lemma degradation_threshold_cong [simp]:
  "degradation_threshold (b\<lparr>b_state := s\<rparr>) = degradation_threshold b"
  "degradation_threshold (b\<lparr>b_failures := f\<rparr>) = degradation_threshold b"
  "degradation_threshold (b\<lparr>b_successes := n\<rparr>) = degradation_threshold b"
  "degradation_threshold (b\<lparr>b_last_failure := t\<rparr>) = degradation_threshold b"
  "degradation_threshold (b\<lparr>b_opened_at := t\<rparr>) = degradation_threshold b"
  "degradation_threshold (b\<lparr>b_probe_cycles := n\<rparr>) = degradation_threshold b"
  by (simp_all add: degradation_threshold_def)

lemma degradation_threshold_bounds:
  assumes "opts_ok (b_opts b)"
  shows "1 \<le> degradation_threshold b" "degradation_threshold b \<le> failure_threshold (b_opts b)"
  using assms by (auto simp: degradation_threshold_def opts_ok_def Let_def)

lemma breaker_inv_transition:
  assumes "opts_ok (b_opts b)" "0 \<le> b_failures b" "0 \<le> b_successes b" "0 \<le> b_probe_cycles b"
  shows "breaker_inv (transition b now Open)" "breaker_inv (transition b now Closed)"
  using assms degradation_threshold_bounds[OF assms(1)]
  by (auto simp: breaker_inv_def)

lemma breaker_inv_fresh: "breaker_inv (fresh_breaker key opts)"
  using degradation_threshold_bounds(1)[of "fresh_breaker key opts"]
  by (simp add: breaker_inv_def fresh_breaker_def)

lemma breaker_inv_allow: "breaker_inv b \<Longrightarrow> breaker_inv (snd (allow b now))"
  by (auto simp: allow_def breaker_inv_def opts_ok_def Let_def split: bstate.splits)

lemma breaker_inv_success: "breaker_inv b \<Longrightarrow> breaker_inv (record_success b now)"
  using degradation_threshold_bounds(1)[of b]
  by (auto simp: record_success_def breaker_inv_def Let_def split: bstate.splits)

lemma breaker_inv_failure: "breaker_inv b \<Longrightarrow> breaker_inv (record_failure b now)"
  by (auto simp: record_failure_def breaker_inv_def Let_def split: bstate.splits)

lemma breaker_inv_reset: "breaker_inv b \<Longrightarrow> breaker_inv (reset_breaker b now)"
  unfolding reset_breaker_def by (rule breaker_inv_transition) (auto simp: breaker_inv_def)

lemmas breaker_inv_ops =
  breaker_inv_allow breaker_inv_success breaker_inv_failure breaker_inv_reset

interpretation breaker_run: invariant_system exec_breaker breaker_inv
proof
  fix b e assume "breaker_inv b"
  then show "breaker_inv (exec_breaker e b)" by (cases e) (auto intro: breaker_inv_ops)
qed

section \<open>Back-off\<close>

lemma min_backoff_mult:
  "0 < m \<Longrightarrow> min (backoff_mult n m mx) mx = min (m * 2 ^ n) mx"
proof (induction n arbitrary: m)
  case (Suc n)
  show ?case
  proof (cases "m < mx")
    case True
    then show ?thesis using Suc.IH[of "m * 2"] Suc.prems by (simp add: mult_ac)
  next
    case False
    have "m * 1 \<le> m * 2 ^ Suc n" 
      using Suc.prems one_le_power[of "2::rat" "Suc n"] by (intro mult_left_mono) auto
    with False show ?thesis by simp
  qed
qed simp

lemma effective_timeout_eq:
  assumes "0 < backoff_escalation_count (b_opts b)" "0 \<le> b_probe_cycles b"
  shows "effective_timeout b = \<lfloor>of_int (reset_timeout (b_opts b)) *
           min (2 ^ nat (b_probe_cycles b div backoff_escalation_count (b_opts b)))
               (max_backoff_multiplier (b_opts b))\<rfloor>"
proof -
  let ?n = "nat (b_probe_cycles b div backoff_escalation_count (b_opts b))"
  let ?mx = "max_backoff_multiplier (b_opts b)"
  have "(if ?mx < backoff_mult ?n 1 ?mx then ?mx else backoff_mult ?n 1 ?mx) = min (2 ^ ?n) ?mx"
    using min_backoff_mult[of 1 ?n ?mx] by (simp add: min_def split: if_splits)
  with assms show ?thesis by (simp add: effective_timeout_def Let_def)
qed

lemma effective_timeout_same:
  "b_opts b = b_opts c \<Longrightarrow> b_probe_cycles b = b_probe_cycles c \<Longrightarrow>
   effective_timeout b = effective_timeout c"
  by (simp add: effective_timeout_def Let_def)

lemma effective_timeout_mono:
  assumes "opts_ok (b_opts b)" "b_opts c = b_opts b"
    and "0 \<le> b_probe_cycles b" "b_probe_cycles b \<le> b_probe_cycles c"
  shows "effective_timeout b \<le> effective_timeout c"
proof -
  let ?e = "backoff_escalation_count (b_opts b)"
  have e: "0 < ?e" "0 < reset_timeout (b_opts b)" using assms by (auto simp: opts_ok_def)
  have "nat (b_probe_cycles b div ?e) \<le> nat (b_probe_cycles c div ?e)"
    using assms e by (intro nat_mono zdiv_mono1) auto
  then have "(2::rat) ^ nat (b_probe_cycles b div ?e) \<le> 2 ^ nat (b_probe_cycles c div ?e)"
    by (intro power_increasing) auto
  then show ?thesis using assms e
    by (simp add: effective_timeout_eq)
       (intro floor_mono mult_left_mono min.mono, auto)
qed

lemma effective_timeout_nonneg:
  "opts_ok (b_opts b) \<Longrightarrow> 0 \<le> b_probe_cycles b \<Longrightarrow> 0 \<le> effective_timeout b"
  by (simp add: effective_timeout_eq opts_ok_def)

section \<open>Behaviour of the admission test\<close>

lemma allow_open:
  "b_state b = Open \<Longrightarrow> fst (allow b now) \<longleftrightarrow> effective_timeout b \<le> now - b_opened_at b"
  by (simp add: allow_def Let_def)

lemma retry_after_open:
  "b_state b = Open \<Longrightarrow> retry_after b now = max 0 (effective_timeout b - (now - b_opened_at b))"
  by (simp add: retry_after_def Let_def)

lemma record_failure_not_open:
  "b_state b \<noteq> Open \<Longrightarrow> b_state b \<noteq> HalfOpen \<Longrightarrow> breaker_inv b \<Longrightarrow>
   b_state (record_failure b now) =
     (if failure_threshold (b_opts b) \<le> b_failures b + 1 then Open
      else if degradation_threshold b \<le> b_failures b + 1 then Degraded else Closed)"
  by (cases "b_state b") (auto simp: record_failure_def breaker_inv_def Let_def)

lemma record_failure_frame [simp]:
  "b_failures (record_failure b now) = b_failures b + 1"
  "b_opts (record_failure b now) = b_opts b"
  by (auto simp: record_failure_def Let_def split: bstate.splits)

lemma degradation_threshold_failure [simp]:
  "degradation_threshold (record_failure b now) = degradation_threshold b"
  by (simp add: degradation_threshold_def)

lemma record_failure_open: "b_state b = Open \<Longrightarrow> b_state (record_failure b now) = Open"
  by (simp add: record_failure_def Let_def)

lemma failures_inv_state:
  assumes "breaker_inv b" "b_state b \<noteq> HalfOpen"
    "b_state b = Open \<Longrightarrow> failure_threshold (b_opts b) \<le> b_failures b"
  shows "b_state (fold (\<lambda>t b. record_failure b t) ts b) =
     (if failure_threshold (b_opts b) \<le> b_failures b + int (length ts) then Open
      else if degradation_threshold b \<le> b_failures b + int (length ts) then Degraded
      else Closed)"
  using assms
proof (induction ts arbitrary: b)
  case Nil
  then show ?case
    using degradation_threshold_bounds[of b] by (cases "b_state b") (auto simp: breaker_inv_def)
next
  case (Cons t ts)
  let ?c = "record_failure b t"
  have "b_state ?c \<noteq> HalfOpen" "b_state ?c = Open \<Longrightarrow> failure_threshold (b_opts b) \<le> b_failures b + 1"
    using Cons.prems record_failure_not_open[of b t] record_failure_open[of b t]
    by (cases "b_state b = Open"; auto split: if_splits)+
  then show ?case
    using Cons.IH[of ?c] breaker_inv_failure[OF Cons.prems(1)] by (simp add: add.assoc)
qed

text \<open>A run of admission tests at the instants \<open>ts\<close>: the answers, in order.\<close>

primrec run_allows :: "breaker \<Rightarrow> instant list \<Rightarrow> bool list" where
  "run_allows b [] = []"
| "run_allows b (t # ts) = (case allow b t of (ok, b') \<Rightarrow> ok # run_allows b' ts)"

text \<open>How many probes a breaker can still admit before \<open>horizon\<close> elapses after \<open>t0\<close>.\<close>

definition probe_credit :: "instant \<Rightarrow> breaker \<Rightarrow> int" where
  "probe_credit t0 b = (case b_state b of
       Open \<Rightarrow> (if t0 \<le> b_opened_at b then 0 else half_open_requests (b_opts b))
     | _ \<Rightarrow> b_remaining b)"

lemma allow_credit:
  assumes "breaker_inv b" "b_state b = Open \<or> b_state b = HalfOpen"
    and "t0 \<le> t" "t < t0 + T" "T \<le> effective_timeout b"
    and "allow b t = (ok, b')"
  shows "(if ok then 1 else 0) + probe_credit t0 b' \<le> probe_credit t0 b"
    and "b_state b' = Open \<or> b_state b' = HalfOpen" and "T \<le> effective_timeout b'"
proof -
  have mono: "effective_timeout b \<le> effective_timeout b'"
    using assms(1,6) by (intro effective_timeout_mono)
      (auto simp: allow_def Let_def breaker_inv_def split: bstate.splits if_splits)
  then show "T \<le> effective_timeout b'" using assms(5) by simp
  show "b_state b' = Open \<or> b_state b' = HalfOpen"
    using assms(2,6) by (auto simp: allow_def Let_def split: if_splits)
  show "(if ok then 1 else 0) + probe_credit t0 b' \<le> probe_credit t0 b"
    using assms by (auto simp: allow_def Let_def probe_credit_def breaker_inv_def split: if_splits)
qed

lemma run_allows_credit:
  assumes "breaker_inv b" "b_state b = Open \<or> b_state b = HalfOpen"
    and "\<forall>t\<in>set ts. t0 \<le> t \<and> t < t0 + T" "T \<le> effective_timeout b"
  shows "int (length (filter id (run_allows b ts))) \<le> probe_credit t0 b"
  using assms
proof (induction ts arbitrary: b)
  case Nil
  then show ?case by (auto simp: probe_credit_def breaker_inv_def opts_ok_def)
next
  case (Cons t ts)
  obtain ok b' where al: "allow b t = (ok, b')" by fastforce
  have "breaker_inv b'" using breaker_inv_allow[OF Cons.prems(1), of t] al by simp
  then show ?case
    using Cons.IH[of b'] allow_credit[OF Cons.prems(1,2) _ _ Cons.prems(4) al, of t0] Cons.prems(3) al
    by (auto split: if_splits)
qed

section \<open>Behaviour of the registry\<close>

lemma breaker_key_direct: "breaker_key p [] = p" "breaker_key p ''direct'' = p"
  by (simp_all add: breaker_key_def)

lemma breaker_key_inj:
  "h1 \<notin> {[], ''direct''} \<Longrightarrow> h2 \<notin> {[], ''direct''} \<Longrightarrow>
   breaker_key p h1 = breaker_key p h2 \<longleftrightarrow> h1 = h2"
  by (auto simp: breaker_key_def)

lemma breaker_key_egress: "h \<notin> {[], ''direct''} \<Longrightarrow> breaker_key p h \<noteq> p"
  by (auto simp: breaker_key_def)

lemma breaker_for_key_lookup:
  "map_of (snd (breaker_for_key reg p h opts)) (breaker_key p h) = Some (fst (breaker_for_key reg p h opts))"
  by (auto simp: breaker_for_key_def Let_def split: option.splits)

lemma breaker_for_key_other:
  "k \<noteq> breaker_key p h \<Longrightarrow> map_of (snd (breaker_for_key reg p h opts)) k = map_of reg k"
  by (auto simp: breaker_for_key_def Let_def split: option.splits)

lemma breaker_for_key_old:
  "map_of reg (breaker_key p h) = Some b \<Longrightarrow> breaker_for_key reg p h opts = (b, reg)"
  by (simp add: breaker_for_key_def)

definition registry_inv :: "breaker_registry \<Rightarrow> bool" where
  "registry_inv reg \<longleftrightarrow> is_map reg \<and> all_entries (\<lambda>k b. breaker_inv b \<and> b_name b = k) reg"

lemma b_name_fresh [simp]: "b_name (fresh_breaker k opts) = k"
  by (simp add: fresh_breaker_def)

lemma registry_inv_for_key:
  "registry_inv reg \<Longrightarrow> registry_inv (snd (breaker_for_key reg p h opts))"
  by (auto simp: registry_inv_def breaker_for_key_def Let_def breaker_inv_fresh split: option.splits)

lemma breaker_for_key_inv:
  "registry_inv reg \<Longrightarrow> breaker_inv (fst (breaker_for_key reg p h opts))"
  by (auto simp: registry_inv_def breaker_for_key_def Let_def breaker_inv_fresh
      dest: all_entriesD split: option.splits)

section \<open>Properties\<close>

text \<open>Whatever sequence of admission tests, successes, failures and resets a fresh breaker
  goes through, its counters stay non-negative and agree with its state: a CLOSED breaker is
  below the degradation threshold, a DEGRADED one between the two thresholds, an OPEN one has no
  probe slots, a HALF_OPEN one has fewer slots left than it was given.\<close>
theorem breaker_always_well_formed:
  "breaker_inv (fold exec_breaker ops (fresh_breaker key opts))"
  by (rule breaker_run.inv_run[OF breaker_inv_fresh])

text \<open>The state of a fresh breaker after any number of consecutive failures is decided by the
  two thresholds alone: it opens exactly when the failure threshold is reached, and before that
  it is degraded exactly from three fifths of it on.\<close>
theorem consecutive_failures_state:
  "b_state (fold (\<lambda>t b. record_failure b t) ts (fresh_breaker key opts)) =
     (if failure_threshold (with_defaults opts) \<le> int (length ts) then Open
      else if max 1 (3 * failure_threshold (with_defaults opts) div 5) \<le> int (length ts) then Degraded
      else Closed)"
proof -
  let ?b = "fresh_breaker key opts"
  have "opts_ok (with_defaults opts)" by simp
  then have "degradation_threshold ?b = max 1 (3 * failure_threshold (with_defaults opts) div 5)"
    by (simp add: degradation_threshold_def fresh_breaker_def opts_ok_def Let_def max_def mult.commute)
  then show ?thesis
    using failures_inv_state[OF breaker_inv_fresh, of key opts ts] by (simp add: fresh_breaker_def)
qed

text \<open>An OPEN breaker refuses at every instant before the one its retry hint names and admits
  from then on; the hint is zero exactly when the next request would be admitted.\<close>
theorem open_admits_after_retry_hint:
  assumes "b_state b = Open"
  shows "(retry_after b now = 0 \<longleftrightarrow> fst (allow b now)) \<and>
    fst (allow b (now + retry_after b now)) \<and>
    (\<forall>t. now \<le> t \<and> t < now + retry_after b now \<longrightarrow> \<not> fst (allow b t))"
  using assms by (auto simp: allow_open retry_after_open)

lemma open_admits_after_retry_hint_witness:
  "let b = record_failure (fresh_breaker ''p'' \<lparr>failure_threshold = 1, reset_timeout = 10,
             half_open_requests = 1, max_backoff_multiplier = 4, backoff_escalation_count = 3\<rparr>) 100
   in b_state b = Open \<and> retry_after b 103 = 7 \<and> fst (allow b (103 + retry_after b 103))"
proof -
  let ?b = "record_failure (fresh_breaker ''p'' \<lparr>failure_threshold = 1, reset_timeout = 10,
             half_open_requests = 1, max_backoff_multiplier = 4, backoff_escalation_count = 3\<rparr>) 100"
  have "b_state ?b = Open" "retry_after ?b 103 = 7" by code_simp+
  then show ?thesis using open_admits_after_retry_hint[of ?b 103] by simp
qed

text \<open>C38: While a breaker is recovering, at most \<open>half_open_requests\<close> probes get through in any
  window no longer than its current timeout, however often the admission test is asked and
  whatever probes were still open when the window began.\<close>
theorem probe_budget:
  assumes "breaker_inv b" "b_state b = Open \<or> b_state b = HalfOpen"
    and "\<forall>t\<in>set ts. t0 \<le> t \<and> t < t0 + T" "T \<le> effective_timeout b"
  shows "int (length (filter id (run_allows b ts))) \<le> half_open_requests (b_opts b)"
proof -
  have "probe_credit t0 b \<le> half_open_requests (b_opts b)"
    using assms(1,2) by (auto simp: probe_credit_def breaker_inv_def opts_ok_def)
  then show ?thesis using run_allows_credit[OF assms] by linarith
qed

lemma probe_budget_witness:
  "let b = record_failure (fresh_breaker ''p'' \<lparr>failure_threshold = 1, reset_timeout = 10,
             half_open_requests = 2, max_backoff_multiplier = 4, backoff_escalation_count = 3\<rparr>) 100
   in run_allows b [111, 112, 113, 114] = [True, True, False, False] \<and>
      int (length (filter id (run_allows b [111, 112, 113, 114]))) \<le> 2"
proof -
  let ?o = "\<lparr>failure_threshold = 1, reset_timeout = 10, half_open_requests = 2,
             max_backoff_multiplier = 4, backoff_escalation_count = 3\<rparr> :: breaker_options"
  let ?b = "record_failure (fresh_breaker ''p'' ?o) 100"
  have "b_state ?b = Open" "effective_timeout ?b = 10" "half_open_requests (b_opts ?b) = 2"
    "run_allows ?b [111, 112, 113, 114] = [True, True, False, False]" by code_simp+
  moreover have "breaker_inv ?b" by (rule breaker_inv_failure[OF breaker_inv_fresh])
  ultimately show ?thesis using probe_budget[of ?b "[111, 112, 113, 114]" 111 10] by simp
qed

text \<open>A half-open breaker whose probes never report back does not refuse for ever: the first
  test after its timeout reopens it, and from the longest possible back-off after that test it
  admits again.\<close>
theorem stalled_half_open_recovers:
  assumes "breaker_inv b" "b_state b = HalfOpen" "b_remaining b = 0"
    and "b_half_open_at b + effective_timeout b \<le> now"
    and "now + \<lfloor>of_int (reset_timeout (b_opts b)) * max_backoff_multiplier (b_opts b)\<rfloor> \<le> t"
  shows "fst (allow (snd (allow b now)) t)"
proof -
  let ?b = "snd (allow b now)"
  have b: "b_state ?b = Open" "b_opened_at ?b = now" "b_opts ?b = b_opts b"
      "b_probe_cycles ?b = b_probe_cycles b + 1"
    using assms(2-4) by (simp_all add: allow_def Let_def)
  have ok: "opts_ok (b_opts b)" "0 \<le> b_probe_cycles b" using assms(1) by (auto simp: breaker_inv_def)
  have "effective_timeout ?b \<le> \<lfloor>of_int (reset_timeout (b_opts b)) * max_backoff_multiplier (b_opts b)\<rfloor>"
    using ok b by (simp add: effective_timeout_eq opts_ok_def) (intro floor_mono mult_left_mono, auto)
  then show ?thesis using b assms(5) by (simp add: allow_open)
qed

lemma stalled_half_open_recovers_witness:
  "let o' = \<lparr>failure_threshold = 1, reset_timeout = 10, half_open_requests = 1,
             max_backoff_multiplier = 4, backoff_escalation_count = 3\<rparr>;
       b = snd (allow (record_failure (fresh_breaker ''p'' o') 100) 111)
   in b_state b = HalfOpen \<and> \<not> fst (allow b 121) \<and> fst (allow (snd (allow b 121)) 161)"
proof -
  let ?o = "\<lparr>failure_threshold = 1, reset_timeout = 10, half_open_requests = 1,
             max_backoff_multiplier = 4, backoff_escalation_count = 3\<rparr> :: breaker_options"
  let ?b = "snd (allow (record_failure (fresh_breaker ''p'' ?o) 100) 111)"
  have "b_state ?b = HalfOpen" "b_remaining ?b = 0" "b_half_open_at ?b + effective_timeout ?b \<le> 121"
    "121 + \<lfloor>of_int (reset_timeout (b_opts ?b)) * max_backoff_multiplier (b_opts ?b)\<rfloor> \<le> 161"
    "\<not> fst (allow ?b 121)" by code_simp+
  moreover have "breaker_inv ?b"
    by (rule breaker_inv_allow[OF breaker_inv_failure[OF breaker_inv_fresh]])
  ultimately show ?thesis using stalled_half_open_recovers[of ?b 121 161] by simp
qed

end
