(* ===== verification/Semaphore.thy ===== *)
theory Semaphore
  imports RouterPrelude
begin

text \<open>
  The per-account FIFO semaphore, \<open>internal/resilience/semaphore.go\<close>. A gate is a heap
  object; the registry maps a key to the address of its gate, so that a caller that still
  holds a pointer to a gate that has left the registry is visible in the model. Every
  definition of the first section is one critical section of the code (or one call, when
  the call is a single critical section); the step relation of the second section
  interleaves these sections over any number of goroutines.
\<close>

section \<open>Gates\<close>

record gate =
  g_running :: int
  g_max :: int
  g_queue :: "nat list"
  g_blocked_until :: instant

record sem_options =
  so_max_concurrency :: int
  so_timeout :: duration
  so_max_queue_size :: int

definition default_max_concurrency :: int where
  "default_max_concurrency = 3"

definition default_sem_timeout :: duration where
  "default_sem_timeout = 30 * second"

definition default_max_queue_size :: int where
  "default_max_queue_size = 20"

definition semaphore_key :: "string \<Rightarrow> string \<Rightarrow> string \<Rightarrow> string" where
  "semaphore_key provider account_key proxy_hash =
     (let h = (if proxy_hash = [] then ''direct'' else proxy_hash)
      in provider @ '':'' @ account_key @ '':'' @ h)"

text \<open>The defaults \<open>Acquire\<close> fills in once the cap is known to be positive.\<close>

definition sem_defaults :: "sem_options \<Rightarrow> sem_options" where
  "sem_defaults o' = o'\<lparr>
     so_timeout := (if so_timeout o' \<le> 0 then default_sem_timeout else so_timeout o'),
     so_max_queue_size :=
       (if so_max_queue_size o' \<le> 0 then default_max_queue_size else so_max_queue_size o')\<rparr>"

definition gate_blocked :: "instant \<Rightarrow> gate \<Rightarrow> bool" where
  "gate_blocked now g \<longleftrightarrow> g_blocked_until g \<noteq> 0 \<and> now < g_blocked_until g"

definition gate_idle :: "instant \<Rightarrow> gate \<Rightarrow> bool" where
  "gate_idle now g \<longleftrightarrow> g_running g = 0 \<and> g_queue g = []
     \<and> (g_blocked_until g = 0 \<or> g_blocked_until g < now)"

datatype admit_result = Granted | QueueFull | Parked

text \<open>
  The section of \<open>Acquire\<close> under the gate's lock: fast path, full queue, or enqueue of
  the waiter \<open>w\<close>.
\<close>

definition gate_enter :: "instant \<Rightarrow> int \<Rightarrow> nat \<Rightarrow> gate \<Rightarrow> admit_result \<times> gate" where
  "gate_enter now max_queue w g =
     (if \<not> gate_blocked now g \<and> g_running g < g_max g
      then (Granted, g\<lparr>g_running := g_running g + 1\<rparr>)
      else if int (length (g_queue g)) \<ge> max_queue then (QueueFull, g)
      else (Parked, g\<lparr>g_queue := g_queue g @ [w]\<rparr>))"

text \<open>\<open>removeWaiter\<close>: takes the waiter out of the queue and says whether it was there.\<close>

primrec remove_from :: "nat \<Rightarrow> nat list \<Rightarrow> bool \<times> nat list" where
  "remove_from w [] = (False, [])"
| "remove_from w (x # xs) =
     (if x = w then (True, xs) else (case remove_from w xs of (b, ys) \<Rightarrow> (b, x # ys)))"

definition remove_waiter :: "nat \<Rightarrow> gate \<Rightarrow> bool \<times> gate" where
  "remove_waiter w g = (case remove_from w (g_queue g) of (b, q) \<Rightarrow> (b, g\<lparr>g_queue := q\<rparr>))"

text \<open>One iteration of the loop of \<open>drain\<close>: the waiter that is handed a slot, if any.\<close>

definition drain_step :: "instant \<Rightarrow> gate \<Rightarrow> (nat \<times> gate) option" where
  "drain_step now g =
     (case g_queue g of
        [] \<Rightarrow> None
      | w # q \<Rightarrow>
          (if g_running g \<ge> g_max g then None
           else if gate_blocked now g then None
           else Some (w, g\<lparr>g_queue := q, g_running := g_running g + 1\<rparr>)))"

lemma drain_step_queue:
  "drain_step now g = Some (w, g') \<Longrightarrow> length (g_queue g') < length (g_queue g)"
  by (auto simp: drain_step_def split: list.splits if_splits)

text \<open>The whole loop, when no other goroutine enters the gate in between.\<close>

function drain :: "instant \<Rightarrow> gate \<Rightarrow> nat list \<times> gate" where
  "drain now g =
     (case drain_step now g of
        None \<Rightarrow> ([], g)
      | Some (w, g') \<Rightarrow> (case drain now g' of (ws, g'') \<Rightarrow> (w # ws, g'')))"
  by pat_completeness auto
termination
  by (relation "measure (\<lambda>(now, g). length (g_queue g))") (auto dest: drain_step_queue)

declare drain.simps [simp del]

definition gate_release :: "gate \<Rightarrow> gate" where
  "gate_release g = g\<lparr>g_running := g_running g - 1\<rparr>"

text \<open>The section of \<open>Block\<close> under the gate's lock.\<close>

definition gate_block :: "instant \<Rightarrow> gate \<Rightarrow> gate" where
  "gate_block until g = (if g_blocked_until g < until then g\<lparr>g_blocked_until := until\<rparr> else g)"

section \<open>The registry of gates\<close>

record sem_store =
  ss_reg :: "(string \<times> nat) list"
  ss_heap :: "nat \<Rightarrow> gate option"
  ss_next :: nat

definition empty_store :: sem_store where
  "empty_store = \<lparr>ss_reg = [], ss_heap = (\<lambda>_. None), ss_next = 0\<rparr>"

definition fresh_gate :: "int \<Rightarrow> gate" where
  "fresh_gate mx = \<lparr>g_running = 0, g_max = mx, g_queue = [], g_blocked_until = 0\<rparr>"

definition upd_gate :: "nat \<Rightarrow> gate \<Rightarrow> sem_store \<Rightarrow> sem_store" where
  "upd_gate a g st = st\<lparr>ss_heap := (ss_heap st)(a \<mapsto> g)\<rparr>"

definition gate_for :: "string \<Rightarrow> int \<Rightarrow> sem_store \<Rightarrow> nat \<times> sem_store" where
  "gate_for key mx st =
     (case map_of (ss_reg st) key of
        Some a \<Rightarrow>
          (case ss_heap st a of
             Some g \<Rightarrow> (a, upd_gate a (g\<lparr>g_max := mx\<rparr>) st)
           | None \<Rightarrow> (a, st))
      | None \<Rightarrow>
          (let a = ss_next st
           in (a, st\<lparr>ss_reg := AList.update key a (ss_reg st),
                     ss_heap := (ss_heap st)(a \<mapsto> fresh_gate mx), ss_next := a + 1\<rparr>)))"

text \<open>\<open>cleanupGate\<close>: the unlocked pre-check, then the re-check under the registry lock.\<close>

definition cleanup_check :: "nat \<Rightarrow> instant \<Rightarrow> sem_store \<Rightarrow> bool" where
  "cleanup_check a now st = (case ss_heap st a of None \<Rightarrow> False | Some g \<Rightarrow> gate_idle now g)"

definition cleanup_delete :: "string \<Rightarrow> nat \<Rightarrow> instant \<Rightarrow> sem_store \<Rightarrow> sem_store" where
  "cleanup_delete key a now st =
     (if cleanup_check a now st \<and> map_of (ss_reg st) key = Some a
      then st\<lparr>ss_reg := AList.delete key (ss_reg st)\<rparr> else st)"

definition cleanup_gate :: "string \<Rightarrow> nat \<Rightarrow> instant \<Rightarrow> sem_store \<Rightarrow> sem_store" where
  "cleanup_gate key a now st =
     (if \<not> cleanup_check a now st then st else cleanup_delete key a now st)"

section \<open>Whole calls, run without interference\<close>

datatype sem_error = ErrQueueFull | ErrTimedOut | ErrContext

datatype lease = NoLimit | Lease string nat

text \<open>
  What ends the wait of a parked request: a slot, the timer, or the caller's context.
\<close>

datatype wake = WakeReady | WakeTimer | WakeContext

text \<open>
  \<open>Acquire\<close> up to the moment it returns or parks. \<open>Inr (Inl l)\<close> is the fast path,
  \<open>Inr (Inr a)\<close> a request parked on the gate \<open>a\<close>.
\<close>

definition acquire_begin ::
  "string \<Rightarrow> sem_options \<Rightarrow> instant \<Rightarrow> nat \<Rightarrow> sem_store \<Rightarrow> (sem_error + (lease + nat)) \<times> sem_store" where
  "acquire_begin key opts now w st =
     (if so_max_concurrency opts \<le> 0 then (Inr (Inl NoLimit), st)
      else (let opts = sem_defaults opts;
                (a, st) = gate_for key (so_max_concurrency opts) st
            in case ss_heap st a of
                 None \<Rightarrow> (Inl ErrQueueFull, st)
               | Some g \<Rightarrow>
                   (case gate_enter now (so_max_queue_size opts) w g of
                      (Granted, g') \<Rightarrow> (Inr (Inl (Lease key a)), upd_gate a g' st)
                    | (QueueFull, g') \<Rightarrow> (Inl ErrQueueFull, st)
                    | (Parked, g') \<Rightarrow> (Inr (Inr a), upd_gate a g' st))))"

text \<open>
  The \<open>select\<close> a parked request waits in. When the timer or the context fires while the
  waiter is no longer queued, the slot was granted in the same instant and is honoured.
\<close>

definition acquire_wake ::
  "string \<Rightarrow> nat \<Rightarrow> nat \<Rightarrow> wake \<Rightarrow> sem_store \<Rightarrow> (sem_error + lease) \<times> sem_store" where
  "acquire_wake key a w ev st =
     (case ss_heap st a of
        None \<Rightarrow> (Inr (Lease key a), st)
      | Some g \<Rightarrow>
          (case ev of
             WakeReady \<Rightarrow> (Inr (Lease key a), st)
           | WakeTimer \<Rightarrow>
               (case remove_waiter w g of
                  (True, g') \<Rightarrow> (Inl ErrTimedOut, upd_gate a g' st)
                | (False, _) \<Rightarrow> (Inr (Lease key a), st))
           | WakeContext \<Rightarrow>
               (case remove_waiter w g of
                  (True, g') \<Rightarrow> (Inl ErrContext, upd_gate a g' st)
                | (False, _) \<Rightarrow> (Inr (Lease key a), st))))"

text \<open>The release function of \<open>makeRelease\<close>: the slot, then the queue, then the registry.\<close>

definition release_lease :: "lease \<Rightarrow> instant \<Rightarrow> sem_store \<Rightarrow> nat list \<times> sem_store" where
  "release_lease l now st =
     (case l of
        NoLimit \<Rightarrow> ([], st)
      | Lease key a \<Rightarrow>
          (case ss_heap st a of
             None \<Rightarrow> ([], st)
           | Some g \<Rightarrow>
               (case drain now (gate_release g) of
                  (ws, g') \<Rightarrow> (ws, cleanup_gate key a now (upd_gate a g' st)))))"

text \<open>\<open>Block\<close>, without the timer goroutine it starts; that goroutine is \<open>block_expire\<close>.\<close>

definition block_account :: "string \<Rightarrow> duration \<Rightarrow> instant \<Rightarrow> sem_store \<Rightarrow> sem_store" where
  "block_account key d now st =
     (if d \<le> 0 then st
      else (case gate_for key default_max_concurrency st of
              (a, st) \<Rightarrow>
                (case ss_heap st a of
                   None \<Rightarrow> st
                 | Some g \<Rightarrow> upd_gate a (gate_block (now + d) g) st)))"

definition block_expire :: "string \<Rightarrow> nat \<Rightarrow> instant \<Rightarrow> sem_store \<Rightarrow> nat list \<times> sem_store" where
  "block_expire key a now st =
     (case ss_heap st a of
        None \<Rightarrow> ([], st)
      | Some g \<Rightarrow> (case drain now g of (ws, g') \<Rightarrow> (ws, cleanup_gate key a now (upd_gate a g' st))))"

record sem_stat =
  st_key :: string
  st_running :: int
  st_queued :: int
  st_max :: int
  st_blocked_until :: "instant option"

definition semaphore_stats :: "instant \<Rightarrow> sem_store \<Rightarrow> sem_stat list" where
  "semaphore_stats now st =
     List.maps (\<lambda>(k, a). case ss_heap st a of
         None \<Rightarrow> []
       | Some g \<Rightarrow> [\<lparr>st_key = k, st_running = g_running g, st_queued = int (length (g_queue g)),
                      st_max = g_max g,
                      st_blocked_until = (if gate_blocked now g then Some (g_blocked_until g) else None)\<rparr>])
       (ss_reg st)"

definition reset_semaphores :: "sem_store \<Rightarrow> sem_store" where
  "reset_semaphores st = st\<lparr>ss_reg := []\<rparr>"

section \<open>Goroutines\<close>

text \<open>
  Where a goroutine stands between two critical sections: in \<open>Acquire\<close>, in the release
  function, or in the goroutine that \<open>Block\<close> starts.
\<close>

datatype pc =
    Idle
  | Entering string nat sem_options
  | Waiting string nat
  | Holding string nat
  | Draining string nat
  | Checking string nat
  | Cleaning string nat
  | Blocking string nat instant
  | Sleeping string nat instant
  | Finished

record sem_sys =
  sy_store :: sem_store
  sy_pc :: "nat \<Rightarrow> pc"
  sy_now :: instant

definition init_sys :: sem_sys where
  "init_sys = \<lparr>sy_store = empty_store, sy_pc = (\<lambda>_. Idle), sy_now = 1\<rparr>"

abbreviation sys_gate :: "sem_sys \<Rightarrow> nat \<Rightarrow> gate option" where
  "sys_gate s a \<equiv> ss_heap (sy_store s) a"

definition move :: "nat \<Rightarrow> pc \<Rightarrow> sem_store \<Rightarrow> sem_sys \<Rightarrow> sem_sys" where
  "move i p st s = s\<lparr>sy_pc := (sy_pc s)(i := p), sy_store := st\<rparr>"

text \<open>\<open>M\<close> is the concurrency cap every \<open>Acquire\<close> is called with.\<close>

inductive sem_step :: "int \<Rightarrow> sem_sys \<Rightarrow> sem_sys \<Rightarrow> bool" for M where
  tick: "sy_now s \<le> t \<Longrightarrow> sem_step M s (s\<lparr>sy_now := t\<rparr>)"
| call: "sy_pc s i = Idle \<Longrightarrow> 0 < so_max_concurrency opts \<Longrightarrow> so_max_concurrency opts = M \<Longrightarrow>
     gate_for key M (sy_store s) = (a, st) \<Longrightarrow>
     sem_step M s (move i (Entering key a (sem_defaults opts)) st s)"
| enter_granted: "sy_pc s i = Entering key a opts \<Longrightarrow> sys_gate s a = Some g \<Longrightarrow>
     gate_enter (sy_now s) (so_max_queue_size opts) i g = (Granted, g') \<Longrightarrow>
     sem_step M s (move i (Holding key a) (upd_gate a g' (sy_store s)) s)"
| enter_full: "sy_pc s i = Entering key a opts \<Longrightarrow> sys_gate s a = Some g \<Longrightarrow>
     gate_enter (sy_now s) (so_max_queue_size opts) i g = (QueueFull, g') \<Longrightarrow>
     sem_step M s (move i Finished (sy_store s) s)"
| enter_parked: "sy_pc s i = Entering key a opts \<Longrightarrow> sys_gate s a = Some g \<Longrightarrow>
     gate_enter (sy_now s) (so_max_queue_size opts) i g = (Parked, g') \<Longrightarrow>
     sem_step M s (move i (Waiting key a) (upd_gate a g' (sy_store s)) s)"
| give_up: "sy_pc s i = Waiting key a \<Longrightarrow> sys_gate s a = Some g \<Longrightarrow>
     remove_waiter i g = (True, g') \<Longrightarrow>
     sem_step M s (move i Finished (upd_gate a g' (sy_store s)) s)"
| release: "sy_pc s i = Holding key a \<Longrightarrow> sys_gate s a = Some g \<Longrightarrow>
     sem_step M s (move i (Draining key a) (upd_gate a (gate_release g) (sy_store s)) s)"
| drain_grant: "sy_pc s i = Draining key a \<Longrightarrow> sys_gate s a = Some g \<Longrightarrow>
     drain_step (sy_now s) g = Some (w, g') \<Longrightarrow>
     sem_step M s (move w (Holding key a) (upd_gate a g' (sy_store s)) s)"
| drain_stop: "sy_pc s i = Draining key a \<Longrightarrow> sys_gate s a = Some g \<Longrightarrow>
     drain_step (sy_now s) g = None \<Longrightarrow>
     sem_step M s (move i (Checking key a) (sy_store s) s)"
| check: "sy_pc s i = Checking key a \<Longrightarrow>
     sem_step M s (move i (if cleanup_check a (sy_now s) (sy_store s) then Cleaning key a
                           else Finished) (sy_store s) s)"
| clean: "sy_pc s i = Cleaning key a \<Longrightarrow>
     sem_step M s (move i Finished (cleanup_delete key a (sy_now s) (sy_store s)) s)"
| block: "sy_pc s i = Idle \<Longrightarrow> 0 < d \<Longrightarrow>
     gate_for key default_max_concurrency (sy_store s) = (a, st) \<Longrightarrow>
     sem_step M s (move i (Blocking key a (sy_now s + d)) st s)"
| block_set: "sy_pc s i = Blocking key a until \<Longrightarrow> sys_gate s a = Some g \<Longrightarrow>
     sem_step M s (move i (Sleeping key a until) (upd_gate a (gate_block until g) (sy_store s)) s)"
| block_wake: "sy_pc s i = Sleeping key a until \<Longrightarrow> until \<le> sy_now s \<Longrightarrow>
     sem_step M s (move i (Draining key a) (sy_store s) s)"

inductive sem_reachable :: "int \<Rightarrow> sem_sys \<Rightarrow> bool" for M where
  start: "sem_reachable M init_sys"
| next_step: "sem_reachable M s \<Longrightarrow> sem_step M s t \<Longrightarrow> sem_reachable M t"

section \<open>The queue of one gate\<close>

lemma remove_from_eq:
  "remove_from w q = (w \<in> set q, remove1 w q)"
  by (induction q) auto

lemma remove_waiter_eq:
  "remove_waiter w g = (w \<in> set (g_queue g), g\<lparr>g_queue := remove1 w (g_queue g)\<rparr>)"
  by (simp add: remove_waiter_def remove_from_eq)

text \<open>How many waiters a drain can serve at one instant.\<close>

definition drain_count :: "instant \<Rightarrow> gate \<Rightarrow> nat" where
  "drain_count now g =
     (if gate_blocked now g then 0 else min (length (g_queue g)) (nat (g_max g - g_running g)))"

lemma gate_blocked_cong [simp]:
  "gate_blocked now (g\<lparr>g_queue := q\<rparr>) = gate_blocked now g"
  "gate_blocked now (g\<lparr>g_running := r\<rparr>) = gate_blocked now g"
  by (simp_all add: gate_blocked_def)

lemma drain_eq:
  "drain now g = (take (drain_count now g) (g_queue g),
     g\<lparr>g_queue := drop (drain_count now g) (g_queue g),
       g_running := g_running g + int (drain_count now g)\<rparr>)"
proof (induction now g rule: drain.induct)
  case (1 now g)
  show ?case
  proof (cases "drain_step now g")
    case None
    then have "drain_count now g = 0"
      by (auto simp: drain_step_def drain_count_def split: list.splits if_splits)
    with None show ?thesis by (simp add: drain.simps[of now g])
  next
    case (Some p)
    then obtain w g' q where p: "p = (w, g')" and g': "g_queue g = w # q"
        "g_running g < g_max g" "\<not> gate_blocked now g"
        "g' = g\<lparr>g_queue := q, g_running := g_running g + 1\<rparr>"
      by (auto simp: drain_step_def split: list.splits if_splits)
    have c: "drain_count now g = Suc (drain_count now g')"
      using g' by (auto simp: drain_count_def)
    show ?thesis
      using "1.IH"[OF Some p[symmetric]] Some g' c by (simp add: drain.simps[of now g] p)
  qed
qed

section \<open>Accounting of the interleaved system\<close>

definition holders :: "sem_sys \<Rightarrow> nat \<Rightarrow> nat set" where
  "holders s a = {i. \<exists>k. sy_pc s i = Holding k a}"

definition key_holders :: "sem_sys \<Rightarrow> string \<Rightarrow> nat set" where
  "key_holders s k = {i. \<exists>a. sy_pc s i = Holding k a}"

fun pc_addr :: "pc \<Rightarrow> nat option" where
  "pc_addr (Entering k a _) = Some a"
| "pc_addr (Waiting k a) = Some a"
| "pc_addr (Holding k a) = Some a"
| "pc_addr (Draining k a) = Some a"
| "pc_addr (Checking k a) = Some a"
| "pc_addr (Cleaning k a) = Some a"
| "pc_addr (Blocking k a _) = Some a"
| "pc_addr (Sleeping k a _) = Some a"
| "pc_addr _ = None"

definition gate_ok :: "int \<Rightarrow> sem_sys \<Rightarrow> nat \<Rightarrow> gate \<Rightarrow> bool" where
  "gate_ok B s a g \<longleftrightarrow> g_running g = int (card (holders s a)) \<and> g_running g \<le> B
     \<and> g_max g \<le> B \<and> distinct (g_queue g)
     \<and> (\<forall>w. w \<in> set (g_queue g) \<longleftrightarrow> (\<exists>k. sy_pc s w = Waiting k a))"

definition store_ok :: "sem_store \<Rightarrow> bool" where
  "store_ok st \<longleftrightarrow> (\<forall>a. ss_heap st a \<noteq> None \<longrightarrow> a < ss_next st)
     \<and> all_entries (\<lambda>k a. ss_heap st a \<noteq> None) (ss_reg st)"

definition sem_inv :: "int \<Rightarrow> sem_sys \<Rightarrow> bool" where
  "sem_inv B s \<longleftrightarrow> finite {i. sy_pc s i \<noteq> Idle} \<and> store_ok (sy_store s)
     \<and> (\<forall>i a. pc_addr (sy_pc s i) = Some a \<longrightarrow> sys_gate s a \<noteq> None)
     \<and> (\<forall>a g. sys_gate s a = Some g \<longrightarrow> gate_ok B s a g)"

lemma holders_move:
  "holders (move i p st s) a =
     (if \<exists>k. p = Holding k a then insert i (holders s a) else holders s a - {i})"
  by (auto simp: holders_def move_def)

lemma finite_holders: "sem_inv B s \<Longrightarrow> finite (holders s a)"
  by (rule finite_subset[of _ "{i. sy_pc s i \<noteq> Idle}"]) (auto simp: holders_def sem_inv_def)

lemma sys_gate_move [simp]:
  "sys_gate (move i p st s) = ss_heap st" "sy_pc (move i p st s) = (sy_pc s)(i := p)"
  "sy_store (move i p st s) = st"
  by (simp_all add: move_def)

lemma heap_upd_gate [simp]:
  "ss_heap (upd_gate a g st) = (ss_heap st)(a \<mapsto> g)" "ss_reg (upd_gate a g st) = ss_reg st"
  "ss_next (upd_gate a g st) = ss_next st"
  by (simp_all add: upd_gate_def)

lemma store_ok_upd_gate [simp]:
  "store_ok st \<Longrightarrow> ss_heap st a \<noteq> None \<Longrightarrow> store_ok (upd_gate a g st)"
  by (auto simp: store_ok_def all_entries_def)

lemma sem_invD:
  assumes "sem_inv B s"
  shows "finite {i. sy_pc s i \<noteq> Idle}" "store_ok (sy_store s)"
    "pc_addr (sy_pc s i) = Some a \<Longrightarrow> sys_gate s a \<noteq> None"
    "sys_gate s a = Some g \<Longrightarrow> gate_ok B s a g"
  using assms unfolding sem_inv_def by blast+

text \<open>
  One goroutine moves, at one gate: the other gates see neither a holder nor a waiter
  come or go, so only the gate it moves at has to be checked again.
\<close>

lemma sem_inv_move:
  assumes inv: "sem_inv B s"
    and st: "store_ok st" "\<And>b. b \<noteq> a \<Longrightarrow> ss_heap st b = sys_gate s b"
    and old: "pc_addr (sy_pc s i) = None \<or> pc_addr (sy_pc s i) = Some a"
    and new: "pc_addr p = None \<or> pc_addr p = Some a"
    and g: "ss_heap st a = Some g" "gate_ok B (move i p st s) a g"
  shows "sem_inv B (move i p st s)"
  unfolding sem_inv_def
proof (intro conjI allI impI)
  show "finite {j. sy_pc (move i p st s) j \<noteq> Idle}"
    by (rule finite_subset[of _ "insert i {j. sy_pc s j \<noteq> Idle}"])
       (use sem_invD(1)[OF inv] in auto)
  show "store_ok (sy_store (move i p st s))" using st(1) by simp
next
  fix j b assume j: "pc_addr (sy_pc (move i p st s) j) = Some b"
  show "sys_gate (move i p st s) b \<noteq> None"
  proof (cases "b = a")
    case True
    then show ?thesis using g(1) by simp
  next
    case False
    with j new have "pc_addr (sy_pc s j) = Some b" by (cases "j = i") auto
    then show ?thesis using sem_invD(3)[OF inv] st(2)[OF False] by simp
  qed
next
  fix b h assume h: "sys_gate (move i p st s) b = Some h"
  show "gate_ok B (move i p st s) b h"
  proof (cases "b = a")
    case True
    then show ?thesis using g h by simp
  next
    case False
    with h st(2) have ok: "gate_ok B s b h" using sem_invD(4)[OF inv] by simp
    have pb: "sy_pc s i \<noteq> Holding k b" "sy_pc s i \<noteq> Waiting k b" "p \<noteq> Holding k b" "p \<noteq> Waiting k b"
      for k using old new False by auto
    then have "holders (move i p st s) b = holders s b"
      unfolding holders_move by (auto simp: holders_def)
    moreover have "(\<exists>k. sy_pc (move i p st s) w = Waiting k b) = (\<exists>k. sy_pc s w = Waiting k b)" for w
      using pb by simp
    ultimately show ?thesis using ok by (simp add: gate_ok_def)
  qed
qed

lemma gate_for_cases:
  assumes "gate_for key mx st = (a, st')" "store_ok st"
  obtains (old) g where "map_of (ss_reg st) key = Some a" "ss_heap st a = Some g"
      "st' = upd_gate a (g\<lparr>g_max := mx\<rparr>) st"
    | (fresh) "map_of (ss_reg st) key = None" "a = ss_next st" "ss_heap st a = None"
      "ss_heap st' = (ss_heap st)(a \<mapsto> fresh_gate mx)"
      "ss_reg st' = AList.update key a (ss_reg st)" "ss_next st' = a + 1"
proof (cases "map_of (ss_reg st) key")
  case None
  moreover have "ss_heap st (ss_next st) = None"
    using assms(2) by (auto simp: store_ok_def)
  ultimately show ?thesis using assms(1) fresh by (auto simp: gate_for_def Let_def)
next
  case (Some b)
  then obtain g where "ss_heap st b = Some g"
    using assms(2) all_entriesD[of _ "ss_reg st" key b] by (fastforce simp: store_ok_def)
  then show ?thesis using assms(1) Some old by (auto simp: gate_for_def)
qed

lemma sem_inv_gate_for:
  assumes inv: "sem_inv B s" and mx: "mx \<le> B" "0 \<le> B"
    and gf: "gate_for key mx (sy_store s) = (a, st)"
    and i: "sy_pc s i = Idle" and p: "pc_addr p = Some a" "\<nexists>k. p = Holding k a" "\<nexists>k. p = Waiting k a"
  shows "sem_inv B (move i p st s)"
  using gf sem_invD(2)[OF inv]
proof (cases rule: gate_for_cases)
  case (old g)
  have "i \<notin> holders s a" using i by (simp add: holders_def)
  moreover have "gate_ok B s a g" using sem_invD(4)[OF inv] old by simp
  ultimately have "gate_ok B (move i p st s) a (g\<lparr>g_max := mx\<rparr>)"
    using p i mx by (auto simp: gate_ok_def holders_move)
  with old inv i p sem_invD(2)[OF inv] show ?thesis
    by (intro sem_inv_move[where a = a]) auto
next
  case fresh
  have w: "sy_pc s j \<noteq> Waiting k a" "sy_pc s j \<noteq> Holding k a" for j k
    using sem_invD(3)[OF inv, of j a] fresh by auto
  then have "holders s a = {}" by (simp add: holders_def)
  then have "gate_ok B (move i p st s) a (fresh_gate mx)"
    using p mx w by (auto simp: gate_ok_def holders_move fresh_gate_def)
  moreover have "store_ok st" using sem_invD(2)[OF inv] fresh
    by (auto simp: store_ok_def all_entries_def less_SucI dest!: in_set_updateD)
  ultimately show ?thesis using fresh inv i p by (intro sem_inv_move[where a = a]) auto
qed

lemma sem_inv_same_gate:
  assumes "sem_inv B s" "pc_addr (sy_pc s i) = Some a" "pc_addr p = None \<or> pc_addr p = Some a"
    and "\<forall>k. sy_pc s i \<noteq> Holding k a \<and> sy_pc s i \<noteq> Waiting k a \<and> p \<noteq> Holding k a \<and> p \<noteq> Waiting k a"
    and "store_ok st" "ss_heap st = sys_gate s"
  shows "sem_inv B (move i p st s)"
proof -
  obtain g where g: "sys_gate s a = Some g" using sem_invD(3)[OF assms(1,2)] by auto
  have "i \<notin> holders s a" using assms(4) by (simp add: holders_def)
  then have "gate_ok B (move i p st s) a g"
    using sem_invD(4)[OF assms(1) g] assms(4) by (auto simp: gate_ok_def holders_move)
  then show ?thesis using assms g by (intro sem_inv_move[where a = a]) auto
qed

lemma sem_inv_at_gate:
  assumes "sem_inv B s" "pc_addr (sy_pc s i) = Some a" "pc_addr p = None \<or> pc_addr p = Some a"
    and "sys_gate s a = Some g" "gate_ok B (move i p (upd_gate a g' (sy_store s)) s) a g'"
  shows "sem_inv B (move i p (upd_gate a g' (sy_store s)) s)"
  using assms sem_invD(2)[OF assms(1)] by (intro sem_inv_move[where a = a]) auto

lemma gate_ok_enter:
  assumes inv: "sem_inv B s" and pc: "sy_pc s i = Entering key a opts" and g: "sys_gate s a = Some g"
  shows "gate_enter now mq i g = (Granted, g') \<Longrightarrow> gate_ok B (move i (Holding key a) st s) a g'"
    and "gate_enter now mq i g = (Parked, g') \<Longrightarrow> gate_ok B (move i (Waiting key a) st s) a g'"
proof -
  have ok: "gate_ok B s a g" using sem_invD(4)[OF inv g] .
  have i: "i \<notin> holders s a" using pc by (simp add: holders_def)
  have c: "card (insert i (holders s a)) = Suc (card (holders s a))"
    using finite_holders[OF inv] i by simp
  show "gate_ok B (move i (Holding key a) st s) a g'" if "gate_enter now mq i g = (Granted, g')"
    using that ok pc c by (auto simp: gate_ok_def gate_enter_def holders_move split: if_splits)
  show "gate_ok B (move i (Waiting key a) st s) a g'" if "gate_enter now mq i g = (Parked, g')"
    using that ok pc i by (auto simp: gate_ok_def gate_enter_def holders_move split: if_splits)
qed

lemma gate_ok_give_up:
  assumes inv: "sem_inv B s" and pc: "sy_pc s i = Waiting key a" and g: "sys_gate s a = Some g"
    and r: "remove_waiter i g = (True, g')"
  shows "gate_ok B (move i Finished st s) a g'"
proof -
  have "i \<notin> holders s a" using pc by (simp add: holders_def)
  with sem_invD(4)[OF inv g] r pc show ?thesis
    by (auto simp: gate_ok_def remove_waiter_eq holders_move)
qed

lemma gate_ok_release:
  assumes inv: "sem_inv B s" and pc: "sy_pc s i = Holding key a" and g: "sys_gate s a = Some g"
  shows "gate_ok B (move i (Draining key a) st s) a (gate_release g)"
proof -
  have i: "i \<in> holders s a" using pc by (simp add: holders_def)
  then have "0 < card (holders s a)" using finite_holders[OF inv] by (auto simp: card_gt_0_iff)
  with sem_invD(4)[OF inv g] i pc finite_holders[OF inv, of a] show ?thesis
    by (auto simp: gate_ok_def gate_release_def holders_move card_Diff_singleton)
qed

lemma drain_step_head:
  assumes inv: "sem_inv B s" and g: "sys_gate s a = Some g"
    and d: "drain_step now g = Some (w, g')"
  obtains k where "sy_pc s w = Waiting k a"
  using sem_invD(4)[OF inv g] d
  by (auto simp: gate_ok_def drain_step_def split: list.splits if_splits)

lemma gate_ok_drain:
  assumes inv: "sem_inv B s" and g: "sys_gate s a = Some g"
    and d: "drain_step now g = Some (w, g')"
  shows "gate_ok B (move w (Holding key a) st s) a g'"
proof -
  obtain k where w: "sy_pc s w = Waiting k a" using drain_step_head[OF inv g d] .
  then have "w \<notin> holders s a" by (simp add: holders_def)
  then have "card (insert w (holders s a)) = Suc (card (holders s a))"
    using finite_holders[OF inv] by simp
  with sem_invD(4)[OF inv g] d show ?thesis
    by (auto simp: gate_ok_def drain_step_def holders_move split: list.splits if_splits)
qed

lemma sem_inv_tick [simp]: "sem_inv B (s\<lparr>sy_now := t\<rparr>) = sem_inv B s"
  by (simp add: sem_inv_def gate_ok_def holders_def)

lemma sem_inv_step:
  assumes step: "sem_step M s t" and inv: "sem_inv B s"
    and B: "M \<le> B" "default_max_concurrency \<le> B"
  shows "sem_inv B t"
  using step
proof cases
  case (tick t)
  then show ?thesis using inv by (simp only: sem_inv_tick)
next
  case (call i opts key a st)
  then show ?thesis using inv B by (auto intro!: sem_inv_gate_for[where key = key])
next
  case (enter_granted i key a opts g g')
  then show ?thesis using gate_ok_enter(1)[OF inv] inv by (auto intro: sem_inv_at_gate)
next
  case (enter_full i key a opts g g')
  then show ?thesis using inv sem_invD(2)[OF inv] by (auto intro: sem_inv_same_gate)
next
  case (enter_parked i key a opts g g')
  then show ?thesis using gate_ok_enter(2)[OF inv] inv by (auto intro: sem_inv_at_gate)
next
  case (give_up i key a g g')
  then show ?thesis using gate_ok_give_up[OF inv] inv by (auto intro: sem_inv_at_gate)
next
  case (release i key a g)
  then show ?thesis using gate_ok_release[OF inv] inv by (auto intro: sem_inv_at_gate)
next
  case (drain_grant i key a g w g')
  obtain k where w: "sy_pc s w = Waiting k a" using drain_step_head[OF inv drain_grant(3,4)] .
  with drain_grant show ?thesis using gate_ok_drain[OF inv] inv by (auto intro: sem_inv_at_gate)
next
  case (drain_stop i key a g)
  then show ?thesis using inv sem_invD(2)[OF inv] by (auto intro: sem_inv_same_gate)
next
  case (check i key a)
  then show ?thesis using inv sem_invD(2)[OF inv] by (auto intro: sem_inv_same_gate)
next
  case (clean i key a)
  have "store_ok (cleanup_delete key a (sy_now s) (sy_store s))"
    using sem_invD(2)[OF inv] by (auto simp: cleanup_delete_def store_ok_def)
  then show ?thesis using clean inv by (auto simp: cleanup_delete_def intro!: sem_inv_same_gate)
next
  case (block i d key a st)
  then show ?thesis using inv B by 
    (auto simp: default_max_concurrency_def intro!: sem_inv_gate_for[where key = key and mx = 3])
next
  case (block_set i key a "until" g)
  have "i \<notin> holders s a" using block_set by (simp add: holders_def)
  then have "gate_ok B t a (gate_block until g)"
    using block_set sem_invD(4)[OF inv, of a g]
    by (auto simp: gate_ok_def gate_block_def holders_move)
  then show ?thesis using block_set inv by (auto intro: sem_inv_at_gate)
next
  case (block_wake i key a "until")
  then show ?thesis using inv sem_invD(2)[OF inv] by (auto intro: sem_inv_same_gate)
qed

lemma sem_inv_init: "sem_inv B init_sys"
  by (simp add: sem_inv_def init_sys_def empty_store_def store_ok_def)

lemma sem_inv_reachable:
  assumes "sem_reachable M s" "M \<le> B" "default_max_concurrency \<le> B"
  shows "sem_inv B s"
  using assms by (induction rule: sem_reachable.induct) (auto intro: sem_inv_init sem_inv_step)

section \<open>Schedules\<close>

text \<open>
  An executable reading of the step relation: a schedule says which goroutine moves next,
  and where it stands decides which critical section it runs.
\<close>

datatype sched =
  Tick instant | Call nat string sem_options | Go nat | GiveUp nat | StartBlock nat string duration

fun perform :: "int \<Rightarrow> sched \<Rightarrow> sem_sys \<Rightarrow> sem_sys option" where
  "perform M (Tick t) s = (if sy_now s \<le> t then Some (s\<lparr>sy_now := t\<rparr>) else None)"
| "perform M (Call i key opts) s =
     (if sy_pc s i = Idle \<and> 0 < so_max_concurrency opts \<and> so_max_concurrency opts = M
      then (case gate_for key M (sy_store s) of
              (a, st) \<Rightarrow> Some (move i (Entering key a (sem_defaults opts)) st s))
      else None)"
| "perform M (StartBlock i key d) s =
     (if sy_pc s i = Idle \<and> 0 < d
      then (case gate_for key default_max_concurrency (sy_store s) of
              (a, st) \<Rightarrow> Some (move i (Blocking key a (sy_now s + d)) st s))
      else None)"
| "perform M (GiveUp i) s =
     (case sy_pc s i of
        Waiting key a \<Rightarrow>
          (case sys_gate s a of
             Some g \<Rightarrow> (case remove_waiter i g of
                 (True, g') \<Rightarrow> Some (move i Finished (upd_gate a g' (sy_store s)) s)
               | (False, _) \<Rightarrow> None)
           | None \<Rightarrow> None)
      | _ \<Rightarrow> None)"
| "perform M (Go i) s =
     (case sy_pc s i of
        Entering key a opts \<Rightarrow>
          (case sys_gate s a of
             Some g \<Rightarrow> (case gate_enter (sy_now s) (so_max_queue_size opts) i g of
                 (Granted, g') \<Rightarrow> Some (move i (Holding key a) (upd_gate a g' (sy_store s)) s)
               | (QueueFull, _) \<Rightarrow> Some (move i Finished (sy_store s) s)
               | (Parked, g') \<Rightarrow> Some (move i (Waiting key a) (upd_gate a g' (sy_store s)) s))
           | None \<Rightarrow> None)
      | Holding key a \<Rightarrow>
          (case sys_gate s a of
             Some g \<Rightarrow> Some (move i (Draining key a) (upd_gate a (gate_release g) (sy_store s)) s)
           | None \<Rightarrow> None)
      | Draining key a \<Rightarrow>
          (case sys_gate s a of
             Some g \<Rightarrow> (case drain_step (sy_now s) g of
                 Some (w, g') \<Rightarrow> Some (move w (Holding key a) (upd_gate a g' (sy_store s)) s)
               | None \<Rightarrow> Some (move i (Checking key a) (sy_store s) s))
           | None \<Rightarrow> None)
      | Checking key a \<Rightarrow>
          Some (move i (if cleanup_check a (sy_now s) (sy_store s) then Cleaning key a
                        else Finished) (sy_store s) s)
      | Cleaning key a \<Rightarrow>
          Some (move i Finished (cleanup_delete key a (sy_now s) (sy_store s)) s)
      | Blocking key a until \<Rightarrow>
          (case sys_gate s a of
             Some g \<Rightarrow>
               Some (move i (Sleeping key a until) (upd_gate a (gate_block until g) (sy_store s)) s)
           | None \<Rightarrow> None)
      | Sleeping key a until \<Rightarrow>
          (if until \<le> sy_now s then Some (move i (Draining key a) (sy_store s) s) else None)
      | _ \<Rightarrow> None)"

lemma perform_sound: "perform M e s = Some t \<Longrightarrow> sem_step M s t"
proof (cases e)
  case (Go i)
  assume "perform M e s = Some t"
  with Go show ?thesis
    using sem_step.check[of s i _ _ M]
    by (cases "sy_pc s i")
       (auto split: option.splits prod.splits admit_result.splits if_splits intro: sem_step.intros)
qed (auto split: option.splits prod.splits pc.splits bool.splits if_splits intro: sem_step.intros)

primrec run_sched :: "int \<Rightarrow> sched list \<Rightarrow> sem_sys \<Rightarrow> sem_sys option" where
  "run_sched M [] s = Some s"
| "run_sched M (e # es) s = (case perform M e s of None \<Rightarrow> None | Some t \<Rightarrow> run_sched M es t)"

lemma run_sched_reachable:
  "run_sched M es s = Some t \<Longrightarrow> sem_reachable M s \<Longrightarrow> sem_reachable M t"
  by (induction es arbitrary: s) (auto split: option.splits dest: perform_sound next_step)

lemmas sched_simps =
  init_sys_def empty_store_def move_def upd_gate_def gate_for_def gate_enter_def fresh_gate_def
  gate_blocked_def gate_release_def gate_block_def cleanup_delete_def cleanup_check_def gate_idle_def
  sem_defaults_def default_max_queue_size_def default_sem_timeout_def drain_step_def
  default_max_concurrency_def

section \<open>What the gates do not guarantee\<close>

text \<open>
  The cap is kept per gate object, not per key. A goroutine that has looked the gate up but
  not yet locked it is invisible to \<open>cleanupGate\<close>, whose re-check only sees the counters:
  the gate leaves the registry, the next caller gets a new one, and both requests run. The
  schedule below reaches two holders of one key with a cap of one.
\<close>

lemma key_cap_exceeded:
  "\<exists>s. sem_reachable 1 s \<and> key_holders s ''p:a:direct'' = {2, 3}"
proof -
  let ?o = "\<lparr>so_max_concurrency = 1, so_timeout = 0, so_max_queue_size = 0\<rparr>"
  let ?k = "''p:a:direct''"
  have "\<exists>s. run_sched 1 [Call 1 ?k ?o, Go 1, Go 1, Go 1, Call 2 ?k ?o, Go 1, Go 1, Go 2,
      Call 3 ?k ?o, Go 3] init_sys = Some s \<and> key_holders s ?k = {2, 3}"
    by (auto simp: sched_simps key_holders_def split: if_splits)
  then show ?thesis using run_sched_reachable[OF _ sem_reachable.start] by blast
qed

text \<open>
  \<open>Block\<close> looks the gate up with the default cap, which overwrites the cap the callers
  configured until the next \<open>Acquire\<close>: a gate limited to one request lets three run when
  the block expires.
\<close>

lemma block_overwrites_cap:
  "let g = \<lparr>g_running = 1, g_max = 1, g_queue = [7, 8, 9], g_blocked_until = 0\<rparr>;
       st = \<lparr>ss_reg = [(''k'', 0)], ss_heap = [0 \<mapsto> g], ss_next = 1\<rparr>;
       st = block_account ''k'' 10 5 st;
       (ws, st) = block_expire ''k'' 0 15 st
   in ws = [7, 8] \<and> map_option g_running (ss_heap st 0) = Some 3"
  by (simp add: block_account_def block_expire_def gate_for_def upd_gate_def gate_block_def
      drain_eq drain_count_def gate_blocked_def default_max_concurrency_def cleanup_gate_def
      cleanup_check_def gate_idle_def)

section \<open>Properties\<close>

text \<open>C3: In every reachable state of the interleaved system, each gate's running counter is the
  number of requests that hold one of its slots, that number never exceeds the larger of the
  callers' cap and the default, and its queue holds exactly the requests parked at it, each
  once: no slot is lost or handed out twice.\<close>
theorem gate_accounting:
  assumes "sem_reachable M s" "sys_gate s a = Some g"
  shows "g_running g = int (card (holders s a)) \<and> g_running g \<le> max M default_max_concurrency \<and>
    distinct (g_queue g) \<and> set (g_queue g) = {w. \<exists>k. sy_pc s w = Waiting k a}"
  using sem_invD(4)[OF sem_inv_reachable[OF assms(1), of "max M default_max_concurrency"] assms(2)]
  by (auto simp: gate_ok_def)

lemma gate_accounting_witness:
  "\<exists>s g. sem_reachable 1 s \<and> sys_gate s 0 = Some g \<and> g_queue g = [2] \<and>
     g_running g = int (card (holders s 0)) \<and> set (g_queue g) = {w. \<exists>k. sy_pc s w = Waiting k 0}"
proof -
  let ?o = "\<lparr>so_max_concurrency = 1, so_timeout = 0, so_max_queue_size = 0\<rparr>"
  have "\<exists>s g. run_sched 1 [Call 1 ''k'' ?o, Go 1, Call 2 ''k'' ?o, Go 2] init_sys = Some s \<and>
      sys_gate s 0 = Some g \<and> g_queue g = [2]"
    by (auto simp: sched_simps)
  then obtain s g where s: "sem_reachable 1 s" "sys_gate s 0 = Some g" "g_queue g = [2]"
    using run_sched_reachable[OF _ sem_reachable.start] by blast
  then show ?thesis using gate_accounting[OF s(1,2)] by blast
qed

text \<open>The drain loop always ends, and serves a blocked gate nobody and an unblocked one as many
  waiters as it has free slots, in the order in which they parked; the slots it hands out are
  the ones it counts.\<close>
theorem drain_fifo:
  "drain now g =
     (let n = (if gate_blocked now g then 0 else min (length (g_queue g)) (nat (g_max g - g_running g)))
      in (take n (g_queue g), g\<lparr>g_queue := drop n (g_queue g), g_running := g_running g + int n\<rparr>))"
  by (simp add: drain_eq drain_count_def Let_def)

end
