(* ===== verification/SemLive.thy ===== *)
theory SemLive
  imports Semaphore
begin

text \<open>
  No wake-up is lost in the semaphore of \<open>internal/resilience/semaphore.go\<close>: whoever parks
  at a gate is attended, by a request that will release its slot, by a goroutine that is
  draining, or by the goroutine that waits for a block to run out. The invariant is kept
  on top of the accounting invariant of the previous theory.
\<close>

definition attended :: "sem_sys \<Rightarrow> nat \<Rightarrow> bool" where
  "attended s a \<longleftrightarrow> (\<exists>i k. sy_pc s i = Holding k a \<or> sy_pc s i = Draining k a \<or>
     (\<exists>u. sy_pc s i = Sleeping k a u))"

definition gate_live :: "sem_sys \<Rightarrow> nat \<Rightarrow> gate \<Rightarrow> bool" where
  "gate_live s a g \<longleftrightarrow> 0 < g_max g \<and>
     (gate_blocked (sy_now s) g \<longrightarrow> (\<exists>i k. sy_pc s i = Sleeping k a (g_blocked_until g))) \<and>
     (g_queue g \<noteq> [] \<longrightarrow> attended s a)"

definition sem_live :: "sem_sys \<Rightarrow> bool" where
  "sem_live s \<longleftrightarrow> (\<forall>a g. sys_gate s a = Some g \<longrightarrow> gate_live s a g)"

lemma attendedI:
  "sy_pc s i = Holding k a \<Longrightarrow> attended s a" "sy_pc s i = Draining k a \<Longrightarrow> attended s a"
  "sy_pc s i = Sleeping k a u \<Longrightarrow> attended s a"
  unfolding attended_def by blast+

lemma sy_now_move [simp]: "sy_now (move i p st s) = sy_now s"
  by (simp add: move_def)

lemma sleeper_move:
  assumes "\<exists>j k. sy_pc s j = Sleeping k a u" "\<And>k. sy_pc s i \<noteq> Sleeping k a u"
  shows "\<exists>j k. sy_pc (move i p st s) j = Sleeping k a u"
proof -
  obtain j k where j: "sy_pc s j = Sleeping k a u" using assms(1) by blast
  then have "j \<noteq> i" using assms(2) by auto
  with j have "sy_pc (move i p st s) j = Sleeping k a u" by simp
  then show ?thesis by blast
qed

lemma sem_live_move:
  assumes live: "sem_live s" and st: "\<And>b. b \<noteq> a \<Longrightarrow> ss_heap st b = sys_gate s b"
    and old: "pc_addr (sy_pc s i) = None \<or> pc_addr (sy_pc s i) = Some a"
    and g: "\<And>g. ss_heap st a = Some g \<Longrightarrow> gate_live (move i p st s) a g"
  shows "sem_live (move i p st s)"
  unfolding sem_live_def
proof (intro allI impI)
  fix b h assume h: "sys_gate (move i p st s) b = Some h"
  show "gate_live (move i p st s) b h"
  proof (cases "b = a")
    case False
    then have lh: "gate_live s b h" using live h st by (simp add: sem_live_def)
    have keep: "sy_pc (move i p st s) j = sy_pc s j" if "pc_addr (sy_pc s j) = Some b" for j
      using that old False by auto
    have "attended (move i p st s) b" if "attended s b"
    proof -
      obtain j k where j: "sy_pc s j = Holding k b \<or> sy_pc s j = Draining k b \<or>
          (\<exists>u. sy_pc s j = Sleeping k b u)" using \<open>attended s b\<close> unfolding attended_def by blast
      then have "sy_pc (move i p st s) j = sy_pc s j" by (intro keep) auto
      with j show ?thesis unfolding attended_def by metis
    qed
    moreover have "\<exists>j k. sy_pc (move i p st s) j = Sleeping k b u" if "\<exists>j k. sy_pc s j = Sleeping k b u" for u
      using that keep by (metis pc_addr.simps(8))
    ultimately show ?thesis using lh unfolding gate_live_def sy_now_move by blast
  qed (use g h in simp)
qed

text \<open>A goroutine that leaves a gate it was not serving takes no attention away.\<close>

lemma gate_live_move:
  assumes "gate_live s a g" "\<And>k. sy_pc s i \<noteq> Holding k a" "\<And>k. sy_pc s i \<noteq> Draining k a"
    "\<And>k u. sy_pc s i \<noteq> Sleeping k a u"
  shows "gate_live (move i p st s) a g"
proof -
  have "attended (move i p st s) a" if att: "attended s a"
  proof -
    obtain j k where j: "sy_pc s j = Holding k a \<or> sy_pc s j = Draining k a \<or>
        (\<exists>u. sy_pc s j = Sleeping k a u)" using att unfolding attended_def by blast
    then have "j \<noteq> i" using assms(2-4) by auto
    with j show ?thesis unfolding attended_def by (metis fun_upd_other sys_gate_move(2))
  qed
  moreover have "\<exists>j k. sy_pc (move i p st s) j = Sleeping k a u"
    if "\<exists>j k. sy_pc s j = Sleeping k a u" for u
    using that assms(4) by (intro sleeper_move) auto
  ultimately show ?thesis using assms(1) unfolding gate_live_def sy_now_move by blast
qed

lemma gate_live_more:
  assumes "gate_live s a g" "g_max g' = g_max g" "g_blocked_until g' = g_blocked_until g"
    and "g_queue g' \<noteq> [] \<Longrightarrow> g_queue g \<noteq> [] \<or> attended s a"
  shows "gate_live s a g'"
  using assms by (auto simp: gate_live_def gate_blocked_def)

text \<open>When a drain stops, either nobody waits or somebody else attends the gate.\<close>

lemma drain_stop_attended:
  assumes inv: "sem_inv B s" and live: "gate_live s a g" and g: "sys_gate s a = Some g"
    and d: "drain_step (sy_now s) g = None" and q: "g_queue g \<noteq> []"
  shows "\<exists>j k. sy_pc s j = Holding k a \<or> (\<exists>u. sy_pc s j = Sleeping k a u)"
proof -
  consider "g_max g \<le> g_running g" | "gate_blocked (sy_now s) g"
    using d q by (auto simp: drain_step_def split: list.splits if_splits)
  then show ?thesis
  proof cases
    case 1
    then have "holders s a \<noteq> {}"
      using live sem_invD(4)[OF inv g] by (auto simp: gate_live_def gate_ok_def)
    then show ?thesis unfolding holders_def by blast
  next
    case 2
    then show ?thesis using live by (auto simp: gate_live_def)
  qed
qed

lemma gate_live_moved_to:
  assumes "gate_live s a g" "\<And>k u. sy_pc s i \<noteq> Sleeping k a u"
    and "(\<exists>k. p = Holding k a) \<or> (\<exists>k. p = Draining k a) \<or> (\<exists>k u. p = Sleeping k a u)"
  shows "gate_live (move i p st s) a g"
proof -
  have "attended (move i p st s) a"
    using assms(3) unfolding attended_def by (metis fun_upd_same sys_gate_move(2))
  moreover have "\<exists>j k. sy_pc (move i p st s) j = Sleeping k a u"
    if "\<exists>j k. sy_pc s j = Sleeping k a u" for u
    using that assms(2) by (intro sleeper_move) auto
  ultimately show ?thesis using assms(1) unfolding gate_live_def sy_now_move by blast
qed

lemma gate_enter_parked_attended:
  assumes inv: "sem_inv B s" and live: "gate_live s a g" and g: "sys_gate s a = Some g"
    and e: "gate_enter (sy_now s) mq i g = (Parked, g')"
  shows "attended s a"
proof -
  consider "g_max g \<le> g_running g" | "gate_blocked (sy_now s) g"
    using e by (auto simp: gate_enter_def split: if_splits)
  then show ?thesis
  proof cases
    case 1
    then have "holders s a \<noteq> {}"
      using live sem_invD(4)[OF inv g] by (auto simp: gate_live_def gate_ok_def)
    then show ?thesis unfolding holders_def by (auto intro: attendedI)
  next
    case 2
    then show ?thesis using live by (auto simp: gate_live_def intro: attendedI)
  qed
qed

lemma sem_live_gate_for:
  assumes inv: "sem_inv B s" and live: "sem_live s" and mx: "0 < mx"
    and gf: "gate_for key mx (sy_store s) = (a, st)" and i: "sy_pc s i = Idle"
  shows "sem_live (move i p st s)"
  using gf sem_invD(2)[OF inv]
proof (cases rule: gate_for_cases)
  case (old g)
  then have "gate_live s a (g\<lparr>g_max := mx\<rparr>)"
    using live mx by (auto simp: sem_live_def gate_live_def gate_blocked_def)
  then show ?thesis using old live i
    by (intro sem_live_move[where a = a]) (auto intro: gate_live_move)
next
  case fresh
  then show ?thesis using live i mx
    by (intro sem_live_move[where a = a]) (auto simp: gate_live_def fresh_gate_def gate_blocked_def)
qed


lemma sem_live_at_gate:
  assumes "sem_live s" "pc_addr (sy_pc s i) = Some a"
    and "gate_live (move i p (upd_gate a g (sy_store s)) s) a g"
  shows "sem_live (move i p (upd_gate a g (sy_store s)) s)"
  using assms by (intro sem_live_move[where a = a]) auto

lemma sem_live_same_gate:
  assumes "sem_live s" "pc_addr (sy_pc s i) = Some a" "ss_heap st = sys_gate s"
    and "\<And>g. sys_gate s a = Some g \<Longrightarrow> gate_live (move i p st s) a g"
  shows "sem_live (move i p st s)"
  using assms by (intro sem_live_move[where a = a]) auto

lemma sem_liveD: "sem_live s \<Longrightarrow> sys_gate s a = Some g \<Longrightarrow> gate_live s a g"
  by (simp add: sem_live_def)

lemma drain_stop_live:
  assumes "sem_inv B s" "sem_live s" "sy_pc s i = Draining key a" "sys_gate s a = Some g"
    "drain_step (sy_now s) g = None"
  shows "sem_live (move i (Checking key a) (sy_store s) s)"
proof -
  let ?t = "move i (Checking key a) (sy_store s) s"
  have live: "gate_live s a g" using sem_liveD assms(2,4) by blast
  have "attended ?t a" if q: "g_queue g \<noteq> []"
  proof -
    obtain j k where j: "sy_pc s j = Holding k a \<or> (\<exists>u. sy_pc s j = Sleeping k a u)"
      using drain_stop_attended[OF assms(1) live assms(4,5) q] by blast
    then have "sy_pc ?t j = sy_pc s j" using assms(3) by auto
    with j show ?thesis unfolding attended_def by metis
  qed
  moreover have "\<exists>j k. sy_pc ?t j = Sleeping k a u" if "\<exists>j k. sy_pc s j = Sleeping k a u" for u
    using that assms(3) by (intro sleeper_move) auto
  ultimately have "gate_live ?t a g" using live unfolding gate_live_def sy_now_move by blast
  then show ?thesis using assms by (intro sem_live_same_gate[where a = a]) auto
qed

lemma block_set_live:
  assumes "gate_live s a g" "sy_pc s i = Blocking key a u"
  shows "gate_live (move i (Sleeping key a u) st s) a (gate_block u g)"
proof -
  let ?t = "move i (Sleeping key a u) st s"
  have t: "sy_pc ?t i = Sleeping key a u" by simp
  have "\<exists>j k. sy_pc ?t j = Sleeping k a v" if "\<exists>j k. sy_pc s j = Sleeping k a v" for v
    using that assms(2) by (intro sleeper_move) auto
  with assms(1) t show ?thesis
    unfolding gate_live_def gate_block_def gate_blocked_def sy_now_move
    by (auto intro: attendedI(3)[OF t])
qed

lemma block_wake_live:
  assumes "sem_live s" "sy_pc s i = Sleeping key a u" "u \<le> sy_now s"
  shows "sem_live (move i (Draining key a) (sy_store s) s)"
proof (rule sem_live_same_gate[OF assms(1), of i a])
  let ?t = "move i (Draining key a) (sy_store s) s"
  fix g assume "sys_gate s a = Some g"
  then have live: "gate_live s a g" using sem_liveD assms(1) by blast
  have "\<exists>j k. sy_pc ?t j = Sleeping k a (g_blocked_until g)" if b: "gate_blocked (sy_now s) g"
  proof -
    obtain j k where j: "sy_pc s j = Sleeping k a (g_blocked_until g)"
      using live b by (auto simp: gate_live_def)
    have "j \<noteq> i" using j assms(2,3) b by (auto simp: gate_blocked_def)
    with j have "sy_pc ?t j = Sleeping k a (g_blocked_until g)" by simp
    then show ?thesis by blast
  qed
  moreover have "attended ?t a" by (rule attendedI(2)[of _ i key]) simp
  ultimately show "gate_live ?t a g" using live unfolding gate_live_def sy_now_move by blast
qed (use assms in simp_all)

lemma sem_live_step:
  assumes step: "sem_step M s t" and inv: "sem_inv B s" and live: "sem_live s" and M: "0 < M"
  shows "sem_live t"
  using step
proof cases
  case (tick t)
  then show ?thesis using live
    by (auto simp: sem_live_def gate_live_def gate_blocked_def attended_def)
next
  case (call i opts key a st)
  then show ?thesis using inv live M by (auto intro!: sem_live_gate_for)
next
  case (enter_granted i key a opts g g')
  have "gate_live s a g'"
    by (rule gate_live_more[OF sem_liveD[OF live enter_granted(3)]])
       (use enter_granted in \<open>auto simp: gate_enter_def split: if_splits\<close>)
  with enter_granted live show ?thesis by (auto intro!: sem_live_at_gate gate_live_moved_to)
next
  case (enter_full i key a opts g g')
  then show ?thesis using live sem_liveD[OF live]
    by (auto intro!: sem_live_same_gate[where a = a] gate_live_move)
next
  case (enter_parked i key a opts g g')
  have att: "attended s a"
    using gate_enter_parked_attended[OF inv sem_liveD[OF live]] enter_parked by blast
  have "gate_live s a g'"
    by (rule gate_live_more[OF sem_liveD[OF live enter_parked(3)]])
       (use enter_parked att in \<open>auto simp: gate_enter_def split: if_splits\<close>)
  with enter_parked live show ?thesis by (auto intro!: sem_live_at_gate gate_live_move)
next
  case (give_up i key a g g')
  have "gate_live s a g'"
    by (rule gate_live_more[OF sem_liveD[OF live give_up(3)]])
       (use give_up in \<open>auto simp: remove_waiter_eq\<close>)
  with give_up live show ?thesis by (auto intro!: sem_live_at_gate gate_live_move)
next
  case (release i key a g)
  have "gate_live s a (gate_release g)"
    by (rule gate_live_more[OF sem_liveD[OF live release(3)]])
       (use release in \<open>auto simp: gate_release_def\<close>)
  with release live show ?thesis by (auto intro!: sem_live_at_gate gate_live_moved_to)
next
  case (drain_grant i key a g w g')
  obtain k where w: "sy_pc s w = Waiting k a" using drain_step_head[OF inv drain_grant(3,4)] .
  have "gate_live s a g'"
    by (rule gate_live_more[OF sem_liveD[OF live drain_grant(3)]])
       (use drain_grant in \<open>auto simp: drain_step_def split: list.splits if_splits\<close>)
  with drain_grant w live show ?thesis by (auto intro!: sem_live_at_gate gate_live_moved_to)
next
  case (drain_stop i key a g)
  then show ?thesis using inv live by (auto intro!: drain_stop_live)
next
  case (check i key a)
  then show ?thesis using live sem_liveD[OF live]
    by (auto intro!: sem_live_same_gate[where a = a] gate_live_move)
next
  case (clean i key a)
  then show ?thesis using live sem_liveD[OF live]
    by (auto simp: cleanup_delete_def intro!: sem_live_same_gate[where a = a] gate_live_move)
next
  case (block i d key a st)
  then show ?thesis using inv live
    by (auto simp: default_max_concurrency_def intro!: sem_live_gate_for[where key = key and mx = 3])
next
  case (block_set i key a "until" g)
  have "gate_live t a (gate_block until g)"
    unfolding block_set(1) by (rule block_set_live[OF sem_liveD[OF live block_set(3)] block_set(2)])
  with block_set live show ?thesis by (auto intro: sem_live_at_gate)
next
  case (block_wake i key a "until")
  then show ?thesis using block_wake_live[OF live] by simp
qed

lemma sem_live_init: "sem_live init_sys"
  by (simp add: sem_live_def init_sys_def empty_store_def)

lemma sem_live_reachable:
  assumes "sem_reachable M s" "0 < M"
  shows "sem_live s"
  using assms
proof induction
  case (next_step s t)
  then show ?case
    using sem_live_step sem_inv_reachable[of M s "max M default_max_concurrency"] by auto
qed (rule sem_live_init)

section \<open>Property\<close>

text \<open>C4: No wake-up is lost: in every reachable state, a gate at which somebody waits is attended
  by a request that holds a slot there and will drain the queue when it lets go, by a goroutine
  draining it, or by the one that sleeps until the block on the account runs out.\<close>
theorem no_stranded_waiter:
  assumes "sem_reachable M s" "0 < M" "sys_gate s a = Some g" "g_queue g \<noteq> []"
  shows "\<exists>i k. sy_pc s i = Holding k a \<or> sy_pc s i = Draining k a \<or> (\<exists>u. sy_pc s i = Sleeping k a u)"
  using sem_liveD[OF sem_live_reachable[OF assms(1,2)] assms(3)] assms(4)
  by (simp add: gate_live_def attended_def)

lemma no_stranded_waiter_witness:
  "\<exists>s g. sem_reachable 1 s \<and> sys_gate s 0 = Some g \<and> g_queue g = [2] \<and>
     (\<exists>i k. sy_pc s i = Holding k 0 \<or> sy_pc s i = Draining k 0 \<or> (\<exists>u. sy_pc s i = Sleeping k 0 u))"
proof -
  let ?o = "\<lparr>so_max_concurrency = 1, so_timeout = 0, so_max_queue_size = 0\<rparr>"
  have "\<exists>s g. run_sched 1 [StartBlock 1 ''k'' 5, Go 1, Call 2 ''k'' ?o, Go 2] init_sys = Some s \<and>
      sys_gate s 0 = Some g \<and> g_queue g = [2]"
    by (auto simp: sched_simps)
  then obtain s g where s: "sem_reachable 1 s" "sys_gate s 0 = Some g" "g_queue g = [2]"
    using run_sched_reachable[OF _ sem_reachable.start] by blast
  then show ?thesis using no_stranded_waiter[OF s(1) _ s(2)] by (metis list.distinct(1) zero_less_one)
qed

end
