(* ===== verification/Admission.thy ===== *)
theory Admission
  imports Breaker Semaphore
begin

text \<open>
  The controller of \<open>internal/resilience/controller.go\<close>: the entry point that asks the
  provider's breaker first and the account's semaphore second. Its state is the two
  registries. The registry of breakers holds pointers in the code, so an operation on the
  breaker of a key is an update of the registry at that key.
\<close>

record controller =
  ct_breaker :: breaker_options
  ct_semaphore :: sem_options

record resilience =
  rs_breakers :: breaker_registry
  rs_sems :: sem_store

definition default_controller :: controller where
  "default_controller = \<lparr>
     ct_breaker = \<lparr>failure_threshold = 0, reset_timeout = 0, half_open_requests = 0,
                   max_backoff_multiplier = 0, backoff_escalation_count = 0\<rparr>,
     ct_semaphore = \<lparr>so_max_concurrency = 0, so_timeout = 0, so_max_queue_size = 0\<rparr>\<rparr>"

record decision =
  d_allowed :: bool
  d_retry_after :: duration
  d_reason :: string

text \<open>An operation \<open>f\<close> on the breaker of one provider egress.\<close>

definition on_breaker ::
  "controller \<Rightarrow> string \<Rightarrow> string \<Rightarrow> (breaker \<Rightarrow> 'r \<times> breaker) \<Rightarrow> resilience \<Rightarrow> 'r \<times> resilience" where
  "on_breaker c provider proxy_hash f r =
     (let (b, reg) = breaker_for_key (rs_breakers r) provider proxy_hash (ct_breaker c);
          (x, b') = f b
      in (x, r\<lparr>rs_breakers := AList.update (breaker_key provider proxy_hash) b' reg\<rparr>))"

definition admit ::
  "controller \<Rightarrow> string \<Rightarrow> string \<Rightarrow> string \<Rightarrow> instant \<Rightarrow> resilience \<Rightarrow> decision \<times> resilience" where
  "admit c provider account_key proxy_hash now r =
     on_breaker c provider proxy_hash
       (\<lambda>b. case allow b now of (ok, b') \<Rightarrow>
          (if \<not> ok then (\<lparr>d_allowed = False, d_retry_after = retry_after b' now, d_reason = ''breaker''\<rparr>, b')
           else (\<lparr>d_allowed = True, d_retry_after = 0, d_reason = []\<rparr>, b'))) r"

text \<open>
  \<open>Reserve\<close> up to the moment it returns or its request parks: \<open>None\<close> is the refusal,
  \<open>Some (Inl l)\<close> a reservation, \<open>Some (Inr a)\<close> a request waiting at the gate \<open>a\<close>.
\<close>

definition reserve ::
  "controller \<Rightarrow> string \<Rightarrow> string \<Rightarrow> string \<Rightarrow> instant \<Rightarrow> nat \<Rightarrow> resilience \<Rightarrow>
   (lease + nat) option \<times> resilience" where
  "reserve c provider account_key proxy_hash now w r =
     (let (d, r) = admit c provider account_key proxy_hash now r
      in if \<not> d_allowed d then (None, r)
         else (case acquire_begin (semaphore_key provider account_key proxy_hash)
                      (ct_semaphore c) now w (rs_sems r) of
                 (Inl e, st) \<Rightarrow> (None, r\<lparr>rs_sems := st\<rparr>)
               | (Inr l, st) \<Rightarrow> (Some l, r\<lparr>rs_sems := st\<rparr>)))"

definition drop_lease :: "lease option \<Rightarrow> instant \<Rightarrow> resilience \<Rightarrow> resilience" where
  "drop_lease rel now r =
     (case rel of None \<Rightarrow> r | Some l \<Rightarrow> r\<lparr>rs_sems := snd (release_lease l now (rs_sems r))\<rparr>)"

definition report_success ::
  "controller \<Rightarrow> string \<Rightarrow> string \<Rightarrow> string \<Rightarrow> lease option \<Rightarrow> instant \<Rightarrow> resilience \<Rightarrow> resilience" where
  "report_success c provider account_key proxy_hash rel now r =
     snd (on_breaker c provider proxy_hash (\<lambda>b. ((), record_success b now)) (drop_lease rel now r))"

definition report_failure ::
  "controller \<Rightarrow> string \<Rightarrow> string \<Rightarrow> string \<Rightarrow> lease option \<Rightarrow> int \<Rightarrow> instant \<Rightarrow> resilience \<Rightarrow> resilience" where
  "report_failure c provider account_key proxy_hash rel status now r =
     (let r = drop_lease rel now r
      in if status \<noteq> 0 \<and> \<not> is_provider_failure_status status then r
         else snd (on_breaker c provider proxy_hash (\<lambda>b. ((), record_failure b now)) r))"

definition ctl_block_account ::
  "string \<Rightarrow> string \<Rightarrow> string \<Rightarrow> duration \<Rightarrow> instant \<Rightarrow> resilience \<Rightarrow> resilience" where
  "ctl_block_account provider account_key proxy_hash d now r =
     r\<lparr>rs_sems := block_account (semaphore_key provider account_key proxy_hash) d now (rs_sems r)\<rparr>"

definition ctl_breaker_status ::
  "controller \<Rightarrow> string \<Rightarrow> instant \<Rightarrow> resilience \<Rightarrow> breaker_status \<times> resilience" where
  "ctl_breaker_status c provider now r = on_breaker c provider [] (\<lambda>b. (breaker_status b now, b)) r"

definition ctl_reset :: "instant \<Rightarrow> resilience \<Rightarrow> resilience" where
  "ctl_reset now r =
     r\<lparr>rs_breakers := reset_all_breakers (rs_breakers r) now, rs_sems := reset_semaphores (rs_sems r)\<rparr>"

definition ctl_statuses :: "instant \<Rightarrow> resilience \<Rightarrow> breaker_status list \<times> sem_stat list" where
  "ctl_statuses now r = (all_breaker_statuses (rs_breakers r) now, semaphore_stats now (rs_sems r))"

section \<open>The breakers an operation can touch\<close>

lemma on_breaker_other:
  "k \<noteq> breaker_key p h \<Longrightarrow>
   map_of (rs_breakers (snd (on_breaker c p h f r))) k = map_of (rs_breakers r) k"
  by (auto simp: on_breaker_def Let_def breaker_for_key_other split: prod.splits)
     (metis breaker_for_key_other snd_conv)

lemma on_breaker_sems [simp]: "rs_sems (snd (on_breaker c p h f r)) = rs_sems r"
  by (simp add: on_breaker_def Let_def split: prod.splits)

lemma on_breaker_lookup:
  "map_of (rs_breakers (snd (on_breaker c p h f r))) (breaker_key p h) =
     Some (snd (f (fst (breaker_for_key (rs_breakers r) p h (ct_breaker c)))))"
  by (simp add: on_breaker_def Let_def split: prod.splits)

lemma drop_lease_breakers [simp]: "rs_breakers (drop_lease rel now r) = rs_breakers r"
  by (simp add: drop_lease_def split: option.splits)

lemma registry_inv_on_breaker:
  assumes "registry_inv (rs_breakers r)"
    and f: "\<And>b. breaker_inv b \<Longrightarrow> breaker_inv (snd (f b)) \<and> b_name (snd (f b)) = b_name b"
  shows "registry_inv (rs_breakers (snd (on_breaker c p h f r)))"
proof -
  let ?bf = "breaker_for_key (rs_breakers r) p h (ct_breaker c)"
  have "b_name (fst ?bf) = breaker_key p h"
    using assms(1) by (auto simp: registry_inv_def breaker_for_key_def Let_def
        dest: all_entriesD split: option.splits)
  then show ?thesis
    using f[OF breaker_for_key_inv[OF assms(1)], of p h "ct_breaker c"]
      registry_inv_for_key[OF assms(1), of p h "ct_breaker c"]
    by (auto simp: on_breaker_def Let_def registry_inv_def split: prod.splits)
qed

lemma b_name_ops [simp]:
  "b_name (transition b now s) = b_name b"
  "b_name (snd (allow b now)) = b_name b"
  "b_name (record_success b now) = b_name b"
  "b_name (record_failure b now) = b_name b"
  "b_name (reset_breaker b now) = b_name b"
proof -
  show t: "b_name (transition b now s) = b_name b" for b s by (cases s) auto
  show "b_name (snd (allow b now)) = b_name b"
    by (auto simp: allow_def Let_def split: bstate.splits)
  show "b_name (record_success b now) = b_name b"
    by (auto simp: record_success_def Let_def split: bstate.splits)
  show "b_name (record_failure b now) = b_name b"
    by (auto simp: record_failure_def Let_def split: bstate.splits)
  show "b_name (reset_breaker b now) = b_name b"
    by (simp add: reset_breaker_def)
qed

lemma admit_fst:
  "d_allowed (fst (admit c p a h now r)) \<longleftrightarrow>
     fst (allow (fst (breaker_for_key (rs_breakers r) p h (ct_breaker c))) now)"
  by (simp add: admit_def on_breaker_def Let_def split: prod.splits)

lemma admit_sems [simp]: "rs_sems (snd (admit c p a h now r)) = rs_sems r"
  by (simp add: admit_def)

lemma registry_inv_admit:
  assumes "registry_inv (rs_breakers r)"
  shows "registry_inv (rs_breakers (snd (admit c p a h now r)))"
proof -
  let ?f = "\<lambda>b. case allow b now of (ok, b') \<Rightarrow>
    (if \<not> ok then (\<lparr>d_allowed = False, d_retry_after = retry_after b' now, d_reason = ''breaker''\<rparr>, b')
     else (\<lparr>d_allowed = True, d_retry_after = 0, d_reason = []\<rparr>, b'))"
  have "snd (?f b) = snd (allow b now)" for b by (simp split: prod.splits)
  then show ?thesis unfolding admit_def
    by (intro registry_inv_on_breaker[OF assms]) (simp add: breaker_inv_allow)
qed

text \<open>The operations callers issue against the controller, in any order.\<close>

datatype ctl_op =
    CAdmit string string string instant
  | CSuccess string string string "lease option" instant
  | CFailure string string string "lease option" int instant
  | CBlock string string string duration instant
  | CReset instant

fun exec_ctl :: "controller \<Rightarrow> ctl_op \<Rightarrow> resilience \<Rightarrow> resilience" where
  "exec_ctl c (CAdmit p a h now) r = snd (admit c p a h now r)"
| "exec_ctl c (CSuccess p a h rel now) r = report_success c p a h rel now r"
| "exec_ctl c (CFailure p a h rel st now) r = report_failure c p a h rel st now r"
| "exec_ctl c (CBlock p a h d now) r = ctl_block_account p a h d now r"
| "exec_ctl c (CReset now) r = ctl_reset now r"

definition ctl_inv :: "resilience \<Rightarrow> bool" where
  "ctl_inv r \<longleftrightarrow> registry_inv (rs_breakers r)"

lemma registry_inv_reset: "registry_inv reg \<Longrightarrow> registry_inv (reset_all_breakers reg now)"
  by (auto simp: registry_inv_def reset_all_breakers_def all_entries_def comp_def case_prod_unfold
      intro: breaker_inv_reset)

interpretation ctl_run: invariant_system "exec_ctl c" ctl_inv for c
proof
  fix r e assume "ctl_inv r"
  then show "ctl_inv (exec_ctl c e r)"
    by (cases e) (auto simp: ctl_inv_def report_success_def report_failure_def Let_def
        ctl_block_account_def ctl_reset_def breaker_inv_ops
        intro!: registry_inv_admit registry_inv_on_breaker registry_inv_reset)
qed

lemma reserve_refused:
  "\<not> d_allowed (fst (admit c p a h now r)) \<Longrightarrow> reserve c p a h now w r = (None, snd (admit c p a h now r))"
  by (simp add: reserve_def Let_def case_prod_unfold)

section \<open>Properties\<close>

text \<open>Starting from empty registries, after any sequence of controller calls every breaker of
  the registry is well formed and filed under its own key.\<close>
theorem registry_always_well_formed:
  "registry_inv (rs_breakers (fold (exec_ctl c) ops \<lparr>rs_breakers = [], rs_sems = st\<rparr>))"
  using ctl_run.inv_run[of "\<lparr>rs_breakers = [], rs_sems = st\<rparr>" c ops]
  by (simp add: ctl_inv_def registry_inv_def)

text \<open>Reporting an upstream status that says nothing about the provider's health (anything but 0
  and the listed failure codes, a 401 or 429 for instance) never counts against a breaker, and a
  report that does count only ever changes the breaker of its own provider egress.\<close>
theorem failure_report_is_confined:
  "(status \<noteq> 0 \<and> \<not> is_provider_failure_status status \<longrightarrow>
      rs_breakers (report_failure c p a h rel status now r) = rs_breakers r) \<and>
   (\<forall>k. k \<noteq> breaker_key p h \<longrightarrow>
      map_of (rs_breakers (report_failure c p a h rel status now r)) k = map_of (rs_breakers r) k)"
  by (simp add: report_failure_def Let_def on_breaker_other)

lemma failure_report_is_confined_witness:
  "rs_breakers (report_failure default_controller ''p'' ''a'' [] None 429 5
      \<lparr>rs_breakers = [], rs_sems = empty_store\<rparr>) = [] \<and>
   map_of (rs_breakers (report_failure default_controller ''p'' ''a'' ''h'' None 503 5
      \<lparr>rs_breakers = [], rs_sems = empty_store\<rparr>)) ''p'' = None"
  using failure_report_is_confined[of 429 default_controller "''p''" "''a''" "[]" None 5
      "\<lparr>rs_breakers = [], rs_sems = empty_store\<rparr>"]
    failure_report_is_confined[of 503 default_controller "''p''" "''a''" "''h''" None 5
      "\<lparr>rs_breakers = [], rs_sems = empty_store\<rparr>"]
  by (simp add: is_provider_failure_status_def provider_failure_codes_def breaker_key_def)

text \<open>A reservation that the provider's breaker refuses takes no slot: the semaphores are left
  exactly as they were, so a request that is refused holds nothing; and a refusal always comes
  with the hint of an open breaker or of one whose probe slots are taken.\<close>
theorem breaker_refusal_takes_no_slot:
  assumes "\<not> fst (allow (fst (breaker_for_key (rs_breakers r) p h (ct_breaker c))) now)"
  shows "fst (reserve c p a h now w r) = None \<and> rs_sems (snd (reserve c p a h now w r)) = rs_sems r \<and>
    b_state (fst (breaker_for_key (rs_breakers r) p h (ct_breaker c))) \<in> {Open, HalfOpen}"
proof -
  have "\<not> d_allowed (fst (admit c p a h now r))" using assms by (simp add: admit_fst)
  moreover have "b_state (fst (breaker_for_key (rs_breakers r) p h (ct_breaker c))) \<in> {Open, HalfOpen}"
    using assms by (auto simp: allow_def split: bstate.splits)
  ultimately show ?thesis by (simp add: reserve_refused)
qed

lemma breaker_refusal_takes_no_slot_witness:
  "let b = record_failure (fresh_breaker ''p'' \<lparr>failure_threshold = 1, reset_timeout = 10,
             half_open_requests = 1, max_backoff_multiplier = 4, backoff_escalation_count = 3\<rparr>) 100;
       r = \<lparr>rs_breakers = [(''p'', b)], rs_sems = empty_store\<rparr>
   in fst (reserve default_controller ''p'' ''a'' [] 105 0 r) = None \<and>
      rs_sems (snd (reserve default_controller ''p'' ''a'' [] 105 0 r)) = empty_store"
proof -
  let ?b = "record_failure (fresh_breaker ''p'' \<lparr>failure_threshold = 1, reset_timeout = 10,
             half_open_requests = 1, max_backoff_multiplier = 4, backoff_escalation_count = 3\<rparr>) 100"
  let ?r = "\<lparr>rs_breakers = [(''p'', ?b)], rs_sems = empty_store\<rparr>"
  have "\<not> fst (allow ?b 105)" by code_simp
  then have "\<not> fst (allow (fst (breaker_for_key (rs_breakers ?r) ''p'' [] (ct_breaker default_controller))) 105)"
    by (simp add: breaker_for_key_def breaker_key_def Let_def)
  from breaker_refusal_takes_no_slot[OF this] show ?thesis by simp
qed

end
