(* ===== verification/GoStrings.thy ===== *)
theory GoStrings
  imports RouterPrelude "HOL-Library.Char_ord" "HOL-Library.List_Lexorder"
begin

text \<open>
  The operations of Go's \<open>strings\<close> package the program uses, on byte strings. A string
  is its list of bytes; case mapping and white space are the ASCII ones, which are the only
  characters the identifiers, modes and patterns of the program are made of. The order on
  strings is the byte-wise lexicographic one, as in \<open>sort.Strings\<close> and
  \<open>strings.Compare\<close>.
\<close>

definition is_space :: "char \<Rightarrow> bool" where
  "is_space c \<longleftrightarrow> (let n = of_char c :: nat in n = 32 \<or> (9 \<le> n \<and> n \<le> 13))"

definition trim_left :: "string \<Rightarrow> string" where
  "trim_left s = dropWhile is_space s"

definition trim_right :: "string \<Rightarrow> string" where
  "trim_right s = rev (dropWhile is_space (rev s))"

definition trim_space :: "string \<Rightarrow> string" where
  "trim_space s = trim_right (trim_left s)"

definition lower_char :: "char \<Rightarrow> char" where
  "lower_char c = (let n = of_char c :: nat in if 65 \<le> n \<and> n \<le> 90 then char_of (n + 32) else c)"

definition to_lower :: "string \<Rightarrow> string" where
  "to_lower s = map lower_char s"

definition equal_fold :: "string \<Rightarrow> string \<Rightarrow> bool" where
  "equal_fold a b \<longleftrightarrow> to_lower a = to_lower b"

fun has_prefix :: "string \<Rightarrow> string \<Rightarrow> bool" where
  "has_prefix [] s = True"
| "has_prefix (p # ps) [] = False"
| "has_prefix (p # ps) (c # s) = (p = c \<and> has_prefix ps s)"

definition has_suffix :: "string \<Rightarrow> string \<Rightarrow> bool" where
  "has_suffix p s = has_prefix (rev p) (rev s)"

definition trim_prefix :: "string \<Rightarrow> string \<Rightarrow> string" where
  "trim_prefix p s = (if has_prefix p s then drop (length p) s else s)"

definition cut_prefix :: "string \<Rightarrow> string \<Rightarrow> string option" where
  "cut_prefix p s = (if has_prefix p s then Some (drop (length p) s) else None)"

primrec contains_str :: "string \<Rightarrow> string \<Rightarrow> bool" where
  "contains_str [] sub = (sub = [])"
| "contains_str (c # s) sub = (has_prefix sub (c # s) \<or> contains_str s sub)"

text \<open>\<open>strings.Split\<close> on a one-byte separator: always at least one part.\<close>

primrec split_on :: "char \<Rightarrow> string \<Rightarrow> string list" where
  "split_on d [] = [[]]"
| "split_on d (c # s) =
     (if c = d then [] # split_on d s
      else (case split_on d s of [] \<Rightarrow> [[c]] | p # ps \<Rightarrow> (c # p) # ps))"

text \<open>\<open>strings.IndexByte\<close> and \<open>strings.LastIndex\<close> of one byte.\<close>

primrec index_byte :: "char \<Rightarrow> string \<Rightarrow> nat option" where
  "index_byte d [] = None"
| "index_byte d (c # s) = (if c = d then Some 0 else map_option Suc (index_byte d s))"

definition last_index_byte :: "char \<Rightarrow> string \<Rightarrow> nat option" where
  "last_index_byte d s = map_option (\<lambda>i. length s - 1 - i) (index_byte d (rev s))"

text \<open>\<open>strings.Cut\<close> on one byte: the parts before and after its first occurrence.\<close>

definition cut_byte :: "char \<Rightarrow> string \<Rightarrow> (string \<times> string) option" where
  "cut_byte d s = map_option (\<lambda>i. (take i s, drop (Suc i) s)) (index_byte d s)"

definition is_digit :: "char \<Rightarrow> bool" where
  "is_digit c \<longleftrightarrow> (let n = of_char c :: nat in 48 \<le> n \<and> n \<le> 57)"

definition digit_val :: "char \<Rightarrow> int" where
  "digit_val c = int (of_char c) - 48"

definition max_int :: int where
  "max_int = 9223372036854775807"

text \<open>
  \<open>strconv.Atoi\<close> on a string of digits: an empty string or a value beyond the 64-bit
  range is an error.
\<close>

definition digits_val :: "string \<Rightarrow> int" where
  "digits_val s = foldl (\<lambda>n c. 10 * n + digit_val c) 0 s"

definition atoi_digits :: "string \<Rightarrow> int option" where
  "atoi_digits s =
     (if s \<noteq> [] \<and> list_all is_digit s \<and> digits_val s \<le> max_int then Some (digits_val s) else None)"

text \<open>\<open>strconv.Atoi\<close> with its optional sign.\<close>

definition atoi :: "string \<Rightarrow> int option" where
  "atoi s =
     (case s of
        CHR ''-'' # r \<Rightarrow> (if r \<noteq> [] \<and> list_all is_digit r \<and> digits_val r \<le> max_int + 1 then Some (- digits_val r) else None)
      | CHR ''+'' # r \<Rightarrow> atoi_digits r
      | _ \<Rightarrow> atoi_digits s)"

text \<open>\<open>strconv.Itoa\<close> on a natural number.\<close>

fun itoa_nat :: "nat \<Rightarrow> string" where
  "itoa_nat n = (if n < 10 then [char_of (48 + n)] else itoa_nat (n div 10) @ [char_of (48 + n mod 10)])"

declare itoa_nat.simps [simp del]

section \<open>Facts\<close>

lemma has_prefix_iff: "has_prefix p s \<longleftrightarrow> take (length p) s = p"
  by (induction p s rule: has_prefix.induct) auto

lemma has_prefix_append [simp]: "has_prefix p (p @ s)"
  by (simp add: has_prefix_iff)

lemma has_prefix_drop: "has_prefix p s \<Longrightarrow> s = p @ drop (length p) s"
  by (metis append_take_drop_id has_prefix_iff)

lemma contains_str_iff: "contains_str s sub \<longleftrightarrow> (\<exists>a b. s = a @ sub @ b)"
proof (induction s)
  case (Cons c s)
  show ?case
  proof
    assume "contains_str (c # s) sub"
    then consider "has_prefix sub (c # s)" | "contains_str s sub" by auto
    then show "\<exists>a b. c # s = a @ sub @ b"
    proof cases
      case 1
      then have "c # s = [] @ sub @ drop (length sub) (c # s)"
        using has_prefix_drop[of sub "c # s"] by simp
      then show ?thesis by blast
    next
      case 2
      then obtain a b where "s = a @ sub @ b" using Cons.IH by blast
      then have "c # s = (c # a) @ sub @ b" by simp
      then show ?thesis by blast
    qed
  next
    assume "\<exists>a b. c # s = a @ sub @ b"
    then obtain a b where ab: "c # s = a @ sub @ b" by blast
    show "contains_str (c # s) sub"
    proof (cases a)
      case Nil
      with ab have "has_prefix sub (c # s)" by (metis append_Nil has_prefix_append)
      then show ?thesis by simp
    next
      case (Cons x a')
      with ab Cons.IH show ?thesis by auto
    qed
  qed
qed auto

lemma to_lower_append [simp]: "to_lower (a @ b) = to_lower a @ to_lower b"
  by (simp add: to_lower_def)

lemma length_to_lower [simp]: "length (to_lower s) = length s"
  by (simp add: to_lower_def)

lemma lower_char_idem [simp]: "lower_char (lower_char c) = lower_char c"
  by (auto simp: lower_char_def Let_def)

lemma to_lower_idem [simp]: "to_lower (to_lower s) = to_lower s"
  by (simp add: to_lower_def)

lemma split_on_ne [simp]: "split_on d s \<noteq> []"
  by (induction s) (auto split: list.splits)

lemma split_on_no_sep: "p \<in> set (split_on d s) \<Longrightarrow> d \<notin> set p"
  by (induction s arbitrary: p) (auto split: list.splits if_splits)

lemma split_on_single: "d \<notin> set s \<Longrightarrow> split_on d s = [s]"
  by (induction s) auto

lemma split_on_sep_length: "d \<in> set s \<Longrightarrow> 2 \<le> length (split_on d s)"
proof (induction s)
  case (Cons a s)
  have "1 \<le> length (split_on d s)" by (cases "split_on d s") (use split_on_ne in auto)
  with Cons show ?case by (auto split: list.splits)
qed simp

lemma dropWhile_not_space: "xs \<noteq> [] \<Longrightarrow> \<not> P (hd xs) \<Longrightarrow> dropWhile P xs = xs"
  by (cases xs) auto

lemma trim_right_idem [simp]: "trim_right (trim_right s) = trim_right s"
  by (simp add: trim_right_def)

lemma trim_left_trim_right:
  "trim_left (trim_right (trim_left s)) = trim_right (trim_left s)"
proof (cases "trim_right (trim_left s) = []")
  case False
  obtain u where u: "trim_left s = trim_right (trim_left s) @ u"
    unfolding trim_right_def by (metis rev_append rev_rev_ident takeWhile_dropWhile_id)
  have "dropWhile is_space s \<noteq> []" using False unfolding trim_left_def trim_right_def by fastforce
  then have "\<not> is_space (hd (trim_left s))"
    unfolding trim_left_def by (rule hd_dropWhile)
  moreover have "hd (trim_left s) = hd (trim_right (trim_left s))"
    using u False by (metis hd_append2)
  ultimately show ?thesis using False by (simp add: trim_left_def[of "trim_right _"] dropWhile_not_space)
qed (simp add: trim_left_def)

lemma trim_space_idem [simp]: "trim_space (trim_space s) = trim_space s"
  by (simp add: trim_space_def trim_left_trim_right)

section \<open>Searching for a byte\<close>

lemma index_byte_append: "d \<notin> set p \<Longrightarrow> index_byte d (p @ d # s) = Some (length p)"
  by (induction p) auto

lemma cut_byte_append: "d \<notin> set p \<Longrightarrow> cut_byte d (p @ d # s) = Some (p, s)"
  by (simp add: cut_byte_def index_byte_append)

lemma index_byte_None: "index_byte d e = None \<longleftrightarrow> d \<notin> set e"
  by (induction e) auto

lemma cut_byte_None: "cut_byte d e = None \<longleftrightarrow> d \<notin> set e"
  by (simp add: cut_byte_def index_byte_None)

lemma cut_byte_Some: "d \<in> set e \<longleftrightarrow> (\<exists>p m. cut_byte d e = Some (p, m))"
  unfolding cut_byte_def using index_byte_None[of d e] by (cases "index_byte d e") auto

lemma last_index_append: "d \<notin> set s \<Longrightarrow> last_index_byte d (p @ d # s) = Some (length p)"
  using index_byte_append[of d "rev s" "rev p"] by (simp add: last_index_byte_def)

end
