(* ===== verification/SmartCombo.thy ===== *)
theory SmartCombo
  imports GoStrings
begin

text \<open>
  The pattern rules that keep a combo's membership in step with the catalogue,
  \<open>internal/combos/smart/smart.go\<close>. Go's regular-expression engine is the parameter
  \<open>rx\<close>: \<open>rx e\<close> is \<open>None\<close> when \<open>regexp.Compile e\<close> fails and the matcher
  \<open>MatchString\<close> otherwise. It is only reached by rules whose mode is \<open>regex\<close>; the
  expression \<open>matchGlob\<close> builds out of quoted literals and \<open>.*\<close> is spelled out as
  \<open>glob_parts\<close>. The human-readable half of an error is left out.
\<close>

section \<open>Rules and candidates\<close>

definition mode_glob :: string where "mode_glob = ''glob''"
definition mode_keyword :: string where "mode_keyword = ''keyword''"
definition mode_regex :: string where "mode_regex = ''regex''"
definition effect_include :: string where "effect_include = ''include''"
definition effect_exclude :: string where "effect_exclude = ''exclude''"
definition regex_prefix :: string where "regex_prefix = ''re:''"
definition default_max_members :: int where "default_max_members = 20"
definition kind_llm :: string where "kind_llm = ''llm''"

lemmas smart_consts = mode_glob_def mode_keyword_def mode_regex_def effect_include_def
  effect_exclude_def regex_prefix_def default_max_members_def kind_llm_def

record rule =
  r_id :: string
  r_pattern :: string
  r_mode :: string
  r_effect :: string
  r_enabled :: bool
  r_max_members :: int
  r_all_kinds :: bool
  r_resolved :: "string list"
  r_excluded :: "string list"

record candidate =
  c_id :: string
  c_bare :: string
  c_alt :: string
  c_kind :: string
  c_addable :: bool
  c_live :: bool

record rule_preview =
  pv_id :: string
  pv_matched :: int
  pv_applied :: int
  pv_capped :: bool

text \<open>The decode shape: an absent \<open>enabled\<close> or \<open>maxMembers\<close> is \<open>None\<close>.\<close>

record rule_wire =
  w_id :: string
  w_pattern :: string
  w_mode :: string
  w_effect :: string
  w_enabled :: "bool option"
  w_max_members :: "int option"
  w_all_kinds :: bool
  w_resolved :: "string list"
  w_excluded :: "string list"

text \<open>Trims, drops blanks and dedupes, keeping first-seen order.\<close>

definition clean_ids :: "string list \<Rightarrow> string list" where
  "clean_ids ids = dedupe_onto [] (filter (\<lambda>i. i \<noteq> []) (map trim_space ids))"

definition union_ids :: "string list \<Rightarrow> string list \<Rightarrow> string list" where
  "union_ids a b = clean_ids (a @ b)"

definition remove_ids :: "string list \<Rightarrow> string list \<Rightarrow> string list" where
  "remove_ids ids drop' = (if drop' = [] then ids else filter (\<lambda>i. i \<notin> set drop') ids)"

definition wire_rule :: "rule_wire \<Rightarrow> rule" where
  "wire_rule w = \<lparr>
     r_id = trim_space (w_id w),
     r_pattern = trim_space (w_pattern w),
     r_mode = (let m = trim_space (w_mode w) in if m = [] then mode_glob else m),
     r_effect = (let e = trim_space (w_effect w) in if e = [] then effect_include else e),
     r_enabled = (case w_enabled w of None \<Rightarrow> True | Some b \<Rightarrow> b),
     r_max_members = (case w_max_members w of None \<Rightarrow> default_max_members | Some n \<Rightarrow> n),
     r_all_kinds = w_all_kinds w,
     r_resolved = clean_ids (w_resolved w),
     r_excluded = clean_ids (w_excluded w)\<rparr>"

definition normalize_rule :: "rule \<Rightarrow> rule" where
  "normalize_rule r =
     (let r = (if trim_space (r_mode r) = [] then r\<lparr>r_mode := mode_glob\<rparr> else r);
          r = (if trim_space (r_effect r) = [] then r\<lparr>r_effect := effect_include\<rparr> else r);
          r = (if r_max_members r = 0 then r\<lparr>r_max_members := default_max_members\<rparr> else r)
      in r\<lparr>r_pattern := trim_space (r_pattern r), r_resolved := clean_ids (r_resolved r),
           r_excluded := clean_ids (r_excluded r)\<rparr>)"

primrec assign_ids_from :: "nat \<Rightarrow> rule list \<Rightarrow> rule list" where
  "assign_ids_from n [] = []"
| "assign_ids_from n (r # rs) =
     (if r_id r = [] then r\<lparr>r_id := ''r'' @ itoa_nat (Suc n)\<rparr> else r) # assign_ids_from (Suc n) rs"

definition assign_ids :: "rule list \<Rightarrow> rule list" where
  "assign_ids rs = assign_ids_from 0 rs"

text \<open>The two typed branches of \<open>DecodeRules\<close>; the JSON decoding before them is not modelled.\<close>

definition decode_typed_rules :: "rule list \<Rightarrow> rule list" where
  "decode_typed_rules rs = assign_ids (map normalize_rule rs)"

definition decode_wire_rules :: "rule_wire list \<Rightarrow> rule list" where
  "decode_wire_rules ws = assign_ids (map wire_rule ws)"

definition has_rules :: "string \<Rightarrow> bool" where
  "has_rules raw \<longleftrightarrow> trim_space raw \<notin> {[], ''[]'', ''null''}"

section \<open>Validation\<close>

type_synonym regex_engine = "string \<Rightarrow> (string \<Rightarrow> bool) option"

definition validate_rule :: "regex_engine \<Rightarrow> rule \<Rightarrow> string option" where
  "validate_rule rx r =
     (let pattern = trim_space (r_pattern r)
      in if pattern = [] then Some ''EMPTY_PATTERN''
         else if has_prefix ''!'' pattern \<or> has_prefix ''-'' pattern then Some ''INVALID_RULE_PATTERN''
         else if r_mode r = mode_glob \<and> contains_str pattern ''!''
              \<and> list_ex (\<lambda>seg. has_prefix ''!'' seg \<and> trim_prefix ''!'' seg = []) (split_on (CHR ''*'') pattern)
         then Some ''INVALID_RULE_PATTERN''
         else (let mode_err =
                 (if r_mode r = mode_glob \<or> r_mode r = mode_keyword then None
                  else if r_mode r = mode_regex
                  then (case cut_prefix regex_prefix pattern of
                          None \<Rightarrow> Some ''INVALID_REGEX''
                        | Some e \<Rightarrow> (case rx e of None \<Rightarrow> Some ''INVALID_REGEX'' | Some _ \<Rightarrow> None))
                  else Some ''INVALID_RULE_MODE'')
               in case mode_err of
                    Some c \<Rightarrow> Some c
                  | None \<Rightarrow>
                      (if r_effect r \<noteq> effect_include \<and> r_effect r \<noteq> effect_exclude
                       then Some ''INVALID_RULE_EFFECT''
                       else if r_max_members r < 0 then Some ''INVALID_RULE_LIMIT''
                       else None)))"

primrec validate_all :: "regex_engine \<Rightarrow> rule list \<Rightarrow> string option" where
  "validate_all rx [] = None"
| "validate_all rx (r # rs) =
     (case validate_rule rx r of Some c \<Rightarrow> Some c | None \<Rightarrow> validate_all rx rs)"

section \<open>Matching\<close>

text \<open>
  The language of the anchored expression \<open>^p0.*p1.* \<dots> .*pn$\<close> over quoted literals:
  \<open>.\<close> matches every byte but a newline.
\<close>

function glob_parts :: "string list \<Rightarrow> string \<Rightarrow> bool"
  and glob_star :: "string list \<Rightarrow> string \<Rightarrow> bool" where
  "glob_parts [] s = (s = [])"
| "glob_parts [p] s = (s = p)"
| "glob_parts (p # q # ps) s = (has_prefix p s \<and> glob_star (q # ps) (drop (length p) s))"
| "glob_star ps s =
     (glob_parts ps s \<or>
      (case s of [] \<Rightarrow> False | c # s' \<Rightarrow> c \<noteq> CHR 0x0A \<and> glob_star ps s'))"
  by pat_completeness auto
termination
  by (relation "measures [\<lambda>x. case x of Inl (ps, s) \<Rightarrow> length ps | Inr (ps, s) \<Rightarrow> length ps,
                          \<lambda>x. case x of Inl (ps, s) \<Rightarrow> length s | Inr (ps, s) \<Rightarrow> length s,
                          \<lambda>x. case x of Inl _ \<Rightarrow> 0 | Inr _ \<Rightarrow> 1]") auto

declare glob_star.simps [simp del]

definition match_glob :: "string \<Rightarrow> string \<Rightarrow> bool" where
  "match_glob pattern0 model_id =
     (let pattern = trim_space pattern0; target = trim_space model_id
      in if pattern = [] \<or> target = [] then False
         else if \<not> contains_str pattern ''*'' then equal_fold pattern target
         else if pattern = ''*'' then True
         else (let parts = split_on (CHR ''*'') pattern;
                   negatives = map (trim_prefix ''!'') (filter (has_prefix ''!'') parts);
                   positives = filter (\<lambda>p. \<not> has_prefix ''!'' p) parts;
                   lower = to_lower target
               in if list_ex (\<lambda>n. n \<noteq> [] \<and> contains_str lower (to_lower n)) negatives then False
                  else if positives = [] \<or> positives = [[]] then False
                  else glob_parts (map to_lower positives) lower))"

record compiled_rule =
  cp_rule :: rule
  cp_re :: "string \<Rightarrow> bool"

definition compile_rule :: "regex_engine \<Rightarrow> rule \<Rightarrow> compiled_rule option" where
  "compile_rule rx r =
     (if r_mode r = mode_regex
      then (let expr = trim_prefix regex_prefix (trim_space (r_pattern r))
            in case rx (''^(?:'' @ expr @ '')$'') of
                 None \<Rightarrow> None
               | Some m \<Rightarrow> Some \<lparr>cp_rule = r, cp_re = m\<rparr>)
      else Some \<lparr>cp_rule = r, cp_re = (\<lambda>_. False)\<rparr>)"

primrec compile_all :: "regex_engine \<Rightarrow> rule list \<Rightarrow> compiled_rule list option" where
  "compile_all rx [] = Some []"
| "compile_all rx (r # rs) =
     (case compile_rule rx r of
        None \<Rightarrow> None
      | Some c \<Rightarrow> map_option (\<lambda>cs. c # cs) (compile_all rx rs))"

definition rule_matches :: "compiled_rule \<Rightarrow> candidate \<Rightarrow> bool" where
  "rule_matches c cand =
     (let pat = r_pattern (cp_rule c)
      in if r_mode (cp_rule c) = mode_regex
         then cp_re c (c_id cand) \<or> cp_re c (c_bare cand) \<or> (c_alt cand \<noteq> [] \<and> cp_re c (c_alt cand))
         else if r_mode (cp_rule c) = mode_keyword
         then (let term' = to_lower (trim_space pat)
               in contains_str (to_lower (c_id cand)) term' \<or> contains_str (to_lower (c_bare cand)) term'
                  \<or> (c_alt cand \<noteq> [] \<and> contains_str (to_lower (c_alt cand)) term'))
         else match_glob pat (c_id cand) \<or> match_glob pat (c_bare cand)
              \<or> (c_alt cand \<noteq> [] \<and> match_glob pat (c_alt cand)))"

section \<open>Planning\<close>

definition deny_ids :: "candidate list \<Rightarrow> compiled_rule list \<Rightarrow> string list" where
  "deny_ids cands cs =
     List.maps (\<lambda>c. if \<not> r_enabled (cp_rule c) \<or> r_effect (cp_rule c) \<noteq> effect_exclude then []
                    else map c_id (filter (rule_matches c) cands)) cs"

definition add_live :: "candidate \<Rightarrow> (string \<Rightarrow> candidate option) \<Rightarrow> (string \<Rightarrow> candidate option)" where
  "add_live cand m =
     (if \<not> c_live cand then m
      else (let m = m(c_id cand \<mapsto> cand);
                m = (if c_bare cand \<noteq> [] then m(c_bare cand \<mapsto> cand) else m)
            in if c_alt cand \<noteq> [] then m(c_alt cand \<mapsto> cand) else m))"

definition live_by_id :: "candidate list \<Rightarrow> string \<Rightarrow> candidate option" where
  "live_by_id cands = fold add_live cands (\<lambda>_. None)"

definition present_canonical :: "(string \<Rightarrow> candidate option) \<Rightarrow> string list \<Rightarrow> string list" where
  "present_canonical live models =
     List.maps (\<lambda>m. case live m of None \<Rightarrow> [] | Some c \<Rightarrow> [c_id c]) models"

definition user_removed :: "string list \<Rightarrow> rule \<Rightarrow> string list" where
  "user_removed models r = filter (\<lambda>i. i \<notin> set models) (r_resolved r)"

definition selects :: "string list \<Rightarrow> compiled_rule \<Rightarrow> rule \<Rightarrow> candidate \<Rightarrow> bool" where
  "selects deny c r cand \<longleftrightarrow>
     c_addable cand \<and> c_live cand
     \<and> c_id cand \<notin> set deny
     \<and> (r_all_kinds r \<or> c_kind cand = kind_llm)
     \<and> \<not> (c_id cand \<in> set (r_excluded r) \<or> c_bare cand \<in> set (r_excluded r)
          \<or> (c_alt cand \<noteq> [] \<and> c_alt cand \<in> set (r_excluded r)))
     \<and> rule_matches c cand"

text \<open>The second loop of the cap: fills up to the limit with models not present yet.\<close>

primrec fill_cap :: "int \<Rightarrow> string list \<Rightarrow> string list \<Rightarrow> string list \<Rightarrow> string list" where
  "fill_cap mx present kept [] = kept"
| "fill_cap mx present kept (i # ids) =
     (if int (length kept) \<ge> mx then kept
      else fill_cap mx present (if i \<notin> set present then kept @ [i] else kept) ids)"

definition cap_desired :: "int \<Rightarrow> string list \<Rightarrow> string list \<Rightarrow> string list \<times> bool" where
  "cap_desired mx present desired =
     (if mx > 0 \<and> int (length desired) > mx
      then (fill_cap mx present (filter (\<lambda>i. i \<in> set present) desired) desired, True)
      else (desired, False))"

definition to_remove :: "(string \<Rightarrow> candidate option) \<Rightarrow> string list \<Rightarrow> rule \<Rightarrow> string list" where
  "to_remove live desired r =
     filter (\<lambda>i. i \<notin> set desired \<and>
        (case live i of
           None \<Rightarrow> True
         | Some cand \<Rightarrow> c_addable cand \<and> c_id cand \<notin> set desired)) (r_resolved r)"

definition to_add :: "string list \<Rightarrow> string list \<Rightarrow> rule \<Rightarrow> string list" where
  "to_add present desired r =
     filter (\<lambda>i. \<not> (i \<in> set (r_resolved r) \<or> i \<in> set present)) desired"

record plan =
  p_models :: "string list"
  p_rules :: "rule list"
  p_added :: "string list"
  p_removed :: "string list"
  p_dirty :: bool
  p_previews :: "rule_preview list"
  p_present :: "string list"

text \<open>
  The parts of one iteration of the main loop of \<open>buildPlan\<close>, for an enabled include
  rule: the rule with its fresh manual removals, the ids it selects, the cap, and what it
  takes out of and puts into the combo.
\<close>

definition active :: "rule \<Rightarrow> bool" where
  "active r \<longleftrightarrow> r_enabled r \<and> r_effect r = effect_include"

definition step_rule :: "string list \<Rightarrow> rule \<Rightarrow> rule" where
  "step_rule models r =
     (let gone = user_removed models r
      in if gone \<noteq> [] then r\<lparr>r_excluded := union_ids (r_excluded r) gone\<rparr> else r)"

definition step_matched :: "candidate list \<Rightarrow> string list \<Rightarrow> compiled_rule \<Rightarrow> plan \<Rightarrow> string list" where
  "step_matched cands deny c p =
     map c_id (filter (selects deny c (step_rule (p_models p) (cp_rule c))) cands)"

definition step_cap ::
  "candidate list \<Rightarrow> string list \<Rightarrow> compiled_rule \<Rightarrow> plan \<Rightarrow> string list \<times> bool" where
  "step_cap cands deny c p =
     cap_desired (r_max_members (cp_rule c)) (p_present p) (sort (step_matched cands deny c p))"

abbreviation step_desired :: "candidate list \<Rightarrow> string list \<Rightarrow> compiled_rule \<Rightarrow> plan \<Rightarrow> string list" where
  "step_desired cands deny c p \<equiv> fst (step_cap cands deny c p)"

definition step_remove ::
  "candidate list \<Rightarrow> (string \<Rightarrow> candidate option) \<Rightarrow> string list \<Rightarrow> compiled_rule \<Rightarrow> plan \<Rightarrow> string list" where
  "step_remove cands live deny c p = to_remove live (step_desired cands deny c p) (cp_rule c)"

definition step_add :: "candidate list \<Rightarrow> string list \<Rightarrow> compiled_rule \<Rightarrow> plan \<Rightarrow> string list" where
  "step_add cands deny c p = to_add (p_present p) (step_desired cands deny c p) (cp_rule c)"

text \<open>One iteration; the rule it refreshes goes to \<open>p_rules\<close>.\<close>

definition plan_rule ::
  "candidate list \<Rightarrow> (string \<Rightarrow> candidate option) \<Rightarrow> string list \<Rightarrow> compiled_rule \<Rightarrow> plan \<Rightarrow> plan" where
  "plan_rule cands live deny c p =
     (if \<not> active (cp_rule c)
      then p\<lparr>p_rules := p_rules p @ [cp_rule c],
             p_previews := p_previews p @
               [\<lparr>pv_id = r_id (cp_rule c), pv_matched = int (length (r_resolved (cp_rule c))),
                 pv_applied = int (length (r_resolved (cp_rule c))), pv_capped = False\<rparr>]\<rparr>
      else p\<lparr>p_models := remove_ids (p_models p) (step_remove cands live deny c p)
                          @ step_add cands deny c p,
             p_rules := p_rules p @
               [(step_rule (p_models p) (cp_rule c))\<lparr>r_resolved := step_desired cands deny c p\<rparr>],
             p_added := p_added p @ step_add cands deny c p,
             p_removed := p_removed p @ step_remove cands live deny c p,
             p_dirty := (p_dirty p \<or> user_removed (p_models p) (cp_rule c) \<noteq> []
                         \<or> step_remove cands live deny c p \<noteq> [] \<or> step_add cands deny c p \<noteq> []),
             p_previews := p_previews p @
               [\<lparr>pv_id = r_id (cp_rule c), pv_matched = int (length (step_matched cands deny c p)),
                 pv_applied = int (length (step_desired cands deny c p)),
                 pv_capped = snd (step_cap cands deny c p)\<rparr>],
             p_present := p_present p @ step_add cands deny c p\<rparr>)"

definition start_plan :: "(string \<Rightarrow> candidate option) \<Rightarrow> string list \<Rightarrow> plan" where
  "start_plan live models =
     (let ms = clean_ids models
      in \<lparr>p_models = ms, p_rules = [], p_added = [], p_removed = [],
          p_dirty = (length ms \<noteq> length models), p_previews = [],
          p_present = present_canonical live ms\<rparr>)"

definition build_plan ::
  "regex_engine \<Rightarrow> string list \<Rightarrow> rule list \<Rightarrow> candidate list \<Rightarrow> plan option" where
  "build_plan rx models rules cands =
     (case compile_all rx rules of
        None \<Rightarrow> None
      | Some cs \<Rightarrow>
          (let live = live_by_id cands; deny = deny_ids cands cs
           in Some (fold (plan_rule cands live deny) cs (start_plan live models))))"

definition reconcile ::
  "regex_engine \<Rightarrow> string list \<Rightarrow> rule list \<Rightarrow> candidate list \<Rightarrow>
   (string list \<times> rule list \<times> bool) option" where
  "reconcile rx models rules cands =
     map_option (\<lambda>p. (p_models p, p_rules p, p_dirty p)) (build_plan rx models rules cands)"

record preview_result =
  pr_models :: "string list"
  pr_added :: "string list"
  pr_removed :: "string list"
  pr_rules :: "rule_preview list"

definition preview ::
  "regex_engine \<Rightarrow> string list \<Rightarrow> rule list \<Rightarrow> candidate list \<Rightarrow> preview_result option" where
  "preview rx models rules cands =
     map_option (\<lambda>p. \<lparr>pr_models = p_models p, pr_added = p_added p, pr_removed = p_removed p,
                       pr_rules = p_previews p\<rparr>) (build_plan rx models rules cands)"

definition auto_members :: "rule list \<Rightarrow> string list" where
  "auto_members rules =
     sort (dedupe_onto [] (List.maps (\<lambda>r. if \<not> r_enabled r \<or> r_effect r \<noteq> effect_include then []
                                          else r_resolved r) rules))"

section \<open>The glob language\<close>

text \<open>The declarative reading: literals in order, with newline-free gaps between them.\<close>

fun weave :: "string list \<Rightarrow> string list \<Rightarrow> string" where
  "weave [] gaps = []"
| "weave [p] gaps = p"
| "weave (p # q # ps) [] = p @ weave (q # ps) []"
| "weave (p # q # ps) (g # gs) = p @ g @ weave (q # ps) gs"

definition glob_lang :: "string list \<Rightarrow> string \<Rightarrow> bool" where
  "glob_lang ps s \<longleftrightarrow>
     (\<exists>gaps. length gaps + 1 = length ps \<and> (\<forall>g\<in>set gaps. CHR 0x0A \<notin> set g) \<and> s = weave ps gaps)"

lemma glob_star_iff: "glob_star ps s \<longleftrightarrow> (\<exists>g t. s = g @ t \<and> CHR 0x0A \<notin> set g \<and> glob_parts ps t)"
proof (induction s)
  case Nil
  then show ?case by (simp add: glob_star.simps[of ps "[]"])
next
  case (Cons c s)
  have "glob_star ps (c # s) \<longleftrightarrow> glob_parts ps (c # s) \<or> c \<noteq> CHR 0x0A \<and> glob_star ps s"
    by (subst glob_star.simps) simp
  also have "\<dots> \<longleftrightarrow> (\<exists>g t. c # s = g @ t \<and> CHR 0x0A \<notin> set g \<and> glob_parts ps t)" (is "?l \<longleftrightarrow> ?r")
  proof
    assume ?l
    then show ?r
    proof
      assume "glob_parts ps (c # s)"
      then have "c # s = [] @ (c # s) \<and> CHR 0x0A \<notin> set [] \<and> glob_parts ps (c # s)" by simp
      then show ?r by blast
    next
      assume "c \<noteq> CHR 0x0A \<and> glob_star ps s"
      then obtain g t where "s = g @ t" "CHR 0x0A \<notin> set g" "glob_parts ps t" "c \<noteq> CHR 0x0A"
        using Cons.IH by blast
      then have "c # s = (c # g) @ t \<and> CHR 0x0A \<notin> set (c # g) \<and> glob_parts ps t" by simp
      then show ?r by blast
    qed
  next
    assume ?r
    then obtain g t where gt: "c # s = g @ t" "CHR 0x0A \<notin> set g" "glob_parts ps t" by blast
    then show ?l using Cons.IH by (cases g) auto
  qed
  finally show ?case .
qed

lemma glob_parts_lang: "ps \<noteq> [] \<Longrightarrow> glob_parts ps s \<longleftrightarrow> glob_lang ps s"
proof (induction ps arbitrary: s rule: induct_list012)
  case (2 p)
  then show ?case by (auto simp: glob_lang_def)
next
  case (3 p q ps)
  show ?case
  proof
    assume "glob_parts (p # q # ps) s"
    then obtain g t where s: "s = p @ g @ t" "CHR 0x0A \<notin> set g" "glob_parts (q # ps) t"
      by (auto simp: glob_star_iff dest: has_prefix_drop)
    then obtain gaps where "length gaps + 1 = length (q # ps)" "\<forall>g\<in>set gaps. CHR 0x0A \<notin> set g"
        "t = weave (q # ps) gaps"
      using "3.IH"(2)[of t] by (auto simp: glob_lang_def)
    then show "glob_lang (p # q # ps) s"
      using s by (auto simp: glob_lang_def intro!: exI[of _ "g # gaps"])
  next
    assume "glob_lang (p # q # ps) s"
    then obtain gaps where gaps: "length gaps + 1 = length (p # q # ps)"
        "\<forall>g\<in>set gaps. CHR 0x0A \<notin> set g" "s = weave (p # q # ps) gaps"
      by (auto simp: glob_lang_def)
    then obtain g gs where "gaps = g # gs" by (cases gaps) auto
    then show "glob_parts (p # q # ps) s"
      using gaps "3.IH"(2)[of "weave (q # ps) gs"] by (auto simp: glob_star_iff glob_lang_def)
  qed
qed simp

section \<open>One rule at a time\<close>

lemma set_clean_ids: "set (clean_ids ids) = {i. i \<noteq> [] \<and> i \<in> trim_space ` set ids}"
  by (auto simp: clean_ids_def)

lemma distinct_clean_ids [simp]: "distinct (clean_ids ids)"
  by (simp add: clean_ids_def)

definition clean_list :: "string list \<Rightarrow> bool" where
  "clean_list ids \<longleftrightarrow> distinct ids \<and> (\<forall>i\<in>set ids. i \<noteq> [] \<and> trim_space i = i)"

lemma clean_list_clean_ids [simp]: "clean_list (clean_ids ids)"
  by (auto simp: clean_list_def set_clean_ids)

lemma clean_ids_id: "clean_list ids \<Longrightarrow> clean_ids ids = ids"
  by (auto simp: clean_list_def clean_ids_def dedupe_onto_id map_idI filter_id_conv)

lemma set_remove_ids [simp]: "set (remove_ids ids d) = set ids - set d"
  by (auto simp: remove_ids_def)

lemma distinct_remove_ids [simp]: "distinct ids \<Longrightarrow> distinct (remove_ids ids d)"
  by (simp add: remove_ids_def)

lemma step_rule_simps [simp]:
  "r_resolved (step_rule ms r) = r_resolved r" "r_max_members (step_rule ms r) = r_max_members r"
  "r_enabled (step_rule ms r) = r_enabled r" "r_effect (step_rule ms r) = r_effect r"
  "r_all_kinds (step_rule ms r) = r_all_kinds r" "r_mode (step_rule ms r) = r_mode r"
  "r_pattern (step_rule ms r) = r_pattern r"
  by (simp_all add: step_rule_def Let_def)

lemma plan_rule_inactive [simp]:
  assumes "\<not> active (cp_rule c)"
  shows "p_models (plan_rule cands live deny c p) = p_models p"
    and "p_rules (plan_rule cands live deny c p) = p_rules p @ [cp_rule c]"
    and "p_added (plan_rule cands live deny c p) = p_added p"
    and "p_removed (plan_rule cands live deny c p) = p_removed p"
    and "p_dirty (plan_rule cands live deny c p) = p_dirty p"
    and "p_present (plan_rule cands live deny c p) = p_present p"
  using assms by (simp_all add: plan_rule_def)

lemma plan_rule_active [simp]:
  assumes "active (cp_rule c)"
  shows "p_models (plan_rule cands live deny c p) =
      remove_ids (p_models p) (step_remove cands live deny c p) @ step_add cands deny c p"
    and "p_rules (plan_rule cands live deny c p) =
      p_rules p @ [(step_rule (p_models p) (cp_rule c))\<lparr>r_resolved := step_desired cands deny c p\<rparr>]"
    and "p_added (plan_rule cands live deny c p) = p_added p @ step_add cands deny c p"
    and "p_removed (plan_rule cands live deny c p) = p_removed p @ step_remove cands live deny c p"
    and "p_present (plan_rule cands live deny c p) = p_present p @ step_add cands deny c p"
    and "p_dirty (plan_rule cands live deny c p) \<longleftrightarrow> p_dirty p \<or>
      user_removed (p_models p) (cp_rule c) \<noteq> [] \<or> step_remove cands live deny c p \<noteq> [] \<or>
      step_add cands deny c p \<noteq> []"
  using assms by (simp_all add: plan_rule_def)

lemma step_remove_resolved: "set (step_remove cands live deny c p) \<subseteq> set (r_resolved (cp_rule c))"
  by (auto simp: step_remove_def to_remove_def)

lemma step_remove_addable:
  "i \<in> set (step_remove cands live deny c p) \<Longrightarrow> live i = Some cand \<Longrightarrow> c_addable cand"
  by (simp add: step_remove_def to_remove_def)

text \<open>The cap: what is present comes first, then models are filled in up to the limit.\<close>

lemma fill_cap_eq:
  "fill_cap mx pr kept ids =
     kept @ take (nat (mx - int (length kept))) (filter (\<lambda>i. i \<notin> set pr) ids)"
proof (induction ids arbitrary: kept)
  case (Cons i ids)
  show ?case
  proof (cases "mx \<le> int (length kept)")
    case False
    then obtain n where "nat (mx - int (length kept)) = Suc n"
      by (metis Suc_pred diff_gt_0_iff_gt not_le zero_less_nat_eq)
    moreover from this have "nat (mx - int (length (kept @ [i]))) = n" by simp
    ultimately show ?thesis using False Cons.IH[of kept] Cons.IH[of "kept @ [i]"] by simp
  qed simp
qed simp

lemma cap_eq:
  "fst (cap_desired mx pr ids) =
     (if 0 < mx \<and> mx < int (length ids)
      then filter (\<lambda>i. i \<in> set pr) ids @
           take (nat (mx - int (length (filter (\<lambda>i. i \<in> set pr) ids)))) (filter (\<lambda>i. i \<notin> set pr) ids)
      else ids)"
  by (simp add: cap_desired_def fill_cap_eq)

lemma cap_subset: "set (fst (cap_desired mx pr ids)) \<subseteq> set ids"
  by (auto simp: cap_eq dest: in_set_takeD)

lemma cap_present: "i \<in> set ids \<Longrightarrow> i \<in> set pr \<Longrightarrow> i \<in> set (fst (cap_desired mx pr ids))"
  by (simp add: cap_eq)

lemma cap_distinct: "distinct ids \<Longrightarrow> distinct (fst (cap_desired mx pr ids))"
  by (auto simp: cap_eq dest: in_set_takeD)

lemma cap_length:
  "0 < mx \<Longrightarrow> int (length (fst (cap_desired mx pr ids))) \<le>
     max mx (int (length (filter (\<lambda>i. i \<in> set pr) ids)))"
  by (auto simp: cap_eq)

lemma cap_new_length:
  assumes "0 < mx"
  shows "int (length (filter (\<lambda>i. i \<notin> set pr) (fst (cap_desired mx pr ids)))) \<le> mx"
proof (cases "mx < int (length ids)")
  case False
  moreover have "length (filter (\<lambda>i. i \<notin> set pr) ids) \<le> length ids" by (rule length_filter_le)
  ultimately have "int (length (filter (\<lambda>i. i \<notin> set pr) ids)) \<le> mx" by linarith
  with False show ?thesis by (simp add: cap_eq)
next
  case True
  let ?t = "take (nat (mx - int (length (filter (\<lambda>i. i \<in> set pr) ids)))) (filter (\<lambda>i. i \<notin> set pr) ids)"
  have "length (filter (\<lambda>i. i \<notin> set pr) ?t) \<le> length ?t" by (rule length_filter_le)
  also have "\<dots> \<le> nat (mx - int (length (filter (\<lambda>i. i \<in> set pr) ids)))" by simp
  also have "\<dots> \<le> nat mx" by (rule nat_mono) simp
  finally have "int (length (filter (\<lambda>i. i \<notin> set pr) ?t)) \<le> mx" using assms by linarith
  then show ?thesis using True assms by (simp add: cap_eq filter_empty_conv del: filter_filter)
qed

lemma step_desired_selected:
  assumes "i \<in> set (step_desired cands deny c p)"
  obtains cand where "cand \<in> set cands" "c_id cand = i"
    "selects deny c (step_rule (p_models p) (cp_rule c)) cand"
  using assms cap_subset unfolding step_cap_def step_matched_def by fastforce

lemma step_add_selected:
  assumes "i \<in> set (step_add cands deny c p)"
  obtains cand where "cand \<in> set cands" "c_id cand = i"
    "selects deny c (step_rule (p_models p) (cp_rule c)) cand"
    "i \<notin> set (r_resolved (cp_rule c))" "i \<notin> set (p_present p)"
  using assms step_desired_selected[of i cands deny c p] by (auto simp: step_add_def to_add_def)

section \<open>Whole passes\<close>

lemma compile_all_rules: "compile_all rx rules = Some cs \<Longrightarrow> map cp_rule cs = rules"
proof (induction rules arbitrary: cs)
  case (Cons r rs)
  then obtain c cs' where "compile_rule rx r = Some c" "compile_all rx rs = Some cs'" "cs = c # cs'"
    by (auto split: option.splits)
  moreover from this have "cp_rule c = r"
    by (auto simp: compile_rule_def Let_def split: if_splits option.splits)
  ultimately show ?case using Cons.IH by simp
qed simp

lemma fold_plan_invariant:
  assumes "P (p :: plan)" and "\<And>c q. c \<in> set cs \<Longrightarrow> P q \<Longrightarrow> P (plan_rule cands live deny c q)"
  shows "P (fold (plan_rule cands live deny) cs p)"
  using assms by (induction cs arbitrary: p) auto

lemma build_planE:
  assumes "build_plan rx models rules cands = Some p"
  obtains cs where "compile_all rx rules = Some cs" "map cp_rule cs = rules"
    "p = fold (plan_rule cands (live_by_id cands) (deny_ids cands cs)) cs
           (start_plan (live_by_id cands) models)"
  using assms compile_all_rules[of rx rules]
  by (auto simp: build_plan_def Let_def split: option.splits)

lemma plan_keeps:
  assumes m: "m \<in> set (p_models p)"
    and c: "\<forall>c\<in>set cs. active (cp_rule c) \<longrightarrow>
      m \<notin> set (r_resolved (cp_rule c)) \<or> (\<exists>cand. live m = Some cand \<and> \<not> c_addable cand)"
  shows "m \<in> set (p_models (fold (plan_rule cands live deny) cs p))"
proof (rule fold_plan_invariant[where P = "\<lambda>p :: plan. m \<in> set (p_models p)", OF m])
  fix c and q :: plan assume "c \<in> set cs" "m \<in> set (p_models q)"
  then show "m \<in> set (p_models (plan_rule cands live deny c q))"
    using c step_remove_resolved[of cands live deny c q] step_remove_addable[of m cands live deny c q]
    by (cases "active (cp_rule c)") auto
qed

lemma plan_added:
  "i \<in> set (p_added (fold (plan_rule cands live deny) cs p)) \<Longrightarrow> i \<in> set (p_added p) \<or>
   (\<exists>cand\<in>set cands. \<exists>c\<in>set cs. c_id cand = i \<and> active (cp_rule c) \<and> c_addable cand \<and> c_live cand
      \<and> i \<notin> set deny \<and> rule_matches c cand)"
proof (induction cs arbitrary: p)
  case (Cons c cs)
  from Cons.IH[of "plan_rule cands live deny c p"] Cons.prems
  consider "i \<in> set (p_added (plan_rule cands live deny c p))"
    | "\<exists>cand\<in>set cands. \<exists>c\<in>set cs. c_id cand = i \<and> active (cp_rule c) \<and> c_addable cand \<and> c_live cand
      \<and> i \<notin> set deny \<and> rule_matches c cand" by auto
  then show ?case
  proof cases
    case 1
    then show ?thesis
    proof (cases "active (cp_rule c) \<and> i \<notin> set (p_added p)")
      case True
      with 1 have "i \<in> set (step_add cands deny c p)" by simp
      then obtain cand where "cand \<in> set cands" "c_id cand = i"
          "selects deny c (step_rule (p_models p) (cp_rule c)) cand"
        by (rule step_add_selected)
      with True show ?thesis by (auto simp: selects_def)
    qed (use 1 in \<open>cases "active (cp_rule c)"; simp\<close>)
  qed auto
qed simp

lemma deny_idsI:
  "c \<in> set cs \<Longrightarrow> r_enabled (cp_rule c) \<Longrightarrow> r_effect (cp_rule c) = effect_exclude \<Longrightarrow>
   cand \<in> set cands \<Longrightarrow> rule_matches c cand \<Longrightarrow> c_id cand \<in> set (deny_ids cands cs)"
  by (auto simp: deny_ids_def)

text \<open>
  A catalogue whose spellings are unambiguous: the ids are trimmed and distinct, and no
  other spelling of a live model shadows the id of another.
\<close>

definition catalogue_ok :: "candidate list \<Rightarrow> bool" where
  "catalogue_ok cands \<longleftrightarrow> distinct (map c_id cands) \<and>
     (\<forall>c\<in>set cands. c_id c \<noteq> [] \<and> trim_space (c_id c) = c_id c \<and>
        (c_live c \<longrightarrow> live_by_id cands (c_id c) = Some c))"

definition plan_inv :: "candidate list \<Rightarrow> plan \<Rightarrow> bool" where
  "plan_inv cands p \<longleftrightarrow> clean_list (p_models p) \<and>
     (\<forall>m\<in>set (p_models p). \<forall>c. live_by_id cands m = Some c \<longrightarrow> c_id c \<in> set (p_present p))"

lemma distinct_step_desired:
  "catalogue_ok cands \<Longrightarrow> distinct (step_desired cands deny c p)"
  by (auto simp: step_cap_def step_matched_def catalogue_ok_def distinct_map
      intro!: cap_distinct inj_on_subset[of c_id "set cands"])

lemma plan_inv_step:
  assumes ok: "catalogue_ok cands" and inv: "plan_inv cands p"
  shows "plan_inv cands (plan_rule cands (live_by_id cands) deny c p)"
proof (cases "active (cp_rule c)")
  case True
  let ?add = "step_add cands deny c p"
  have add: "\<exists>cand\<in>set cands. c_id cand = i \<and> c_live cand \<and> i \<notin> set (p_present p)"
    if "i \<in> set ?add" for i
    using that step_add_selected[of i cands deny c p] unfolding selects_def by metis
  have new: "i \<notin> set (p_models p) \<and> i \<noteq> [] \<and> trim_space i = i \<and>
      (\<forall>cd. live_by_id cands i = Some cd \<longrightarrow> c_id cd = i)" if "i \<in> set ?add" for i
    using add[OF that] ok inv unfolding catalogue_ok_def plan_inv_def by fastforce
  have "distinct ?add"
    using distinct_step_desired[OF ok] by (simp add: step_add_def to_add_def)
  with True inv new show ?thesis
    by (auto simp: plan_inv_def clean_list_def)
qed (use inv in \<open>simp add: plan_inv_def\<close>)

lemma plan_inv_start: "plan_inv cands (start_plan (live_by_id cands) models)"
  by (force simp: plan_inv_def start_plan_def Let_def present_canonical_def)

lemma plan_inv_build:
  assumes "build_plan rx models rules cands = Some p" "catalogue_ok cands"
  shows "plan_inv cands p"
  using assms(1)
proof (rule build_planE)
  fix cs assume "p = fold (plan_rule cands (live_by_id cands) (deny_ids cands cs)) cs
      (start_plan (live_by_id cands) models)"
  then show ?thesis
    using fold_plan_invariant[where P = "plan_inv cands", OF plan_inv_start plan_inv_step[OF assms(2)]]
    by simp
qed


section \<open>What a pass may add, and how much\<close>

lemma plan_added_fresh:
  "i \<in> set (p_added (fold (plan_rule cands live deny) cs p)) \<Longrightarrow>
   i \<in> set (p_added p) \<or> i \<notin> set (p_present p)"
proof (induction cs arbitrary: p)
  case (Cons c cs)
  then have "i \<in> set (p_added (plan_rule cands live deny c p)) \<or>
      i \<notin> set (p_present (plan_rule cands live deny c p))" by simp
  then show ?case
    by (cases "active (cp_rule c)") (auto simp: step_add_def to_add_def)
qed simp

lemma plan_added_excluded:
  assumes "\<forall>c\<in>set cs. active (cp_rule c) \<longrightarrow> i \<in> set (r_excluded (cp_rule c))"
    and "i \<noteq> []" "trim_space i = i" "i \<notin> set (p_added p)"
  shows "i \<notin> set (p_added (fold (plan_rule cands live deny) cs p))"
proof (rule fold_plan_invariant[where P = "\<lambda>p :: plan. i \<notin> set (p_added p)", OF assms(4)])
  fix c and q :: plan
  assume c: "c \<in> set cs" and q: "i \<notin> set (p_added q)"
  have "i \<in> set (r_excluded (step_rule (p_models q) (cp_rule c)))" if "active (cp_rule c)"
    using that assms(1-3) c
    by (auto simp: step_rule_def Let_def union_ids_def set_clean_ids intro!: image_eqI[of _ _ i])
  then have "i \<notin> set (step_add cands deny c q)" if "active (cp_rule c)"
    using that step_add_selected[of i cands deny c q] by (metis selects_def)
  then show "i \<notin> set (p_added (plan_rule cands live deny c q))"
    using q by (cases "active (cp_rule c)") auto
qed

lemma step_add_length:
  assumes "0 < r_max_members (cp_rule c)"
  shows "int (length (step_add cands deny c p)) \<le> r_max_members (cp_rule c)"
proof -
  let ?D = "step_desired cands deny c p"
  have "step_add cands deny c p = filter (\<lambda>i. i \<notin> set (r_resolved (cp_rule c)))
      (filter (\<lambda>i. i \<notin> set (p_present p)) ?D)"
    by (auto simp: step_add_def to_add_def intro: filter_cong)
  then have "length (step_add cands deny c p) \<le> length (filter (\<lambda>i. i \<notin> set (p_present p)) ?D)"
    by (metis length_filter_le)
  also have "int \<dots> \<le> r_max_members (cp_rule c)"
    unfolding step_cap_def by (rule cap_new_length[OF assms])
  finally show ?thesis by simp
qed

lemma plan_added_length:
  assumes "\<forall>c\<in>set cs. active (cp_rule c) \<longrightarrow> 0 < r_max_members (cp_rule c)"
  shows "int (length (p_added (fold (plan_rule cands live deny) cs p))) \<le>
    int (length (p_added p)) + (\<Sum>r\<leftarrow>filter active (map cp_rule cs). r_max_members r)"
  using assms
proof (induction cs arbitrary: p)
  case (Cons c cs)
  from Cons.IH[of "plan_rule cands live deny c p"] Cons.prems
  have *: "int (length (p_added (fold (plan_rule cands live deny) (c # cs) p))) \<le>
    int (length (p_added (plan_rule cands live deny c p))) +
      (\<Sum>r\<leftarrow>filter active (map cp_rule cs). r_max_members r)" by simp
  show ?case
  proof (cases "active (cp_rule c)")
    case True
    then show ?thesis using * step_add_length[of c cands deny p] Cons.prems by simp
  qed (use * in simp)
qed simp

lemma plan_models_subset:
  "set (p_models (fold (plan_rule cands live deny) cs p)) \<subseteq>
   set (p_models p) \<union> set (p_added (fold (plan_rule cands live deny) cs p))"
proof -
  have "set (p_models q) \<subseteq> set (p_models p) \<union> set (p_added q) \<Longrightarrow>
      set (p_models (plan_rule cands live deny c q)) \<subseteq>
      set (p_models p) \<union> set (p_added (plan_rule cands live deny c q))" for q :: plan and c
    by (cases "active (cp_rule c)") auto
  then show ?thesis
    using fold_plan_invariant[where P = "\<lambda>q :: plan. set (p_models q) \<subseteq> set (p_models p) \<union> set (p_added q)"
        and p = p and cs = cs and cands = cands and live = live and deny = deny]
    by blast
qed

section \<open>A second pass\<close>

text \<open>
  With one active rule and members stored under the candidates' own ids a second pass
  finds nothing to do. The step's facts are collected first.
\<close>

definition canonical_members :: "candidate list \<Rightarrow> string list \<Rightarrow> bool" where
  "canonical_members cands ms \<longleftrightarrow> (\<forall>m\<in>set ms. \<forall>c. live_by_id cands m = Some c \<longrightarrow> c_id c = m)"

definition refreshed :: "candidate list \<Rightarrow> string list \<Rightarrow> compiled_rule \<Rightarrow> plan \<Rightarrow> compiled_rule" where
  "refreshed cands deny c p =
     c\<lparr>cp_rule := (step_rule (p_models p) (cp_rule c))\<lparr>r_resolved := step_desired cands deny c p\<rparr>\<rparr>"

lemma refreshed_simps [simp]:
  "r_resolved (cp_rule (refreshed cands deny c p)) = step_desired cands deny c p"
  "r_max_members (cp_rule (refreshed cands deny c p)) = r_max_members (cp_rule c)"
  "active (cp_rule (refreshed cands deny c p)) = active (cp_rule c)"
  by (simp_all add: refreshed_def active_def)

lemma in_present_canonical:
  "i \<in> set (present_canonical live ms) \<longleftrightarrow> (\<exists>m\<in>set ms. \<exists>cd. live m = Some cd \<and> c_id cd = i)"
  by (force simp: present_canonical_def split: option.splits)

lemma refreshed_again:
  "user_removed ms (cp_rule c) = [] \<Longrightarrow> p_models p = ms \<Longrightarrow>
   cp_rule (refreshed cands deny c p) = (cp_rule c)\<lparr>r_resolved := step_desired cands deny c p\<rparr>"
  by (simp add: refreshed_def step_rule_def)

lemma selects_refreshed:
  "selects deny (refreshed cands deny' c p) (cp_rule (refreshed cands deny' c p)) cand =
   selects deny c (step_rule (p_models p) (cp_rule c)) cand"
  by (simp add: selects_def refreshed_def rule_matches_def Let_def)

lemma desired_live:
  assumes "catalogue_ok cands" "i \<in> set (step_desired cands deny c p)"
  shows "\<exists>cd. live_by_id cands i = Some cd \<and> c_id cd = i \<and> i \<noteq> [] \<and> trim_space i = i \<and>
    i \<notin> set (r_excluded (step_rule (p_models p) (cp_rule c)))"
  using step_desired_selected[OF assms(2)] assms(1) unfolding catalogue_ok_def selects_def by metis

lemma desired_in_models:
  assumes ok: "catalogue_ok cands" and canon: "canonical_members cands (p_models p)"
    and pres: "set (p_present p) = set (present_canonical (live_by_id cands) (p_models p))"
    and i: "i \<in> set (step_desired cands deny c p)"
  shows "i \<in> set (remove_ids (p_models p) (step_remove cands (live_by_id cands) deny c p))
     \<union> set (step_add cands deny c p)"
proof -
  have keep: "i \<notin> set (step_remove cands (live_by_id cands) deny c p)"
    using i by (simp add: step_remove_def to_remove_def)
  consider (add) "i \<in> set (step_add cands deny c p)" | (own) "i \<in> set (r_resolved (cp_rule c))"
    | (pres) "i \<in> set (p_present p)"
    using i by (auto simp: step_add_def to_add_def)
  then show ?thesis
  proof cases
    case own
    have "i \<in> set (p_models p)"
    proof (rule ccontr)
      assume "i \<notin> set (p_models p)"
      with own have gone: "i \<in> set (user_removed (p_models p) (cp_rule c))"
        by (simp add: user_removed_def)
      then have "r_excluded (step_rule (p_models p) (cp_rule c)) =
          union_ids (r_excluded (cp_rule c)) (user_removed (p_models p) (cp_rule c))"
        by (auto simp: step_rule_def Let_def)
      moreover have "i \<noteq> []" "trim_space i = i"
          "i \<notin> set (r_excluded (step_rule (p_models p) (cp_rule c)))"
        using desired_live[OF ok i] by blast+
      ultimately show False
        using gone by (auto simp: union_ids_def set_clean_ids intro: image_eqI[of _ _ i])
    qed
    with keep show ?thesis by simp
  next
    case pres
    then have "i \<in> set (p_models p)"
      using canon assms(3) by (auto simp: present_canonical_def canonical_members_def split: option.splits)
    with keep show ?thesis by simp
  qed simp
qed

lemma cap_again:
  assumes "distinct M" and "set P \<inter> set M = set (fst (cap_desired mx Q M)) \<or> \<not> (0 < mx \<and> mx < int (length M))"
  shows "set (fst (cap_desired mx P M)) = set (fst (cap_desired mx Q M))"
proof (cases "0 < mx \<and> mx < int (length M)")
  case True
  let ?D = "fst (cap_desired mx Q M)"
  have D: "set P \<inter> set M = set ?D" using assms(2) True by blast
  have split: "length (filter (\<lambda>i. i \<in> set Q) M) + length (filter (\<lambda>i. i \<notin> set Q) M) = length M"
    by (rule sum_length_filter_compl)
  have "mx \<le> int (length ?D)" using True split by (auto simp: cap_eq min_def)
  also have "length ?D = card (set ?D)"
    using cap_distinct[OF assms(1)] by (simp add: distinct_card)
  also have "\<dots> = card (set (filter (\<lambda>i. i \<in> set P) M))"
    using D by (intro arg_cong[where f = card]) auto
  also have "\<dots> = length (filter (\<lambda>i. i \<in> set P) M)"
    using assms(1) by (intro distinct_card) simp
  finally have "fst (cap_desired mx P M) = filter (\<lambda>i. i \<in> set P) M" using True by (simp add: cap_eq)
  then show ?thesis using D by auto
next
  case False
  then show ?thesis by (simp add: cap_eq del: de_Morgan_conj not_less)
qed

lemma second_step:
  fixes cands deny c p
  defines "live \<equiv> live_by_id cands"
  defines "q \<equiv> plan_rule cands live deny c p" and "c' \<equiv> refreshed cands deny c p"
  assumes ok: "catalogue_ok cands" and act: "active (cp_rule c)"
    and canon: "canonical_members cands (p_models p)"
    and pres: "set (p_present p) = set (present_canonical live (p_models p))"
    and p1: "p_models p1 = p_models q" "set (p_present p1) = set (present_canonical live (p_models p1))"
  shows "user_removed (p_models p1) (cp_rule c') = [] \<and>
    set (step_desired cands deny c' p1) = set (step_desired cands deny c p) \<and>
    step_remove cands live deny c' p1 = [] \<and> step_add cands deny c' p1 = []"
proof -
  let ?D = "step_desired cands deny c p" and ?M = "sort (step_matched cands deny c p)"
  have Dm: "set ?D \<subseteq> set (p_models p1)"
    using desired_in_models[OF ok canon] pres act p1(1) by (auto simp: q_def live_def)
  then have gone: "user_removed (p_models p1) (cp_rule c') = []"
    by (auto simp: user_removed_def c'_def filter_empty_conv)
  then have same: "step_rule (p_models p1) (cp_rule c') = cp_rule c'"
    by (simp add: step_rule_def)
  have M: "step_matched cands deny c' p1 = step_matched cands deny c p"
    unfolding step_matched_def same unfolding c'_def
    by (rule arg_cong[where f = "map c_id"], rule filter_cong[OF refl], rule selects_refreshed)
  have dist: "distinct ?M"
    using ok by (auto simp: step_matched_def catalogue_ok_def distinct_map
        intro!: inj_on_subset[of c_id "set cands"])
  have own: "\<exists>cd. live i = Some cd \<and> c_id cd = i" if "i \<in> set (step_add cands deny c p) \<union> set ?D" for i
    using that desired_live[OF ok, of i deny c p] unfolding live_def
    by (auto simp: step_add_def to_add_def)
  have P1: "set ?D \<subseteq> set (p_present p1)"
    using Dm own p1(2) by (force simp: present_canonical_def)
  have P2: "i \<in> set ?D" if cut: "0 < r_max_members (cp_rule c) \<and> r_max_members (cp_rule c) < int (length ?M)"
      and i: "i \<in> set (p_present p1)" "i \<in> set ?M" for i
  proof -
    obtain m cd where m: "m \<in> set (p_models p1)" "live m = Some cd" "c_id cd = i"
      using i(1) p1(2) by (auto simp: in_present_canonical)
    then consider "m \<in> set (step_add cands deny c p)" | "m \<in> set (p_models p)"
      using p1(1) act by (auto simp: q_def)
    then show ?thesis
    proof cases
      case 1
      with m own[of m] show ?thesis by (auto simp: step_add_def to_add_def)
    next
      case 2
      with m have "i \<in> set (p_present p)" using pres by (force simp: present_canonical_def)
      then show ?thesis using i(2) cap_present unfolding step_cap_def by blast
    qed
  qed
  have caps: "?D = fst (cap_desired (r_max_members (cp_rule c)) (p_present p) ?M)"
    "step_desired cands deny c' p1 = fst (cap_desired (r_max_members (cp_rule c)) (p_present p1) ?M)"
    unfolding step_cap_def M by (simp_all add: c'_def)
  have "set ?D \<subseteq> set ?M" unfolding caps by (rule cap_subset)
  then have "set (p_present p1) \<inter> set ?M = set ?D \<or>
      \<not> (0 < r_max_members (cp_rule c) \<and> r_max_members (cp_rule c) < int (length ?M))"
    using P1 P2 by blast
  then have D: "set (step_desired cands deny c' p1) = set ?D"
    unfolding caps by (rule cap_again[OF dist])
  then have "step_remove cands live deny c' p1 = [] \<and> step_add cands deny c' p1 = []"
    by (simp add: step_remove_def to_remove_def step_add_def to_add_def c'_def filter_empty_conv)
  with gone D show ?thesis by blast
qed

text \<open>Inactive rules only carry their stored form along.\<close>

lemma fold_inactive:
  assumes "\<forall>c\<in>set cs. \<not> active (cp_rule c)"
  shows "p_models (fold (plan_rule cands live deny) cs p) = p_models p"
    and "p_present (fold (plan_rule cands live deny) cs p) = p_present p"
    and "p_dirty (fold (plan_rule cands live deny) cs p) = p_dirty p"
    and "p_rules (fold (plan_rule cands live deny) cs p) = p_rules p @ map cp_rule cs"
  using assms by (induction cs arbitrary: p) auto

lemma fold_one_active:
  fixes cands live deny and p :: plan
  assumes "\<forall>c\<in>set cs \<union> set ds. \<not> active (cp_rule c)" and "active (cp_rule c)"
  defines "q \<equiv> fold (plan_rule cands live deny) cs p"
  defines "z \<equiv> fold (plan_rule cands live deny) (cs @ c # ds) p"
  shows "p_models z = p_models (plan_rule cands live deny c q)"
    and "p_dirty z = p_dirty (plan_rule cands live deny c q)"
    and "p_rules z = p_rules p @ map cp_rule cs @ cp_rule (refreshed cands deny c q) # map cp_rule ds"
    and "p_models q = p_models p" and "p_present q = p_present p" and "p_dirty q = p_dirty p"
  using assms(1,2) unfolding q_def z_def by (simp_all add: fold_inactive refreshed_def)

lemma compile_all_append:
  "compile_all rx (as @ bs) = (case compile_all rx as of None \<Rightarrow> None
     | Some cs \<Rightarrow> map_option (\<lambda>ds. cs @ ds) (compile_all rx bs))"
  by (induction as; cases "compile_all rx bs") (auto split: option.splits)

lemma compile_refreshed:
  "compile_rule rx (cp_rule c) = Some c \<Longrightarrow>
   compile_rule rx (cp_rule (refreshed cands deny c p)) = Some (refreshed cands deny c p)"
  by (cases c) (auto simp: compile_rule_def refreshed_def Let_def split: if_splits option.splits)

lemma deny_refreshed:
  "active (cp_rule c) \<Longrightarrow> deny_ids cands (cs @ refreshed cands deny c p # ds) = deny_ids cands (cs @ c # ds)"
  by (simp add: deny_ids_def active_def refreshed_def effect_include_def effect_exclude_def)

lemma compile_one_active:
  assumes "compile_all rx (pre @ r # post) = Some cs"
  obtains as c bs where "cs = as @ c # bs" "map cp_rule as = pre" "map cp_rule bs = post" "cp_rule c = r"
    "compile_rule rx r = Some c" "compile_all rx pre = Some as" "compile_all rx post = Some bs"
  using assms compile_all_rules[of rx pre] compile_all_rules[of rx post]
    compile_all_rules[of rx "[r]"]
  by (auto simp: compile_all_append split: option.splits)

lemma canonical_after_step:
  assumes "catalogue_ok cands" "canonical_members cands (p_models p)"
  shows "canonical_members cands (p_models (plan_rule cands (live_by_id cands) deny c p))"
proof (cases "active (cp_rule c)")
  case True
  have "c_id cd = i" if "i \<in> set (step_add cands deny c p)" "live_by_id cands i = Some cd" for i cd
    using that desired_live[OF assms(1), of i deny c p] by (auto simp: step_add_def to_add_def)
  with True assms(2) show ?thesis by (auto simp: canonical_members_def)
qed (use assms in simp)

lemma reconcile_second_pass:
  assumes rec: "reconcile rx models (pre @ r # post) cands = Some (ms, rs, d)"
    and one: "active r" "\<forall>r\<in>set pre \<union> set post. \<not> active r"
    and ok: "catalogue_ok cands" and canon: "canonical_members cands (clean_ids models)"
  obtains r' rs' where "rs = pre @ r' # post"
    "reconcile rx ms rs cands = Some (ms, pre @ r'\<lparr>r_resolved := rs'\<rparr> # post, False)"
    "set rs' = set (r_resolved r')"
proof -
  let ?live = "live_by_id cands"
  obtain p where p: "build_plan rx models (pre @ r # post) cands = Some p"
      "ms = p_models p" "rs = p_rules p"
    using rec by (auto simp: reconcile_def)
  then obtain cs where cs: "compile_all rx (pre @ r # post) = Some cs"
      "p = fold (plan_rule cands ?live (deny_ids cands cs)) cs (start_plan ?live models)"
    using build_planE[OF p(1)] by metis
  then obtain as c bs where split: "cs = as @ c # bs" "map cp_rule as = pre" "map cp_rule bs = post"
      "cp_rule c = r" "compile_rule rx r = Some c" "compile_all rx pre = Some as"
      "compile_all rx post = Some bs"
    using compile_one_active[OF cs(1)] by metis
  let ?deny = "deny_ids cands cs"
  let ?q = "fold (plan_rule cands ?live ?deny) as (start_plan ?live models)"
  let ?c = "refreshed cands ?deny c ?q"
  have ina: "\<forall>c\<in>set as \<union> set bs. \<not> active (cp_rule c)" and act: "active (cp_rule c)"
    using one split by auto
  note f1 = fold_one_active[OF ina act, of cands ?live ?deny "start_plan ?live models"]
  have ms: "ms = p_models (plan_rule cands ?live ?deny c ?q)"
    and rs: "rs = pre @ cp_rule ?c # post"
    using f1 split p(2,3) cs(2) by (simp_all add: start_plan_def Let_def)
  have clean: "clean_ids ms = ms"
    using plan_inv_build[OF p(1) ok] p(2) by (auto simp: plan_inv_def intro: clean_ids_id)
  have comp: "compile_all rx rs = Some (as @ ?c # bs)"
    using rs split compile_refreshed[of rx c] by (simp add: compile_all_append)
  let ?p1 = "fold (plan_rule cands ?live ?deny) as (start_plan ?live ms)"
  let ?z = "fold (plan_rule cands ?live ?deny) (as @ ?c # bs) (start_plan ?live ms)"
  have "active (cp_rule ?c)" using act by simp
  note f2 = fold_one_active[OF ina this, of cands ?live ?deny "start_plan ?live ms"]
  have q: "canonical_members cands (p_models ?q)"
      "set (p_present ?q) = set (present_canonical ?live (p_models ?q))"
    using f1 canon by (simp_all add: start_plan_def Let_def)
  have p1: "p_models ?p1 = ms" "set (p_present ?p1) = set (present_canonical ?live (p_models ?p1))"
    using f2 clean by (simp_all add: start_plan_def Let_def)
  note step = second_step[OF ok act q trans[OF p1(1) ms] p1(2)]
  have "p_dirty ?z = False"
    using f2(2,6) step act by (simp add: start_plan_def Let_def clean)
  moreover have "p_models ?z = ms"
    using f2(1) step act p1(1) by (simp add: remove_ids_def)
  moreover have "p_rules ?z = pre @ (cp_rule ?c)\<lparr>r_resolved := step_desired cands ?deny ?c ?p1\<rparr> # post"
    using f2(3) split(2,3) refreshed_again[of "p_models ?p1" ?c ?p1] step
    by (simp add: start_plan_def Let_def del: refreshed_simps)
  moreover have "reconcile rx ms rs cands = Some (p_models ?z, p_rules ?z, p_dirty ?z)"
    using comp deny_refreshed[OF act, of cands as ?deny ?q bs] split(1)
    by (simp add: reconcile_def build_plan_def Let_def)
  ultimately show ?thesis
    using that[OF rs, of "step_desired cands ?deny ?c ?p1"] step by simp
qed

section \<open>Properties\<close>

text \<open>C28: A pass takes nothing out of a combo that no active rule claims, and a claimed member
  that is alive but merely unreachable stays as well: whatever the rules and the catalogue
  say, such a member of the old list is a member of the new one.\<close>
theorem reconcile_keeps_unowned:
  assumes "reconcile rx models rules cands = Some (ms, rs, dirty)" "m \<in> set (clean_ids models)"
    and "\<forall>r\<in>set rules. active r \<longrightarrow>
      m \<notin> set (r_resolved r) \<or> (\<exists>cand. live_by_id cands m = Some cand \<and> \<not> c_addable cand)"
  shows "m \<in> set ms"
proof -
  obtain p where p: "build_plan rx models rules cands = Some p" "ms = p_models p"
    using assms(1) by (auto simp: reconcile_def)
  then obtain cs where cs: "map cp_rule cs = rules"
      "p = fold (plan_rule cands (live_by_id cands) (deny_ids cands cs)) cs
             (start_plan (live_by_id cands) models)"
    using build_planE by metis
  then show ?thesis
    using p(2) assms(2,3) by (auto simp: start_plan_def Let_def intro!: plan_keeps)
qed

definition demo_rx :: regex_engine where "demo_rx e = Some (\<lambda>s. s = e)"

definition demo_cands :: "candidate list" where
  "demo_cands = [
     \<lparr>c_id = ''ds/v4'', c_bare = ''v4'', c_alt = [], c_kind = kind_llm, c_addable = True, c_live = True\<rparr>,
     \<lparr>c_id = ''ds/v3'', c_bare = ''v3'', c_alt = [], c_kind = kind_llm, c_addable = False, c_live = True\<rparr>,
     \<lparr>c_id = ''ds/v5'', c_bare = ''v5'', c_alt = [], c_kind = kind_llm, c_addable = True, c_live = True\<rparr>]"

definition demo_rule :: "string \<Rightarrow> string \<Rightarrow> int \<Rightarrow> string list \<Rightarrow> rule" where
  "demo_rule pat eff mx res = \<lparr>r_id = ''r1'', r_pattern = pat, r_mode = mode_glob, r_effect = eff,
     r_enabled = True, r_max_members = mx, r_all_kinds = False, r_resolved = res, r_excluded = []\<rparr>"

lemma reconcile_keeps_unowned_witness:
  "\<exists>ms rs d. reconcile demo_rx [''ds/v3'', ''old''] [demo_rule ''ds/v4*'' effect_include 2 [''ds/v3'']] demo_cands
     = Some (ms, rs, d) \<and> ''old'' \<in> set ms \<and> ''ds/v3'' \<in> set ms"
proof -
  let ?rules = "[demo_rule ''ds/v4*'' effect_include 2 [''ds/v3'']]"
  let ?ms = "[''ds/v3'', ''old'', ''ds/v4'']"
  have rec: "reconcile demo_rx [''ds/v3'', ''old''] ?rules demo_cands
      = Some (?ms, [demo_rule ''ds/v4*'' effect_include 2 [''ds/v4'']], True)" by code_simp
  have "''old'' \<in> set ?ms"
    by (rule reconcile_keeps_unowned[OF rec]) (code_simp, simp add: demo_rule_def)
  moreover have "live_by_id demo_cands ''ds/v3'' = Some (demo_cands ! 1) \<and> \<not> c_addable (demo_cands ! 1)"
    by code_simp
  then have "''ds/v3'' \<in> set ?ms"
    by (intro reconcile_keeps_unowned[OF rec]) (code_simp, auto)
  ultimately show ?thesis using rec by blast
qed

text \<open>Every model a pass adds is a live, reachable candidate that some active rule's
  pattern selects and no enabled exclude rule's pattern does, and it takes a new slot: no
  member of the old list denotes the same model under any of its spellings.\<close>
theorem preview_added_sound:
  assumes "preview rx models rules cands = Some pr" "i \<in> set (pr_added pr)"
  shows "\<exists>cs. compile_all rx rules = Some cs \<and>
    (\<exists>cand\<in>set cands. \<exists>c\<in>set cs. c_id cand = i \<and> active (cp_rule c) \<and> c_addable cand \<and>
        c_live cand \<and> rule_matches c cand) \<and>
    (\<forall>cand\<in>set cands. \<forall>c\<in>set cs. r_enabled (cp_rule c) \<and> r_effect (cp_rule c) = effect_exclude \<and>
        rule_matches c cand \<longrightarrow> c_id cand \<noteq> i) \<and>
    (\<forall>m\<in>set (clean_ids models). \<forall>cd. live_by_id cands m = Some cd \<longrightarrow> c_id cd \<noteq> i)"
proof -
  obtain p where p: "build_plan rx models rules cands = Some p" "pr_added pr = p_added p"
    using assms(1) by (auto simp: preview_def)
  then obtain cs where cs: "compile_all rx rules = Some cs"
      "p = fold (plan_rule cands (live_by_id cands) (deny_ids cands cs)) cs
             (start_plan (live_by_id cands) models)"
    using build_planE by metis
  have start: "p_added (start_plan (live_by_id cands) models) = []"
      "p_present (start_plan (live_by_id cands) models) = present_canonical (live_by_id cands) (clean_ids models)"
    by (simp_all add: start_plan_def Let_def)
  from assms(2) p cs have i: "i \<in> set (p_added (fold (plan_rule cands (live_by_id cands) (deny_ids cands cs)) cs
      (start_plan (live_by_id cands) models)))" by simp
  show ?thesis
    using plan_added[OF i] plan_added_fresh[OF i] start deny_idsI[of _ cs _ cands] cs(1)
    by (fastforce simp: in_present_canonical)
qed

lemma preview_added_sound_witness:
  "\<exists>pr. preview demo_rx [''old''] [demo_rule ''ds/*'' effect_include 0 [],
       demo_rule ''*v5'' effect_exclude 0 []] demo_cands = Some pr \<and> pr_added pr = [''ds/v4''] \<and>
     (\<exists>cand\<in>set demo_cands. c_id cand = ''ds/v4'' \<and> c_addable cand \<and> c_live cand)"
proof -
  let ?rules = "[demo_rule ''ds/*'' effect_include 0 [], demo_rule ''*v5'' effect_exclude 0 []]"
  have "map_option pr_added (preview demo_rx [''old''] ?rules demo_cands) = Some [''ds/v4'']"
    by code_simp
  then obtain pr where pr: "preview demo_rx [''old''] ?rules demo_cands = Some pr" "pr_added pr = [''ds/v4'']"
    by auto
  then show ?thesis using preview_added_sound[OF pr(1), of "''ds/v4''"] by auto
qed

text \<open>A manual removal sticks: a member that a rule had put into the combo and the operator
  took out of it is recorded by the very next pass, and from then on no pass over the
  refreshed rule puts it back, whatever the combo and the catalogue have become.\<close>
theorem manual_removal_sticks:
  assumes "reconcile rx models [r] cands = Some (ms, rs, dirty)" "active r"
    and "i \<in> set (r_resolved r)" "i \<notin> set (clean_ids models)" "i \<noteq> []" "trim_space i = i"
    and "preview rx' models' rs cands' = Some pr"
  shows "i \<in> set (r_excluded (hd rs)) \<and> dirty \<and> i \<notin> set (pr_added pr)"
proof -
  obtain p where p: "build_plan rx models [r] cands = Some p" "rs = p_rules p" "dirty = p_dirty p"
    using assms(1) by (auto simp: reconcile_def)
  obtain cs where cs: "map cp_rule cs = [r]"
      "p = fold (plan_rule cands (live_by_id cands) (deny_ids cands cs)) cs (start_plan (live_by_id cands) models)"
    by (rule build_planE[OF p(1)]) (rule that)
  then obtain c where c: "cp_rule c = r"
      "p = plan_rule cands (live_by_id cands) (deny_ids cands [c]) c (start_plan (live_by_id cands) models)"
    by (cases cs) auto
  have gone: "i \<in> set (user_removed (clean_ids models) r)"
    using assms(3,4) by (simp add: user_removed_def)
  then have ex: "i \<in> set (r_excluded (step_rule (clean_ids models) r))"
    using assms(5,6) by (auto simp: step_rule_def Let_def union_ids_def set_clean_ids intro!: image_eqI[of _ _ i])
  have start: "p_models (start_plan (live_by_id cands) models) = clean_ids models"
      "p_rules (start_plan (live_by_id cands) models) = []"
    by (simp_all add: start_plan_def Let_def)
  have "dirty" using c p(3) gone assms(2) by (auto simp: start)
  moreover have "rs = [hd rs]" "i \<in> set (r_excluded (hd rs))"
    using c p(2) ex assms(2) by (simp_all add: start)
  moreover have "i \<notin> set (pr_added pr)"
  proof -
    obtain p' cs' where p': "pr_added pr = p_added p'" "map cp_rule cs' = rs"
        "p' = fold (plan_rule cands' (live_by_id cands') (deny_ids cands' cs')) cs'
           (start_plan (live_by_id cands') models')"
      using assms(7) by (auto simp: preview_def elim!: build_planE)
    moreover have "cp_rule c = hd rs" if "c \<in> set cs'" for c
    proof -
      have "cp_rule c \<in> set rs" using that p'(2) by force
      then show ?thesis by (subst (asm) \<open>rs = [hd rs]\<close>) simp
    qed
    then have "\<forall>c\<in>set cs'. i \<in> set (r_excluded (cp_rule c))"
      using \<open>i \<in> set (r_excluded (hd rs))\<close> by simp
    then show ?thesis
      using p'(1,3) plan_added_excluded[of cs' i] assms(5,6) by (simp add: start_plan_def Let_def)
  qed
  ultimately show ?thesis by blast
qed

lemma manual_removal_sticks_witness:
  "\<exists>ms rs pr. reconcile demo_rx [''old''] [demo_rule ''ds/*'' effect_include 0 [''ds/v4'']] demo_cands
       = Some (ms, rs, True) \<and> preview demo_rx ms rs demo_cands = Some pr \<and> ''ds/v4'' \<notin> set (pr_added pr)"
proof -
  let ?r = "demo_rule ''ds/*'' effect_include 0 [''ds/v4'']"
  let ?r' = "(demo_rule ''ds/*'' effect_include 0 [''ds/v5''])\<lparr>r_excluded := [''ds/v4'']\<rparr>"
  have rec: "reconcile demo_rx [''old''] [?r] demo_cands = Some ([''old'', ''ds/v5''], [?r'], True)"
    by code_simp
  obtain pr where pr: "preview demo_rx [''old'', ''ds/v5''] [?r'] demo_cands = Some pr"
    by (cases "preview demo_rx [''old'', ''ds/v5''] [?r'] demo_cands")
       (simp_all add: preview_def build_plan_def compile_rule_def demo_rule_def mode_glob_def
         mode_regex_def Let_def)
  have "active ?r" "''ds/v4'' \<in> set (r_resolved ?r)" "''ds/v4'' \<notin> set (clean_ids [''old''])"
    "trim_space ''ds/v4'' = ''ds/v4''" by code_simp+
  with manual_removal_sticks[OF rec _ _ _ _ _ pr, of "''ds/v4''"] rec pr show ?thesis by auto
qed

text \<open>The limits bound what a pass adds: when every active rule has a positive limit, at most
  the sum of the limits many models are added.\<close>
theorem preview_added_bounded:
  assumes "preview rx models rules cands = Some pr" "\<forall>r\<in>set rules. active r \<longrightarrow> 0 < r_max_members r"
  shows "int (length (pr_added pr)) \<le> (\<Sum>r\<leftarrow>filter active rules. r_max_members r)"
proof -
  obtain p where p: "build_plan rx models rules cands = Some p" "pr_added pr = p_added p"
    using assms(1) by (auto simp: preview_def)
  then obtain cs where cs: "map cp_rule cs = rules"
      "p = fold (plan_rule cands (live_by_id cands) (deny_ids cands cs)) cs
             (start_plan (live_by_id cands) models)"
    using build_planE by metis
  have "\<forall>c\<in>set cs. active (cp_rule c) \<longrightarrow> 0 < r_max_members (cp_rule c)"
    using assms(2) cs(1) by auto
  from plan_added_length[OF this, of cands _ _ "start_plan (live_by_id cands) models"] show ?thesis
    using cs p(2) by (simp add: start_plan_def Let_def)
qed

lemma preview_added_bounded_witness:
  "\<exists>pr. preview demo_rx [] [demo_rule ''ds/*'' effect_include 1 []] demo_cands = Some pr \<and>
     int (length (pr_added pr)) \<le> 1"
proof -
  let ?r = "demo_rule ''ds/*'' effect_include 1 []"
  obtain pr where pr: "preview demo_rx [] [?r] demo_cands = Some pr"
    by (cases "preview demo_rx [] [?r] demo_cands")
       (simp_all add: preview_def build_plan_def compile_rule_def demo_rule_def mode_glob_def
         mode_regex_def Let_def)
  moreover have "active ?r" by code_simp
  ultimately show ?thesis
    using preview_added_bounded[OF pr] by (auto simp: demo_rule_def)
qed

text \<open>With one active rule, an unambiguous catalogue and members stored under the candidates'
  own ids, reconciling twice changes nothing the second time: the combo is the same, the
  pass is not dirty, and the rule claims the same models.\<close>
theorem reconcile_idempotent:
  assumes "reconcile rx models (pre @ r # post) cands = Some (ms, rs, dirty)"
    and "active r" "\<forall>r\<in>set pre \<union> set post. \<not> active r"
    and "catalogue_ok cands" "canonical_members cands (clean_ids models)"
  shows "\<exists>r' ids. rs = pre @ r' # post \<and> set ids = set (r_resolved r') \<and>
    reconcile rx ms rs cands = Some (ms, pre @ r'\<lparr>r_resolved := ids\<rparr> # post, False)"
  using reconcile_second_pass[OF assms] by metis

lemma reconcile_idempotent_witness:
  "\<exists>ms rs d rs'. reconcile demo_rx [''ds/v3''] [demo_rule ''ds/*'' effect_include 1 []] demo_cands = Some (ms, rs, d) \<and>
     reconcile demo_rx ms rs demo_cands = Some (ms, rs', False)"
proof -
  let ?r = "demo_rule ''ds/*'' effect_include 1 []"
  have "active ?r" "catalogue_ok demo_cands" by code_simp+
  moreover have "clean_ids [''ds/v3''] = [''ds/v3'']"
    "live_by_id demo_cands ''ds/v3'' = Some (demo_cands ! 1) \<and> c_id (demo_cands ! 1) = ''ds/v3''"
    by code_simp+
  then have "canonical_members demo_cands (clean_ids [''ds/v3''])"
    by (simp add: canonical_members_def)
  moreover have "reconcile demo_rx [''ds/v3''] [?r] demo_cands \<noteq> None"
    by (simp add: reconcile_def build_plan_def compile_rule_def demo_rule_def mode_glob_def
         mode_regex_def Let_def)
  ultimately show ?thesis
    using reconcile_idempotent[of demo_rx "[''ds/v3'']" "[]" ?r "[]" demo_cands] by fastforce
qed

text \<open>A glob with at least two positive pieces and no negated one matches exactly the ids that
  spell the lower-case literals in order, first and last anchored, with arbitrary
  newline-free text in between.\<close>
theorem match_glob_spec:
  assumes "trim_space pat \<noteq> ''*''" "CHR ''*'' \<in> set (trim_space pat)" "trim_space target \<noteq> []"
    and "\<forall>p\<in>set (split_on (CHR ''*'') (trim_space pat)). \<not> has_prefix ''!'' p"
  shows "match_glob pat target \<longleftrightarrow>
    glob_lang (map to_lower (split_on (CHR ''*'') (trim_space pat))) (to_lower (trim_space target))"
proof -
  let ?parts = "split_on (CHR ''*'') (trim_space pat)"
  have star: "contains_str (trim_space pat) ''*''"
    using assms(2) by (simp add: contains_str_iff in_set_conv_decomp)
  have "trim_space pat \<noteq> []" using assms(2) by auto
  moreover have "?parts \<noteq> [[]]" using assms(2) split_on_sep_length[of "CHR ''*''" "trim_space pat"] by fastforce
  moreover have "filter (has_prefix ''!'') ?parts = []" "filter (\<lambda>p. \<not> has_prefix ''!'' p) ?parts = ?parts"
    using assms(4) by (simp_all add: filter_empty_conv filter_id_conv)
  ultimately show ?thesis
    using assms(1,3) star glob_parts_lang[of "map to_lower ?parts"]
    by (simp add: match_glob_def Let_def)
qed

lemma match_glob_spec_witness:
  "match_glob ''DS/*chat'' ''ds/v4-Chat'' \<longleftrightarrow>
   glob_lang (map to_lower (split_on (CHR ''*'') (trim_space ''DS/*chat''))) (to_lower (trim_space ''ds/v4-Chat''))"
  by (rule match_glob_spec) code_simp+

section \<open>Where the passes surprise\<close>

definition spell_cands :: "candidate list" where
  "spell_cands = [\<lparr>c_id = ''ds/x'', c_bare = ''x'', c_alt = ''deepseek/x'', c_kind = kind_llm,
                    c_addable = True, c_live = True\<rparr>]"

text \<open>
  A member stored under the other spelling is claimed under the candidate's own id, so the
  second pass over unchanged inputs takes it for a manual removal: it is dirty and records an
  exclusion no operator asked for.
\<close>

lemma second_pass_excludes_other_spelling:
  "reconcile demo_rx [''deepseek/x''] [demo_rule ''ds/*'' effect_include 0 []] spell_cands =
     Some ([''deepseek/x''], [demo_rule ''ds/*'' effect_include 0 [''ds/x'']], False) \<and>
   reconcile demo_rx [''deepseek/x''] [demo_rule ''ds/*'' effect_include 0 [''ds/x'']] spell_cands =
     Some ([''deepseek/x''], [(demo_rule ''ds/*'' effect_include 0 [])\<lparr>r_excluded := [''ds/x'']\<rparr>], True)"
  by (rule conjI; code_simp)

text \<open>
  When the first of two rules gives a shared model up, the second rule still selects it but sees
  it missing from the list in the same pass, and excludes it for good.
\<close>

lemma overlapping_rules_lose_member:
  "reconcile demo_rx [''ds/v4''] [demo_rule ''ds/v5'' effect_include 0 [''ds/v4''],
       demo_rule ''ds/v*'' effect_include 0 [''ds/v4'']] demo_cands =
     Some ([''ds/v5''], [demo_rule ''ds/v5'' effect_include 0 [''ds/v5''],
       (demo_rule ''ds/v*'' effect_include 0 [''ds/v5''])\<lparr>r_excluded := [''ds/v4'']\<rparr>], True)"
  by code_simp

text \<open>Members that are present already are claimed past the limit.\<close>

lemma limit_exceeded_by_present_members:
  "reconcile demo_rx [''ds/v4'', ''ds/v5''] [demo_rule ''ds/*'' effect_include 1 []] demo_cands =
     Some ([''ds/v4'', ''ds/v5''], [demo_rule ''ds/*'' effect_include 1 [''ds/v4'', ''ds/v5'']], False)"
  by code_simp

text \<open>
  The negated segment of the documented spelling \<open>* !v4*\<close> does not open a segment (a blank does),
  so it selects nothing; without the blank it works, and without the last star it selects nothing
  again.
\<close>

lemma negated_segment_spelling:
  "\<not> match_glob ''* !v4*'' ''ds/v5'' \<and> match_glob ''*!v4*'' ''ds/v5'' \<and> \<not> match_glob ''*!v4'' ''ds/v5''"
  by code_simp

end
