(* ===== verification/Calendar.thy ===== *)
theory Calendar
  imports RouterPrelude
begin

text \<open>
  The part of Go's \<open>time\<close> package the components read calendar dates with: the proleptic
  Gregorian calendar over days counted from 1 January of year 1 (day 0, a Monday), and the
  instants of a location with a fixed offset from UTC. Daylight-saving changes inside a
  location are not modelled.
\<close>

section \<open>Days\<close>

definition is_leap :: "int \<Rightarrow> bool" where
  "is_leap y \<longleftrightarrow> y mod 4 = 0 \<and> (y mod 100 \<noteq> 0 \<or> y mod 400 = 0)"

text \<open>Days before 1 January of the year, and before the first of a month of it.\<close>

definition days_before_year :: "int \<Rightarrow> int" where
  "days_before_year y = 365 * (y - 1) + (y - 1) div 4 - (y - 1) div 100 + (y - 1) div 400"

definition feb_days :: "int \<Rightarrow> int" where
  "feb_days y = (if is_leap y then 29 else 28)"

definition month_lengths :: "int \<Rightarrow> int list" where
  "month_lengths y = [31, feb_days y, 31, 30, 31, 30, 31, 31, 30, 31, 30, 31]"

definition days_before_month :: "int \<Rightarrow> int \<Rightarrow> int" where
  "days_before_month y m = sum_list (take (nat (m - 1)) (month_lengths y))"

text \<open>\<open>time.Date\<close>: a month past December rolls over into the following years.\<close>

definition day_number :: "int \<Rightarrow> int \<Rightarrow> int \<Rightarrow> int" where
  "day_number y m d =
     (let y' = y + (m - 1) div 12; m' = (m - 1) mod 12 + 1
      in days_before_year y' + days_before_month y' m' + (d - 1))"

text \<open>The year and the day of the year, by 400-, 100-, 4- and 1-year cycles.\<close>

definition year_of_day :: "int \<Rightarrow> int" where
  "year_of_day n =
     (let a = n div 146097; r = n mod 146097;
          b = min 3 (r div 36524); r = r - 36524 * b;
          c = r div 1461; r = r mod 1461;
          e = min 3 (r div 365)
      in 400 * a + 100 * b + 4 * c + e + 1)"

primrec month_from :: "int \<Rightarrow> int \<Rightarrow> int list \<Rightarrow> int" where
  "month_from m d [] = m"
| "month_from m d (l # ls) = (if d < l then m else month_from (m + 1) (d - l) ls)"

definition month_of_day :: "int \<Rightarrow> int" where
  "month_of_day n =
     month_from 1 (n - days_before_year (year_of_day n)) (month_lengths (year_of_day n))"

definition month_day_of_day :: "int \<Rightarrow> int" where
  "month_day_of_day n =
     n - day_number (year_of_day n) (month_of_day n) 1 + 1"

text \<open>Go's weekday, Sunday being 0.\<close>

definition weekday :: "int \<Rightarrow> int" where
  "weekday n = (n + 1) mod 7"

section \<open>Instants in a location\<close>

definition day_length :: duration where
  "day_length = 24 * hour"

text \<open>\<open>off\<close> is the location's offset; midnight of a day number, and the day of an instant.\<close>

definition midnight :: "duration \<Rightarrow> int \<Rightarrow> instant" where
  "midnight off n = n * day_length - off"

definition day_of :: "duration \<Rightarrow> instant \<Rightarrow> int" where
  "day_of off t = (t + off) div day_length"

section \<open>Facts\<close>

lemma day_length_pos [simp]: "0 < day_length"
  by (simp add: day_length_def hour_def)

lemma day_of_bounds: "midnight off (day_of off t) \<le> t" "t < midnight off (day_of off t + 1)"
proof -
  let ?q = "(t + off) div day_length"
  have "?q * day_length + (t + off) mod day_length = t + off" by (rule div_mult_mod_eq)
  moreover have "0 \<le> (t + off) mod day_length" "(t + off) mod day_length < day_length" by simp_all
  moreover have "(?q + 1) * day_length = ?q * day_length + day_length" by (simp only: distrib_right mult_1)
  ultimately show "midnight off (day_of off t) \<le> t" "t < midnight off (day_of off t + 1)"
    unfolding midnight_def day_of_def by linarith+
qed

lemma midnight_mono: "m \<le> n \<Longrightarrow> midnight off m \<le> midnight off n"
  by (simp add: midnight_def mult_right_mono less_imp_le)

lemma midnight_Suc: "midnight off (n + 1) = midnight off n + day_length"
  by (simp add: midnight_def distrib_right)

lemma day_of_unique: "midnight off n \<le> t \<Longrightarrow> t < midnight off (n + 1) \<Longrightarrow> day_of off t = n"
  unfolding day_of_def
  by (rule int_div_pos_eq[where r = "t + off - n * day_length"])
     (simp_all add: midnight_def algebra_simps)

lemma cycle_div:
  assumes "0 \<le> b" "b \<le> 3" "0 \<le> c" "c \<le> 24" "0 \<le> e" "e \<le> (3::int)"
  shows "(400 * a + 100 * b + 4 * c + e) div 4 = 100 * a + 25 * b + c"
    "(400 * a + 100 * b + 4 * c + e) div 100 = 4 * a + b"
    "(400 * a + 100 * b + 4 * c + e) div 400 = a"
proof -
  show "(400 * a + 100 * b + 4 * c + e) div 4 = 100 * a + 25 * b + c"
    by (rule int_div_pos_eq[where r = e]) (use assms in auto)
  show "(400 * a + 100 * b + 4 * c + e) div 100 = 4 * a + b"
    by (rule int_div_pos_eq[where r = "4 * c + e"]) (use assms in auto)
  show "(400 * a + 100 * b + 4 * c + e) div 400 = a"
    by (rule int_div_pos_eq[where r = "100 * b + 4 * c + e"]) (use assms in auto)
qed

lemma days_before_year_cycles:
  assumes "0 \<le> b" "b \<le> 3" "0 \<le> c" "c \<le> 24" "0 \<le> e" "e \<le> 3"
  shows "days_before_year (400 * a + 100 * b + 4 * c + e + 1) = 146097 * a + 36524 * b + 1461 * c + 365 * e"
  using cycle_div[OF assms, of a] by (simp add: days_before_year_def)

lemma next_div: "(y :: int) div k = (y - 1) div k + (if y mod k = 0 then 1 else 0)" if "0 < k"
proof -
  have m: "0 \<le> y mod k" "y mod k < k" using that by simp_all
  have y: "y = k * (y div k) + y mod k" by simp
  show ?thesis
  proof (cases "y mod k = 0")
    case True
    then have "(y - 1) div k = y div k - 1"
      using y that by (intro int_div_pos_eq[where r = "k - 1"]) (simp_all add: algebra_simps)
    with True show ?thesis by simp
  next
    case False
    then have "(y - 1) div k = y div k"
      using y m by (intro int_div_pos_eq[where r = "y mod k - 1"]) (simp_all add: algebra_simps)
    with False show ?thesis by simp
  qed
qed

lemma leap_sum:
  assumes "d4 = e4 + (if p then 1 else 0)" "d100 = e100 + (if q then 1 else 0)"
    "d400 = e400 + (if r then 1 else 0)" "q \<Longrightarrow> p" "r \<Longrightarrow> q"
  shows "365 * y + d4 - d100 + (d400 :: int) =
    365 * (y - 1) + e4 - e100 + e400 + (if p \<and> (\<not> q \<or> r) then 366 else 365)"
  using assms by (cases p; cases q; cases r) auto

lemma days_before_next_year:
  "days_before_year (y + 1) = days_before_year y + (if is_leap y then 366 else 365)"
proof -
  have "(0 :: int) < 4" "(0 :: int) < 100" "(0 :: int) < 400" by simp_all
  note divs = this[THEN next_div[of _ y]]
  have "y mod 4 = 0" if "y mod 100 = 0"
    using that dvd_trans[of 4 100 y] by (simp only: mod_eq_0_iff_dvd) simp
  moreover have "y mod 100 = 0" if "y mod 400 = 0"
    using that dvd_trans[of 100 400 y] by (simp only: mod_eq_0_iff_dvd) simp
  ultimately show ?thesis
    unfolding days_before_year_def is_leap_def add_diff_cancel_right'
    by (rule leap_sum[OF divs])
qed

lemma mod_shift: "x = k * q + r \<Longrightarrow> x mod k = r mod (k :: int)"
  by simp

lemma mod_range: "1 \<le> x \<Longrightarrow> x \<le> k \<Longrightarrow> x mod k = 0 \<longleftrightarrow> x = (k :: int)"
  by (cases "x = k") auto

lemma is_leap_cycles:
  assumes "0 \<le> b" "b \<le> 3" "0 \<le> c" "c \<le> 24" "0 \<le> e" "e \<le> 3"
  shows "is_leap (400 * a + 100 * b + 4 * c + e + 1) \<longleftrightarrow> e = 3 \<and> (c \<noteq> 24 \<or> b = 3)"
proof -
  let ?y = "400 * a + 100 * b + 4 * c + e + 1"
  have m: "?y mod 4 = (e + 1) mod 4" "?y mod 100 = (4 * c + e + 1) mod 100"
    "?y mod 400 = (100 * b + 4 * c + e + 1) mod 400"
    by (rule mod_shift[where q = "100 * a + 25 * b + c"], simp)
       (rule mod_shift[where q = "4 * a + b"], simp, rule mod_shift[where q = a], simp)
  have r: "(e + 1) mod 4 = 0 \<longleftrightarrow> e + 1 = 4" "(4 * c + e + 1) mod 100 = 0 \<longleftrightarrow> 4 * c + e + 1 = 100"
    "(100 * b + 4 * c + e + 1) mod 400 = 0 \<longleftrightarrow> 100 * b + 4 * c + e + 1 = 400"
    by (rule mod_range; use assms in linarith)+
  show ?thesis unfolding is_leap_def m r using assms by auto
qed

lemma capped_div:
  assumes "0 \<le> r" "0 < (p :: int)"
  shows "0 \<le> min 3 (r div p)" "min 3 (r div p) \<le> 3" "p * min 3 (r div p) \<le> r"
    "min 3 (r div p) < 3 \<Longrightarrow> r < p * min 3 (r div p) + p"
proof -
  have r: "r = p * (r div p) + r mod p" "0 \<le> r mod p" "r mod p < p" using assms by simp_all
  show "0 \<le> min 3 (r div p)" using assms by (simp add: pos_imp_zdiv_nonneg_iff)
  show "p * min 3 (r div p) \<le> r"
  proof -
    have "p * min 3 (r div p) \<le> p * (r div p)" using assms(2) by (intro mult_left_mono) auto
    then show ?thesis using r(1,2) by linarith
  qed
  show "r < p * min 3 (r div p) + p" if "min 3 (r div p) < 3"
  proof -
    from that have "min 3 (r div p) = r div p" by simp
    with r show ?thesis by (simp only:)
  qed
qed simp

text \<open>The cycle decomposition, with the ranges the proofs need.\<close>

lemma year_cycles:
  obtains a b c e u where "year_of_day n = 400 * a + 100 * b + 4 * c + e + 1"
    "n = 146097 * a + 36524 * b + 1461 * c + u"
    "0 \<le> b" "b \<le> 3" "0 \<le> c" "c \<le> 24" "0 \<le> e" "e \<le> 3" "365 * e \<le> u" "u < 1461"
    "e < 3 \<longrightarrow> u < 365 * e + 365" "c = 24 \<and> b < 3 \<longrightarrow> u < 1460"
proof -
  define a where "a = n div 146097"
  define r where "r = n mod 146097"
  define b where "b = min 3 (r div 36524)"
  define s where "s = r - 36524 * b"
  define c where "c = s div 1461"
  define u where "u = s mod 1461"
  define e where "e = min 3 (u div 365)"
  have y: "year_of_day n = 400 * a + 100 * b + 4 * c + e + 1"
    unfolding year_of_day_def Let_def a_def e_def u_def c_def s_def b_def r_def by (rule refl)
  have r: "n = 146097 * a + r" "0 \<le> r" "r < 146097" by (simp_all add: a_def r_def)
  have b: "0 \<le> b" "b \<le> 3" "36524 * b \<le> r" "b < 3 \<Longrightarrow> r < 36524 * b + 36524"
    unfolding b_def using capped_div[OF r(2), of 36524] by simp_all
  have s: "0 \<le> s" "s < 36525" "b < 3 \<Longrightarrow> s < 36524"
    using b r unfolding s_def by (cases "b < 3"; simp)+
  have su: "s = 1461 * c + u" "0 \<le> u" "u < 1461" by (simp_all add: c_def u_def)
  then have c: "0 \<le> c" "c \<le> 24" using s by linarith+
  have e: "0 \<le> e" "e \<le> 3" "365 * e \<le> u" "e < 3 \<longrightarrow> u < 365 * e + 365"
    unfolding e_def using capped_div[OF su(2), of 365] by simp_all
  show ?thesis
  proof (rule that[OF y _ b(1,2) c e(1-3) su(3) e(4)])
    show "n = 146097 * a + 36524 * b + 1461 * c + u" using r su by (simp add: s_def)
    show "c = 24 \<and> b < 3 \<longrightarrow> u < 1460" using s(3) su(1) by linarith
  qed
qed

lemma year_of_day_bounds:
  "days_before_year (year_of_day n) \<le> n" "n < days_before_year (year_of_day n + 1)"
proof -
  obtain a b c e u where y: "year_of_day n = 400 * a + 100 * b + 4 * c + e + 1"
    and n: "n = 146097 * a + 36524 * b + 1461 * c + u"
    and r: "0 \<le> b" "b \<le> 3" "0 \<le> c" "c \<le> 24" "0 \<le> e" "e \<le> 3" "365 * e \<le> u" "u < 1461"
    "e < 3 \<longrightarrow> u < 365 * e + 365" "c = 24 \<and> b < 3 \<longrightarrow> u < 1460"
    by (rule year_cycles[of n])
  have dby: "days_before_year (year_of_day n) = 146097 * a + 36524 * b + 1461 * c + 365 * e"
    unfolding y by (rule days_before_year_cycles) (use r in auto)
  have leap: "is_leap (year_of_day n) \<longleftrightarrow> e = 3 \<and> (c \<noteq> 24 \<or> b = 3)"
    unfolding y by (rule is_leap_cycles) (use r in auto)
  show "days_before_year (year_of_day n) \<le> n" using dby n r by linarith
  have "u < 365 * e + (if is_leap (year_of_day n) then 366 else 365)"
    using r unfolding leap by (cases "e = 3"; cases "c = 24"; cases "b = 3") auto
  then show "n < days_before_year (year_of_day n + 1)"
    using n dby unfolding days_before_next_year by linarith
qed


section \<open>Months\<close>

lemma month_from_bounds:
  "0 \<le> d \<Longrightarrow> d < sum_list ls \<Longrightarrow>
   \<exists>i<length ls. month_from m d ls = m + int i \<and> sum_list (take i ls) \<le> d \<and> d < sum_list (take (Suc i) ls)"
proof (induction ls arbitrary: m d)
  case (Cons l ls)
  show ?case
  proof (cases "d < l")
    case True
    then show ?thesis using Cons.prems by (intro exI[of _ 0]) simp
  next
    case False
    then obtain i where "i < length ls" "month_from (m + 1) (d - l) ls = m + 1 + int i"
        "sum_list (take i ls) \<le> d - l" "d - l < sum_list (take (Suc i) ls)"
      using Cons.IH[of "d - l" "m + 1"] Cons.prems by auto
    then show ?thesis using False by (intro exI[of _ "Suc i"]) simp
  qed
qed simp

lemma month_lengths_sum: "sum_list (month_lengths y) = (if is_leap y then 366 else 365)"
  by (simp add: month_lengths_def feb_days_def)

lemma length_month_lengths [simp]: "length (month_lengths y) = 12"
  by (simp add: month_lengths_def)

lemma day_number_month:
  "0 \<le> i \<Longrightarrow> i < 12 \<Longrightarrow> day_number y (i + 1) d =
     days_before_year y + sum_list (take (nat i) (month_lengths y)) + (d - 1)"
  by (simp add: day_number_def days_before_month_def)

lemma day_number_next_month:
  assumes "i < 12"
  shows "day_number y (int i + 2) 1 = days_before_year y + sum_list (take (Suc i) (month_lengths y))"
proof (cases "i = 11")
  case True
  then show ?thesis
    using month_lengths_sum[of y] days_before_next_year[of y]
    by (simp add: day_number_def days_before_month_def)
next
  case False
  with assms have "int i + 1 < 12" by simp
  from day_number_month[OF _ this, of y 1] show ?thesis by (simp add: nat_add_distrib algebra_simps)
qed

lemma month_of_day_bounds:
  fixes n
  defines "y \<equiv> year_of_day n" and "m \<equiv> month_of_day n"
  shows "1 \<le> m" "m \<le> 12" "day_number y m 1 \<le> n" "n < day_number y (m + 1) 1"
proof -
  have "0 \<le> n - days_before_year y" "n - days_before_year y < sum_list (month_lengths y)"
    using year_of_day_bounds[of n] unfolding y_def days_before_next_year month_lengths_sum by simp_all
  from month_from_bounds[OF this, of 1] obtain i where i: "i < 12" "m = 1 + int i"
    and b: "sum_list (take i (month_lengths y)) \<le> n - days_before_year y"
      "n - days_before_year y < sum_list (take (Suc i) (month_lengths y))"
    unfolding m_def month_of_day_def y_def by auto
  show "1 \<le> m" "m \<le> 12" using i by simp_all
  show "day_number y m 1 \<le> n"
    using b(1) i day_number_month[of "int i" y 1] by (simp add: add.commute)
  show "n < day_number y (m + 1) 1"
    using b(2) i day_number_next_month[OF i(1), of y] by (simp add: algebra_simps)
qed

text \<open>The date of a day number denotes it again.\<close>

lemma day_number_add: "day_number y m d = day_number y m 1 + (d - 1)"
  by (simp add: day_number_def Let_def)

lemma civil_round_trip: "day_number (year_of_day n) (month_of_day n) (month_day_of_day n) = n"
  by (subst day_number_add) (simp add: month_day_of_day_def)

lemma month_day_positive: "1 \<le> month_day_of_day n"
  using month_of_day_bounds(3)[of n] by (simp add: month_day_of_day_def)


text \<open>
  Months in one row: the first day of the month with index \<open>12 * y + m - 1\<close>. The row is
  strictly increasing, so the month a day falls into is unique.
\<close>

definition month_start :: "int \<Rightarrow> int" where
  "month_start k = day_number (k div 12) (k mod 12 + 1) 1"

lemma day_number_index: "day_number y m 1 = month_start (12 * y + (m - 1))"
proof -
  have "(12 * y + (m - 1)) div 12 = y + (m - 1) div 12" by (rule div_mult_self4) simp
  moreover have "(12 * y + (m - 1)) mod 12 = (m - 1) mod 12" by (rule mod_mult_self4)
  ultimately show ?thesis by (simp add: month_start_def day_number_def Let_def)
qed

lemma month_start_step: "month_start k < month_start (k + 1)"
proof -
  let ?y = "k div 12" and ?i = "nat (k mod 12)"
  have i: "int ?i = k mod 12" "?i < 12" by simp_all
  have "month_start (k + 1) = day_number ?y (int ?i + 2) 1"
    unfolding day_number_index i(1) by (rule arg_cong[where f = month_start]) simp
  also have "\<dots> = days_before_year ?y + sum_list (take (Suc ?i) (month_lengths ?y))"
    by (rule day_number_next_month[OF i(2)])
  also have "\<dots> = days_before_year ?y + sum_list (take ?i (month_lengths ?y)) + month_lengths ?y ! ?i"
    using i(2) by (simp add: take_Suc_conv_app_nth)
  also have "days_before_year ?y + sum_list (take ?i (month_lengths ?y)) = month_start k"
    using day_number_month[of "k mod 12" ?y 1] by (simp add: month_start_def)
  finally show ?thesis
    using i(2) nth_mem[of ?i "month_lengths ?y"]
    by (auto simp: month_lengths_def feb_days_def split: if_splits)
qed

lemma month_start_mono: "j < k \<Longrightarrow> month_start j < month_start k"
proof (induction k rule: int_gr_induct)
  case base
  show ?case by (rule month_start_step)
next
  case (step k)
  then show ?case using month_start_step[of k] by simp
qed

definition month_index :: "int \<Rightarrow> int" where
  "month_index n = 12 * year_of_day n + (month_of_day n - 1)"

lemma month_index_bounds: "month_start (month_index n) \<le> n" "n < month_start (month_index n + 1)"
  using month_of_day_bounds(3,4)[of n]
  by (simp_all add: day_number_index month_index_def algebra_simps)

lemma month_index_unique:
  assumes "month_start k \<le> n" "n < month_start (k + 1)"
  shows "month_index n = k"
proof (rule ccontr)
  assume "month_index n \<noteq> k"
  then consider "month_index n + 1 < k" | "month_index n + 1 = k" | "k + 1 < month_index n"
    | "k + 1 = month_index n" by linarith
  then show False
    using assms month_index_bounds[of n] month_start_mono[of "month_index n + 1" k]
      month_start_mono[of "k + 1" "month_index n"] by cases auto
qed

end
