(* ===== verification/Budget.thy ===== *)
theory Budget
  imports Calendar
begin

text \<open>
  The per-period spend ceiling, \<open>internal/budget/budget.go\<close>. The ledger read is the
  parameter \<open>reader\<close>: \<open>None\<close> for a wiring without a reader, otherwise a function of the
  raw key and the start of the window whose own \<open>None\<close> is a failed read. A window's bounds
  are instants; their RFC 3339 rendering for the ledger is not modelled. The location of
  \<open>now\<close> has the fixed offset \<open>off\<close>.
\<close>

definition period_daily :: string where "period_daily = ''daily''"
definition period_weekly :: string where "period_weekly = ''weekly''"
definition period_monthly :: string where "period_monthly = ''monthly''"
definition period_total :: string where "period_total = ''total''"

lemmas period_names = period_daily_def period_weekly_def period_monthly_def period_total_def

record budget_window =
  w_since :: "instant option"
  w_until :: "instant option"
  w_reset :: instant

record spend =
  s_micros :: int
  s_tokens :: int

record budget_limits =
  bl_micros :: int
  bl_tokens :: int
  bl_period :: string
  bl_alert_pct :: int
  bl_hard :: bool

definition no_budget :: budget_limits where
  "no_budget = \<lparr>bl_micros = 0, bl_tokens = 0, bl_period = [], bl_alert_pct = 0, bl_hard = False\<rparr>"

definition budget_armed :: "budget_limits \<Rightarrow> bool" where
  "budget_armed l \<longleftrightarrow> bl_micros l > 0 \<or> bl_tokens l > 0"

text \<open>A window between two midnights of the location.\<close>

definition day_window :: "duration \<Rightarrow> int \<Rightarrow> int \<Rightarrow> budget_window" where
  "day_window off a b =
     \<lparr>w_since = Some (midnight off a), w_until = Some (midnight off b), w_reset = midnight off b\<rparr>"

definition monthly_window :: "duration \<Rightarrow> instant \<Rightarrow> budget_window" where
  "monthly_window off now =
     (let n = day_of off now
      in day_window off (day_number (year_of_day n) (month_of_day n) 1)
                        (day_number (year_of_day n) (month_of_day n + 1) 1))"

definition resolve_window :: "duration \<Rightarrow> string \<Rightarrow> instant \<Rightarrow> budget_window" where
  "resolve_window off period now =
     (let n = day_of off now
      in if period = period_daily then day_window off n (n + 1)
         else if period = period_weekly
         then (let s = n - (weekday n + 6) mod 7 in day_window off s (s + 7))
         else if period = period_monthly then monthly_window off now
         else if period = period_total then \<lparr>w_since = None, w_until = None, w_reset = 0\<rparr>
         else monthly_window off now)"

type_synonym spend_reader = "(string \<Rightarrow> instant option \<Rightarrow> spend option) option"

definition spend_for :: "spend_reader \<Rightarrow> string \<Rightarrow> budget_window \<Rightarrow> spend option" where
  "spend_for reader raw_key w =
     (case reader of
        None \<Rightarrow> Some \<lparr>s_micros = 0, s_tokens = 0\<rparr>
      | Some r \<Rightarrow> if raw_key = [] then Some \<lparr>s_micros = 0, s_tokens = 0\<rparr> else r raw_key (w_since w))"

record budget_decision =
  dc_refuse :: bool
  dc_alerting :: bool
  dc_axis :: string
  dc_spend :: spend
  dc_limits :: budget_limits
  dc_reset :: instant

definition empty_decision :: budget_decision where
  "empty_decision = \<lparr>dc_refuse = False, dc_alerting = False, dc_axis = [],
     dc_spend = \<lparr>s_micros = 0, s_tokens = 0\<rparr>, dc_limits = no_budget, dc_reset = 0\<rparr>"

text \<open>The products are \<open>int64\<close> in the code: the low 64 bits, read as signed.\<close>

definition pct_reached :: "int \<Rightarrow> int \<Rightarrow> int \<Rightarrow> bool" where
  "pct_reached spent limit pct =
     (if limit \<le> 0 \<or> pct \<le> 0 then False
      else wrap_int64 (spent * 100) \<ge> wrap_int64 (limit * pct))"

definition decide :: "spend \<Rightarrow> budget_limits \<Rightarrow> instant \<Rightarrow> budget_decision" where
  "decide sp l reset =
     (let out = \<lparr>dc_refuse = False, dc_alerting = False, dc_axis = [], dc_spend = sp, dc_limits = l,
                 dc_reset = reset\<rparr>;
          cost = bl_micros l > 0 \<and> s_micros sp \<ge> bl_micros l;
          toks = bl_tokens l > 0 \<and> s_tokens sp \<ge> bl_tokens l
      in if cost \<and> bl_hard l then out\<lparr>dc_refuse := True, dc_axis := ''cost''\<rparr>
         else (let out = (if cost then out\<lparr>dc_alerting := True\<rparr> else out)
               in if toks \<and> bl_hard l then out\<lparr>dc_refuse := True, dc_axis := ''tokens''\<rparr>
                  else (let out = (if toks then out\<lparr>dc_alerting := True\<rparr> else out)
                        in if \<not> dc_alerting out \<and> bl_alert_pct l > 0
                              \<and> (pct_reached (s_micros sp) (bl_micros l) (bl_alert_pct l)
                                 \<or> pct_reached (s_tokens sp) (bl_tokens l) (bl_alert_pct l))
                           then out\<lparr>dc_alerting := True\<rparr> else out)))"

definition check_budget :: "duration \<Rightarrow> spend_reader \<Rightarrow> string \<Rightarrow> budget_limits \<Rightarrow> instant \<Rightarrow> budget_decision" where
  "check_budget off reader raw_key l now =
     (if \<not> budget_armed l \<or> raw_key = [] then empty_decision
      else (let w = resolve_window off (bl_period l) now
            in case spend_for reader raw_key w of
                 None \<Rightarrow> empty_decision
               | Some sp \<Rightarrow> decide sp l (w_reset w)))"

section \<open>Decisions\<close>

lemma pct_reached_exact:
  assumes "0 \<le> spent" "spent * 100 < 9223372036854775808" "limit * pct < 9223372036854775808"
  shows "pct_reached spent limit pct \<longleftrightarrow> 0 < limit \<and> 0 < pct \<and> limit * pct \<le> spent * 100"
proof (cases "0 < limit \<and> 0 < pct")
  case True
  then have "0 < limit * pct" by simp
  then have "wrap_int64 (limit * pct) = limit * pct" "wrap_int64 (spent * 100) = spent * 100"
    using assms by (intro wrap_int64_id; linarith)+
  then show ?thesis using True by (simp add: pct_reached_def)
qed (auto simp: pct_reached_def)

lemma decide_refuse_iff:
  "dc_refuse (decide sp l reset) \<longleftrightarrow> bl_hard l \<and>
     (bl_micros l > 0 \<and> bl_micros l \<le> s_micros sp \<or> bl_tokens l > 0 \<and> bl_tokens l \<le> s_tokens sp)"
  by (auto simp: decide_def Let_def split: if_splits)

lemma decide_axis:
  "dc_refuse (decide sp l reset) \<Longrightarrow> dc_axis (decide sp l reset) =
     (if bl_micros l > 0 \<and> bl_micros l \<le> s_micros sp then ''cost'' else ''tokens'')"
  by (auto simp: decide_def Let_def split: if_splits)

section \<open>Windows\<close>

lemma monthly_window_index:
  "monthly_window off now =
     day_window off (month_start (month_index (day_of off now))) (month_start (month_index (day_of off now) + 1))"
  by (simp add: monthly_window_def Let_def day_number_index month_index_def algebra_simps)

text \<open>The first and the last day of a window, as day numbers.\<close>

definition window_days :: "string \<Rightarrow> int \<Rightarrow> int \<times> int" where
  "window_days period n =
     (if period = period_daily then (n, n + 1)
      else if period = period_weekly then (n - n mod 7, n - n mod 7 + 7)
      else (month_start (month_index n), month_start (month_index n + 1)))"

lemma resolve_window_days:
  assumes "period \<noteq> period_total"
  shows "resolve_window off period now =
    day_window off (fst (window_days period (day_of off now))) (snd (window_days period (day_of off now)))"
proof -
  have "(weekday n + 6) mod 7 = n mod 7" for n unfolding weekday_def by presburger
  then show ?thesis using assms
    by (simp add: resolve_window_def window_days_def monthly_window_index Let_def)
qed

lemma window_days_bounds: "fst (window_days period n) \<le> n" "n < snd (window_days period n)"
  using month_index_bounds[of n] by (simp_all add: window_days_def algebra_simps)

lemma window_days_unique:
  assumes "fst (window_days period n) \<le> m" "m < snd (window_days period n)"
  shows "window_days period m = window_days period n"
proof -
  have "m - m mod 7 = n - n mod 7" if "n - n mod 7 \<le> m" "m < n - n mod 7 + 7" using that by presburger
  moreover have "month_index m = month_index n"
    if "month_start (month_index n) \<le> m" "m < month_start (month_index n + 1)"
    using that by (rule month_index_unique)
  ultimately show ?thesis using assms by (auto simp: window_days_def split: if_splits)
qed

lemma midnight_le_iff: "midnight off a \<le> t \<longleftrightarrow> a \<le> day_of off t"
  using day_of_bounds(1)[of off t] day_of_bounds(2)[of t off] midnight_mono[of a "day_of off t" off]
    midnight_mono[of "day_of off t + 1" a off] by linarith

section \<open>Properties\<close>



text \<open>A request is refused exactly when the key has a budget, the ledger read succeeds, the
  budget is a hard one and the measured spend of the window has reached one of the configured
  ceilings; a key without a budget, or a failed read, is always let through.\<close>
theorem budget_refuses_iff:
  "dc_refuse (check_budget off reader raw_key l now) \<longleftrightarrow>
     raw_key \<noteq> [] \<and> bl_hard l \<and>
     (\<exists>sp. spend_for reader raw_key (resolve_window off (bl_period l) now) = Some sp \<and>
        (0 < bl_micros l \<and> bl_micros l \<le> s_micros sp \<or> 0 < bl_tokens l \<and> bl_tokens l \<le> s_tokens sp))"
  by (auto simp: check_budget_def empty_decision_def budget_armed_def decide_refuse_iff Let_def
      split: option.splits)

end
