(* ===== verification/RateLimit.thy ===== *)
theory RateLimit
  imports Budget GoStrings
begin

text \<open>
  The per-key limiter of \<open>internal/middleware/ratelimit.go\<close>: a sliding window of request
  stamps, a token bucket, a concurrency counter and a FIFO queue of parked requests for
  every key. Each definition is one critical section under the limiter's mutex. Go leaves
  the iteration order of a map open; the order in which an eviction walks the windows is
  the parameter \<open>ord\<close>. The \<open>float64\<close> token counts are exact rationals.
\<close>

section \<open>State\<close>

definition default_max_queue_depth :: int where
  "default_max_queue_depth = 1024"

text \<open>A waiter's grant channel, buffered with one place, is its id in \<open>rl_grants\<close>.\<close>

record waiter =
  wt_id :: nat
  wt_rpm :: int
  wt_conc :: int
  wt_done :: bool

record token_bucket =
  tb_tokens :: rat
  tb_last :: instant

record limiter =
  rl_windows :: "(string \<times> instant list) list"
  rl_tokens :: "(string \<times> token_bucket) list"
  rl_active :: "(string \<times> int) list"
  rl_queues :: "(string \<times> waiter list) list"
  rl_timers :: "(string \<times> instant) list"
  rl_grants :: "nat list"
  rl_window :: duration
  rl_max_keys :: int
  rl_max_depth :: int

definition new_limiter :: "duration \<Rightarrow> limiter" where
  "new_limiter w = \<lparr>rl_windows = [], rl_tokens = [], rl_active = [], rl_queues = [], rl_timers = [],
     rl_grants = [], rl_window = (if w \<le> 0 then minute else w), rl_max_keys = 10000,
     rl_max_depth = default_max_queue_depth\<rparr>"

text \<open>The conversion \<open>int32(n)\<close>, which keeps the low 32 bits.\<close>

definition to_int32 :: "int \<Rightarrow> int" where
  "to_int32 n = (n + 2147483648) mod 4294967296 - 2147483648"

text \<open>What a lookup of a missing key reads: no stamps, a zero counter, no waiters.\<close>

definition stamps :: "limiter \<Rightarrow> string \<Rightarrow> instant list" where
  "stamps rl k = (case map_of (rl_windows rl) k of None \<Rightarrow> [] | Some ts \<Rightarrow> ts)"

definition active_count :: "limiter \<Rightarrow> string \<Rightarrow> int" where
  "active_count rl k = (case map_of (rl_active rl) k of None \<Rightarrow> 0 | Some n \<Rightarrow> n)"

definition waiters :: "limiter \<Rightarrow> string \<Rightarrow> waiter list" where
  "waiters rl k = (case map_of (rl_queues rl) k of None \<Rightarrow> [] | Some ws \<Rightarrow> ws)"

section \<open>Admission\<close>

definition window_has_room :: "string \<Rightarrow> int \<Rightarrow> instant \<Rightarrow> limiter \<Rightarrow> bool \<times> limiter" where
  "window_has_room k rpm now rl =
     (let valid = filter (\<lambda>t. now - rl_window rl < t) (stamps rl k)
      in (int (length valid) < rpm, rl\<lparr>rl_windows := AList.update k valid (rl_windows rl)\<rparr>))"

definition key_busy :: "limiter \<Rightarrow> string \<Rightarrow> bool" where
  "key_busy rl k \<longleftrightarrow> active_count rl k > 0"

definition drop_key :: "string \<Rightarrow> limiter \<Rightarrow> limiter" where
  "drop_key k rl = rl\<lparr>
     rl_windows := AList.delete k (rl_windows rl), rl_tokens := AList.delete k (rl_tokens rl),
     rl_active := AList.delete k (rl_active rl), rl_queues := AList.delete k (rl_queues rl),
     rl_timers := AList.delete k (rl_timers rl)\<rparr>"

primrec evict_loop :: "int \<Rightarrow> string \<Rightarrow> string list \<Rightarrow> limiter \<Rightarrow> limiter" where
  "evict_loop target keep [] rl = rl"
| "evict_loop target keep (k # ks) rl =
     (if k = keep \<or> key_busy rl k \<or> waiters rl k \<noteq> [] then evict_loop target keep ks rl
      else (let rl' = drop_key k rl
            in if int (length (rl_windows rl')) \<le> target then rl' else evict_loop target keep ks rl'))"

definition evict_if_needed :: "(string list \<Rightarrow> string list) \<Rightarrow> string \<Rightarrow> limiter \<Rightarrow> limiter" where
  "evict_if_needed ord keep rl =
     (if int (length (rl_windows rl)) < rl_max_keys rl then rl
      else evict_loop (rl_max_keys rl * 9 sdiv 10) keep (ord (keys (rl_windows rl))) rl)"

definition record_stamp :: "(string list \<Rightarrow> string list) \<Rightarrow> string \<Rightarrow> instant \<Rightarrow> limiter \<Rightarrow> limiter" where
  "record_stamp ord k now rl =
     (let rl = evict_if_needed ord k rl
      in rl\<lparr>rl_windows := AList.update k (stamps rl k @ [now]) (rl_windows rl)\<rparr>)"

definition set_active :: "string \<Rightarrow> int \<Rightarrow> limiter \<Rightarrow> limiter" where
  "set_active k n rl = rl\<lparr>rl_active := AList.update k n (rl_active rl)\<rparr>"

text \<open>The concurrency half of the admit test: the counter is created on first use.\<close>

definition claim_slot :: "string \<Rightarrow> int \<Rightarrow> limiter \<Rightarrow> bool \<times> limiter" where
  "claim_slot k conc rl =
     (if conc \<le> 0 then (True, rl)
      else if active_count rl k \<ge> to_int32 conc then (False, set_active k (active_count rl k) rl)
      else (True, set_active k (active_count rl k + 1) rl))"

definition try_admit ::
  "(string list \<Rightarrow> string list) \<Rightarrow> string \<Rightarrow> int \<Rightarrow> int \<Rightarrow> instant \<Rightarrow> limiter \<Rightarrow> bool \<times> limiter" where
  "try_admit ord k rpm conc now rl =
     (let (room, rl) = (if rpm > 0 then window_has_room k rpm now rl else (True, rl))
      in if \<not> room then (False, rl)
         else (let (slot, rl) = claim_slot k conc rl
               in if \<not> slot then (False, rl)
                  else (True, if rpm > 0 then record_stamp ord k now rl else rl)))"

section \<open>The queue\<close>

definition rpm_blocked :: "string \<Rightarrow> int \<Rightarrow> instant \<Rightarrow> limiter \<Rightarrow> bool" where
  "rpm_blocked k rpm now rl =
     (if rpm \<le> 0 then False
      else case map_of (rl_windows rl) k of
             None \<Rightarrow> False
           | Some ts \<Rightarrow> int (length (filter (\<lambda>t. now - rl_window rl < t) ts)) \<ge> rpm)"

definition schedule_wake :: "string \<Rightarrow> instant \<Rightarrow> limiter \<Rightarrow> limiter" where
  "schedule_wake k now rl =
     (case stamps rl k of
        [] \<Rightarrow> rl
      | oldest # _ \<Rightarrow>
          (if map_of (rl_timers rl) k \<noteq> None then rl
           else (let wake = oldest + rl_window rl - now;
                     wake = (if wake \<le> 0 then millisecond else wake)
                 in rl\<lparr>rl_timers := AList.update k (now + wake) (rl_timers rl)\<rparr>)))"

definition set_queue :: "string \<Rightarrow> waiter list \<Rightarrow> limiter \<Rightarrow> limiter" where
  "set_queue k ws rl = rl\<lparr>rl_queues := AList.update k ws (rl_queues rl)\<rparr>"

text \<open>The loop of \<open>pumpLocked\<close> over the queue of \<open>k\<close>: the waiters granted, in order.\<close>

primrec pump_loop ::
  "(string list \<Rightarrow> string list) \<Rightarrow> string \<Rightarrow> instant \<Rightarrow> waiter list \<Rightarrow> limiter \<Rightarrow> waiter list \<times> limiter" where
  "pump_loop ord k now [] rl = ([], rl\<lparr>rl_queues := AList.delete k (rl_queues rl)\<rparr>)"
| "pump_loop ord k now (w # ws) rl =
     (if wt_done w then pump_loop ord k now ws (set_queue k ws rl)
      else (case try_admit ord k (wt_rpm w) (wt_conc w) now rl of
              (False, rl) \<Rightarrow> ([], if rpm_blocked k (wt_rpm w) now rl then schedule_wake k now rl else rl)
            | (True, rl) \<Rightarrow>
                (let rl = (set_queue k ws rl)\<lparr>rl_grants := wt_id w # rl_grants rl\<rparr>;
                     (gs, rl) = pump_loop ord k now ws rl
                 in (w # gs, rl))))"

definition pump ::
  "(string list \<Rightarrow> string list) \<Rightarrow> string \<Rightarrow> instant \<Rightarrow> limiter \<Rightarrow> waiter list \<times> limiter" where
  "pump ord k now rl =
     (case map_of (rl_queues rl) k of None \<Rightarrow> ([], rl) | Some ws \<Rightarrow> pump_loop ord k now ws rl)"

definition fire_timer ::
  "(string list \<Rightarrow> string list) \<Rightarrow> string \<Rightarrow> instant \<Rightarrow> limiter \<Rightarrow> waiter list \<times> limiter" where
  "fire_timer ord k now rl = pump ord k now (rl\<lparr>rl_timers := AList.delete k (rl_timers rl)\<rparr>)"

definition release_concurrency ::
  "(string list \<Rightarrow> string list) \<Rightarrow> string \<Rightarrow> instant \<Rightarrow> limiter \<Rightarrow> waiter list \<times> limiter" where
  "release_concurrency ord k now rl =
     (let rl = (case map_of (rl_active rl) k of
                  None \<Rightarrow> rl
                | Some n \<Rightarrow> set_active k (if n - 1 < 0 then 0 else n - 1) rl)
      in pump ord k now rl)"

text \<open>
  \<open>Acquire\<close>, cut at the points where it gives the lock back: the fast path, the enqueue,
  and the two ways the wait of a parked request ends. The first two also report the
  waiters the pump granted meanwhile.
\<close>

datatype acquire_result = Admitted | Refused | Queued

definition acquire_enqueue ::
  "(string list \<Rightarrow> string list) \<Rightarrow> string \<Rightarrow> waiter \<Rightarrow> instant \<Rightarrow> limiter \<Rightarrow>
   acquire_result \<times> waiter list \<times> limiter" where
  "acquire_enqueue ord k w now rl =
     (let depth = (if rl_max_depth rl \<le> 0 then default_max_queue_depth else rl_max_depth rl);
          rl = set_queue k (waiters rl k) rl
      in if int (length (waiters rl k)) \<ge> depth then (Refused, [], rl)
         else (Queued, pump ord k now (set_queue k (waiters rl k @ [w]) rl)))"

definition acquire_start ::
  "(string list \<Rightarrow> string list) \<Rightarrow> bool \<Rightarrow> nat \<Rightarrow> string \<Rightarrow> int \<Rightarrow> int \<Rightarrow> duration \<Rightarrow> instant \<Rightarrow> limiter \<Rightarrow>
   acquire_result \<times> waiter list \<times> limiter" where
  "acquire_start ord ctx_gone i k rpm conc timeout now rl =
     (case try_admit ord k rpm conc now rl of
        (True, rl) \<Rightarrow> (Admitted, [], rl)
      | (False, rl) \<Rightarrow>
          (if timeout \<le> 0 then (Refused, [], rl)
           else if ctx_gone then (Refused, [], rl)
           else acquire_enqueue ord k
                  \<lparr>wt_id = i, wt_rpm = rpm, wt_conc = conc, wt_done = False\<rparr> now rl))"

definition acquire_granted :: "nat \<Rightarrow> limiter \<Rightarrow> bool \<times> limiter" where
  "acquire_granted i rl =
     (if i \<in> set (rl_grants rl) then (True, rl\<lparr>rl_grants := remove1 i (rl_grants rl)\<rparr>) else (False, rl))"

definition mark_done :: "nat \<Rightarrow> waiter list \<Rightarrow> waiter list" where
  "mark_done i ws = map (\<lambda>w. if wt_id w = i then w\<lparr>wt_done := True\<rparr> else w) ws"

definition acquire_give_up ::
  "(string list \<Rightarrow> string list) \<Rightarrow> nat \<Rightarrow> string \<Rightarrow> int \<Rightarrow> instant \<Rightarrow> limiter \<Rightarrow> waiter list \<times> limiter" where
  "acquire_give_up ord i k conc now rl =
     (let rl = rl\<lparr>rl_queues := map (\<lambda>(q, ws). (q, mark_done i ws)) (rl_queues rl)\<rparr>;
          (granted, rl) = acquire_granted i rl;
          rl = (if granted \<and> conc > 0
                then (case map_of (rl_active rl) k of None \<Rightarrow> rl | Some n \<Rightarrow> set_active k (n - 1) rl)
                else rl)
      in pump ord k now rl)"

section \<open>Tokens\<close>

definition seconds_of :: "duration \<Rightarrow> rat" where
  "seconds_of d = of_int d / of_int second"

text \<open>Truncation of a \<open>float64\<close> towards zero.\<close>

definition trunc_int :: "rat \<Rightarrow> int" where
  "trunc_int x = (if 0 \<le> x then \<lfloor>x\<rfloor> else - \<lfloor>- x\<rfloor>)"

definition refill_rate :: "limiter \<Rightarrow> int \<Rightarrow> rat" where
  "refill_rate rl tpm = of_int tpm / seconds_of (rl_window rl)"

definition refill :: "limiter \<Rightarrow> int \<Rightarrow> instant \<Rightarrow> token_bucket \<Rightarrow> token_bucket" where
  "refill rl tpm now b =
     (let elapsed = seconds_of (now - tb_last b)
      in if elapsed > 0
         then (let t = tb_tokens b + elapsed * refill_rate rl tpm
               in \<lparr>tb_tokens = (if t > of_int tpm then of_int tpm else t), tb_last = now\<rparr>)
         else b)"

definition check_tpm :: "string \<Rightarrow> int \<Rightarrow> int \<Rightarrow> instant \<Rightarrow> limiter \<Rightarrow> bool \<times> limiter" where
  "check_tpm k tpm tokens now rl =
     (let b = (case map_of (rl_tokens rl) k of
                 None \<Rightarrow> \<lparr>tb_tokens = of_int tpm, tb_last = now\<rparr>
               | Some b \<Rightarrow> b);
          b = refill rl tpm now b;
          ok = \<not> tb_tokens b < of_int tokens;
          b = (if ok then b\<lparr>tb_tokens := tb_tokens b - of_int tokens\<rparr> else b)
      in (ok, rl\<lparr>rl_tokens := AList.update k b (rl_tokens rl)\<rparr>))"

definition tpm_retry_after :: "string \<Rightarrow> int \<Rightarrow> int \<Rightarrow> limiter \<Rightarrow> int" where
  "tpm_retry_after k tpm tokens rl =
     (case map_of (rl_tokens rl) k of
        None \<Rightarrow> 1
      | Some b \<Rightarrow>
          (let deficit = of_int tokens - tb_tokens b
           in if deficit \<le> 0 then 1 else trunc_int (deficit / refill_rate rl tpm) + 1))"

definition rpm_retry_after :: "string \<Rightarrow> instant \<Rightarrow> limiter \<Rightarrow> int" where
  "rpm_retry_after k now rl =
     (case stamps rl k of
        [] \<Rightarrow> 1
      | oldest # _ \<Rightarrow>
          (let r = rl_window rl - (now - oldest);
               r = (if r < 0 then 0 else r)
           in r sdiv second + 1))"

definition check_tpm_only :: "string \<Rightarrow> int \<Rightarrow> int \<Rightarrow> instant \<Rightarrow> limiter \<Rightarrow> (bool \<times> int \<times> string) \<times> limiter" where
  "check_tpm_only k tpm tokens now rl =
     (case check_tpm k tpm tokens now rl of
        (True, rl) \<Rightarrow> ((True, 0, []), rl)
      | (False, rl) \<Rightarrow> ((False, tpm_retry_after k tpm tokens rl, ''tpm''), rl))"

definition concurrency_full :: "string \<Rightarrow> int \<Rightarrow> limiter \<Rightarrow> bool" where
  "concurrency_full k limit rl =
     (case map_of (rl_active rl) k of None \<Rightarrow> False | Some n \<Rightarrow> n \<ge> to_int32 limit)"

definition check_limits ::
  "(string list \<Rightarrow> string list) \<Rightarrow> string \<Rightarrow> int \<Rightarrow> int \<Rightarrow> int \<Rightarrow> int \<Rightarrow> instant \<Rightarrow> limiter \<Rightarrow>
   (bool \<times> int \<times> string) \<times> limiter" where
  "check_limits ord k rpm tpm conc prompt now rl =
     (case try_admit ord k rpm conc now rl of
        (False, rl) \<Rightarrow>
          (if conc > 0 \<and> concurrency_full k conc rl then ((False, 1, ''concurrency''), rl)
           else ((False, rpm_retry_after k now rl, ''rpm''), rl))
      | (True, rl) \<Rightarrow>
          (if tpm > 0 then check_tpm_only k tpm prompt now rl else ((True, 0, []), rl)))"

definition settle_token_usage :: "string \<Rightarrow> int \<Rightarrow> int \<Rightarrow> int \<Rightarrow> limiter \<Rightarrow> limiter" where
  "settle_token_usage k tpm reserved actual rl =
     (if tpm \<le> 0 \<or> k = [] \<or> actual \<le> reserved then rl
      else case map_of (rl_tokens rl) k of
             None \<Rightarrow> rl
           | Some b \<Rightarrow>
               (let t = tb_tokens b - of_int (actual - reserved);
                    t = (if t < 0 then 0 else t)
                in rl\<lparr>rl_tokens := AList.update k (b\<lparr>tb_tokens := t\<rparr>) (rl_tokens rl)\<rparr>))"

definition refund_tpm :: "string \<Rightarrow> int \<Rightarrow> int \<Rightarrow> limiter \<Rightarrow> limiter" where
  "refund_tpm k tpm amount rl =
     (if tpm \<le> 0 \<or> k = [] \<or> amount \<le> 0 then rl
      else case map_of (rl_tokens rl) k of
             None \<Rightarrow> rl
           | Some b \<Rightarrow>
               (let t = tb_tokens b + of_int amount;
                    t = (if t > of_int tpm then of_int tpm else t)
                in rl\<lparr>rl_tokens := AList.update k (b\<lparr>tb_tokens := t\<rparr>) (rl_tokens rl)\<rparr>))"

definition snapshot :: "string \<Rightarrow> instant \<Rightarrow> limiter \<Rightarrow> int \<times> int" where
  "snapshot k now rl =
     (if k = [] then (0, 0)
      else (int (length (filter (\<lambda>t. now - rl_window rl < t) (stamps rl k))), active_count rl k))"

section \<open>Provider slots\<close>

record limits =
  li_rpm :: int
  li_tpm :: int
  li_conc :: int
  li_quota :: int
  li_queue :: duration
  li_budget :: budget_limits

definition default_queue_timeout :: duration where
  "default_queue_timeout = 60 * second"

definition provider_scope_key :: "string \<Rightarrow> string" where
  "provider_scope_key p = ''prov:'' @ p"

record provider_slot =
  sl_key :: string
  sl_tpm :: int
  sl_reserved :: int
  sl_held :: bool

record refusal =
  rf_axis :: string
  rf_retry :: duration
  rf_limit :: int

definition queue_limit :: "limits \<Rightarrow> int" where
  "queue_limit l = (if li_conc l > 0 then li_conc l else li_rpm l)"

definition queue_scope :: "limits \<Rightarrow> string" where
  "queue_scope l = (if li_conc l > 0 then ''concurrency'' else ''rpm'')"

definition queue_retry_after :: "limits \<Rightarrow> int" where
  "queue_retry_after l = (if li_queue l \<le> 0 then 1 else li_queue l sdiv second + 1)"

definition slot_settle :: "int \<Rightarrow> provider_slot \<Rightarrow> limiter \<Rightarrow> provider_slot \<times> limiter" where
  "slot_settle actual s rl =
     (s\<lparr>sl_reserved := 0\<rparr>,
      if sl_tpm s > 0 \<and> sl_reserved s > 0
      then settle_token_usage (sl_key s) (sl_tpm s) (sl_reserved s) actual rl else rl)"

definition slot_release ::
  "(string list \<Rightarrow> string list) \<Rightarrow> instant \<Rightarrow> provider_slot \<Rightarrow> limiter \<Rightarrow> provider_slot \<times> limiter" where
  "slot_release ord now s rl =
     (let (s, rl) = (if sl_held s then (s\<lparr>sl_held := False\<rparr>, snd (release_concurrency ord (sl_key s) now rl))
                     else (s, rl))
      in if sl_reserved s > 0
         then (s\<lparr>sl_reserved := 0\<rparr>, refund_tpm (sl_key s) (sl_tpm s) (sl_reserved s) rl)
         else (s, rl))"

text \<open>
  \<open>AcquireProvider\<close> for a request that is admitted or refused on the spot;
  \<open>provider_acquired\<close> is the rest of the call once the wait in \<open>Acquire\<close> is over.
\<close>

datatype provider_result =
    NoLimits
  | Slot provider_slot
  | Refusal refusal
  | Parked_at provider_slot

definition provider_acquired ::
  "(string list \<Rightarrow> string list) \<Rightarrow> limits \<Rightarrow> bool \<Rightarrow> instant \<Rightarrow> provider_slot \<Rightarrow> limiter \<Rightarrow>
   provider_result \<times> limiter" where
  "provider_acquired ord l ok now s rl =
     (if ok then (Slot (s\<lparr>sl_held := li_conc l > 0\<rparr>), rl)
      else (Refusal \<lparr>rf_axis = queue_scope l, rf_retry = queue_retry_after l * second,
                     rf_limit = queue_limit l\<rparr>, snd (slot_release ord now s rl)))"

definition acquire_provider ::
  "(string list \<Rightarrow> string list) \<Rightarrow> bool \<Rightarrow> nat \<Rightarrow> string \<Rightarrow> limits \<Rightarrow> int \<Rightarrow> instant \<Rightarrow> limiter \<Rightarrow>
   provider_result \<times> limiter" where
  "acquire_provider ord ctx_gone i p l prompt now rl =
     (if p = [] then (NoLimits, rl)
      else if li_rpm l \<le> 0 \<and> li_tpm l \<le> 0 \<and> li_conc l \<le> 0 then (NoLimits, rl)
      else (let key = provider_scope_key p;
                s = \<lparr>sl_key = key, sl_tpm = li_tpm l, sl_reserved = 0, sl_held = False\<rparr>;
                ((ok, retry, axis), rl) =
                  (if li_tpm l > 0 \<and> prompt > 0 then check_tpm_only key (li_tpm l) prompt now rl
                   else ((True, 0, []), rl));
                s = (if li_tpm l > 0 \<and> prompt > 0 then s\<lparr>sl_reserved := prompt\<rparr> else s)
            in if \<not> ok
               then (Refusal \<lparr>rf_axis = axis, rf_retry = retry * second, rf_limit = li_tpm l\<rparr>, rl)
               else (case acquire_start ord ctx_gone i key (li_rpm l) (li_conc l) (li_queue l) now rl of
                       (Queued, _, rl) \<Rightarrow> (Parked_at s, rl)
                     | (Admitted, _, rl) \<Rightarrow> provider_acquired ord l True now s rl
                     | (Refused, _, rl) \<Rightarrow> provider_acquired ord l False now s rl)))"

definition rate_limit_scope :: "string \<Rightarrow> string" where
  "rate_limit_scope s =
     (if s \<in> {''rpm'', ''tpm'', ''concurrency'', ''token_quota''} then s else ''rpm'')"

definition quota_exhausted :: "limits \<Rightarrow> string \<Rightarrow> int option option \<Rightarrow> bool" where
  "quota_exhausted l raw_key usage =
     (if li_quota l \<le> 0 \<or> usage = None \<or> raw_key = [] then False
      else case usage of Some (Some used) \<Rightarrow> \<not> used < li_quota l | _ \<Rightarrow> False)"

end
