(* ===== verification/Policy.thy ===== *)
theory Policy
  imports RateLimit
begin

text \<open>
  The one place where an API key's effective limits are decided:
  \<open>internal/policy/policy.go\<close> overlays the plan assigned to the key with the key's own
  columns, and \<open>limitsFor\<close> of \<open>internal/middleware/ratelimit.go\<close> puts the result over
  the operator's default. The plan store is the parameter \<open>plans\<close>: \<open>None\<close> when no plan
  tier is wired, otherwise a lookup whose \<open>None\<close> is a failed read.
\<close>

record db_plan =
  pl_id :: string
  pl_rpm :: int
  pl_tpm :: int
  pl_conc :: int
  pl_micros :: int
  pl_tokens :: int
  pl_period :: string
  pl_alert_pct :: int
  pl_hard :: bool
  pl_models :: "string list"

text \<open>The columns of an API key the resolution reads; \<open>None\<close> is a null column.\<close>

record api_key =
  ak_rpm :: "int option"
  ak_tpm :: "int option"
  ak_conc :: "int option"
  ak_queue_ms :: "int option"
  ak_quota :: "int option"
  ak_plan :: "string option"
  ak_micros :: int
  ak_tokens :: int
  ak_period :: string
  ak_alert_pct :: int
  ak_hard :: bool

record effective_policy =
  ep_plan :: string
  ep_rpm :: int
  ep_tpm :: int
  ep_conc :: int
  ep_queue_ms :: int
  ep_quota :: int
  ep_micros :: int
  ep_tokens :: int
  ep_period :: string
  ep_alert_pct :: int
  ep_hard :: bool
  ep_models :: "string list"

definition zero_policy :: effective_policy where
  "zero_policy = \<lparr>ep_plan = [], ep_rpm = 0, ep_tpm = 0, ep_conc = 0, ep_queue_ms = 0, ep_quota = 0,
     ep_micros = 0, ep_tokens = 0, ep_period = [], ep_alert_pct = 0, ep_hard = False, ep_models = []\<rparr>"

type_synonym plan_source = "(string \<Rightarrow> db_plan option) option"

definition deref_int :: "int option \<Rightarrow> int" where
  "deref_int v = (case v of None \<Rightarrow> 0 | Some n \<Rightarrow> n)"

definition apply_plan :: "effective_policy \<Rightarrow> plan_source \<Rightarrow> string option \<Rightarrow> effective_policy" where
  "apply_plan out plans plan_id =
     (case (plans, plan_id) of
        (Some get_plan, Some raw) \<Rightarrow>
          (let i = trim_space raw
           in if i = [] then out
              else case get_plan i of
                     None \<Rightarrow> out
                   | Some p \<Rightarrow> out\<lparr>ep_plan := pl_id p, ep_rpm := pl_rpm p, ep_tpm := pl_tpm p,
                       ep_conc := pl_conc p, ep_micros := pl_micros p, ep_tokens := pl_tokens p,
                       ep_period := pl_period p, ep_alert_pct := pl_alert_pct p, ep_hard := pl_hard p,
                       ep_models := pl_models p\<rparr>)
      | _ \<Rightarrow> out)"

definition pos_or :: "int \<Rightarrow> int \<Rightarrow> int" where
  "pos_or v d = (if v > 0 then v else d)"

definition apply_key_overrides :: "effective_policy \<Rightarrow> api_key \<Rightarrow> effective_policy" where
  "apply_key_overrides out k = out\<lparr>
     ep_rpm := pos_or (deref_int (ak_rpm k)) (ep_rpm out),
     ep_tpm := pos_or (deref_int (ak_tpm k)) (ep_tpm out),
     ep_conc := pos_or (deref_int (ak_conc k)) (ep_conc out),
     ep_queue_ms := pos_or (deref_int (ak_queue_ms k)) (ep_queue_ms out),
     ep_quota := pos_or (deref_int (ak_quota k)) (ep_quota out),
     ep_micros := pos_or (ak_micros k) (ep_micros out),
     ep_tokens := pos_or (ak_tokens k) (ep_tokens out),
     ep_period := (if ak_period k \<noteq> [] then ak_period k else ep_period out),
     ep_alert_pct := pos_or (ak_alert_pct k) (ep_alert_pct out),
     ep_hard := (if ak_hard k then True else ep_hard out)\<rparr>"

definition resolve_policy :: "plan_source \<Rightarrow> api_key option \<Rightarrow> effective_policy" where
  "resolve_policy plans key =
     (case key of
        None \<Rightarrow> zero_policy
      | Some k \<Rightarrow> apply_key_overrides (apply_plan zero_policy plans (ak_plan k)) k)"

section \<open>The limits of a key\<close>

definition zero_limits :: limits where
  "zero_limits = \<lparr>li_rpm = 0, li_tpm = 0, li_conc = 0, li_quota = 0, li_queue = 0, li_budget = no_budget\<rparr>"

definition limits_for :: "api_key \<Rightarrow> limits option \<Rightarrow> plan_source \<Rightarrow> limits" where
  "limits_for k d plans =
     (let out = (case d of None \<Rightarrow> zero_limits | Some l \<Rightarrow> l);
          pol = resolve_policy plans (Some k);
          out = out\<lparr>li_rpm := pos_or (ep_rpm pol) (li_rpm out),
                    li_tpm := pos_or (ep_tpm pol) (li_tpm out),
                    li_conc := pos_or (ep_conc pol) (li_conc out),
                    li_quota := pos_or (ep_quota pol) (li_quota out),
                    li_budget := \<lparr>bl_micros = ep_micros pol, bl_tokens = ep_tokens pol,
                                  bl_period = ep_period pol, bl_alert_pct = ep_alert_pct pol,
                                  bl_hard = ep_hard pol\<rparr>\<rparr>;
          key_conc = deref_int (ak_conc k);
          key_queue = deref_int (ak_queue_ms k)
      in if key_queue > 0 then out\<lparr>li_queue := key_queue * millisecond\<rparr>
         else if key_conc > 0 then out\<lparr>li_queue := default_queue_timeout\<rparr>
         else if ep_plan pol \<noteq> [] \<and> ep_conc pol > 0 then out\<lparr>li_queue := default_queue_timeout\<rparr>
         else if li_conc out > 0 then out\<lparr>li_queue := 0\<rparr>
         else out)"

definition effective_tpm :: "limits option \<Rightarrow> plan_source \<Rightarrow> api_key \<Rightarrow> int" where
  "effective_tpm d plans k = li_tpm (limits_for k d plans)"

text \<open>The plan that applies to a key, if any.\<close>

definition plan_of :: "plan_source \<Rightarrow> api_key \<Rightarrow> db_plan option" where
  "plan_of plans k = (case (plans, ak_plan k) of
       (Some get_plan, Some raw) \<Rightarrow> if trim_space raw = [] then None else get_plan (trim_space raw)
     | _ \<Rightarrow> None)"

lemma apply_plan_eq:
  "apply_plan zero_policy plans (ak_plan k) =
     (case plan_of plans k of
        None \<Rightarrow> zero_policy
      | Some p \<Rightarrow> zero_policy\<lparr>ep_plan := pl_id p, ep_rpm := pl_rpm p, ep_tpm := pl_tpm p,
          ep_conc := pl_conc p, ep_micros := pl_micros p, ep_tokens := pl_tokens p,
          ep_period := pl_period p, ep_alert_pct := pl_alert_pct p, ep_hard := pl_hard p,
          ep_models := pl_models p\<rparr>)"
  by (auto simp: apply_plan_def plan_of_def Let_def split: option.splits)

text \<open>The first positive number of a list, or what is left at its end.\<close>

definition first_set :: "int list \<Rightarrow> int" where
  "first_set vs = (case filter (\<lambda>v. v > 0) (butlast vs) of [] \<Rightarrow> last vs | v # _ \<Rightarrow> v)"

lemma first_set_simps [simp]:
  "first_set [d] = d" "first_set [v, d] = pos_or v d" "first_set [u, v, d] = pos_or u (pos_or v d)"
  by (simp_all add: first_set_def pos_or_def)

lemma limits_for_rates:
  "li_rpm (limits_for k d plans) = pos_or (ep_rpm (resolve_policy plans (Some k)))
      (li_rpm (case d of None \<Rightarrow> zero_limits | Some l \<Rightarrow> l))"
  "li_tpm (limits_for k d plans) = pos_or (ep_tpm (resolve_policy plans (Some k)))
      (li_tpm (case d of None \<Rightarrow> zero_limits | Some l \<Rightarrow> l))"
  "li_conc (limits_for k d plans) = pos_or (ep_conc (resolve_policy plans (Some k)))
      (li_conc (case d of None \<Rightarrow> zero_limits | Some l \<Rightarrow> l))"
  "li_quota (limits_for k d plans) = pos_or (ep_quota (resolve_policy plans (Some k)))
      (li_quota (case d of None \<Rightarrow> zero_limits | Some l \<Rightarrow> l))"
  by (simp_all add: limits_for_def Let_def)

lemma pos_or_assoc: "pos_or (pos_or a b) c = pos_or a (pos_or b c)"
  by (simp add: pos_or_def)

section \<open>Properties\<close>

text \<open>The precedence of the rate limits: the key's own column when it is positive, else its
  plan's limit when that is positive, else the operator's default; the lifetime token quota is
  never taken from a plan.\<close>
theorem limits_precedence:
  "let dflt = (case d of None \<Rightarrow> zero_limits | Some l \<Rightarrow> l);
       planned = (\<lambda>f. case plan_of plans k of None \<Rightarrow> 0 | Some p \<Rightarrow> f p)
   in li_rpm (limits_for k d plans) = first_set [deref_int (ak_rpm k), planned pl_rpm, li_rpm dflt] \<and>
      li_tpm (limits_for k d plans) = first_set [deref_int (ak_tpm k), planned pl_tpm, li_tpm dflt] \<and>
      li_conc (limits_for k d plans) = first_set [deref_int (ak_conc k), planned pl_conc, li_conc dflt] \<and>
      li_quota (limits_for k d plans) = first_set [deref_int (ak_quota k), li_quota dflt]"
  unfolding Let_def limits_for_rates resolve_policy_def apply_plan_eq
  by (simp add: apply_key_overrides_def zero_policy_def pos_or_assoc pos_or_def split: option.splits)

text \<open>A concurrency cap that comes from the operator's default alone never makes a request
  wait: the queue time of such a key is zero, while a cap of the key's own or of its plan queues for
  the documented minute unless the key sets its own time.\<close>
theorem queue_time_follows_cap:
  "li_queue (limits_for k d plans) =
     (let dflt = (case d of None \<Rightarrow> zero_limits | Some l \<Rightarrow> l);
          own = deref_int (ak_conc k) > 0;
          by_plan = (case plan_of plans k of None \<Rightarrow> False | Some p \<Rightarrow> pl_id p \<noteq> [] \<and> pl_conc p > 0)
      in if deref_int (ak_queue_ms k) > 0 then deref_int (ak_queue_ms k) * millisecond
         else if own \<or> by_plan then default_queue_timeout
         else if li_conc (limits_for k d plans) > 0 then 0
         else li_queue dflt)"
proof -
  have "\<not> 0 < deref_int (ak_conc k) \<Longrightarrow>
      ep_plan (resolve_policy plans (Some k)) \<noteq> [] \<and> 0 < ep_conc (resolve_policy plans (Some k)) \<longleftrightarrow>
      (case plan_of plans k of None \<Rightarrow> False | Some p \<Rightarrow> pl_id p \<noteq> [] \<and> 0 < pl_conc p)"
    unfolding resolve_policy_def apply_plan_eq
    by (auto simp: apply_key_overrides_def zero_policy_def pos_or_def split: option.splits)
  then show ?thesis unfolding limits_for_rates(3) by (auto simp: limits_for_def Let_def)
qed

end
