(* ===== verification/RateWindow.thy ===== *)
theory RateWindow
  imports RateLimit
begin

text \<open>
  What the admit test and the queue of \<open>internal/middleware/ratelimit.go\<close> guarantee: the
  accessors' behaviour under each step, the FIFO order of the pump, the eviction's
  restraint, and the sliding-window and concurrency bounds over whole histories.
\<close>

section \<open>Accessors\<close>

lemma stamps_update [simp]:
  "stamps (rl\<lparr>rl_windows := AList.update k ts m\<rparr>) j = (if j = k then ts else stamps (rl\<lparr>rl_windows := m\<rparr>) j)"
  "stamps (rl\<lparr>rl_windows := rl_windows rl2\<rparr>) j = stamps rl2 j"
  by (simp_all add: stamps_def)

lemma stamps_frame [simp]:
  "stamps (rl\<lparr>rl_active := a\<rparr>) j = stamps rl j" "stamps (rl\<lparr>rl_queues := q\<rparr>) j = stamps rl j"
  "stamps (rl\<lparr>rl_timers := t\<rparr>) j = stamps rl j" "stamps (rl\<lparr>rl_grants := g\<rparr>) j = stamps rl j"
  "stamps (rl\<lparr>rl_tokens := b\<rparr>) j = stamps rl j"
  "stamps (set_active k n rl) j = stamps rl j" "stamps (set_queue k ws rl) j = stamps rl j"
  by (simp_all add: stamps_def set_active_def set_queue_def)

lemma active_count_frame [simp]:
  "active_count (rl\<lparr>rl_windows := a\<rparr>) j = active_count rl j" "active_count (rl\<lparr>rl_queues := q\<rparr>) j = active_count rl j"
  "active_count (rl\<lparr>rl_timers := t\<rparr>) j = active_count rl j" "active_count (rl\<lparr>rl_grants := g\<rparr>) j = active_count rl j"
  "active_count (rl\<lparr>rl_tokens := b\<rparr>) j = active_count rl j"
  "active_count (set_queue k ws rl) j = active_count rl j"
  "active_count (set_active k n rl) j = (if j = k then n else active_count rl j)"
  by (simp_all add: active_count_def set_active_def set_queue_def)

lemma waiters_frame [simp]:
  "waiters (rl\<lparr>rl_windows := a\<rparr>) j = waiters rl j" "waiters (rl\<lparr>rl_active := q\<rparr>) j = waiters rl j"
  "waiters (rl\<lparr>rl_timers := t\<rparr>) j = waiters rl j" "waiters (rl\<lparr>rl_grants := g\<rparr>) j = waiters rl j"
  "waiters (rl\<lparr>rl_tokens := b\<rparr>) j = waiters rl j"
  "waiters (set_active k n rl) j = waiters rl j"
  "waiters (set_queue k ws rl) j = (if j = k then ws else waiters rl j)"
  by (simp_all add: waiters_def set_active_def set_queue_def)

lemma set_frame [simp]:
  "rl_window (set_active k n rl) = rl_window rl" "rl_windows (set_active k n rl) = rl_windows rl"
  "rl_max_keys (set_active k n rl) = rl_max_keys rl" "rl_grants (set_active k n rl) = rl_grants rl"
  "rl_timers (set_active k n rl) = rl_timers rl" "rl_tokens (set_active k n rl) = rl_tokens rl"
  "rl_queues (set_active k n rl) = rl_queues rl"
  "rl_window (set_queue k ws rl) = rl_window rl" "rl_windows (set_queue k ws rl) = rl_windows rl"
  "rl_max_keys (set_queue k ws rl) = rl_max_keys rl" "rl_grants (set_queue k ws rl) = rl_grants rl"
  "rl_timers (set_queue k ws rl) = rl_timers rl" "rl_tokens (set_queue k ws rl) = rl_tokens rl"
  by (simp_all add: set_active_def set_queue_def)

section \<open>Eviction\<close>

text \<open>Keys an eviction may not touch.\<close>

definition protected :: "string \<Rightarrow> limiter \<Rightarrow> string \<Rightarrow> bool" where
  "protected keep rl k \<longleftrightarrow> k = keep \<or> key_busy rl k \<or> waiters rl k \<noteq> []"

text \<open>Everything the limiter holds about a key.\<close>

definition key_state ::
  "limiter \<Rightarrow> string \<Rightarrow> instant list option \<times> token_bucket option \<times> int option \<times> waiter list option \<times> instant option" where
  "key_state rl k = (map_of (rl_windows rl) k, map_of (rl_tokens rl) k, map_of (rl_active rl) k,
     map_of (rl_queues rl) k, map_of (rl_timers rl) k)"

definition forgotten ::
  "instant list option \<times> token_bucket option \<times> int option \<times> waiter list option \<times> instant option" where
  "forgotten = (None, None, None, None, None)"

lemma key_state_drop: "key_state (drop_key k rl) j = (if j = k then forgotten else key_state rl j)"
  by (simp add: key_state_def drop_key_def forgotten_def)

lemma key_state_eqD:
  assumes "key_state rl' j = key_state rl j"
  shows "stamps rl' j = stamps rl j" "active_count rl' j = active_count rl j" "waiters rl' j = waiters rl j"
  using assms by (simp_all add: key_state_def stamps_def active_count_def waiters_def)

lemma forgottenD:
  assumes "key_state rl j = forgotten"
  shows "stamps rl j = []" "active_count rl j = 0" "waiters rl j = []"
  using assms by (simp_all add: key_state_def forgotten_def stamps_def active_count_def waiters_def)

lemma protected_drop: "j \<noteq> k \<Longrightarrow> protected keep (drop_key k rl) j = protected keep rl j"
  using key_state_eqD[of "drop_key k rl" j rl]
  by (simp add: key_state_drop protected_def key_busy_def)

lemma drop_key_frame [simp]:
  "rl_window (drop_key k rl) = rl_window rl" "rl_grants (drop_key k rl) = rl_grants rl"
  "rl_max_keys (drop_key k rl) = rl_max_keys rl"
  "rl_windows (drop_key k rl) = AList.delete k (rl_windows rl)"
  by (simp_all add: drop_key_def)

lemma evict_loop_frame [simp]:
  "rl_window (evict_loop t keep ks rl) = rl_window rl" "rl_grants (evict_loop t keep ks rl) = rl_grants rl"
  "rl_max_keys (evict_loop t keep ks rl) = rl_max_keys rl"
  by (induction ks arbitrary: rl) (simp_all add: Let_def)

lemma evict_loop_key:
  "key_state (evict_loop t keep ks rl) j = key_state rl j \<or>
   \<not> protected keep rl j \<and> key_state (evict_loop t keep ks rl) j = forgotten"
proof (induction ks arbitrary: rl)
  case (Cons k ks)
  show ?case
  proof (cases "protected keep rl k")
    case True
    then show ?thesis using Cons.IH[of rl] by (auto simp: protected_def)
  next
    case False
    let ?d = "drop_key k rl"
    have e: "evict_loop t keep (k # ks) rl = (if int (length (rl_windows ?d)) \<le> t then ?d else evict_loop t keep ks ?d)"
      using False by (simp add: protected_def Let_def)
    show ?thesis
    proof (cases "j = k")
      case True
      then have "key_state (evict_loop t keep ks ?d) j = forgotten"
        using Cons.IH[of ?d] by (auto simp: key_state_drop)
      then show ?thesis using True False unfolding e by (simp add: key_state_drop)
    next
      case False
      then show ?thesis using Cons.IH[of ?d] protected_drop[OF False, of keep rl]
        unfolding e by (auto simp: key_state_drop)
    qed
  qed
qed simp

lemma evict_key:
  "key_state (evict_if_needed ord keep rl) j = key_state rl j \<or>
   \<not> protected keep rl j \<and> key_state (evict_if_needed ord keep rl) j = forgotten"
  by (auto simp: evict_if_needed_def evict_loop_key)

lemma evict_frame [simp]:
  "rl_window (evict_if_needed ord keep rl) = rl_window rl" "rl_grants (evict_if_needed ord keep rl) = rl_grants rl"
  "rl_max_keys (evict_if_needed ord keep rl) = rl_max_keys rl"
  by (simp_all add: evict_if_needed_def)

lemma evict_protected:
  assumes "protected keep rl j"
  shows "stamps (evict_if_needed ord keep rl) j = stamps rl j"
    "active_count (evict_if_needed ord keep rl) j = active_count rl j"
    "waiters (evict_if_needed ord keep rl) j = waiters rl j"
  using evict_key[of ord keep rl j] assms key_state_eqD by blast+

text \<open>Counters and queues survive an eviction of their key as what a lookup reads.\<close>

lemma evict_lookups [simp]:
  "waiters (evict_if_needed ord keep rl) j = waiters rl j"
  "0 \<le> active_count rl j \<Longrightarrow> active_count (evict_if_needed ord keep rl) j = active_count rl j"
proof -
  let ?e = "evict_if_needed ord keep rl"
  consider (same) "key_state ?e j = key_state rl j"
    | (drop) "\<not> protected keep rl j" "key_state ?e j = forgotten"
    using evict_key[of ord keep rl j] by blast
  then show "waiters ?e j = waiters rl j"
    by cases (auto dest: key_state_eqD forgottenD(3) simp: protected_def)
  show "active_count ?e j = active_count rl j" if "0 \<le> active_count rl j"
    using evict_key[of ord keep rl j] that
    by (auto dest: key_state_eqD forgottenD(2) simp: protected_def key_busy_def)
qed

lemma evict_loop_keys: "set (keys (rl_windows (evict_loop t keep ks rl))) \<subseteq> set (keys (rl_windows rl))"
proof (induction ks arbitrary: rl)
  case (Cons k ks)
  have "set (keys (rl_windows (drop_key k rl))) \<subseteq> set (keys (rl_windows rl))" by auto
  with Cons.IH[of rl] Cons.IH[of "drop_key k rl"] show ?case
    unfolding evict_loop.simps Let_def by (simp only: split: if_split) blast
qed simp

lemma evict_loop_enough:
  assumes "set ks \<supseteq> {k \<in> set (keys (rl_windows rl)). \<not> protected keep rl k}" "is_map (rl_windows rl)"
  shows "int (length (rl_windows (evict_loop t keep ks rl))) \<le> t \<or>
    (\<forall>k\<in>set (keys (rl_windows (evict_loop t keep ks rl))). protected keep rl k)"
  using assms
proof (induction ks arbitrary: rl)
  case (Cons k ks)
  show ?case
  proof (cases "protected keep rl k")
    case True
    then show ?thesis using Cons.IH[of rl] Cons.prems by (auto simp: protected_def)
  next
    case False
    let ?d = "drop_key k rl"
    have e: "evict_loop t keep (k # ks) rl = (if int (length (rl_windows ?d)) \<le> t then ?d else evict_loop t keep ks ?d)"
      using False by (simp add: protected_def Let_def)
    have d: "set (keys (rl_windows ?d)) = set (keys (rl_windows rl)) - {k}" "is_map (rl_windows ?d)"
      using Cons.prems(2) by simp_all
    then have "set ks \<supseteq> {j \<in> set (keys (rl_windows ?d)). \<not> protected keep ?d j}"
      using Cons.prems(1) protected_drop[of _ k keep rl] by auto
    from Cons.IH[OF this d(2)] show ?thesis
    proof (cases "int (length (rl_windows ?d)) \<le> t")
      case False
      have sub: "set (keys (rl_windows (evict_loop t keep ks ?d))) \<subseteq> set (keys (rl_windows ?d))"
        by (rule evict_loop_keys)
      from \<open>_ \<or> _\<close> False show ?thesis unfolding e using sub d(1) protected_drop[of _ k keep rl] by auto
    next
      case True
      then show ?thesis unfolding e by simp
    qed
  qed
qed auto


section \<open>The sliding window\<close>

definition live :: "duration \<Rightarrow> instant \<Rightarrow> instant list \<Rightarrow> instant list" where
  "live w now ts = filter (\<lambda>t. now - w < t) ts"

lemma live_append [simp]: "live w now (as @ bs) = live w now as @ live w now bs"
  by (simp add: live_def)

lemma live_live: "now \<le> later \<Longrightarrow> live w later (live w now ts) = live w later ts"
  by (auto simp: live_def intro: filter_cong)

lemma live_replicate [simp]: "0 < w \<Longrightarrow> live w now (replicate n now) = replicate n now"
  by (simp add: live_def)

text \<open>
  The effect of an operation at \<open>now\<close> on the stamps of a key limited to \<open>R\<close>: \<open>n\<close> stamps
  were added, and only if they fit beside the live ones.
\<close>

definition admits :: "duration \<Rightarrow> int \<Rightarrow> instant \<Rightarrow> instant list \<Rightarrow> nat \<Rightarrow> instant list \<Rightarrow> bool" where
  "admits w R now ts n ts' \<longleftrightarrow> live w now ts' = live w now ts @ replicate n now \<and>
     (0 < n \<longrightarrow> int (length (live w now ts)) + int n \<le> R)"

lemma admits_refl [simp]: "admits w R now ts 0 ts"
  by (simp add: admits_def)

lemma admits_trans: "admits w R now a m b \<Longrightarrow> admits w R now b n c \<Longrightarrow> admits w R now a (m + n) c"
  by (auto simp: admits_def replicate_add)

text \<open>Enough room in the window map: the key's own window is there, or one more still fits.\<close>

definition room_for :: "limiter \<Rightarrow> string \<Rightarrow> bool" where
  "room_for rl k \<longleftrightarrow>
     int (length (rl_windows rl)) + (if k \<in> set (keys (rl_windows rl)) then 0 else 1) < rl_max_keys rl"

lemma room_for_update [simp]:
  "room_for rl k \<Longrightarrow> room_for (rl\<lparr>rl_windows := AList.update k ts (rl_windows rl)\<rparr>) k"
  by (simp add: room_for_def length_update split: if_splits)

lemma room_for_frame [simp]:
  "room_for (set_active j n rl) k = room_for rl k" "room_for (set_queue j ws rl) k = room_for rl k"
  "room_for (rl\<lparr>rl_grants := g\<rparr>) k = room_for rl k" "room_for (rl\<lparr>rl_timers := t\<rparr>) k = room_for rl k"
  by (simp_all add: room_for_def)

lemma evict_room: "room_for rl k \<Longrightarrow> evict_if_needed ord k rl = rl"
  by (auto simp: room_for_def evict_if_needed_def split: if_splits)

lemma window_has_room_eq:
  "window_has_room k rpm now rl = (int (length (live (rl_window rl) now (stamps rl k))) < rpm,
     rl\<lparr>rl_windows := AList.update k (live (rl_window rl) now (stamps rl k)) (rl_windows rl)\<rparr>)"
  by (simp add: window_has_room_def live_def Let_def)

lemma claim_slot_frame:
  "stamps (snd (claim_slot k conc rl)) j = stamps rl j"
  "rl_window (snd (claim_slot k conc rl)) = rl_window rl"
  "rl_windows (snd (claim_slot k conc rl)) = rl_windows rl"
  "rl_max_keys (snd (claim_slot k conc rl)) = rl_max_keys rl"
  "rl_grants (snd (claim_slot k conc rl)) = rl_grants rl"
  "rl_queues (snd (claim_slot k conc rl)) = rl_queues rl"
  "rl_timers (snd (claim_slot k conc rl)) = rl_timers rl"
  "waiters (snd (claim_slot k conc rl)) j = waiters rl j"
  "room_for (snd (claim_slot k conc rl)) j = room_for rl j"
  by (simp_all add: claim_slot_def)

text \<open>The admit test with its three outcomes, when no eviction is due.\<close>

lemma try_admit_cases:
  assumes "try_admit ord k rpm conc now rl = (ok, rl')"
  obtains (full) "\<not> ok" "0 < rpm" "\<not> int (length (live (rl_window rl) now (stamps rl k))) < rpm"
      "rl' = snd (window_has_room k rpm now rl)"
    | (busy) rl1 where "\<not> ok" "rl1 = (if 0 < rpm then snd (window_has_room k rpm now rl) else rl)"
      "0 < rpm \<longrightarrow> int (length (live (rl_window rl) now (stamps rl k))) < rpm"
      "\<not> fst (claim_slot k conc rl1)" "rl' = snd (claim_slot k conc rl1)"
    | (yes) rl1 where "ok" "rl1 = (if 0 < rpm then snd (window_has_room k rpm now rl) else rl)"
      "0 < rpm \<longrightarrow> int (length (live (rl_window rl) now (stamps rl k))) < rpm"
      "fst (claim_slot k conc rl1)"
      "rl' = (if 0 < rpm then record_stamp ord k now (snd (claim_slot k conc rl1))
              else snd (claim_slot k conc rl1))"
proof -
  let ?room = "int (length (live (rl_window rl) now (stamps rl k))) < rpm"
  let ?rl1 = "if 0 < rpm then snd (window_has_room k rpm now rl) else rl"
  have room: "fst (window_has_room k rpm now rl) = ?room" by (simp add: window_has_room_eq)
  have e: "try_admit ord k rpm conc now rl =
      (if 0 < rpm \<and> \<not> ?room then (False, ?rl1)
       else if \<not> fst (claim_slot k conc ?rl1) then (False, snd (claim_slot k conc ?rl1))
       else (True, if 0 < rpm then record_stamp ord k now (snd (claim_slot k conc ?rl1))
                   else snd (claim_slot k conc ?rl1)))"
    using room by (simp add: try_admit_def Let_def case_prod_unfold)
  consider "0 < rpm \<and> \<not> ?room" | "\<not> (0 < rpm \<and> \<not> ?room)" "\<not> fst (claim_slot k conc ?rl1)"
    | "\<not> (0 < rpm \<and> \<not> ?room)" "fst (claim_slot k conc ?rl1)" by blast
  then show ?thesis
  proof cases
    case 1
    then show ?thesis using full assms unfolding e by auto
  next
    case 2
    then show ?thesis using busy[of ?rl1] assms unfolding e by auto
  next
    case 3
    then show ?thesis using yes[of ?rl1] assms unfolding e by auto
  qed
qed


text \<open>The stamps and the window map after an admit test.\<close>

definition window_step :: "string \<Rightarrow> int \<Rightarrow> instant \<Rightarrow> nat \<Rightarrow> limiter \<Rightarrow> limiter \<Rightarrow> bool" where
  "window_step k R now n rl rl' \<longleftrightarrow>
     (0 < R \<longrightarrow> admits (rl_window rl) R now (stamps rl k) n (stamps rl' k)) \<and>
     (\<forall>j. j \<noteq> k \<longrightarrow> stamps rl' j = stamps rl j) \<and>
     rl_window rl' = rl_window rl \<and> rl_max_keys rl' = rl_max_keys rl \<and>
     (room_for rl k \<longrightarrow> room_for rl' k)"

lemma window_step_refl [simp]: "window_step k R now 0 rl rl"
  by (simp add: window_step_def)

lemma window_step_trans:
  "window_step k R now m a b \<Longrightarrow> window_step k R now n b c \<Longrightarrow> window_step k R now (m + n) a c"
  unfolding window_step_def using admits_trans[of "rl_window a" R now "stamps a k" m "stamps b k" n "stamps c k"]
  by auto

lemma try_admit_window:
  assumes t: "try_admit ord k rpm conc now rl = (ok, rl')"
    and w: "0 < rl_window rl" and room: "0 < rpm \<longrightarrow> room_for rl k"
  shows "window_step k rpm now (if ok then 1 else 0) rl rl'"
  using t
proof (cases rule: try_admit_cases)
  case full
  then show ?thesis by (simp add: window_step_def window_has_room_eq admits_def live_live)
next
  case (busy rl1)
  then show ?thesis by (simp add: window_step_def claim_slot_frame window_has_room_eq admits_def live_live)
next
  case (yes rl1)
  have "record_stamp ord k now (snd (claim_slot k conc rl1)) =
      (let s = snd (claim_slot k conc rl1)
       in s\<lparr>rl_windows := AList.update k (stamps s k @ [now]) (rl_windows s)\<rparr>)" if "0 < rpm"
    using that room yes(2) evict_room[of "snd (claim_slot k conc rl1)" k ord]
    by (simp add: record_stamp_def claim_slot_frame window_has_room_eq Let_def)
  moreover have "live (rl_window rl) now [now] = [now]" using w by (simp add: live_def)
  ultimately show ?thesis using yes
    by (simp add: window_step_def claim_slot_frame window_has_room_eq admits_def live_live Let_def
        room_for_def length_update split: if_splits)
qed

text \<open>The pump, for a queue whose waiters are all limited to \<open>R\<close>.\<close>

lemma window_step_same:
  assumes "window_step k R now n rl rl1" "rl_windows rl2 = rl_windows rl1" "rl_window rl2 = rl_window rl1"
    "rl_max_keys rl2 = rl_max_keys rl1"
  shows "window_step k R now n rl rl2"
proof -
  have "stamps rl2 j = stamps rl1 j" "room_for rl2 j = room_for rl1 j" for j
    using assms(2-4) by (simp_all add: stamps_def room_for_def)
  then show ?thesis using assms(1,3,4) unfolding window_step_def by simp
qed

lemma schedule_wake_frame [simp]:
  "rl_windows (schedule_wake k now rl) = rl_windows rl" "rl_window (schedule_wake k now rl) = rl_window rl"
  "rl_max_keys (schedule_wake k now rl) = rl_max_keys rl" "rl_grants (schedule_wake k now rl) = rl_grants rl"
  "rl_active (schedule_wake k now rl) = rl_active rl" "rl_queues (schedule_wake k now rl) = rl_queues rl"
  by (simp_all add: schedule_wake_def Let_def split: list.split)

lemma window_step_weaken: "window_step k R now n a b \<Longrightarrow> window_step k 0 now n a b"
  by (simp add: window_step_def)

text \<open>With \<open>R = 0\<close> the step only says what the operation leaves alone.\<close>

definition rpm_is :: "int \<Rightarrow> waiter list \<Rightarrow> bool" where
  "rpm_is R ws \<longleftrightarrow> R = 0 \<or> (\<forall>w\<in>set ws. wt_rpm w = R)"

lemma pump_loop_window:
  assumes "pump_loop ord k now ws rl = (gs, rl')" "0 < rl_window rl" "room_for rl k" "rpm_is R ws"
  shows "window_step k R now (length gs) rl rl'"
  using assms
proof (induction ws arbitrary: rl gs)
  case Nil
  then show ?case by (auto intro: window_step_same[OF window_step_refl])
next
  case (Cons w ws)
  have ws: "rpm_is R ws" using Cons.prems(4) by (auto simp: rpm_is_def)
  show ?case
  proof (cases "wt_done w")
    case True
    then have "window_step k R now (length gs) (set_queue k ws rl) rl'"
      using Cons ws by simp
    moreover have "window_step k R now 0 rl (set_queue k ws rl)"
      by (rule window_step_same[OF window_step_refl]) simp_all
    ultimately show ?thesis using window_step_trans[of k R now 0 rl "set_queue k ws rl" "length gs" rl'] by simp
  next
    case False
    obtain ok rl1 where t: "try_admit ord k (wt_rpm w) (wt_conc w) now rl = (ok, rl1)" by fastforce
    have step: "window_step k R now (if ok then 1 else 0) rl rl1"
      using try_admit_window[OF t Cons.prems(2)] Cons.prems(3,4) window_step_weaken
      by (auto simp: rpm_is_def)
    show ?thesis
    proof (cases ok)
      case False
      then have "gs = []" "rl' = (if rpm_blocked k (wt_rpm w) now rl1 then schedule_wake k now rl1 else rl1)"
        using Cons.prems t \<open>\<not> wt_done w\<close> by (auto split: prod.splits)
      then show ?thesis using step False by (auto intro: window_step_same)
    next
      case True
      let ?rl2 = "(set_queue k ws rl1)\<lparr>rl_grants := wt_id w # rl_grants rl1\<rparr>"
      obtain gs' where p: "pump_loop ord k now ws ?rl2 = (gs', rl')" "gs = w # gs'"
        using Cons.prems t \<open>\<not> wt_done w\<close> True by (auto simp: Let_def split: prod.splits)
      have s2: "window_step k R now 1 rl ?rl2"
        using window_step_same[OF step] True by simp
      then have "0 < rl_window ?rl2" "room_for ?rl2 k"
        using Cons.prems(2,3) by (auto simp: window_step_def)
      with Cons.IH[OF p(1)] ws have "window_step k R now (length gs') ?rl2 rl'" by simp
      from window_step_trans[OF s2 this] show ?thesis using p(2) by simp
    qed
  qed
qed

lemma pump_window:
  assumes "pump ord k now rl = (gs, rl')" "0 < rl_window rl" "room_for rl k" "rpm_is R (waiters rl k)"
  shows "window_step k R now (length gs) rl rl'"
  using assms pump_loop_window[of ord k now _ rl gs rl' R]
  by (auto simp: pump_def waiters_def split: option.splits)

section \<open>The queue's order\<close>

lemma record_stamp_lookups [simp]:
  "waiters (record_stamp ord k now rl) j = waiters rl j"
  "0 \<le> active_count rl j \<Longrightarrow> active_count (record_stamp ord k now rl) j = active_count rl j"
  "active_count (record_stamp ord k now rl) k = active_count rl k"
  "rl_grants (record_stamp ord k now rl) = rl_grants rl"
  using evict_protected[of k rl k] by (simp_all add: record_stamp_def Let_def protected_def)

lemma try_admit_lookups:
  assumes "try_admit ord k rpm conc now rl = (ok, rl')"
  shows "(\<forall>j. waiters rl' j = waiters rl j) \<and> rl_grants rl' = rl_grants rl \<and>
    active_count rl' k = active_count rl k + (if ok \<and> 0 < conc then 1 else 0) \<and>
    (\<forall>j. j \<noteq> k \<and> 0 \<le> active_count rl j \<longrightarrow> active_count rl' j = active_count rl j) \<and>
    (ok \<and> 0 < conc \<longrightarrow> active_count rl k < to_int32 conc)"
  using assms
proof (cases rule: try_admit_cases)
  case full
  then show ?thesis by (simp add: window_has_room_eq)
next
  case (busy rl1)
  then show ?thesis by (auto simp: window_has_room_eq claim_slot_def split: if_splits)
next
  case (yes rl1)
  then show ?thesis by (auto simp: window_has_room_eq claim_slot_def split: if_splits)
qed

text \<open>Whether the admit test says yes depends on the key's live stamps and counter alone.\<close>

definition admissible :: "limiter \<Rightarrow> string \<Rightarrow> int \<Rightarrow> int \<Rightarrow> instant \<Rightarrow> bool" where
  "admissible rl k rpm conc now \<longleftrightarrow>
     (0 < rpm \<longrightarrow> int (length (live (rl_window rl) now (stamps rl k))) < rpm) \<and>
     (0 < conc \<longrightarrow> active_count rl k < to_int32 conc)"

lemma try_admit_iff:
  assumes "try_admit ord k rpm conc now rl = (ok, rl')"
  shows "ok \<longleftrightarrow> admissible rl k rpm conc now"
  using assms
  by (cases rule: try_admit_cases)
     (auto simp: admissible_def claim_slot_def window_has_room_eq split: if_splits)

lemma try_admit_refused:
  assumes "try_admit ord k rpm conc now rl = (False, rl')"
  shows "live (rl_window rl') now (stamps rl' j) = live (rl_window rl) now (stamps rl j)"
    "active_count rl' j = active_count rl j" "rl_window rl' = rl_window rl" "waiters rl' j = waiters rl j"
    "rl_grants rl' = rl_grants rl" "rl_tokens rl' = rl_tokens rl" "rl_timers rl' = rl_timers rl"
proof -
  have "live (rl_window rl') now (stamps rl' j) = live (rl_window rl) now (stamps rl j) \<and>
    active_count rl' j = active_count rl j \<and> rl_window rl' = rl_window rl \<and> waiters rl' j = waiters rl j \<and>
    rl_grants rl' = rl_grants rl \<and> rl_tokens rl' = rl_tokens rl \<and> rl_timers rl' = rl_timers rl"
    using assms
  proof (cases rule: try_admit_cases)
    case full
    then show ?thesis by (simp add: window_has_room_eq live_live)
  next
    case (busy rl1)
    then show ?thesis by (simp add: window_has_room_eq live_live claim_slot_def split: if_splits)
  qed simp
  then show "live (rl_window rl') now (stamps rl' j) = live (rl_window rl) now (stamps rl j)"
    "active_count rl' j = active_count rl j" "rl_window rl' = rl_window rl" "waiters rl' j = waiters rl j"
    "rl_grants rl' = rl_grants rl" "rl_tokens rl' = rl_tokens rl" "rl_timers rl' = rl_timers rl" by blast+
qed


lemma schedule_wake_lookups [simp]:
  "waiters (schedule_wake k now rl) j = waiters rl j"
  "active_count (schedule_wake k now rl) j = active_count rl j"
  "stamps (schedule_wake k now rl) j = stamps rl j"
  by (simp_all add: waiters_def active_count_def stamps_def)

lemma waiters_delete [simp]:
  "waiters (rl\<lparr>rl_queues := AList.delete k (rl_queues rl)\<rparr>) j = (if j = k then [] else waiters rl j)"
  by (simp add: waiters_def)

text \<open>
  The pump takes a prefix off the queue, hands a grant to everyone in it who has not given up,
  in order, and stops at a head the admit test refuses or at the end.
\<close>

definition pumped ::
  "(string list \<Rightarrow> string list) \<Rightarrow> string \<Rightarrow> instant \<Rightarrow> waiter list \<Rightarrow> waiter list \<Rightarrow> limiter \<Rightarrow> bool" where
  "pumped ord k now ws gs rl' \<longleftrightarrow>
     (\<exists>pre. ws = pre @ waiters rl' k \<and> gs = filter (\<lambda>w. \<not> wt_done w) pre) \<and>
     (\<forall>h rest. waiters rl' k = h # rest \<longrightarrow>
        \<not> wt_done h \<and> \<not> admissible rl' k (wt_rpm h) (wt_conc h) now \<and>
        (rpm_blocked k (wt_rpm h) now rl' \<longrightarrow> map_of (rl_timers rl') k \<noteq> None))"

lemma rpm_blocked_timer:
  assumes "rpm_blocked k rpm now rl"
  shows "map_of (rl_timers (schedule_wake k now rl)) k \<noteq> None"
proof -
  have "stamps rl k \<noteq> []"
    using assms by (auto simp: rpm_blocked_def stamps_def split: if_splits option.splits)
  then show ?thesis by (auto simp: schedule_wake_def Let_def split: list.splits)
qed

lemma pump_loop_fifo:
  assumes "pump_loop ord k now ws rl = (gs, rl')" "waiters rl k = ws"
  shows "pumped ord k now ws gs rl' \<and> (\<forall>j. j \<noteq> k \<longrightarrow> waiters rl' j = waiters rl j)"
  using assms
proof (induction ws arbitrary: rl gs)
  case Nil
  then show ?case by (auto simp: pumped_def)
next
  case (Cons w ws)
  show ?case
  proof (cases "wt_done w")
    case True
    then have "pumped ord k now ws gs rl'" "\<forall>j. j \<noteq> k \<longrightarrow> waiters rl' j = waiters rl j"
      using Cons.IH[of "set_queue k ws rl" gs] Cons.prems by auto
    then show ?thesis using True unfolding pumped_def by (auto intro: exI[of _ "w # _"])
  next
    case False
    obtain ok rl1 where t: "try_admit ord k (wt_rpm w) (wt_conc w) now rl = (ok, rl1)" by fastforce
    show ?thesis
    proof (cases ok)
      case no: False
      let ?r = "if rpm_blocked k (wt_rpm w) now rl1 then schedule_wake k now rl1 else rl1"
      have r: "gs = []" "rl' = ?r" using Cons.prems t False no by (auto split: prod.splits)
      have "try_admit ord k (wt_rpm w) (wt_conc w) now rl = (False, rl1)" using t no by simp
      note same = try_admit_refused[OF this]
      have "\<not> admissible rl k (wt_rpm w) (wt_conc w) now" using try_admit_iff[OF t] no by simp
      then have "\<not> admissible rl' k (wt_rpm w) (wt_conc w) now"
        unfolding r(2) admissible_def using same by simp
      moreover have "rpm_blocked k (wt_rpm w) now rl' \<longrightarrow> map_of (rl_timers rl') k \<noteq> None"
        unfolding r(2) using rpm_blocked_timer[of k "wt_rpm w" now rl1] by simp
      moreover have "waiters rl' j = waiters rl j" for j unfolding r(2) using same by simp
      ultimately show ?thesis using Cons.prems(2) r(1) False by (simp add: pumped_def)
    next
      case True
      let ?rl2 = "(set_queue k ws rl1)\<lparr>rl_grants := wt_id w # rl_grants rl1\<rparr>"
      obtain gs' where p: "pump_loop ord k now ws ?rl2 = (gs', rl')" "gs = w # gs'"
        using Cons.prems t False True by (auto simp: Let_def split: prod.splits)
      have "pumped ord k now ws gs' rl'" "\<forall>j. j \<noteq> k \<longrightarrow> waiters rl' j = waiters rl j"
        using Cons.IH[OF p(1)] try_admit_lookups[OF t] by auto
      then show ?thesis using False p(2) unfolding pumped_def by (auto intro: exI[of _ "w # _"])
    qed
  qed
qed

lemma pump_fifo:
  assumes "pump ord k now rl = (gs, rl')"
  shows "pumped ord k now (waiters rl k) gs rl' \<and> (\<forall>j. j \<noteq> k \<longrightarrow> waiters rl' j = waiters rl j)"
proof (cases "map_of (rl_queues rl) k")
  case None
  then show ?thesis using assms by (auto simp: pump_def pumped_def waiters_def)
next
  case (Some ws)
  then have "waiters rl k = ws" "pump_loop ord k now ws rl = (gs, rl')"
    using assms by (simp_all add: pump_def waiters_def)
  then show ?thesis using pump_loop_fifo by blast
qed

section \<open>Properties\<close>

text \<open>A request the admit test refuses spends nothing: for every key the number of live stamps and
  of held slots, which is all the test ever looks at, is what it was, and no waiter, grant, timer
  or token bucket is touched.\<close>
theorem refused_admission_is_free:
  assumes "try_admit ord k rpm conc now rl = (False, rl')" "now \<le> later" "j \<noteq> []"
  shows "snapshot j later rl' = snapshot j later rl \<and> waiters rl' j = waiters rl j \<and>
    rl_grants rl' = rl_grants rl \<and> rl_tokens rl' = rl_tokens rl \<and> rl_timers rl' = rl_timers rl"
proof -
  note same = try_admit_refused[OF assms(1)]
  have "live (rl_window rl) later (stamps rl' j) = live (rl_window rl) later (stamps rl j)"
    using same(1)[of j] same(3) live_live[OF assms(2), of "rl_window rl"] by metis
  then show ?thesis using same assms(3) by (simp add: snapshot_def live_def)
qed

lemma refused_admission_is_free_witness:
  "let rl = (new_limiter 10)\<lparr>rl_windows := [(''k'', [100])], rl_active := [(''k'', 1)]\<rparr>
   in \<not> fst (try_admit id ''k'' 5 1 103 rl) \<and>
      snapshot ''k'' 105 (snd (try_admit id ''k'' 5 1 103 rl)) = (1, 1)"
proof -
  let ?rl = "(new_limiter 10)\<lparr>rl_windows := [(''k'', [100])], rl_active := [(''k'', 1)]\<rparr>"
  obtain rl' where t: "try_admit id ''k'' 5 1 103 ?rl = (False, rl')"
    by (auto simp: try_admit_def window_has_room_def claim_slot_def stamps_def active_count_def
        new_limiter_def set_active_def to_int32_def Let_def)
  have "snapshot ''k'' 105 ?rl = (1, 1)" by code_simp
  then show ?thesis using refused_admission_is_free[OF t, of 105 "''k''"] t by (simp add: Let_def)
qed

text \<open>The queue is served first come, first served: a pump grants to a prefix of the parked
  requests, skipping those that gave up, and keeps the rest in order; it stops only when nobody is
  left or when the admit test refuses the first one left, and if it is the request rate that holds
  that one back, a wake-up timer is set.\<close>
theorem pump_serves_in_order:
  assumes "pump ord k now rl = (gs, rl')"
  shows "\<exists>pre. waiters rl k = pre @ waiters rl' k \<and> gs = filter (\<lambda>w. \<not> wt_done w) pre \<and>
    (\<forall>h rest. waiters rl' k = h # rest \<longrightarrow>
       \<not> wt_done h \<and> \<not> fst (try_admit ord k (wt_rpm h) (wt_conc h) now rl') \<and>
       (rpm_blocked k (wt_rpm h) now rl' \<longrightarrow> map_of (rl_timers rl') k \<noteq> None))"
proof -
  have "fst (try_admit ord k r c now rl') = admissible rl' k r c now" for r c
    by (metis try_admit_iff prod.collapse)
  then show ?thesis using pump_fifo[OF assms] unfolding pumped_def by auto
qed

definition demo_waiter :: "nat \<Rightarrow> bool \<Rightarrow> waiter" where
  "demo_waiter i d = \<lparr>wt_id = i, wt_rpm = 2, wt_conc = 0, wt_done = d\<rparr>"

lemma pump_serves_in_order_witness:
  "let rl = (new_limiter 10)\<lparr>rl_windows := [(''k'', [100])],
        rl_queues := [(''k'', [demo_waiter 1 True, demo_waiter 2 False, demo_waiter 3 False])]\<rparr>
   in \<exists>rl'. pump id ''k'' 103 rl = ([demo_waiter 2 False], rl') \<and> waiters rl' ''k'' = [demo_waiter 3 False] \<and>
        map_of (rl_timers rl') ''k'' \<noteq> None"
proof -
  let ?rl = "(new_limiter 10)\<lparr>rl_windows := [(''k'', [100])],
        rl_queues := [(''k'', [demo_waiter 1 True, demo_waiter 2 False, demo_waiter 3 False])]\<rparr>"
  have r: "fst (pump id ''k'' 103 ?rl) = [demo_waiter 2 False]"
    "waiters (snd (pump id ''k'' 103 ?rl)) ''k'' = [demo_waiter 3 False]"
    "rpm_blocked ''k'' (wt_rpm (demo_waiter 3 False)) 103 (snd (pump id ''k'' 103 ?rl))" by code_simp+
  obtain gs rl' where p: "pump id ''k'' 103 ?rl = (gs, rl')" by fastforce
  then have "waiters rl' ''k'' = [demo_waiter 3 False]" "gs = [demo_waiter 2 False]"
    "rpm_blocked ''k'' (wt_rpm (demo_waiter 3 False)) 103 rl'" using r by (simp_all only: fst_conv snd_conv)
  moreover from this have "map_of (rl_timers rl') ''k'' \<noteq> None"
    using pump_serves_in_order[OF p] by blast
  ultimately show ?thesis using p unfolding Let_def by blast
qed

text \<open>An eviction forgets a key completely or not at all, and never the key being admitted, a key
  that holds a slot or a key with parked requests; in whatever order Go walks the map, it ends
  with the window map at nine tenths of its limit unless everything left is protected in that way.\<close>
theorem eviction_spares_busy_keys:
  assumes "\<And>ks. set ks \<subseteq> set (ord ks)" "is_map (rl_windows rl)"
  shows "(key_state (evict_if_needed ord keep rl) j = key_state rl j \<or>
      \<not> (j = keep \<or> key_busy rl j \<or> waiters rl j \<noteq> []) \<and> key_state (evict_if_needed ord keep rl) j = forgotten) \<and>
    (int (length (rl_windows (evict_if_needed ord keep rl))) < rl_max_keys rl \<or>
     int (length (rl_windows (evict_if_needed ord keep rl))) \<le> rl_max_keys rl * 9 sdiv 10 \<or>
     (\<forall>k\<in>set (keys (rl_windows (evict_if_needed ord keep rl))). k = keep \<or> key_busy rl k \<or> waiters rl k \<noteq> []))"
proof -
  have "{k \<in> set (keys (rl_windows rl)). \<not> protected keep rl k} \<subseteq> set (ord (keys (rl_windows rl)))"
    using assms(1) by blast
  from evict_loop_enough[OF this assms(2)] show ?thesis
    using evict_key[of ord keep rl j] by (auto simp: evict_if_needed_def protected_def)
qed

lemma eviction_spares_busy_keys_witness:
  "let rl = (new_limiter 10)\<lparr>rl_windows := [(''a'', [1]), (''b'', [2])], rl_active := [(''a'', 1)], rl_max_keys := 2\<rparr>
   in key_state (evict_if_needed id ''c'' rl) ''a'' = key_state rl ''a''"
proof -
  let ?rl = "(new_limiter 10)\<lparr>rl_windows := [(''a'', [1]), (''b'', [2])], rl_active := [(''a'', 1)], rl_max_keys := 2\<rparr>"
  have "is_map (rl_windows ?rl)" "key_busy ?rl ''a''" by code_simp+
  then show ?thesis using eviction_spares_busy_keys[of id ?rl "''c''" "''a''"] by simp
qed

end
