(* ===== verification/RateHistory.thy ===== *)
theory RateHistory
  imports RateWindow
begin

text \<open>
  Histories of the limiter of \<open>internal/middleware/ratelimit.go\<close>: the critical sections of
  any number of requests in any order. Beside the limiter the state carries what the code does
  not record: the log of admissions, who parked under which key, and how many admitted requests
  of a key are still running. Two guarded systems read the same histories, one for the
  request rate and one for the concurrency cap.
\<close>

section \<open>Operations\<close>

datatype rl_op =
    OpStart bool nat string int int duration instant
  | OpReceive nat
  | OpGiveUp nat string int instant
  | OpRelease string instant
  | OpFire string instant
  | OpTpm string int int instant
  | OpSettle string int int int
  | OpRefund string int int

record rl_sys =
  y_rl :: limiter
  y_clock :: instant
  y_log :: "(string \<times> instant) list"
  y_owner :: "nat \<Rightarrow> string \<times> int"
  y_run :: "string \<Rightarrow> int"

definition bump :: "bool \<Rightarrow> string \<Rightarrow> (string \<Rightarrow> int) \<Rightarrow> (string \<Rightarrow> int)" where
  "bump c k f = (if c then f(k := f k + 1) else f)"

text \<open>A pump at \<open>now\<close> granted the waiters \<open>gs\<close> of key \<open>k\<close>.\<close>

definition after_pump :: "string \<Rightarrow> instant \<Rightarrow> waiter list \<times> limiter \<Rightarrow> rl_sys \<Rightarrow> rl_sys" where
  "after_pump k now r s = s\<lparr>y_rl := snd r, y_clock := now,
     y_log := y_log s @ replicate (length (fst r)) (k, now)\<rparr>"

fun exec_rl :: "(string list \<Rightarrow> string list) \<Rightarrow> rl_op \<Rightarrow> rl_sys \<Rightarrow> rl_sys" where
  "exec_rl ord (OpStart gone i k rpm conc timeout now) s =
     (case acquire_start ord gone i k rpm conc timeout now (y_rl s) of
        (Admitted, gs, rl) \<Rightarrow> s\<lparr>y_rl := rl, y_clock := now, y_log := y_log s @ [(k, now)],
                                y_run := bump (conc > 0) k (y_run s)\<rparr>
      | (Refused, gs, rl) \<Rightarrow> s\<lparr>y_rl := rl, y_clock := now\<rparr>
      | (Queued, gs, rl) \<Rightarrow> (after_pump k now (gs, rl) s)\<lparr>y_owner := (y_owner s)(i := (k, conc))\<rparr>)"
| "exec_rl ord (OpReceive i) s =
     (case acquire_granted i (y_rl s) of (b, rl) \<Rightarrow>
        s\<lparr>y_rl := rl, y_run := bump (b \<and> snd (y_owner s i) > 0) (fst (y_owner s i)) (y_run s)\<rparr>)"
| "exec_rl ord (OpGiveUp i k conc now) s = after_pump k now (acquire_give_up ord i k conc now (y_rl s)) s"
| "exec_rl ord (OpRelease k now) s =
     (after_pump k now (release_concurrency ord k now (y_rl s)) s)\<lparr>y_run := (y_run s)(k := y_run s k - 1)\<rparr>"
| "exec_rl ord (OpFire k now) s = after_pump k now (fire_timer ord k now (y_rl s)) s"
| "exec_rl ord (OpTpm k tpm n now) s = s\<lparr>y_rl := snd (check_tpm_only k tpm n now (y_rl s))\<rparr>"
| "exec_rl ord (OpSettle k tpm r a) s = s\<lparr>y_rl := settle_token_usage k tpm r a (y_rl s)\<rparr>"
| "exec_rl ord (OpRefund k tpm n) s = s\<lparr>y_rl := refund_tpm k tpm n (y_rl s)\<rparr>"

definition start_sys :: "duration \<Rightarrow> rl_sys" where
  "start_sys w = \<lparr>y_rl = new_limiter w, y_clock = 0, y_log = [], y_owner = (\<lambda>_. ([], 0)), y_run = (\<lambda>_. 0)\<rparr>"

lemma check_tpm_only_snd: "snd (check_tpm_only k tpm n now rl) = snd (check_tpm k tpm n now rl)"
  by (simp add: check_tpm_only_def split: prod.split bool.split)

lemma token_ops_frame:
  "\<exists>b. snd (check_tpm_only k tpm n now rl) = rl\<lparr>rl_tokens := b\<rparr>"
  "\<exists>b. settle_token_usage k tpm r a rl = rl\<lparr>rl_tokens := b\<rparr>"
  "\<exists>b. refund_tpm k tpm n rl = rl\<lparr>rl_tokens := b\<rparr>"
proof -
  have self: "\<exists>b. rl = rl\<lparr>rl_tokens := b\<rparr>" by (rule exI[of _ "rl_tokens rl"]) simp
  show "\<exists>b. snd (check_tpm_only k tpm n now rl) = rl\<lparr>rl_tokens := b\<rparr>"
    by (auto simp: check_tpm_only_def check_tpm_def Let_def split: bool.splits)
  show "\<exists>b. settle_token_usage k tpm r a rl = rl\<lparr>rl_tokens := b\<rparr>"
    using self by (auto simp: settle_token_usage_def Let_def split: option.splits)
  show "\<exists>b. refund_tpm k tpm n rl = rl\<lparr>rl_tokens := b\<rparr>"
    using self by (auto simp: refund_tpm_def Let_def split: option.splits)
qed

section \<open>The request rate\<close>

definition log_of :: "string \<Rightarrow> rl_sys \<Rightarrow> instant list" where
  "log_of k s = map snd (filter (\<lambda>(j, t). j = k) (y_log s))"

definition in_window :: "duration \<Rightarrow> instant \<Rightarrow> instant list \<Rightarrow> int" where
  "in_window w t ts = int (length (filter (\<lambda>x. t - w < x \<and> x \<le> t) ts))"

text \<open>
  What a history may do for the bound on key \<open>k\<close>: the clock does not run backwards, \<open>k\<close> is
  always asked for under the rate \<open>R\<close>, and the window map has not reached its limit, so that
  no eviction forgets a key's stamps.
\<close>

fun rate_ok :: "string \<Rightarrow> int \<Rightarrow> rl_op \<Rightarrow> rl_sys \<Rightarrow> bool" where
  "rate_ok k R (OpStart gone i j rpm conc timeout now) s \<longleftrightarrow>
     y_clock s \<le> now \<and> (j = k \<longrightarrow> rpm = R) \<and> room_for (y_rl s) j"
| "rate_ok k R (OpGiveUp i j conc now) s \<longleftrightarrow> y_clock s \<le> now \<and> room_for (y_rl s) j"
| "rate_ok k R (OpRelease j now) s \<longleftrightarrow> y_clock s \<le> now \<and> room_for (y_rl s) j"
| "rate_ok k R (OpFire j now) s \<longleftrightarrow> y_clock s \<le> now \<and> room_for (y_rl s) j"
| "rate_ok k R _ s \<longleftrightarrow> True"

definition rate_inv :: "duration \<Rightarrow> string \<Rightarrow> int \<Rightarrow> rl_sys \<Rightarrow> bool" where
  "rate_inv W k R s \<longleftrightarrow> 0 < R \<and> rl_window (y_rl s) = W \<and> 0 < rl_window (y_rl s) \<and>
     (\<forall>w\<in>set (waiters (y_rl s) k). wt_rpm w = R) \<and>
     live (rl_window (y_rl s)) (y_clock s) (stamps (y_rl s) k) =
       live (rl_window (y_rl s)) (y_clock s) (log_of k s) \<and>
     (\<forall>t. in_window (rl_window (y_rl s)) t (log_of k s) \<le> R)"

lemma in_window_admits:
  assumes "0 < w" "in_window w t ts \<le> R" "0 < n \<Longrightarrow> int (length (live w now ts)) + int n \<le> R"
  shows "in_window w t (ts @ replicate n now) \<le> R"
proof (cases "n = 0 \<or> t < now \<or> now \<le> t - w")
  case True
  then show ?thesis using assms(2) by (auto simp: in_window_def)
next
  case False
  have "filter (\<lambda>x. t - w < x \<and> x \<le> t) ts = filter (\<lambda>x. t - w < x \<and> x \<le> t) (live w now ts)"
    using False by (auto simp: live_def intro: filter_cong)
  then have "length (filter (\<lambda>x. t - w < x \<and> x \<le> t) ts) \<le> length (live w now ts)"
    by (metis length_filter_le)
  then show ?thesis using assms(3) False by (auto simp: in_window_def)
qed

text \<open>One operation on key \<open>j\<close> at \<open>now\<close> that made \<open>n\<close> admissions.\<close>

lemma rate_inv_step:
  assumes inv: "rate_inv W k R s" and now: "y_clock s \<le> now"
    and step: "window_step j (if j = k then R else 0) now n (y_rl s) (y_rl s')"
    and s': "y_clock s' = now" "y_log s' = y_log s @ replicate n (j, now)"
    and q: "\<forall>w\<in>set (waiters (y_rl s') k). wt_rpm w = R"
  shows "rate_inv W k R s'"
proof -
  let ?w = "rl_window (y_rl s)"
  have w: "0 < ?w" "0 < R" "rl_window (y_rl s') = ?w" "?w = W"
    using inv step by (auto simp: rate_inv_def window_step_def)
  have log: "log_of k s' = log_of k s @ replicate (if j = k then n else 0) now"
    using s'(2) by (simp add: log_of_def filter_replicate map_replicate)
  have old: "live ?w now (stamps (y_rl s) k) = live ?w now (log_of k s)"
    using inv live_live[OF now, of ?w] unfolding rate_inv_def by metis
  have adm: "admits ?w R now (stamps (y_rl s) k) (if j = k then n else 0) (stamps (y_rl s') k)"
    using step w(2) by (auto simp: window_step_def)
  then have "live ?w now (stamps (y_rl s') k) = live ?w now (log_of k s')"
    unfolding log using old w(1) by (simp add: admits_def)
  moreover have "in_window ?w t (log_of k s') \<le> R" for t
    unfolding log using inv adm w(1) old
    by (intro in_window_admits) (auto simp: rate_inv_def admits_def)
  ultimately show ?thesis using w(1-3) q s'(1) unfolding rate_inv_def w(4)[symmetric] by simp
qed

lemma rate_inv_y_run [simp]: "rate_inv W k R (s\<lparr>y_run := f\<rparr>) = rate_inv W k R s"
  by (simp add: rate_inv_def log_of_def)

lemma rate_inv_tokens:
  "rate_inv W k R s \<Longrightarrow> \<exists>b. rl = (y_rl s)\<lparr>rl_tokens := b\<rparr> \<Longrightarrow> rate_inv W k R (s\<lparr>y_rl := rl\<rparr>)"
  by (auto simp: rate_inv_def log_of_def)


lemma try_admit_step:
  assumes "try_admit ord j rpm conc now rl = (ok, rl')" "0 < rl_window rl" "room_for rl j" "R = 0 \<or> R = rpm"
  shows "window_step j R now (if ok then 1 else 0) rl rl'"
  using try_admit_window[OF assms(1,2)] assms(3,4) window_step_weaken by blast

text \<open>What the steps do to the window and to the queues.\<close>

definition queues_from :: "string \<Rightarrow> waiter set \<Rightarrow> limiter \<Rightarrow> limiter \<Rightarrow> bool" where
  "queues_from j new rl rl' \<longleftrightarrow> set (waiters rl' j) \<subseteq> new \<and> (\<forall>i. i \<noteq> j \<longrightarrow> waiters rl' i = waiters rl i)"

lemma pump_queues: "pump ord j now rl = (gs, rl') \<Longrightarrow> queues_from j (set (waiters rl j)) rl rl'"
  using pump_fifo[of ord j now rl gs rl'] by (auto simp: queues_from_def pumped_def)

lemma window_step_queue: "window_step j R now 0 rl (set_queue j ws rl)"
  by (rule window_step_same[OF window_step_refl]) simp_all

lemma pump_after_queue:
  assumes "pump ord j now (set_queue j ws rl) = (gs, rl')" "0 < rl_window rl" "room_for rl j" "rpm_is R ws"
  shows "window_step j R now (length gs) rl rl' \<and> queues_from j (set ws) rl rl'"
proof -
  have "window_step j R now (length gs) (set_queue j ws rl) rl'"
    using pump_window[OF assms(1)] assms(2-4) by simp
  from window_step_trans[OF window_step_queue[of j R now rl ws] this] show ?thesis
    using pump_queues[OF assms(1)] by (simp add: queues_from_def)
qed

lemma acquire_start_step:
  assumes a: "acquire_start ord gone i j rpm conc timeout now rl = (res, gs, rl')"
    and w: "0 < rl_window rl" "room_for rl j" and R: "R = 0 \<or> R = rpm" "rpm_is R (waiters rl j)"
  shows "window_step j R now (length gs + (if res = Admitted then 1 else 0)) rl rl' \<and>
    queues_from j (set (waiters rl j) \<union>
      (if res = Queued then {\<lparr>wt_id = i, wt_rpm = rpm, wt_conc = conc, wt_done = False\<rparr>} else {})) rl rl' \<and>
    (res \<noteq> Queued \<longrightarrow> gs = [])"
proof -
  obtain ok rl1 where t: "try_admit ord j rpm conc now rl = (ok, rl1)" by fastforce
  note step = try_admit_step[OF t w R(1)] and look = try_admit_lookups[OF t]
  let ?w = "\<lparr>wt_id = i, wt_rpm = rpm, wt_conc = conc, wt_done = False\<rparr>"
  consider (adm) "ok" | (ref) "\<not> ok" "timeout \<le> 0 \<or> gone" | (enq) "\<not> ok" "\<not> (timeout \<le> 0 \<or> gone)" by blast
  then show ?thesis
  proof cases
    case adm
    then show ?thesis using a t step look by (auto simp: acquire_start_def queues_from_def)
  next
    case ref
    then show ?thesis using a t step look
      by (auto simp: acquire_start_def queues_from_def split: if_splits)
  next
    case enq
    let ?rl2 = "set_queue j (waiters rl1 j) rl1"
    have s2: "window_step j R now 0 rl ?rl2"
      using window_step_trans[OF step window_step_queue] enq by fastforce
    have w2: "0 < rl_window ?rl2" "room_for ?rl2 j" using s2 w by (auto simp: window_step_def)
    have e: "acquire_enqueue ord j ?w now rl1 = (res, gs, rl')"
      using a t enq by (simp add: acquire_start_def)
    show ?thesis
    proof (cases "res = Queued")
      case True
      then have p: "pump ord j now (set_queue j (waiters ?rl2 j @ [?w]) ?rl2) = (gs, rl')"
        using e by (auto simp: acquire_enqueue_def Let_def split: if_splits)
      have "rpm_is R (waiters ?rl2 j @ [?w])" using R look by (auto simp: rpm_is_def)
      from pump_after_queue[OF p w2 this] show ?thesis
        using window_step_trans[OF s2] look True by (auto simp: queues_from_def)
    next
      case False
      then have "res = Refused" "gs = []" "rl' = ?rl2"
        using e by (auto simp: acquire_enqueue_def Let_def split: if_splits)
      then show ?thesis using s2 look by (simp add: queues_from_def)
    qed
  qed
qed

lemma map_of_map_queues:
  "waiters (rl\<lparr>rl_queues := map (\<lambda>(q, ws). (q, mark_done i ws)) (rl_queues rl)\<rparr>) j = mark_done i (waiters rl j)"
proof -
  have "map_of (map (\<lambda>(q, ws). (q, mark_done i ws)) m) j = map_option (mark_done i) (map_of m j)" for m
    by (induction m) auto
  then show ?thesis by (simp add: waiters_def mark_done_def split: option.splits)
qed


lemma mark_done_simps [simp]:
  "rpm_is R (mark_done i ws) = rpm_is R ws" "(\<forall>w\<in>set (mark_done i ws). wt_rpm w = R) = (\<forall>w\<in>set ws. wt_rpm w = R)"
proof -
  have "map wt_rpm (mark_done i ws) = map wt_rpm ws" by (simp add: mark_done_def)
  then have "wt_rpm ` set (mark_done i ws) = wt_rpm ` set ws" by (metis list.set_map)
  then show *: "(\<forall>w\<in>set (mark_done i ws). wt_rpm w = R) = (\<forall>w\<in>set ws. wt_rpm w = R)"
    by (metis image_iff)
  show "rpm_is R (mark_done i ws) = rpm_is R ws" unfolding rpm_is_def * ..
qed

text \<open>A pump after a change that leaves the windows alone.\<close>

lemma pump_after:
  assumes "pump ord j now rl1 = (gs, rl')" "0 < rl_window rl" "room_for rl j" "rpm_is R (waiters rl1 j)"
    and same: "rl_windows rl1 = rl_windows rl" "rl_window rl1 = rl_window rl" "rl_max_keys rl1 = rl_max_keys rl"
  shows "window_step j R now (length gs) rl rl' \<and> queues_from j (set (waiters rl1 j)) rl1 rl'"
proof -
  have s: "window_step j R now 0 rl rl1" by (rule window_step_same[OF window_step_refl same])
  then have "0 < rl_window rl1" "room_for rl1 j" using assms(2,3) by (auto simp: window_step_def)
  then show ?thesis
    using window_step_trans[OF s pump_window[OF assms(1)]] pump_queues[OF assms(1)] assms(4) by simp
qed

definition released :: "string \<Rightarrow> limiter \<Rightarrow> limiter" where
  "released k rl = (case map_of (rl_active rl) k of None \<Rightarrow> rl | Some n \<Rightarrow> set_active k (if n - 1 < 0 then 0 else n - 1) rl)"

lemma release_concurrency_eq: "release_concurrency ord k now rl = pump ord k now (released k rl)"
  by (simp add: release_concurrency_def released_def Let_def)

lemma released_frame [simp]:
  "rl_windows (released k rl) = rl_windows rl" "rl_window (released k rl) = rl_window rl"
  "rl_max_keys (released k rl) = rl_max_keys rl" "waiters (released k rl) j = waiters rl j"
  "rl_grants (released k rl) = rl_grants rl"
  by (simp_all add: released_def split: option.split)

lemma released_active:
  "active_count (released k rl) j = (if j = k then max 0 (active_count rl k - 1) else active_count rl j)"
  by (auto simp: released_def active_count_def set_active_def split: option.splits)

text \<open>\<open>Acquire\<close> giving up, before its pump.\<close>

definition given_up :: "nat \<Rightarrow> string \<Rightarrow> int \<Rightarrow> limiter \<Rightarrow> limiter" where
  "given_up i k conc rl =
     (let rl = rl\<lparr>rl_queues := map (\<lambda>(q, ws). (q, mark_done i ws)) (rl_queues rl)\<rparr>;
          (granted, rl) = acquire_granted i rl
      in if granted \<and> conc > 0
         then (case map_of (rl_active rl) k of None \<Rightarrow> rl | Some n \<Rightarrow> set_active k (n - 1) rl)
         else rl)"

lemma acquire_give_up_eq: "acquire_give_up ord i k conc now rl = pump ord k now (given_up i k conc rl)"
  by (simp add: acquire_give_up_def given_up_def Let_def case_prod_unfold)

lemma given_up_frame [simp]:
  "rl_windows (given_up i k conc rl) = rl_windows rl" "rl_window (given_up i k conc rl) = rl_window rl"
  "rl_max_keys (given_up i k conc rl) = rl_max_keys rl"
  "waiters (given_up i k conc rl) j = mark_done i (waiters rl j)"
  "rl_grants (given_up i k conc rl) = remove1 i (rl_grants rl)"
  using map_of_map_queues[of i rl j]
  by (auto simp: given_up_def acquire_granted_def Let_def remove1_idem split: option.split)

lemma given_up_active:
  "active_count (given_up i k conc rl) j =
     active_count rl j - (if j = k \<and> i \<in> set (rl_grants rl) \<and> 0 < conc \<and> map_of (rl_active rl) k \<noteq> None then 1 else 0)"
  by (auto simp: given_up_def acquire_granted_def Let_def active_count_def set_active_def split: option.splits)

lemma queue_rpm_kept:
  assumes "\<forall>w\<in>set (waiters rl k). wt_rpm w = R" "queues_from j new rl rl'" "j = k \<Longrightarrow> \<forall>w\<in>new. wt_rpm w = R"
  shows "\<forall>w\<in>set (waiters rl' k). wt_rpm w = R"
  using assms by (cases "j = k") (auto simp: queues_from_def)

lemma rate_inv_pump:
  assumes inv: "rate_inv W k R s" and now: "y_clock s \<le> now" and room: "room_for (y_rl s) j"
    and r: "pump ord j now rl1 = r"
    and rl1: "rl_windows rl1 = rl_windows (y_rl s)" "rl_window rl1 = rl_window (y_rl s)"
      "rl_max_keys rl1 = rl_max_keys (y_rl s)" "\<forall>w\<in>set (waiters rl1 k). wt_rpm w = R"
  shows "rate_inv W k R (after_pump j now r s)"
proof -
  obtain gs rl' where r': "r = (gs, rl')" by fastforce
  have "rpm_is (if j = k then R else 0) (waiters rl1 j)" using rl1(4) by (auto simp: rpm_is_def)
  then have p: "window_step j (if j = k then R else 0) now (length gs) (y_rl s) rl'"
      "queues_from j (set (waiters rl1 j)) rl1 rl'"
    using pump_after[OF r[unfolded r'], of "y_rl s"] inv room rl1 by (auto simp: rate_inv_def)
  show ?thesis
    by (rule rate_inv_step[OF inv now, of j "length gs"])
       (use p queue_rpm_kept[OF rl1(4) p(2)] rl1(4) r' in \<open>auto simp: after_pump_def\<close>)
qed

lemma rate_inv_exec:
  assumes inv: "rate_inv W k R s" and ok: "rate_ok k R e s"
  shows "rate_inv W k R (exec_rl ord e s)"
proof (cases e)
  case (OpStart gone i j rpm conc timeout now)
  obtain res gs rl' where a: "acquire_start ord gone i j rpm conc timeout now (y_rl s) = (res, gs, rl')"
    by (metis prod_cases3)
  have R: "(if j = k then R else 0) = 0 \<or> (if j = k then R else 0) = rpm"
      "rpm_is (if j = k then R else 0) (waiters (y_rl s) j)"
    using ok inv OpStart by (auto simp: rate_inv_def rpm_is_def)
  let ?n = "length gs + (if res = Admitted then 1 else 0)"
  let ?new = "set (waiters (y_rl s) j) \<union>
      (if res = Queued then {\<lparr>wt_id = i, wt_rpm = rpm, wt_conc = conc, wt_done = False\<rparr>} else {})"
  have now: "y_clock s \<le> now" and w: "0 < rl_window (y_rl s)" "room_for (y_rl s) j"
    using inv ok OpStart by (auto simp: rate_inv_def)
  have st: "window_step j (if j = k then R else 0) now ?n (y_rl s) rl'"
      "queues_from j ?new (y_rl s) rl'" "res \<noteq> Queued \<longrightarrow> gs = []"
    using acquire_start_step[OF a w R] by blast+
  have old: "\<forall>w\<in>set (waiters (y_rl s) k). wt_rpm w = R" using inv by (simp add: rate_inv_def)
  moreover have "\<forall>w\<in>?new. wt_rpm w = R" if "j = k" using that old ok OpStart by auto
  ultimately have q: "\<forall>w\<in>set (waiters rl' k). wt_rpm w = R" using st(2) queue_rpm_kept by blast
  have rl: "y_rl (exec_rl ord e s) = rl'" "y_clock (exec_rl ord e s) = now"
    "y_log (exec_rl ord e s) = y_log s @ replicate ?n (j, now)"
    using a st(3) unfolding OpStart by (cases res; simp add: after_pump_def)+
  show ?thesis
  proof (rule rate_inv_step[OF inv now])
    show "window_step j (if j = k then R else 0) now ?n (y_rl s) (y_rl (exec_rl ord e s))"
      unfolding rl by (rule st(1))
    show "\<forall>w\<in>set (waiters (y_rl (exec_rl ord e s)) k). wt_rpm w = R" unfolding rl by (rule q)
  qed (rule rl)+
next
  case (OpReceive i)
  then show ?thesis using inv
    by (auto simp: acquire_granted_def rate_inv_def log_of_def split: prod.splits if_splits)
next
  case (OpGiveUp i j conc now)
  have "rate_inv W k R (after_pump j now (pump ord j now (given_up i j conc (y_rl s))) s)"
    by (rule rate_inv_pump[OF inv _ _ refl]) (use inv ok OpGiveUp in \<open>simp_all add: rate_inv_def\<close>)
  then show ?thesis using OpGiveUp by (simp add: acquire_give_up_eq)
next
  case (OpRelease j now)
  have "rate_inv W k R (after_pump j now (pump ord j now (released j (y_rl s))) s)"
    by (rule rate_inv_pump[OF inv _ _ refl]) (use inv ok OpRelease in \<open>simp_all add: rate_inv_def\<close>)
  then show ?thesis using OpRelease by (simp add: release_concurrency_eq)
next
  case (OpFire j now)
  have "rate_inv W k R (after_pump j now (pump ord j now
      ((y_rl s)\<lparr>rl_timers := AList.delete j (rl_timers (y_rl s))\<rparr>)) s)"
    by (rule rate_inv_pump[OF inv _ _ refl]) (use inv ok OpFire in \<open>simp_all add: rate_inv_def\<close>)
  then show ?thesis using OpFire by (simp add: fire_timer_def)
qed (use inv token_ops_frame in \<open>auto intro!: rate_inv_tokens\<close>)

interpretation rate: guarded_system "exec_rl ord" "rate_ok k R" "rate_inv W k R" for ord W k R
  by unfold_locales (rule rate_inv_exec)


section \<open>The concurrency cap\<close>

text \<open>Grants that were handed out under a cap and not received yet.\<close>

definition pending :: "(nat \<Rightarrow> string \<times> int) \<Rightarrow> string \<Rightarrow> nat list \<Rightarrow> int" where
  "pending own j is = int (length (filter (\<lambda>i. fst (own i) = j \<and> 0 < snd (own i)) is))"

definition cap_core :: "string \<Rightarrow> int \<Rightarrow> limiter \<Rightarrow> (nat \<Rightarrow> string \<times> int) \<Rightarrow> (string \<Rightarrow> int) \<Rightarrow> bool" where
  "cap_core k C rl own run \<longleftrightarrow>
     (\<forall>j. active_count rl j = run j + pending own j (rl_grants rl)) \<and> (\<forall>j. 0 \<le> run j) \<and>
     (\<forall>j. \<forall>w\<in>set (waiters rl j). own (wt_id w) = (j, wt_conc w)) \<and>
     (\<forall>w\<in>set (waiters rl k). wt_conc w = C) \<and> active_count rl k \<le> C"

definition cap_inv :: "string \<Rightarrow> int \<Rightarrow> rl_sys \<Rightarrow> bool" where
  "cap_inv k C s \<longleftrightarrow> 0 < C \<and> C \<le> 2147483647 \<and> cap_core k C (y_rl s) (y_owner s) (y_run s)"

text \<open>
  What a history may do for the cap on key \<open>k\<close>: parked requests have ids of their own, \<open>k\<close> is
  always asked for under the cap \<open>C\<close>, a request gives up on the key it parked under, and only
  a running request releases.
\<close>

fun cap_ok :: "string \<Rightarrow> int \<Rightarrow> rl_op \<Rightarrow> rl_sys \<Rightarrow> bool" where
  "cap_ok k C (OpStart gone i j rpm conc timeout now) s \<longleftrightarrow>
     (j = k \<longrightarrow> conc = C) \<and> i \<notin> set (rl_grants (y_rl s)) \<and>
     (\<forall>l. i \<notin> wt_id ` set (waiters (y_rl s) l))"
| "cap_ok k C (OpGiveUp i j conc now) s \<longleftrightarrow> y_owner s i = (j, conc)"
| "cap_ok k C (OpRelease j now) s \<longleftrightarrow> 0 < y_run s j"
| "cap_ok k C _ s \<longleftrightarrow> True"

lemma to_int32_id: "0 \<le> n \<Longrightarrow> n \<le> 2147483647 \<Longrightarrow> to_int32 n = n"
  by (simp add: to_int32_def)

lemma pending_simps [simp]:
  "pending own j [] = 0" "0 \<le> pending own j is"
  "pending own j (i # is) = (if fst (own i) = j \<and> 0 < snd (own i) then 1 else 0) + pending own j is"
  by (simp_all add: pending_def)

lemma pending_remove1:
  "i \<in> set is \<Longrightarrow> pending own j (remove1 i is) =
     pending own j is - (if fst (own i) = j \<and> 0 < snd (own i) then 1 else 0)"
  by (induction "is") auto

lemma pending_upd: "i \<notin> set is \<Longrightarrow> pending (own(i := x)) j is = pending own j is"
  by (induction "is") auto

lemma cap_coreD:
  assumes "cap_core k C rl own run"
  shows "active_count rl j = run j + pending own j (rl_grants rl)" "0 \<le> run j" "0 \<le> active_count rl j"
    "w \<in> set (waiters rl j) \<Longrightarrow> own (wt_id w) = (j, wt_conc w)"
    "w \<in> set (waiters rl k) \<Longrightarrow> wt_conc w = C" "active_count rl k \<le> C"
proof -
  have a: "active_count rl j = run j + pending own j (rl_grants rl)" "0 \<le> run j"
    using assms unfolding cap_core_def by blast+
  then show "active_count rl j = run j + pending own j (rl_grants rl)" "0 \<le> run j" by simp_all
  show "0 \<le> active_count rl j" using a pending_simps(2)[of own j "rl_grants rl"] by linarith
  show "w \<in> set (waiters rl j) \<Longrightarrow> own (wt_id w) = (j, wt_conc w)"
    "w \<in> set (waiters rl k) \<Longrightarrow> wt_conc w = C" "active_count rl k \<le> C"
    using assms unfolding cap_core_def by blast+
qed

lemma cap_core_same:
  assumes "cap_core k C rl own run" "\<And>j. active_count rl' j = active_count rl j"
    "\<And>j. set (waiters rl' j) \<subseteq> set (waiters rl j)" "rl_grants rl' = rl_grants rl"
  shows "cap_core k C rl' own run"
  using assms unfolding cap_core_def by (metis subsetD)

text \<open>The admit test takes a slot exactly when it admits a capped request, and never past the cap.\<close>

lemma try_admit_active:
  assumes t: "try_admit ord j rpm conc now rl = (ok, rl')" and core: "cap_core k C rl own run"
    and C: "0 < C" "C \<le> 2147483647" and conc: "j = k \<Longrightarrow> conc = C"
  shows "active_count rl' l = active_count rl l + (if l = j \<and> ok \<and> 0 < conc then 1 else 0)"
    "waiters rl' l = waiters rl l" "rl_grants rl' = rl_grants rl" "active_count rl' k \<le> C"
proof -
  note look = try_admit_lookups[OF t]
  have eq: "active_count rl' l = active_count rl l + (if l = j \<and> ok \<and> 0 < conc then 1 else 0)" for l
    using look cap_coreD(3)[OF core] by (cases "l = j") auto
  show "active_count rl' l = active_count rl l + (if l = j \<and> ok \<and> 0 < conc then 1 else 0)" by (rule eq)
  show "waiters rl' l = waiters rl l" "rl_grants rl' = rl_grants rl" using look by auto
  have "active_count rl k + 1 \<le> C" if "k = j" "ok" "0 < conc"
    using look that conc to_int32_id[of C] C by auto
  then show "active_count rl' k \<le> C" using eq[of k] cap_coreD(6)[OF core] by auto
qed

lemma cap_core_pump_loop:
  assumes "pump_loop ord j now ws rl = (gs, rl')" "waiters rl j = ws" "cap_core k C rl own run"
    and C: "0 < C" "C \<le> 2147483647"
  shows "cap_core k C rl' own run"
  using assms(1-3)
proof (induction ws arbitrary: rl gs)
  case Nil
  have "cap_core k C (rl\<lparr>rl_queues := AList.delete j (rl_queues rl)\<rparr>) own run"
    by (rule cap_core_same[OF Nil(3)]) auto
  with Nil(1) show ?case by simp
next
  case (Cons w ws)
  show ?case
  proof (cases "wt_done w")
    case True
    have "cap_core k C (set_queue j ws rl) own run"
      by (rule cap_core_same[OF Cons.prems(3)]) (use Cons.prems(2) in auto)
    with True show ?thesis using Cons.IH[of "set_queue j ws rl" gs] Cons.prems(1) by simp
  next
    case False
    obtain ok rl1 where t: "try_admit ord j (wt_rpm w) (wt_conc w) now rl = (ok, rl1)" by fastforce
    have w: "own (wt_id w) = (j, wt_conc w)" "j = k \<Longrightarrow> wt_conc w = C"
      using cap_coreD(4,5)[OF Cons.prems(3), of w] Cons.prems(2) by auto
    note act = try_admit_active[OF t Cons.prems(3) C w(2)]
    show ?thesis
    proof (cases ok)
      case no: False
      then have "rl' = (if rpm_blocked j (wt_rpm w) now rl1 then schedule_wake j now rl1 else rl1)"
        using Cons.prems(1) t False by (auto split: prod.splits)
      then show ?thesis using act no by (intro cap_core_same[OF Cons.prems(3)]) auto
    next
      case True
      let ?rl2 = "(set_queue j ws rl1)\<lparr>rl_grants := wt_id w # rl_grants rl1\<rparr>"
      obtain gs' where p: "pump_loop ord j now ws ?rl2 = (gs', rl')"
        using Cons.prems(1) t False True by (auto simp: Let_def split: prod.splits)
      have "cap_core k C ?rl2 own run"
        unfolding cap_core_def
      proof (intro conjI allI)
        show "active_count ?rl2 l = run l + pending own l (rl_grants ?rl2)" for l
          using act(1)[of l] act(3) True w(1) cap_coreD(1)[OF Cons.prems(3), of l] by simp
        show "\<forall>x\<in>set (waiters ?rl2 l). own (wt_id x) = (l, wt_conc x)" for l
          using cap_coreD(4)[OF Cons.prems(3)] act(2) Cons.prems(2) by simp
        show "\<forall>x\<in>set (waiters ?rl2 k). wt_conc x = C"
          using cap_coreD(5)[OF Cons.prems(3)] act(2) Cons.prems(2) by simp
      qed (use act(4) cap_coreD(2)[OF Cons.prems(3)] in simp_all)
      then show ?thesis using Cons.IH[OF p] by simp
    qed
  qed
qed

lemma cap_core_pump:
  assumes "pump ord j now rl = (gs, rl')" "cap_core k C rl own run" "0 < C" "C \<le> 2147483647"
  shows "cap_core k C rl' own run"
proof (cases "map_of (rl_queues rl) j")
  case None
  then show ?thesis using assms by (simp add: pump_def)
next
  case (Some ws)
  then have "pump_loop ord j now ws rl = (gs, rl')" "waiters rl j = ws"
    using assms(1) by (simp_all add: pump_def waiters_def)
  then show ?thesis using cap_core_pump_loop assms(2-4) by blast
qed


lemma cap_core_park:
  assumes core: "cap_core k C rl own run" and fresh: "i \<notin> set (rl_grants rl)" "\<forall>l. i \<notin> wt_id ` set (waiters rl l)"
    and w: "wt_id w = i" "wt_conc w = conc" "j = k \<Longrightarrow> conc = C" and ws: "set ws = insert w (set (waiters rl j))"
  shows "cap_core k C (set_queue j ws rl) (own(i := (j, conc))) run"
  unfolding cap_core_def
proof (intro conjI allI)
  show "active_count (set_queue j ws rl) l = run l + pending (own(i := (j, conc))) l (rl_grants (set_queue j ws rl))" for l
    using cap_coreD(1)[OF core, of l] fresh(1) by (simp add: pending_upd)
  show "\<forall>x\<in>set (waiters (set_queue j ws rl) l). (own(i := (j, conc))) (wt_id x) = (l, wt_conc x)" for l
  proof
    fix x assume "x \<in> set (waiters (set_queue j ws rl) l)"
    then consider "x = w" "l = j" | "x \<in> set (waiters rl l)" using ws by (auto split: if_splits)
    then show "(own(i := (j, conc))) (wt_id x) = (l, wt_conc x)"
    proof cases
      case 2
      then have "wt_id x \<noteq> i" using fresh(2) by blast
      then show ?thesis using cap_coreD(4)[OF core 2] by simp
    qed (use w in simp)
  qed
  show "\<forall>x\<in>set (waiters (set_queue j ws rl) k). wt_conc x = C"
    using cap_coreD(5)[OF core] w(2,3) ws by (auto split: if_splits)
qed (use cap_coreD(2,6)[OF core] in simp_all)

lemma cap_inv_start:
  assumes inv: "cap_inv k C s" and ok: "cap_ok k C (OpStart gone i j rpm conc timeout now) s"
  shows "cap_inv k C (exec_rl ord (OpStart gone i j rpm conc timeout now) s)"
proof -
  have C: "0 < C" "C \<le> 2147483647" and core: "cap_core k C (y_rl s) (y_owner s) (y_run s)"
    using inv by (auto simp: cap_inv_def)
  obtain adm rl1 where t: "try_admit ord j rpm conc now (y_rl s) = (adm, rl1)" by fastforce
  have conc: "j = k \<Longrightarrow> conc = C" and fresh: "i \<notin> set (rl_grants (y_rl s))"
      "\<forall>l. i \<notin> wt_id ` set (waiters (y_rl s) l)" using ok by simp_all
  note act = try_admit_active[OF t core C conc]
  show ?thesis
  proof (cases adm)
    case True
    have "cap_core k C rl1 (y_owner s) (bump (0 < conc) j (y_run s))"
      using core act True unfolding cap_core_def bump_def by auto
    with t True C show ?thesis by (simp add: acquire_start_def cap_inv_def)
  next
    case no: False
    have core1: "cap_core k C rl1 (y_owner s) (y_run s)"
      using act no by (intro cap_core_same[OF core]) auto
    let ?w = "\<lparr>wt_id = i, wt_rpm = rpm, wt_conc = conc, wt_done = False\<rparr>"
    let ?rl2 = "set_queue j (waiters rl1 j) rl1"
    have core2: "cap_core k C ?rl2 (y_owner s) (y_run s)" by (rule cap_core_same[OF core1]) auto
    obtain res gs rl' where a: "acquire_start ord gone i j rpm conc timeout now (y_rl s) = (res, gs, rl')"
      by (metis prod_cases3)
    consider "res = Refused" "rl' = rl1 \<or> rl' = ?rl2"
      | "res = Queued" "pump ord j now (set_queue j (waiters rl1 j @ [?w]) ?rl2) = (gs, rl')"
      using a t no by (auto simp: acquire_start_def acquire_enqueue_def Let_def split: if_splits)
    then show ?thesis
    proof cases
      case 1
      then show ?thesis using a core1 core2 C by (auto simp: cap_inv_def)
    next
      case 2
      have "cap_core k C (set_queue j (waiters rl1 j @ [?w]) ?rl2) ((y_owner s)(i := (j, conc))) (y_run s)"
        by (rule cap_core_park[OF core2, of i ?w conc]) (use fresh act conc in auto)
      from cap_core_pump[OF 2(2) this C] show ?thesis
        using a 2(1) C by (simp add: cap_inv_def after_pump_def)
    qed
  qed
qed

lemma cap_inv_after_pump:
  assumes "cap_core k C rl1 (y_owner s) run" "0 < C" "C \<le> 2147483647"
  shows "cap_inv k C ((after_pump j now (pump ord j now rl1) s)\<lparr>y_run := run\<rparr>)"
proof -
  obtain gs rl' where p: "pump ord j now rl1 = (gs, rl')" by fastforce
  from cap_core_pump[OF p assms] show ?thesis using assms(2,3) p by (simp add: cap_inv_def after_pump_def)
qed

lemma cap_core_released:
  assumes core: "cap_core k C rl own run" and run: "0 < run j"
  shows "cap_core k C (released j rl) own (run(j := run j - 1))"
proof -
  have "active_count rl j = run j + pending own j (rl_grants rl)" "0 \<le> pending own j (rl_grants rl)"
    using cap_coreD(1)[OF core] by simp_all
  then have "max 0 (active_count rl j - 1) = run j - 1 + pending own j (rl_grants rl)" using run by linarith
  then have "active_count (released j rl) l = (run(j := run j - 1)) l + pending own l (rl_grants rl)" for l
    unfolding released_active using cap_coreD(1)[OF core, of l] by simp
  moreover have "active_count (released j rl) k \<le> C"
    using cap_coreD(3)[OF core, of k] cap_coreD(6)[OF core] by (auto simp: released_active)
  ultimately show ?thesis using core run unfolding cap_core_def by auto
qed

lemma cap_core_given_up:
  assumes core: "cap_core k C rl own run" and own: "own i = (j, conc)"
  shows "cap_core k C (given_up i j conc rl) own run"
proof -
  have "active_count (given_up i j conc rl) l = run l + pending own l (rl_grants (given_up i j conc rl))" for l
  proof (cases "i \<in> set (rl_grants rl) \<and> 0 < conc")
    case True
    then have "1 \<le> pending own j (rl_grants rl)"
      using pending_remove1[of i "rl_grants rl" own j] own pending_simps(2)[of own j "remove1 i (rl_grants rl)"]
      by simp
    then have "active_count rl j \<noteq> 0" using cap_coreD(1,2)[OF core, of j] by simp
    then have "map_of (rl_active rl) j \<noteq> None" by (auto simp: active_count_def split: option.splits)
    then show ?thesis using True own cap_coreD(1)[OF core, of l]
      by (simp add: given_up_active pending_remove1)
  next
    case False
    then show ?thesis using own cap_coreD(1)[OF core, of l]
      by (cases "i \<in> set (rl_grants rl)") (simp_all add: given_up_active pending_remove1 remove1_idem)
  qed
  moreover have "active_count (given_up i j conc rl) k \<le> C"
    using cap_coreD(6)[OF core] unfolding given_up_active by auto
  moreover have "\<forall>w\<in>set (waiters (given_up i j conc rl) l). \<exists>x\<in>set (waiters rl l). wt_id w = wt_id x \<and> wt_conc w = wt_conc x"
    for l by (auto simp: mark_done_def)
  ultimately show ?thesis using cap_coreD(2,4,5)[OF core] unfolding cap_core_def by metis
qed

lemma cap_inv_exec:
  assumes inv: "cap_inv k C s" and ok: "cap_ok k C e s"
  shows "cap_inv k C (exec_rl ord e s)"
proof -
  have C: "0 < C" "C \<le> 2147483647" and core: "cap_core k C (y_rl s) (y_owner s) (y_run s)"
    using inv by (auto simp: cap_inv_def)
  have tokens: "cap_inv k C (s\<lparr>y_rl := rl\<rparr>)" if "\<exists>b. rl = (y_rl s)\<lparr>rl_tokens := b\<rparr>" for rl
    using that core C by (auto simp: cap_inv_def intro: cap_core_same[OF core])
  have id_run: "after_pump j now r s = (after_pump j now r s)\<lparr>y_run := y_run s\<rparr>" for j now r
    by (simp add: after_pump_def)
  show ?thesis
  proof (cases e)
    case (OpStart gone i j rpm conc timeout now)
    then show ?thesis using cap_inv_start[OF inv] ok by simp
  next
    case (OpReceive i)
    then show ?thesis using core C
      by (auto simp: acquire_granted_def cap_inv_def cap_core_def bump_def pending_remove1)
  next
    case (OpGiveUp i j conc now)
    then show ?thesis using ok cap_inv_after_pump[OF cap_core_given_up[OF core] C]
      by (simp only: exec_rl.simps acquire_give_up_eq cap_ok.simps) (subst id_run, simp)
  next
    case (OpRelease j now)
    then show ?thesis using ok cap_inv_after_pump[OF cap_core_released[OF core] C]
      by (simp only: exec_rl.simps release_concurrency_eq cap_ok.simps)
  next
    case (OpFire j now)
    have "cap_core k C ((y_rl s)\<lparr>rl_timers := AList.delete j (rl_timers (y_rl s))\<rparr>) (y_owner s) (y_run s)"
      by (rule cap_core_same[OF core]) auto
    from cap_inv_after_pump[OF this C] show ?thesis
      unfolding OpFire exec_rl.simps fire_timer_def by (subst id_run)
  qed (use tokens token_ops_frame in auto)
qed

interpretation cap: guarded_system "exec_rl ord" "cap_ok k C" "cap_inv k C" for ord k C
  by unfold_locales (rule cap_inv_exec)


section \<open>Properties\<close>

lemma rate_inv_start: "0 < R \<Longrightarrow> rate_inv (if w \<le> 0 then minute else w) k R (start_sys w)"
  by (simp add: rate_inv_def start_sys_def new_limiter_def log_of_def in_window_def waiters_def
      stamps_def live_def)

lemma cap_inv_start_sys: "0 < C \<Longrightarrow> C \<le> 2147483647 \<Longrightarrow> cap_inv k C (start_sys w)"
  by (simp add: cap_inv_def cap_core_def start_sys_def new_limiter_def waiters_def active_count_def)

text \<open>C1: The request rate is enforced over every window, not per calendar minute: in any history of
  requests, hang-ups, releases and timers, however they interleave with other keys, no interval of
  the window's length contains more than \<open>R\<close> admissions of a key whose rate is \<open>R\<close>, queued
  admissions included, as long as the window map stays below its eviction limit.\<close>
theorem request_rate_bounded:
  assumes "0 < R" "ok_run (exec_rl ord) (rate_ok k R) ops (start_sys w)"
  shows "in_window (if w \<le> 0 then minute else w) t (log_of k (fold (exec_rl ord) ops (start_sys w))) \<le> R"
  using rate.inv_run[OF rate_inv_start[OF assms(1), of w k] assms(2)] unfolding rate_inv_def by metis

definition demo_rate_ops :: "rl_op list" where
  "demo_rate_ops = [OpStart False 1 ''k'' 2 0 100 10, OpStart False 2 ''k'' 2 0 100 11,
     OpStart False 3 ''k'' 2 0 100 12, OpFire ''k'' 20, OpReceive 3]"

lemma request_rate_bounded_witness:
  "log_of ''k'' (fold (exec_rl id) demo_rate_ops (start_sys 10)) = [10, 11, 20] \<and>
   in_window 10 20 (log_of ''k'' (fold (exec_rl id) demo_rate_ops (start_sys 10))) \<le> 2"
proof -
  have "ok_run (exec_rl id) (rate_ok ''k'' 2) demo_rate_ops (start_sys 10)"
    "log_of ''k'' (fold (exec_rl id) demo_rate_ops (start_sys 10)) = [10, 11, 20]" by code_simp+
  then show ?thesis using request_rate_bounded[of 2 id "''k''" demo_rate_ops 10 20] by simp
qed

text \<open>C2: The concurrency cap holds over every history: the counter of a key is the number of its
  running requests plus the grants not yet received, so at most \<open>C\<close> requests of a key capped at
  \<open>C\<close> run at any moment; no slot leaks when a grant races a hang-up, and evictions change nothing.\<close>
theorem concurrency_cap_respected:
  assumes "0 < C" "C \<le> 2147483647" "ok_run (exec_rl ord) (cap_ok k C) ops (start_sys w)"
  defines "s \<equiv> fold (exec_rl ord) ops (start_sys w)"
  shows "active_count (y_rl s) k = y_run s k + pending (y_owner s) k (rl_grants (y_rl s)) \<and>
    0 \<le> y_run s k \<and> y_run s k + pending (y_owner s) k (rl_grants (y_rl s)) \<le> C"
proof -
  have "cap_core k C (y_rl s) (y_owner s) (y_run s)"
    using cap.inv_run[OF cap_inv_start_sys[OF assms(1,2), of k w] assms(3)] by (simp add: cap_inv_def s_def)
  then show ?thesis using cap_coreD(1,2,6) by metis
qed

definition demo_cap_ops :: "rl_op list" where
  "demo_cap_ops = [OpStart False 1 ''k'' 0 1 100 10, OpStart False 2 ''k'' 0 1 100 11,
     OpStart False 3 ''k'' 0 1 100 12, OpRelease ''k'' 13, OpGiveUp 2 ''k'' 1 14, OpReceive 3]"

lemma concurrency_cap_respected_witness:
  "let s = fold (exec_rl id) demo_cap_ops (start_sys 10)
   in y_run s ''k'' = 1 \<and> active_count (y_rl s) ''k'' = 1 \<and>
      y_run s ''k'' + pending (y_owner s) ''k'' (rl_grants (y_rl s)) \<le> 1"
proof -
  have "ok_run (exec_rl id) (cap_ok ''k'' 1) demo_cap_ops (start_sys 10)"
    "y_run (fold (exec_rl id) demo_cap_ops (start_sys 10)) ''k'' = 1"
    "active_count (y_rl (fold (exec_rl id) demo_cap_ops (start_sys 10))) ''k'' = 1"
    by (simp_all add: demo_cap_ops_def start_sys_def new_limiter_def acquire_start_def try_admit_def
        claim_slot_def active_count_def set_active_def to_int32_def acquire_enqueue_def pump_def
        set_queue_def waiters_def after_pump_def bump_def release_concurrency_def acquire_give_up_def
        acquire_granted_def mark_done_def rpm_blocked_def default_max_queue_depth_def Let_def)
  then show ?thesis using concurrency_cap_respected[of 1 id "''k''" demo_cap_ops 10] by (simp add: Let_def)
qed

section \<open>What the queue and the eviction do not promise\<close>

text \<open>
  A fresh request does not look at the queue: one that arrives after the window has rolled but
  before the wake-up timer has run takes the place of the request parked ahead of it.
\<close>

lemma fresh_request_overtakes:
  "let s = fold (exec_rl id) [OpStart False 1 ''k'' 1 0 100 10, OpStart False 2 ''k'' 1 0 100 11,
        OpStart False 3 ''k'' 1 0 100 20] (start_sys 10)
   in log_of ''k'' s = [10, 20] \<and> map wt_id (waiters (y_rl s) ''k'') = [2]"
  by code_simp

text \<open>
  The eviction is triggered by the size of the window map alone. A key with a token limit only
  never enters that map, so its bucket is never reclaimed: \<open>n\<close> keys leave \<open>n\<close> buckets behind.
\<close>

lemma token_buckets_not_evicted:
  assumes "distinct ks" "set ks \<inter> fst ` set (rl_tokens rl) = {}"
  shows "length (rl_tokens (fold (\<lambda>k rl. snd (check_tpm_only k 100 1 0 rl)) ks rl)) = length (rl_tokens rl) + length ks \<and>
    rl_windows (fold (\<lambda>k rl. snd (check_tpm_only k 100 1 0 rl)) ks rl) = rl_windows rl"
  using assms
proof (induction ks arbitrary: rl)
  case (Cons k ks)
  obtain b where b: "snd (check_tpm_only k 100 1 0 rl) = rl\<lparr>rl_tokens := AList.update k b (rl_tokens rl)\<rparr>"
    using that by (simp add: check_tpm_only_snd check_tpm_def Let_def)
  show ?case using Cons.IH[of "snd (check_tpm_only k 100 1 0 rl)"] Cons.prems by (simp add: b length_update)
qed simp

text \<open>The non-blocking gate keeps the slot it took when the token bucket then refuses.\<close>

lemma refused_check_keeps_slot:
  "let ((ok, _, axis), rl) = check_limits id ''k'' 0 5 1 9 0 (new_limiter 10)
   in \<not> ok \<and> axis = ''tpm'' \<and> active_count rl ''k'' = 1"
  by code_simp

end
