(* ===== verification/TokenBucket.thy ===== *)
theory TokenBucket
  imports RateLimit
begin

text \<open>
  The token bucket of \<open>internal/middleware/ratelimit.go\<close> over time: it stays between zero and
  the limit whatever is charged, settled and refunded, and what it grants over an interval is
  bounded by one full bucket plus the refill of the interval.
\<close>

definition bucket_ok :: "int \<Rightarrow> token_bucket \<Rightarrow> bool" where
  "bucket_ok tpm b \<longleftrightarrow> 0 \<le> tb_tokens b \<and> tb_tokens b \<le> of_int tpm"

definition buckets_ok :: "int \<Rightarrow> limiter \<Rightarrow> bool" where
  "buckets_ok tpm rl \<longleftrightarrow> 0 < tpm \<and> 0 < rl_window rl \<and> all_entries (\<lambda>_ b. bucket_ok tpm b) (rl_tokens rl)"

datatype token_op =
    TCharge string int instant
  | TSettle string int int
  | TRefund string int

fun exec_token :: "int \<Rightarrow> token_op \<Rightarrow> limiter \<Rightarrow> limiter" where
  "exec_token tpm (TCharge k n now) rl = snd (check_tpm k tpm n now rl)"
| "exec_token tpm (TSettle k r a) rl = settle_token_usage k tpm r a rl"
| "exec_token tpm (TRefund k n) rl = refund_tpm k tpm n rl"

fun token_ok :: "token_op \<Rightarrow> limiter \<Rightarrow> bool" where
  "token_ok (TCharge k n now) rl \<longleftrightarrow> 0 \<le> n"
| "token_ok _ rl \<longleftrightarrow> True"

lemma refill_rate_nonneg: "0 < rl_window rl \<Longrightarrow> 0 \<le> tpm \<Longrightarrow> 0 \<le> refill_rate rl tpm"
  by (simp add: refill_rate_def seconds_of_def)

lemma refill_bucket_ok:
  assumes "bucket_ok tpm b" "0 < rl_window rl" "0 \<le> tpm"
  shows "bucket_ok tpm (refill rl tpm now b)"
proof -
  have "0 \<le> tb_tokens b + seconds_of (now - tb_last b) * refill_rate rl tpm" if "0 < seconds_of (now - tb_last b)"
    using assms that refill_rate_nonneg[OF assms(2,3)] by (simp add: bucket_ok_def)
  then show ?thesis using assms(1,3) by (auto simp: refill_def bucket_ok_def Let_def)
qed

lemma exec_token_ok: "buckets_ok tpm rl \<Longrightarrow> token_ok e rl \<Longrightarrow> buckets_ok tpm (exec_token tpm e rl)"
proof (cases e)
  case (TCharge k n now)
  assume inv: "buckets_ok tpm rl" and ok: "token_ok e rl"
  let ?b = "case map_of (rl_tokens rl) k of None \<Rightarrow> \<lparr>tb_tokens = of_int tpm, tb_last = now\<rparr> | Some b \<Rightarrow> b"
  have "bucket_ok tpm ?b" using inv
    by (auto simp: buckets_ok_def bucket_ok_def dest: all_entriesD split: option.splits)
  then have "bucket_ok tpm (refill rl tpm now ?b)" using inv by (intro refill_bucket_ok) (auto simp: buckets_ok_def)
  with inv ok TCharge show ?thesis
    by (auto simp: check_tpm_def Let_def buckets_ok_def bucket_ok_def not_less intro!: all_entries_update)
qed (auto simp: settle_token_usage_def refund_tpm_def Let_def buckets_ok_def bucket_ok_def
      dest: all_entriesD split: option.split intro!: all_entries_update)

interpretation buckets: guarded_system "exec_token tpm" token_ok "buckets_ok tpm" for tpm
  by unfold_locales (rule exec_token_ok)

section \<open>Charges over time\<close>

text \<open>A run of charges on one key: the total granted, and the limiter after it.\<close>

fun run_charges :: "string \<Rightarrow> int \<Rightarrow> (int \<times> instant) list \<Rightarrow> limiter \<Rightarrow> int \<times> limiter" where
  "run_charges k tpm [] rl = (0, rl)"
| "run_charges k tpm ((n, t) # cs) rl =
     (let (ok, rl) = check_tpm k tpm n t rl; (g, rl) = run_charges k tpm cs rl
      in ((if ok then n else 0) + g, rl))"

lemma refill_bound:
  assumes "tb_last b \<le> now" "0 < rl_window rl" "0 \<le> tpm"
  shows "tb_tokens (refill rl tpm now b) \<le> tb_tokens b + seconds_of (now - tb_last b) * refill_rate rl tpm"
    and "tb_last (refill rl tpm now b) = now"
proof -
  have "0 \<le> seconds_of (now - tb_last b) * refill_rate rl tpm"
    using assms refill_rate_nonneg[OF assms(2,3)] by (simp add: seconds_of_def)
  then show "tb_tokens (refill rl tpm now b) \<le> tb_tokens b + seconds_of (now - tb_last b) * refill_rate rl tpm"
    by (auto simp: refill_def Let_def)
  show "tb_last (refill rl tpm now b) = now"
  proof (cases "tb_last b = now")
    case False
    then have "0 < seconds_of (now - tb_last b)" using assms(1) by (simp add: seconds_of_def)
    then show ?thesis by (simp add: refill_def Let_def)
  qed (simp add: refill_def seconds_of_def)
qed

lemma check_tpm_step:
  assumes b: "map_of (rl_tokens rl) k = Some b" "bucket_ok tpm b" "tb_last b \<le> now"
    and "0 < rl_window rl" "0 \<le> tpm" "0 \<le> n" and c: "check_tpm k tpm n now rl = (ok, rl')"
  obtains b' where "map_of (rl_tokens rl') k = Some b'" "bucket_ok tpm b'" "tb_last b' = now"
    "tb_tokens b' + of_int (if ok then n else 0) \<le> tb_tokens b + seconds_of (now - tb_last b) * refill_rate rl tpm"
    "rl_window rl' = rl_window rl"
proof -
  let ?r = "refill rl tpm now b"
  let ?b = "if ok then ?r\<lparr>tb_tokens := tb_tokens ?r - of_int n\<rparr> else ?r"
  have ok: "ok \<longleftrightarrow> \<not> tb_tokens ?r < of_int n" and rl': "rl' = rl\<lparr>rl_tokens := AList.update k ?b (rl_tokens rl)\<rparr>"
    using b(1) c by (auto simp: check_tpm_def Let_def)
  have "bucket_ok tpm ?b"
    using refill_bucket_ok[OF b(2) assms(4,5), of now] ok assms(6) by (auto simp: bucket_ok_def)
  then show ?thesis
    using that[of ?b] refill_bound[OF b(3) assms(4,5)] unfolding rl' by auto
qed

lemma run_charges_bound:
  assumes "run_charges k tpm cs rl = (g, rl')" "map_of (rl_tokens rl) k = Some b" "bucket_ok tpm b"
    "0 < rl_window rl" "0 \<le> tpm" "\<forall>(n, t)\<in>set cs. 0 \<le> n \<and> t \<le> T" "sorted (tb_last b # map snd cs)" "tb_last b \<le> T"
  shows "of_int g \<le> tb_tokens b + seconds_of (T - tb_last b) * refill_rate rl tpm"
  using assms
proof (induction cs arbitrary: rl b g)
  case Nil
  have "0 \<le> seconds_of (T - tb_last b) * refill_rate rl tpm"
    using Nil refill_rate_nonneg[of rl tpm] by (simp add: seconds_of_def)
  then show ?case using Nil by (simp add: bucket_ok_def)
next
  case (Cons c cs)
  obtain n t where c: "c = (n, t)" by fastforce
  obtain ok rl1 where ch: "check_tpm k tpm n t rl = (ok, rl1)" by fastforce
  obtain g1 where r: "run_charges k tpm cs rl1 = (g1, rl')" "g = (if ok then n else 0) + g1"
    using Cons.prems(1) c ch by (auto simp: Let_def split: prod.splits)
  have t: "tb_last b \<le> t" "0 \<le> n" "t \<le> T" using Cons.prems(6,7) c by auto
  obtain b1 where b1: "map_of (rl_tokens rl1) k = Some b1" "bucket_ok tpm b1" "tb_last b1 = t"
    "tb_tokens b1 + of_int (if ok then n else 0) \<le> tb_tokens b + seconds_of (t - tb_last b) * refill_rate rl tpm"
    "rl_window rl1 = rl_window rl"
    using check_tpm_step[OF Cons.prems(2,3) t(1) Cons.prems(4,5) t(2) ch] by blast
  have "of_int g1 \<le> tb_tokens b1 + seconds_of (T - tb_last b1) * refill_rate rl1 tpm"
    using Cons.IH[OF r(1) b1(1,2)] Cons.prems(4-7) b1(3,5) c t(3) by auto
  moreover have "refill_rate rl1 tpm = refill_rate rl tpm" using b1(5) by (simp add: refill_rate_def)
  moreover have "seconds_of (t - tb_last b) * refill_rate rl tpm + seconds_of (T - t) * refill_rate rl tpm =
      seconds_of (T - tb_last b) * refill_rate rl tpm"
    by (simp add: seconds_of_def diff_divide_distrib algebra_simps)
  ultimately show ?case using b1(3,4) r(2) by simp
qed

section \<open>Properties\<close>



text \<open>Whatever is charged, settled and refunded under a limit, a bucket never goes below zero and
  never holds more than the limit: no refund or late settlement creates credit.\<close>
theorem token_bucket_bounded:
  assumes "0 < tpm" "ok_run (exec_token tpm) token_ok ops (new_limiter w)"
    and "map_of (rl_tokens (fold (exec_token tpm) ops (new_limiter w))) k = Some b"
  shows "0 \<le> tb_tokens b \<and> tb_tokens b \<le> of_int tpm"
proof -
  have "buckets_ok tpm (new_limiter w)" using assms(1) by (simp add: buckets_ok_def new_limiter_def)
  from buckets.inv_run[OF this assms(2)] assms(3) show ?thesis
    by (auto simp: buckets_ok_def bucket_ok_def dest: all_entriesD)
qed

lemma token_bucket_bounded_witness:
  "let ops = [TCharge ''k'' 4 0, TSettle ''k'' 4 20, TRefund ''k'' 3]
   in ok_run (exec_token 10) token_ok ops (new_limiter 60) \<and>
      (\<exists>b. map_of (rl_tokens (fold (exec_token 10) ops (new_limiter 60))) ''k'' = Some b \<and> tb_tokens b = 3 \<and>
           0 \<le> tb_tokens b \<and> tb_tokens b \<le> 10)"
proof -
  let ?ops = "[TCharge ''k'' 4 0, TSettle ''k'' 4 20, TRefund ''k'' 3]"
  have ok: "ok_run (exec_token 10) token_ok ?ops (new_limiter 60)" by simp
  have "map_option tb_tokens (map_of (rl_tokens (fold (exec_token 10) ?ops (new_limiter 60))) ''k'') = Some 3"
    by code_simp
  then obtain b where b: "map_of (rl_tokens (fold (exec_token 10) ?ops (new_limiter 60))) ''k'' = Some b"
      "tb_tokens b = 3" by auto
  then show ?thesis using ok token_bucket_bounded[OF _ ok b(1)] by (simp add: Let_def)
qed

end
