(* ===== verification/CacheBase.thy ===== *)
theory CacheBase
  imports RouterPrelude "HOL-Library.Multiset"
begin

text \<open>
  What the program's caches share. The first part is the representation the two LRU caches use:
  a Go map from keys to elements of a \<open>container/list\<close> whose front is the most recently
  used entry. Elements are pointers, so they have an identity of their own here, and the
  operations are those of the library: \<open>PushFront\<close>, \<open>MoveToFront\<close>, \<open>Remove\<close>, \<open>Back\<close> and the update of an
  element in place. \<open>lru_abs\<close> forgets the identities and the map, and the lemmas say that each
  operation is the obvious one on the recency list that is left.

  The second part is the contract every keyed cache of the program keeps, whatever it evicts:
  it never invents or resurrects an entry.
\<close>

section \<open>A map into a linked list\<close>

record 'v lru =
  lr_items :: "(string \<times> nat) list"
  lr_list :: "(nat \<times> string \<times> 'v) list"
  lr_next :: nat

definition lru_empty :: "'v lru" where
  "lru_empty = \<lparr>lr_items = [], lr_list = [], lr_next = 0\<rparr>"

definition lru_find :: "string \<Rightarrow> 'v lru \<Rightarrow> (nat \<times> 'v) option" where
  "lru_find k l = (case map_of (lr_items l) k of
     None \<Rightarrow> None
   | Some e \<Rightarrow> map_option (\<lambda>kv. (e, snd kv)) (map_of (lr_list l) e))"

definition lru_front :: "nat \<Rightarrow> 'v lru \<Rightarrow> 'v lru" where
  "lru_front e l = (case map_of (lr_list l) e of
     None \<Rightarrow> l
   | Some kv \<Rightarrow> l\<lparr>lr_list := (e, kv) # AList.delete e (lr_list l)\<rparr>)"

definition lru_push :: "string \<Rightarrow> 'v \<Rightarrow> 'v lru \<Rightarrow> 'v lru" where
  "lru_push k v l = l\<lparr>lr_list := (lr_next l, k, v) # lr_list l,
     lr_items := AList.update k (lr_next l) (lr_items l), lr_next := lr_next l + 1\<rparr>"

definition lru_write :: "nat \<Rightarrow> 'v \<Rightarrow> 'v lru \<Rightarrow> 'v lru" where
  "lru_write e v l = l\<lparr>lr_list := map (\<lambda>(f, k, w). (f, k, if f = e then v else w)) (lr_list l)\<rparr>"

definition lru_remove :: "nat \<Rightarrow> 'v lru \<Rightarrow> 'v lru" where
  "lru_remove e l = (case map_of (lr_list l) e of
     None \<Rightarrow> l
   | Some kv \<Rightarrow> l\<lparr>lr_list := AList.delete e (lr_list l), lr_items := AList.delete (fst kv) (lr_items l)\<rparr>)"

definition lru_back :: "'v lru \<Rightarrow> (nat \<times> string \<times> 'v) option" where
  "lru_back l = (if lr_list l = [] then None else Some (last (lr_list l)))"

definition lru_len :: "'v lru \<Rightarrow> int" where
  "lru_len l = int (length (lr_list l))"

text \<open>The map and the list name the same elements.\<close>

definition lru_ok :: "'v lru \<Rightarrow> bool" where
  "lru_ok l \<longleftrightarrow> distinct (map fst (lr_list l)) \<and> distinct (map (fst \<circ> snd) (lr_list l)) \<and>
     is_map (lr_items l) \<and> map_of (lr_items l) = map_of (map (\<lambda>(e, k, v). (k, e)) (lr_list l)) \<and>
     (\<forall>e\<in>fst ` set (lr_list l). e < lr_next l)"

definition lru_abs :: "'v lru \<Rightarrow> (string \<times> 'v) list" where
  "lru_abs l = map snd (lr_list l)"

lemma keys_lru_abs: "map fst (lru_abs l) = map (fst \<circ> snd) (lr_list l)"
  by (simp add: lru_abs_def)

lemma lru_ok_keys [simp]: "lru_ok l \<Longrightarrow> is_map (lru_abs l)"
  by (simp add: lru_ok_def keys_lru_abs)

lemma lru_items_map: "lru_ok l \<Longrightarrow> is_map (lr_items l)"
  by (simp add: lru_ok_def)

lemma lru_items_mset:
  assumes "lru_ok l"
  shows "mset (lr_items l) = mset (map (\<lambda>(e, k, v). (k, e)) (lr_list l))"
proof -
  let ?ys = "map (\<lambda>(e, k, v). (k, e)) (lr_list l)"
  have d: "is_map (lr_items l)" "is_map ?ys" "map_of (lr_items l) = map_of ?ys"
    using assms by (simp_all add: lru_ok_def comp_def case_prod_unfold)
  then have "set (lr_items l) = set ?ys" using map_of_inject_set[OF d(1,2)] by simp
  moreover have "distinct (lr_items l)" "distinct ?ys" using d(1,2) by (auto simp only: distinct_map)
  ultimately show ?thesis by (simp only: set_eq_iff_mset_eq_distinct)
qed

lemma lru_items_len: "lru_ok l \<Longrightarrow> length (lr_items l) = length (lr_list l)"
  using lru_items_mset mset_eq_length by fastforce

lemma lru_empty_ok [simp]: "lru_ok lru_empty" "lru_abs lru_empty = []"
  by (simp_all add: lru_ok_def lru_abs_def lru_empty_def)

lemma lru_len_abs: "lru_len l = int (length (lru_abs l))"
  by (simp add: lru_len_def lru_abs_def)

lemma lru_items_iff:
  assumes "lru_ok l"
  shows "map_of (lr_items l) k = Some e \<longleftrightarrow> (\<exists>v. (e, k, v) \<in> set (lr_list l))"
proof -
  have "distinct (map fst (map (\<lambda>(e, k, v). (k, e)) (lr_list l)))"
    using assms by (simp add: lru_ok_def comp_def case_prod_unfold)
  then show ?thesis using assms by (force simp: lru_ok_def)
qed

lemma lru_elem:
  "lru_ok l \<Longrightarrow> (e, k, v) \<in> set (lr_list l) \<Longrightarrow> map_of (lr_list l) e = Some (k, v)"
  by (simp add: lru_ok_def)

lemma lru_find_iff:
  assumes "lru_ok l"
  shows "lru_find k l = Some (e, v) \<longleftrightarrow> (e, k, v) \<in> set (lr_list l)"
proof
  assume "lru_find k l = Some (e, v)"
  then obtain kv where kv: "map_of (lr_items l) k = Some e" "map_of (lr_list l) e = Some kv" "snd kv = v"
    by (auto simp: lru_find_def split: option.splits)
  then obtain w where "(e, k, w) \<in> set (lr_list l)" using lru_items_iff[OF assms] by blast
  then have "map_of (lr_list l) e = Some (k, w)" by (rule lru_elem[OF assms])
  then show "(e, k, v) \<in> set (lr_list l)" using kv by (auto dest: map_of_SomeD)
next
  assume e: "(e, k, v) \<in> set (lr_list l)"
  then have "map_of (lr_items l) k = Some e" using lru_items_iff[OF assms] by blast
  then show "lru_find k l = Some (e, v)" using lru_elem[OF assms e] by (simp add: lru_find_def)
qed

lemma lru_find_abs:
  assumes "lru_ok l"
  shows "map_option snd (lru_find k l) = map_of (lru_abs l) k"
proof (cases "lru_find k l")
  case None
  have "k \<notin> set (map fst (lru_abs l))"
  proof
    assume "k \<in> set (map fst (lru_abs l))"
    then obtain e v where "(e, k, v) \<in> set (lr_list l)" by (auto simp: lru_abs_def)
    then show False using None lru_find_iff[OF assms] by (metis option.distinct(1))
  qed
  then have "map_of (lru_abs l) k = None" by (simp add: map_of_eq_None_iff)
  then show ?thesis using None by simp
next
  case (Some ev)
  obtain e v where ev: "ev = (e, v)" by fastforce
  then have "(k, v) \<in> set (lru_abs l)" using Some lru_find_iff[OF assms] by (force simp: lru_abs_def)
  then show ?thesis using Some ev lru_ok_keys[OF assms] by simp
qed

lemma lru_find_None: "lru_ok l \<Longrightarrow> lru_find k l = None \<longleftrightarrow> k \<notin> fst ` set (lru_abs l)"
  using lru_find_abs[of l k] by (metis map_of_eq_None_iff option.map_disc_iff)

lemma lru_find_Some: "lru_ok l \<Longrightarrow> lru_find k l = Some (e, v) \<Longrightarrow> map_of (lru_abs l) k = Some v"
  using lru_find_abs[of l k] by simp

lemma lru_findE:
  assumes "lru_ok l"
  obtains (missing) "lru_find k l = None" "map_of (lru_abs l) k = None" "k \<notin> fst ` set (lru_abs l)"
  | (found) el e where "lru_find k l = Some (el, e)" "(el, k, e) \<in> set (lr_list l)"
      "map_of (lru_abs l) k = Some e" "k \<in> fst ` set (lru_abs l)"
proof (cases "lru_find k l")
  case None
  then have "k \<notin> fst ` set (lru_abs l)" using lru_find_None[OF assms, of k] by blast
  then show thesis using missing None by (simp add: map_of_eq_None_iff)
next
  case (Some y)
  obtain el e where y: "y = (el, e)" by fastforce
  have "map_of (lru_abs l) k = Some e" using lru_find_abs[OF assms, of k] Some y by simp
  then show thesis using found[of el e] Some y lru_find_iff[OF assms, of k el e] by (force dest: map_of_SomeD)
qed

lemma delete_map_key:
  "(\<And>x. x \<in> set xs \<Longrightarrow> fst x = e \<longleftrightarrow> fst (f x) = k) \<Longrightarrow> map f (AList.delete e xs) = AList.delete k (map f xs)"
proof (induction xs)
  case (Cons x xs)
  have "fst x = e \<longleftrightarrow> fst (f x) = k" using Cons.prems by simp
  then show ?case using Cons by (cases x; cases "f x") auto
qed simp

lemma lru_elem_key:
  assumes "lru_ok l" "(e, k, v) \<in> set (lr_list l)" "x \<in> set (lr_list l)"
  shows "fst x = e \<longleftrightarrow> fst (snd x) = k"
proof -
  have "inj_on fst (set (lr_list l))" "inj_on (fst \<circ> snd) (set (lr_list l))"
    using assms(1) by (simp_all add: lru_ok_def distinct_map)
  from inj_onD[OF this(1) _ assms(3,2)] inj_onD[OF this(2) _ assms(3,2)] show ?thesis
    by (metis comp_apply fst_conv snd_conv)
qed

lemma delete_elem:
  assumes "lru_ok l" "(e, k, v) \<in> set (lr_list l)"
  shows "map snd (AList.delete e (lr_list l)) = AList.delete k (map snd (lr_list l))"
    and "map (\<lambda>(e, k, v). (k, e)) (AList.delete e (lr_list l)) = AList.delete k (map (\<lambda>(e, k, v). (k, e)) (lr_list l))"
  by (rule delete_map_key, simp add: lru_elem_key[OF assms] case_prod_unfold)+

lemma lru_remove_abs:
  assumes "lru_ok l" "(e, k, v) \<in> set (lr_list l)"
  shows "lru_abs (lru_remove e l) = AList.delete k (lru_abs l)"
  using lru_elem[OF assms] by (simp add: lru_remove_def lru_abs_def delete_elem[OF assms])

lemma lru_front_abs:
  assumes "lru_ok l" "(e, k, v) \<in> set (lr_list l)"
  shows "lru_abs (lru_front e l) = (k, v) # AList.delete k (lru_abs l)"
  using lru_elem[OF assms] by (simp add: lru_front_def lru_abs_def delete_elem[OF assms])

lemma lru_push_abs: "lru_abs (lru_push k v l) = (k, v) # lru_abs l"
  by (simp add: lru_push_def lru_abs_def)

lemma map_update_key:
  "distinct (map fst xs) \<Longrightarrow> k \<in> fst ` set xs \<Longrightarrow> map (\<lambda>(j, u). (j, if j = k then v else u)) xs = AList.update k v xs"
proof (induction xs)
  case (Cons x xs)
  have "map (\<lambda>(j, u). (j, if j = k then v else u)) xs = xs" if "k \<notin> fst ` set xs"
    by (rule map_idI) (use that in force)
  then show ?case using Cons by (cases x) auto
qed simp

lemma lru_write_abs:
  assumes "lru_ok l" "(e, k, w) \<in> set (lr_list l)"
  shows "lru_abs (lru_write e v l) = AList.update k v (lru_abs l)"
proof -
  have "lru_abs (lru_write e v l) = map (\<lambda>x. (fst x, if fst x = k then v else snd x)) (lru_abs l)"
    using lru_elem_key[OF assms] by (simp add: lru_write_def lru_abs_def case_prod_unfold)
  moreover have "k \<in> fst ` set (lru_abs l)" using assms(2) by (force simp: lru_abs_def)
  ultimately show ?thesis
    using map_update_key[OF lru_ok_keys[OF assms(1)], of k v] by (simp add: case_prod_unfold)
qed

lemma lru_back_abs:
  "lru_back l = Some (e, k, v) \<Longrightarrow> (e, k, v) \<in> set (lr_list l) \<and> lru_abs l \<noteq> [] \<and> last (lru_abs l) = (k, v)"
  "lru_back l = None \<longleftrightarrow> lru_abs l = []"
  by (metis last_in_set last_map lru_abs_def lru_back_def map_is_Nil_conv option.distinct(1) option.inject snd_conv)
    (simp add: lru_back_def lru_abs_def)

lemma lru_ids_delete:
  "lru_ok l \<Longrightarrow> distinct (map fst (AList.delete e (lr_list l))) \<and> (\<forall>f\<in>fst ` set (AList.delete e (lr_list l)). f < lr_next l)"
  by (auto simp: lru_ok_def)

lemma lru_keys_delete:
  assumes "lru_ok l" "(e, k, v) \<in> set (lr_list l)"
  shows "distinct (map (fst \<circ> snd) (AList.delete e (lr_list l)))" "k \<notin> (fst \<circ> snd) ` set (AList.delete e (lr_list l))"
proof -
  have "map (fst \<circ> snd) (AList.delete e (lr_list l)) = map fst (AList.delete k (lru_abs l))"
    using delete_elem(1)[OF assms] by (metis lru_abs_def map_map)
  moreover have "distinct (map fst (AList.delete k (lru_abs l)))" using lru_ok_keys[OF assms(1)] by simp
  moreover have "k \<notin> set (map fst (AList.delete k (lru_abs l)))" by simp
  ultimately show "distinct (map (fst \<circ> snd) (AList.delete e (lr_list l)))"
    "k \<notin> (fst \<circ> snd) ` set (AList.delete e (lr_list l))" by (simp, metis list.set_map)
qed

lemma lru_remove_ok [simp]:
  assumes "lru_ok l" shows "lru_ok (lru_remove e l)"
proof (cases "map_of (lr_list l) e")
  case (Some kv)
  obtain k v where kv: "kv = (k, v)" by fastforce
  have e: "(e, k, v) \<in> set (lr_list l)" using Some kv by (simp add: map_of_SomeD)
  have m: "map_of (lr_items l) = map_of (map (\<lambda>(e, k, v). (k, e)) (lr_list l))"
    using assms by (simp add: lru_ok_def)
  have "map_of (AList.delete k (lr_items l)) = map_of (map (\<lambda>(e, k, v). (k, e)) (AList.delete e (lr_list l)))"
    by (simp add: delete_elem(2)[OF assms e] m)
  then show ?thesis
    using lru_ids_delete[OF assms, of e] lru_keys_delete[OF assms e] Some kv lru_items_map[OF assms]
    by (simp add: lru_remove_def lru_ok_def del: map_of_delete set_keys_delete)
qed (simp add: lru_remove_def assms)

lemma lru_front_ok [simp]:
  assumes "lru_ok l" shows "lru_ok (lru_front e l)"
proof (cases "map_of (lr_list l) e")
  case (Some kv)
  obtain k v where kv: "kv = (k, v)" by fastforce
  have e: "(e, k, v) \<in> set (lr_list l)" using Some kv by (simp add: map_of_SomeD)
  have m: "map_of (lr_items l) = map_of (map (\<lambda>(e, k, v). (k, e)) (lr_list l))"
    using assms by (simp add: lru_ok_def)
  have "map_of (lr_items l) k = Some e" using lru_items_iff[OF assms] e by blast
  then have "map_of (lr_items l) = (map_of (map (\<lambda>(e, k, v). (k, e)) (AList.delete e (lr_list l))))(k \<mapsto> e)"
    by (simp add: delete_elem(2)[OF assms e] m fun_eq_iff)
  moreover have "\<forall>x\<in>set (lr_list l). fst x < lr_next l" using assms by (simp add: lru_ok_def)
  moreover from this have "e < lr_next l" using e by force
  moreover have "e \<notin> fst ` set (AList.delete e (lr_list l))" by simp
  ultimately show ?thesis
    using lru_ids_delete[OF assms, of e] lru_keys_delete[OF assms e] Some kv lru_items_map[OF assms]
    by (simp add: lru_front_def lru_ok_def)
qed (simp add: lru_front_def assms)

lemma lru_write_ok [simp]: "lru_ok l \<Longrightarrow> lru_ok (lru_write e v l)"
  by (simp add: lru_ok_def lru_write_def comp_def case_prod_unfold image_image)

lemma lru_push_ok: "lru_ok l \<Longrightarrow> k \<notin> fst ` set (lru_abs l) \<Longrightarrow> lru_ok (lru_push k v l)"
  by (auto simp: lru_ok_def lru_push_def lru_abs_def image_image less_Suc_eq)

lemma delete_shrinks: "k \<in> fst ` set xs \<Longrightarrow> length (AList.delete k xs) < length xs"
proof (induction xs)
  case (Cons x xs)
  then show ?case using length_delete_le[of k xs] by (cases "fst x = k") (cases x; auto simp: less_Suc_eq_le)+
qed simp

lemma map_of_takeD: "distinct (map fst xs) \<Longrightarrow> map_of (take n xs) k = Some v \<Longrightarrow> map_of xs k = Some v"
  by (metis append_take_drop_id map_add_Some_iff map_of_SomeD map_of_append map_of_is_SomeI in_set_takeD)

section \<open>The contract of a cache\<close>

text \<open>
  \<open>content s k\<close> is what a lookup of \<open>k\<close> may return, \<open>wrote s op k\<close> what the operation
  \<open>op\<close> puts under \<open>k\<close>, if it does. Entries may disappear at any time.
\<close>

primrec last_write :: "('op \<Rightarrow> 's \<Rightarrow> 's) \<Rightarrow> ('s \<Rightarrow> 'op \<Rightarrow> 'k \<Rightarrow> 'v option) \<Rightarrow> 'k \<Rightarrow> 'op list \<Rightarrow> 's \<Rightarrow> 'v option \<Rightarrow> 'v option" where
  "last_write exec wrote k [] s acc = acc"
| "last_write exec wrote k (x # xs) s acc =
     last_write exec wrote k xs (exec x s) (case wrote s x k of None \<Rightarrow> acc | Some v \<Rightarrow> Some v)"

lemma last_write_from:
  "last_write exec wrote k xs s acc = Some v \<Longrightarrow> acc = Some v \<or> (\<exists>x\<in>set xs. \<exists>s. wrote s x k = Some v)"
proof (induction xs arbitrary: s acc)
  case (Cons x xs)
  then show ?case by (cases "wrote s x k") force+
qed simp

locale keyed_cache =
  fixes exec :: "'op \<Rightarrow> 's \<Rightarrow> 's"
    and inv :: "'s \<Rightarrow> bool"
    and content :: "'s \<Rightarrow> 'k \<Rightarrow> 'v option"
    and wrote :: "'s \<Rightarrow> 'op \<Rightarrow> 'k \<Rightarrow> 'v option"
  assumes inv_exec: "inv s \<Longrightarrow> inv (exec x s)"
    and content_exec: "inv s \<Longrightarrow> content (exec x s) k = Some v \<Longrightarrow>
      (case wrote s x k of Some w \<Rightarrow> v = w | None \<Rightarrow> content s k = Some v)"
begin

lemma inv_fold: "inv s \<Longrightarrow> inv (fold exec xs s)"
  by (induction xs arbitrary: s) (auto intro: inv_exec)

lemma content_from:
  assumes "inv s" "content (fold exec xs s) k = Some v" "content s k = None \<or> content s k = acc"
  shows "last_write exec wrote k xs s acc = Some v"
  using assms
proof (induction xs arbitrary: s acc)
  case (Cons x xs)
  have "content (exec x s) k = None \<or> content (exec x s) k = (case wrote s x k of None \<Rightarrow> acc | Some v \<Rightarrow> Some v)"
    using content_exec[OF Cons.prems(1), of x k] Cons.prems(3)
    by (cases "content (exec x s) k"; cases "wrote s x k") auto
  then show ?case using Cons.IH[of "exec x s"] Cons.prems inv_exec by auto
qed auto

lemma content_is_last_write:
  assumes "inv s" "\<And>k. content s k = None" "content (fold exec xs s) k = Some v"
  shows "last_write exec wrote k xs s None = Some v"
  using content_from[OF assms(1,3)] assms(2) by simp

end

end
