(* ===== verification/GoJson.thy ===== *)
theory GoJson
  imports GoStrings
begin

text \<open>
  Decoded JSON as Go holds it in an \<open>any\<close>, with the type assertions the program makes on
  it. An object is a Go map: a list of pairs with distinct keys whose order means nothing.
\<close>

datatype json = JNull | JBool bool | JNum rat | JStr string | JArr "json list" | JObj "(string \<times> json) list"

text \<open>\<open>v.(string)\<close>, \<open>v.(map[string]any)\<close> and \<open>v.([]any)\<close>.\<close>

fun as_string :: "json \<Rightarrow> string option" where
  "as_string (JStr s) = Some s"
| "as_string _ = None"

fun as_object :: "json \<Rightarrow> (string \<times> json) list option" where
  "as_object (JObj kvs) = Some kvs"
| "as_object _ = None"

fun as_array :: "json \<Rightarrow> json list option" where
  "as_array (JArr vs) = Some vs"
| "as_array _ = None"

fun as_number :: "json \<Rightarrow> rat option" where
  "as_number (JNum n) = Some n"
| "as_number _ = None"

fun as_bool :: "json \<Rightarrow> bool option" where
  "as_bool (JBool b) = Some b"
| "as_bool _ = None"

text \<open>\<open>m[key]\<close>, which is \<open>nil\<close> for a missing key, and \<open>s, _ := m[key].(string)\<close>.\<close>

definition obj_get :: "(string \<times> json) list \<Rightarrow> string \<Rightarrow> json" where
  "obj_get m k = (case map_of m k of None \<Rightarrow> JNull | Some v \<Rightarrow> v)"

lemma obj_get_update [simp]: "obj_get (AList.update k v m) j = (if j = k then v else obj_get m j)"
  by (simp add: obj_get_def)

definition obj_string :: "(string \<times> json) list \<Rightarrow> string \<Rightarrow> string" where
  "obj_string m k = (case as_string (obj_get m k) of None \<Rightarrow> [] | Some s \<Rightarrow> s)"

definition has_key :: "(string \<times> json) list \<Rightarrow> string \<Rightarrow> bool" where
  "has_key m k \<longleftrightarrow> map_of m k \<noteq> None"

text \<open>\<open>fmt.Sprintf("%d", n)\<close>.\<close>

definition itoa_int :: "int \<Rightarrow> string" where
  "itoa_int n = (if n < 0 then ''-'' @ itoa_nat (nat (- n)) else itoa_nat (nat n))"

end
