(* ===== verification/SemanticStore.thy ===== *)
theory SemanticStore
  imports CacheBase GoStrings
begin

text \<open>
  The in-memory store of the semantic cache, \<open>LRUStore\<close> of
  \<open>internal/semanticcache/store.go\<close>. The response body is copied on the way in and out in
  the code, so it is a plain value here. Go leaves the order open in which a map is walked; it is
  the order of the association list here, and only \<open>Entries\<close> can show it.
\<close>

record sc_entry =
  se_key :: string
  se_model :: string
  se_body :: string
  se_ctype :: string
  se_stored :: instant
  se_hits :: int
  se_saved :: int

record lru_store =
  lc_lru :: "sc_entry lru"
  lc_max :: int
  lc_ttl :: duration

definition new_lru_store :: "int \<Rightarrow> duration \<Rightarrow> lru_store" where
  "new_lru_store mx ttl = \<lparr>lc_lru = lru_empty, lc_max = (if mx \<le> 0 then 1000 else mx), lc_ttl = ttl\<rparr>"

definition expired_at :: "duration \<Rightarrow> instant \<Rightarrow> sc_entry \<Rightarrow> bool" where
  "expired_at ttl now e \<longleftrightarrow> ttl > 0 \<and> now - se_stored e > ttl"

definition store_get :: "string \<Rightarrow> instant \<Rightarrow> lru_store \<Rightarrow> sc_entry option \<times> lru_store" where
  "store_get k now s =
     (case lru_find k (lc_lru s) of
        None \<Rightarrow> (None, s)
      | Some (el, e) \<Rightarrow>
          (if expired_at (lc_ttl s) now e then (None, s\<lparr>lc_lru := lru_remove el (lc_lru s)\<rparr>)
           else (Some e, s\<lparr>lc_lru := lru_front el (lc_lru s)\<rparr>)))"

definition remove_oldest :: "'v lru \<Rightarrow> 'v lru" where
  "remove_oldest l = (case lru_back l of None \<Rightarrow> l | Some (el, _) \<Rightarrow> lru_remove el l)"

lemma remove_oldest_shrinks:
  assumes "lr_list l \<noteq> []"
  shows "length (lr_list (remove_oldest l)) < length (lr_list l)"
proof -
  obtain el kv where b: "last (lr_list l) = (el, kv)" using prod.exhaust by blast
  then have "(el, kv) \<in> set (lr_list l)" using last_in_set[OF assms] by simp
  then obtain kw where "map_of (lr_list l) el = Some kw"
    by (metis domD dom_map_of_conv_image_fst image_eqI fst_conv)
  moreover have "length (AList.delete el (lr_list l)) < length (lr_list l)"
    using \<open>(el, kv) \<in> _\<close> by (intro delete_shrinks) force
  ultimately show ?thesis using assms b by (simp add: remove_oldest_def lru_back_def lru_remove_def)
qed

text \<open>The eviction loop of \<open>Put\<close>.\<close>

function make_room :: "int \<Rightarrow> 'v lru \<Rightarrow> 'v lru" where
  "make_room mx l = (if mx > 0 \<and> lru_len l \<ge> mx then make_room mx (remove_oldest l) else l)"
  by pat_completeness auto
termination
proof (relation "measure (\<lambda>(mx, l). length (lr_list l))")
  fix mx :: int and l :: "'v lru"
  assume "mx > 0 \<and> lru_len l \<ge> mx"
  then have "lr_list l \<noteq> []" by (auto simp: lru_len_def)
  then show "((mx, remove_oldest l), (mx, l)) \<in> measure (\<lambda>(mx, l). length (lr_list l))"
    by (simp add: remove_oldest_shrinks)
qed simp

declare make_room.simps [simp del]

definition store_put :: "string \<Rightarrow> sc_entry \<Rightarrow> instant \<Rightarrow> lru_store \<Rightarrow> lru_store" where
  "store_put k e now s =
     (let e = (if se_stored e = 0 then e\<lparr>se_stored := now\<rparr> else e)
      in case lru_find k (lc_lru s) of
           Some (el, _) \<Rightarrow> s\<lparr>lc_lru := lru_write el e (lru_front el (lc_lru s))\<rparr>
         | None \<Rightarrow> s\<lparr>lc_lru := lru_push k e (make_room (lc_max s) (lc_lru s))\<rparr>)"

definition store_delete :: "string \<Rightarrow> lru_store \<Rightarrow> bool \<times> lru_store" where
  "store_delete k s =
     (case lru_find k (lc_lru s) of
        None \<Rightarrow> (False, s)
      | Some (el, _) \<Rightarrow> (True, s\<lparr>lc_lru := lru_remove el (lc_lru s)\<rparr>))"

definition store_record_hit :: "string \<Rightarrow> int \<Rightarrow> lru_store \<Rightarrow> lru_store" where
  "store_record_hit k saved s =
     (case lru_find k (lc_lru s) of
        None \<Rightarrow> s
      | Some (el, e) \<Rightarrow>
          s\<lparr>lc_lru := lru_write el (e\<lparr>se_hits := se_hits e + 1, se_saved := se_saved e + saved\<rparr>) (lc_lru s)\<rparr>)"

text \<open>The elements of the map whose entry satisfies a test, in the order the map is walked.\<close>

definition elements :: "('v \<Rightarrow> bool) \<Rightarrow> 'v lru \<Rightarrow> (nat \<times> 'v) list" where
  "elements P l =
     List.maps (\<lambda>(k, el). case lru_find k l of Some (el, e) \<Rightarrow> if P e then [(el, e)] else [] | None \<Rightarrow> []) (lr_items l)"

definition store_entries :: "instant \<Rightarrow> lru_store \<Rightarrow> sc_entry list" where
  "store_entries now s = map snd (elements (\<lambda>e. \<not> expired_at (lc_ttl s) now e) (lc_lru s))"

definition store_invalidate :: "(sc_entry \<Rightarrow> bool) \<Rightarrow> lru_store \<Rightarrow> int \<times> lru_store" where
  "store_invalidate P s =
     (let els = elements P (lc_lru s)
      in (int (length els), s\<lparr>lc_lru := fold (\<lambda>(el, _) l. lru_remove el l) els (lc_lru s)\<rparr>))"

definition store_invalidate_model :: "string \<Rightarrow> lru_store \<Rightarrow> int \<times> lru_store" where
  "store_invalidate_model m s = store_invalidate (\<lambda>e. se_model e = m) s"

definition store_invalidate_older :: "duration \<Rightarrow> instant \<Rightarrow> lru_store \<Rightarrow> int \<times> lru_store" where
  "store_invalidate_older d now s = store_invalidate (\<lambda>e. now - se_stored e > d) s"

definition store_len :: "lru_store \<Rightarrow> int" where
  "store_len s = int (length (lr_items (lc_lru s)))"

definition store_clear :: "lru_store \<Rightarrow> lru_store" where
  "store_clear s = s\<lparr>lc_lru := lru_empty\<rparr>"

section \<open>The recency list it implements\<close>

text \<open>The specification: entries from the most to the least recently used, under distinct keys.\<close>

type_synonym recency = "(string \<times> sc_entry) list"

definition spec_get :: "duration \<Rightarrow> string \<Rightarrow> instant \<Rightarrow> recency \<Rightarrow> sc_entry option \<times> recency" where
  "spec_get ttl k now xs =
     (case map_of xs k of
        None \<Rightarrow> (None, xs)
      | Some e \<Rightarrow> if expired_at ttl now e then (None, AList.delete k xs)
                  else (Some e, (k, e) # AList.delete k xs))"

definition spec_put :: "int \<Rightarrow> string \<Rightarrow> sc_entry \<Rightarrow> instant \<Rightarrow> recency \<Rightarrow> recency" where
  "spec_put mx k e now xs =
     (let e = (if se_stored e = 0 then e\<lparr>se_stored := now\<rparr> else e)
      in if k \<in> fst ` set xs then (k, e) # AList.delete k xs
         else (k, e) # (if mx > 0 then take (nat (mx - 1)) xs else xs))"

definition spec_record_hit :: "string \<Rightarrow> int \<Rightarrow> recency \<Rightarrow> recency" where
  "spec_record_hit k saved xs =
     map (\<lambda>(j, e). (j, if j = k then e\<lparr>se_hits := se_hits e + 1, se_saved := se_saved e + saved\<rparr> else e)) xs"

datatype store_op =
    SGet string instant
  | SPut string sc_entry instant
  | SDelete string
  | SHit string int
  | SModel string
  | SOlder duration instant
  | SLen
  | SClear

datatype store_out = OEntry "sc_entry option" | OBool bool | OCount int | ODone

fun store_exec :: "store_op \<Rightarrow> lru_store \<Rightarrow> store_out \<times> lru_store" where
  "store_exec (SGet k now) s = (case store_get k now s of (r, s) \<Rightarrow> (OEntry r, s))"
| "store_exec (SPut k e now) s = (ODone, store_put k e now s)"
| "store_exec (SDelete k) s = (case store_delete k s of (b, s) \<Rightarrow> (OBool b, s))"
| "store_exec (SHit k n) s = (ODone, store_record_hit k n s)"
| "store_exec (SModel m) s = (case store_invalidate_model m s of (n, s) \<Rightarrow> (OCount n, s))"
| "store_exec (SOlder d now) s = (case store_invalidate_older d now s of (n, s) \<Rightarrow> (OCount n, s))"
| "store_exec SLen s = (OCount (store_len s), s)"
| "store_exec SClear s = (ODone, store_clear s)"

fun spec_exec :: "int \<Rightarrow> duration \<Rightarrow> store_op \<Rightarrow> recency \<Rightarrow> store_out \<times> recency" where
  "spec_exec mx ttl (SGet k now) xs = (case spec_get ttl k now xs of (r, xs) \<Rightarrow> (OEntry r, xs))"
| "spec_exec mx ttl (SPut k e now) xs = (ODone, spec_put mx k e now xs)"
| "spec_exec mx ttl (SDelete k) xs = (OBool (k \<in> fst ` set xs), AList.delete k xs)"
| "spec_exec mx ttl (SHit k n) xs = (ODone, spec_record_hit k n xs)"
| "spec_exec mx ttl (SModel m) xs =
     (OCount (int (length (filter (\<lambda>(k, e). se_model e = m) xs))), filter (\<lambda>(k, e). se_model e \<noteq> m) xs)"
| "spec_exec mx ttl (SOlder d now) xs =
     (OCount (int (length (filter (\<lambda>(k, e). now - se_stored e > d) xs))),
      filter (\<lambda>(k, e). \<not> now - se_stored e > d) xs)"
| "spec_exec mx ttl SLen xs = (OCount (int (length xs)), xs)"
| "spec_exec mx ttl SClear xs = (ODone, [])"

primrec outputs :: "('op \<Rightarrow> 's \<Rightarrow> 'out \<times> 's) \<Rightarrow> 'op list \<Rightarrow> 's \<Rightarrow> 'out list" where
  "outputs exec [] s = []"
| "outputs exec (x # xs) s = fst (exec x s) # outputs exec xs (snd (exec x s))"

definition store_ok :: "lru_store \<Rightarrow> bool" where
  "store_ok s \<longleftrightarrow> lru_ok (lc_lru s)"

abbreviation store_abs :: "lru_store \<Rightarrow> recency" where
  "store_abs s \<equiv> lru_abs (lc_lru s)"

lemma remove_oldest_abs:
  assumes "lru_ok l"
  shows "lru_abs (remove_oldest l) = butlast (lru_abs l)" "lru_ok (remove_oldest l)"
proof -
  show "lru_abs (remove_oldest l) = butlast (lru_abs l)"
  proof (cases "lru_back l")
    case None
    then show ?thesis using lru_back_abs(2)[of l] by (simp add: remove_oldest_def)
  next
    case (Some b)
    obtain el k v where b: "b = (el, k, v)" by (cases b) auto
    note bk = lru_back_abs(1)[OF Some[unfolded b]]
    then obtain xs where xs: "lru_abs l = xs @ [(k, v)]" by (metis append_butlast_last_id)
    then have "k \<notin> fst ` set xs" using lru_ok_keys[OF assms] by auto
    then have "AList.delete k (xs @ [(k, v)]) = xs"
      by (force simp: AList.delete_eq intro!: filter_True)
    then show ?thesis using Some b bk xs lru_remove_abs[OF assms] by (simp add: remove_oldest_def)
  qed
  show "lru_ok (remove_oldest l)" using assms by (simp add: remove_oldest_def split: option.split)
qed

lemma make_room_abs:
  "lru_ok l \<Longrightarrow> lru_ok (make_room mx l) \<and>
     lru_abs (make_room mx l) = (if mx > 0 then take (nat (mx - 1)) (lru_abs l) else lru_abs l)"
proof (induction mx l rule: make_room.induct)
  case (1 mx l)
  show ?case
  proof (cases "mx > 0 \<and> lru_len l \<ge> mx")
    case True
    then have "make_room mx l = make_room mx (remove_oldest l)" by (subst make_room.simps) simp
    moreover have "take (nat (mx - 1)) (butlast (lru_abs l)) = take (nat (mx - 1)) (lru_abs l)"
      using True by (intro take_butlast) (auto simp: lru_len_abs)
    ultimately show ?thesis using 1 True remove_oldest_abs[OF 1(2)] by simp
  next
    case False
    then have "make_room mx l = l" by (subst make_room.simps) auto
    then show ?thesis using 1(2) False by (auto simp: lru_len_abs)
  qed
qed


lemma mset_maps: "mset (List.maps f xs) = (\<Sum>x\<in>#mset xs. mset (f x))"
  by (induction xs) simp_all

lemma elements_mset:
  assumes "lru_ok l"
  shows "mset (elements P l) = mset (map (\<lambda>(el, k, e). (el, e)) (filter (\<lambda>(el, k, e). P e) (lr_list l)))"
proof -
  let ?f = "\<lambda>(k, el). case lru_find k l of Some (el, e) \<Rightarrow> if P e then [(el, e)] else [] | None \<Rightarrow> []"
  have "mset (elements P l) = (\<Sum>x\<in>#mset (map (\<lambda>(e, k, v). (k, e)) (lr_list l)). mset (?f x))"
    unfolding elements_def mset_maps lru_items_mset[OF assms] ..
  also have "\<dots> = mset (List.maps ?f (map (\<lambda>(e, k, v). (k, e)) (lr_list l)))"
    unfolding mset_maps ..
  also have "List.maps ?f (map (\<lambda>(e, k, v). (k, e)) (lr_list l))
      = List.maps (\<lambda>(el, k, e). if P e then [(el, e)] else []) (lr_list l)"
  proof -
    have "lru_find k l = Some (el, e)" if "(el, k, e) \<in> set (lr_list l)" for el k e
      using that lru_find_iff[OF assms] by blast
    then have "map ?f (map (\<lambda>(e, k, v). (k, e)) (lr_list l)) = map (\<lambda>(el, k, e). if P e then [(el, e)] else []) (lr_list l)"
      by (auto simp: case_prod_unfold)
    then show ?thesis by (simp only: List.maps_eq)
  qed
  also have "List.maps (\<lambda>(el, k, e). if P e then [(el, e)] else []) xs =
      map (\<lambda>(el, k, e). (el, e)) (filter (\<lambda>(el, k, e). P e) xs)" for xs :: "(nat \<times> string \<times> 'a) list"
    by (induction xs) auto
  finally show ?thesis .
qed

lemma elements_length:
  "lru_ok l \<Longrightarrow> length (elements P l) = length (filter (\<lambda>(k, e). P e) (lru_abs l))"
  using mset_eq_length[OF elements_mset, of l P] by (simp add: lru_abs_def filter_map comp_def case_prod_unfold)

lemma fold_remove_list:
  "lr_list (fold (\<lambda>(el, _) l. lru_remove el l) els l) = filter (\<lambda>x. fst x \<notin> fst ` set els) (lr_list l)"
proof (induction els arbitrary: l)
  case (Cons x els)
  have "lr_list (lru_remove el l) = filter (\<lambda>y. fst y \<noteq> el) (lr_list l)" for el
  proof (cases "map_of (lr_list l) el")
    case None
    then have "\<forall>y\<in>set (lr_list l). fst y \<noteq> el" by (force simp: map_of_eq_None_iff)
    then show ?thesis using None by (simp add: lru_remove_def)
  next
    case (Some kv)
    then show ?thesis by (auto simp: lru_remove_def AList.delete_eq intro!: filter_cong)
  qed
  then show ?case using Cons by (auto simp: case_prod_unfold intro!: filter_cong)
qed simp

lemma fold_remove_ok: "lru_ok l \<Longrightarrow> lru_ok (fold (\<lambda>(el, _) l. lru_remove el l) els l)"
  by (induction els arbitrary: l) auto

lemma store_invalidate_abs:
  assumes "store_ok s"
  shows "fst (store_invalidate P s) = int (length (filter (\<lambda>(k, e). P e) (store_abs s)))"
    and "store_abs (snd (store_invalidate P s)) = filter (\<lambda>(k, e). \<not> P e) (store_abs s)"
    and "store_ok (snd (store_invalidate P s))"
proof -
  let ?l = "lc_lru s"
  have ok: "lru_ok ?l" using assms by (simp add: store_ok_def)
  show "fst (store_invalidate P s) = int (length (filter (\<lambda>(k, e). P e) (store_abs s)))"
    by (simp add: store_invalidate_def elements_length[OF ok])
  have "set (elements P ?l) = (\<lambda>(el, k, e). (el, e)) ` {x \<in> set (lr_list ?l). P (snd (snd x))}"
    using arg_cong[OF elements_mset[OF ok], of set_mset P] by (auto simp: case_prod_unfold)
  then have "fst ` set (elements P ?l) = fst ` {x \<in> set (lr_list ?l). P (snd (snd x))}"
    by (simp only: image_image) (simp add: case_prod_unfold)
  moreover have "inj_on fst (set (lr_list ?l))" using ok by (simp add: lru_ok_def distinct_map)
  ultimately have "fst x \<in> fst ` set (elements P ?l) \<longleftrightarrow> P (snd (snd x))" if "x \<in> set (lr_list ?l)" for x
    using inj_on_image_mem_iff[of fst "set (lr_list ?l)" x "{x \<in> set (lr_list ?l). P (snd (snd x))}"] that by auto
  then have "filter (\<lambda>x. fst x \<notin> fst ` set (elements P ?l)) (lr_list ?l) = filter (\<lambda>x. \<not> P (snd (snd x))) (lr_list ?l)"
    by (intro filter_cong) auto
  then show "store_abs (snd (store_invalidate P s)) = filter (\<lambda>(k, e). \<not> P e) (store_abs s)"
    using fold_remove_list[of "elements P ?l" ?l]
    by (simp add: store_invalidate_def Let_def lru_abs_def filter_map case_prod_unfold comp_def)
  show "store_ok (snd (store_invalidate P s))"
    using fold_remove_ok[OF ok] by (simp add: store_invalidate_def store_ok_def Let_def)
qed


abbreviation refines :: "store_op \<Rightarrow> lru_store \<Rightarrow> bool" where
  "refines x s \<equiv> fst (store_exec x s) = fst (spec_exec (lc_max s) (lc_ttl s) x (store_abs s)) \<and>
     store_abs (snd (store_exec x s)) = snd (spec_exec (lc_max s) (lc_ttl s) x (store_abs s)) \<and>
     store_ok (snd (store_exec x s))"

lemma refines_get:
  assumes "lru_ok (lc_lru s)" shows "refines (SGet k now) s"
  by (rule lru_findE[OF assms, of k])
    (auto simp: store_get_def spec_get_def store_ok_def assms lru_remove_abs[OF assms] lru_front_abs[OF assms])

lemma refines_put:
  assumes ok: "lru_ok (lc_lru s)" shows "refines (SPut k e now) s"
proof (rule lru_findE[OF ok, of k])
  assume k: "lru_find k (lc_lru s) = None" "k \<notin> fst ` set (store_abs s)"
  have "k \<notin> fst ` set (lru_abs (make_room (lc_max s) (lc_lru s)))"
    using k make_room_abs[OF ok, of "lc_max s"] by (auto dest: in_set_takeD)
  then show ?thesis using k make_room_abs[OF ok, of "lc_max s"]
    by (simp add: store_put_def spec_put_def Let_def store_ok_def lru_push_abs lru_push_ok)
next
  fix el w assume k: "lru_find k (lc_lru s) = Some (el, w)" "k \<in> fst ` set (store_abs s)"
    "(el, k, w) \<in> set (lr_list (lc_lru s))"
  have front: "lru_ok (lru_front el (lc_lru s))" "(el, k, w) \<in> set (lr_list (lru_front el (lc_lru s)))"
    using lru_front_ok[OF ok, of el] lru_elem[OF ok k(3)] by (simp, simp add: lru_front_def)
  show ?thesis using k front
    by (simp add: store_put_def spec_put_def Let_def store_ok_def lru_write_abs[OF front] lru_front_abs[OF ok k(3)])
qed

lemma refines_delete:
  assumes ok: "lru_ok (lc_lru s)" shows "refines (SDelete k) s"
proof (rule lru_findE[OF ok, of k])
  assume k: "lru_find k (lc_lru s) = None" "k \<notin> fst ` set (store_abs s)"
  then have "AList.delete k (store_abs s) = store_abs s" by (simp add: delete_idem)
  then show ?thesis using k ok by (simp add: store_delete_def store_ok_def)
qed (simp add: store_delete_def store_ok_def lru_remove_abs[OF ok] ok)

lemma refines_hit:
  assumes ok: "lru_ok (lc_lru s)" shows "refines (SHit k n) s"
proof (rule lru_findE[OF ok, of k])
  assume k: "lru_find k (lc_lru s) = None" "k \<notin> fst ` set (store_abs s)"
  then have "spec_record_hit k n (store_abs s) = store_abs s"
    unfolding spec_record_hit_def by (intro map_idI) force
  then show ?thesis using k ok by (simp add: store_record_hit_def store_ok_def)
next
  fix el w assume k: "lru_find k (lc_lru s) = Some (el, w)" "k \<in> fst ` set (store_abs s)"
    "(el, k, w) \<in> set (lr_list (lc_lru s))" "map_of (store_abs s) k = Some w"
  let ?w = "w\<lparr>se_hits := se_hits w + 1, se_saved := se_saved w + n\<rparr>"
  have "spec_record_hit k n (store_abs s) = map (\<lambda>(j, u). (j, if j = k then ?w else u)) (store_abs s)"
    unfolding spec_record_hit_def using map_of_SomeD[OF k(4)] lru_ok_keys[OF ok]
    by (auto dest: eq_key_imp_eq_value[of _ k w])
  then show ?thesis using k ok map_update_key[OF lru_ok_keys[OF ok] k(2), of ?w]
    by (simp add: store_record_hit_def store_ok_def lru_write_abs[OF ok k(3)])
qed

lemma store_exec_refines:
  assumes "store_ok s" shows "refines x s"
proof (cases x)
  case (SModel m)
  show ?thesis using store_invalidate_abs[OF assms, of "\<lambda>e. se_model e = m"] SModel
    by (simp add: store_invalidate_model_def case_prod_unfold)
next
  case (SOlder d now)
  show ?thesis using store_invalidate_abs[OF assms, of "\<lambda>e. d < now - se_stored e"] SOlder
    by (simp add: store_invalidate_older_def case_prod_unfold)
next
  case SLen
  then show ?thesis using assms lru_items_len[of "lc_lru s"] by (simp add: store_len_def lru_abs_def store_ok_def)
next
  case (SGet k now)
  show ?thesis unfolding SGet by (rule refines_get[OF assms[unfolded store_ok_def]])
next
  case (SPut k e now)
  show ?thesis unfolding SPut by (rule refines_put[OF assms[unfolded store_ok_def]])
next
  case (SDelete k)
  show ?thesis unfolding SDelete by (rule refines_delete[OF assms[unfolded store_ok_def]])
next
  case (SHit k n)
  show ?thesis unfolding SHit by (rule refines_hit[OF assms[unfolded store_ok_def]])
qed (simp add: store_clear_def store_ok_def)

lemma store_exec_config [simp]:
  "lc_max (snd (store_exec x s)) = lc_max s" "lc_ttl (snd (store_exec x s)) = lc_ttl s"
  by (cases x; auto simp: store_get_def store_put_def store_delete_def store_record_hit_def Let_def
      store_invalidate_model_def store_invalidate_older_def store_invalidate_def store_clear_def
      split: option.split)+

lemma outputs_refine:
  "store_ok s \<Longrightarrow> outputs store_exec xs s = outputs (spec_exec (lc_max s) (lc_ttl s)) xs (store_abs s)"
proof (induction xs arbitrary: s)
  case (Cons x xs)
  then show ?case using store_exec_refines[OF Cons.prems, of x] by simp
qed simp

section \<open>Bounds and freshness of the specification\<close>

lemma spec_exec_keys: "is_map xs \<Longrightarrow> is_map (snd (spec_exec mx ttl x xs))"
  by (cases x)
     (auto simp: spec_get_def spec_put_def Let_def spec_record_hit_def comp_def case_prod_unfold distinct_map_filter
       split: option.split dest: in_set_takeD intro: distinct_take
       simp flip: take_map)

lemma spec_exec_length:
  assumes "is_map xs" "0 < mx" "int (length xs) \<le> mx"
  shows "int (length (snd (spec_exec mx ttl x xs))) \<le> mx"
proof (cases x)
  case (SGet k now)
  show ?thesis
  proof (cases "map_of xs k")
    case (Some e)
    then have "k \<in> fst ` set xs" by (force dest: map_of_SomeD)
    then show ?thesis using SGet Some assms delete_shrinks[of k xs] by (simp add: spec_get_def)
  qed (use SGet assms in \<open>simp add: spec_get_def\<close>)
next
  case (SPut k e now)
  then show ?thesis using assms delete_shrinks[of k xs]
    by (cases "k \<in> fst ` set xs") (simp_all add: spec_put_def Let_def)
next
  case (SDelete k)
  then show ?thesis using assms length_delete_le[of k xs] by simp
next
  case (SModel m)
  then show ?thesis using assms by (auto intro: order_trans[OF _ assms(3)])
next
  case (SOlder d now)
  then show ?thesis using assms by (auto intro: order_trans[OF _ assms(3)])
qed (use assms in \<open>auto simp: spec_record_hit_def\<close>)

lemma store_run_abs:
  assumes "store_ok s"
  shows "store_ok (fold (\<lambda>x s. snd (store_exec x s)) xs s)"
    and "store_abs (fold (\<lambda>x s. snd (store_exec x s)) xs s)
      = fold (\<lambda>x ys. snd (spec_exec (lc_max s) (lc_ttl s) x ys)) xs (store_abs s)"
proof -
  have "store_ok (fold (\<lambda>x s. snd (store_exec x s)) xs s) \<and>
    store_abs (fold (\<lambda>x s. snd (store_exec x s)) xs s)
      = fold (\<lambda>x ys. snd (spec_exec (lc_max s) (lc_ttl s) x ys)) xs (store_abs s)"
    using assms
  proof (induction xs arbitrary: s)
    case (Cons x xs)
    show ?case using Cons.IH[of "snd (store_exec x s)"] store_exec_refines[OF Cons.prems, of x] by simp
  qed simp
  then show "store_ok (fold (\<lambda>x s. snd (store_exec x s)) xs s)"
    "store_abs (fold (\<lambda>x s. snd (store_exec x s)) xs s)
      = fold (\<lambda>x ys. snd (spec_exec (lc_max s) (lc_ttl s) x ys)) xs (store_abs s)" by blast+
qed

lemma spec_run_length:
  "is_map ys \<Longrightarrow> 0 < mx \<Longrightarrow> int (length ys) \<le> mx \<Longrightarrow>
   int (length (fold (\<lambda>x ys. snd (spec_exec mx ttl x ys)) xs ys)) \<le> mx"
  by (induction xs arbitrary: ys) (auto intro: spec_exec_keys spec_exec_length)

section \<open>Properties\<close>

text \<open>C31: The store, a Go map into a doubly linked list, behaves like a plain recency list: on every
  sequence of gets, puts, deletions, hit counts and invalidations it returns the same results as
  the list that moves what is used to the front, drops expired entries when they are read, and
  drops the last entries when a new key needs room; and it never holds more entries than its
  capacity.\<close>
theorem store_refines_recency_list:
  "let cap = (if mx \<le> 0 then 1000 else mx)
   in outputs store_exec xs (new_lru_store mx ttl) = outputs (spec_exec cap ttl) xs [] \<and>
      store_len (fold (\<lambda>x s. snd (store_exec x s)) xs (new_lru_store mx ttl)) \<le> cap"
proof -
  let ?s = "new_lru_store mx ttl"
  have new: "store_ok ?s" "store_abs ?s = []" "lc_max ?s = (if mx \<le> 0 then 1000 else mx)" "lc_ttl ?s = ttl"
    by (simp_all add: new_lru_store_def store_ok_def)
  note run = store_run_abs[OF new(1), of xs]
  have "store_len (fold (\<lambda>x s. snd (store_exec x s)) xs ?s) = int (length (store_abs (fold (\<lambda>x s. snd (store_exec x s)) xs ?s)))"
    using run(1) lru_items_len by (simp add: store_len_def lru_abs_def store_ok_def)
  moreover have "\<dots> \<le> (if mx \<le> 0 then 1000 else mx)"
    unfolding run(2) new(2-4) by (rule spec_run_length) simp_all
  ultimately show ?thesis using outputs_refine[OF new(1), of xs] new(2-4) by (simp add: Let_def)
qed

end
