(* ===== verification/SemanticCache.thy ===== *)
theory SemanticCache
  imports SemanticStore GoJson
begin

text \<open>
  The response cache of \<open>internal/semanticcache\<close>: the cache key of a request
  (\<open>key.go\<close>), and the coordinator (\<open>cache.go\<close>) over any store that keeps the interface
  \<open>Store\<close>. The operations of the store are the fields of a record, as they are the methods of
  an interface in the code; the contract is the locale \<open>response_store\<close>, which the in-memory
  store satisfies. SHA-256, the marshalling of tools and the formatting of a temperature are
  parameters. \<open>Stats\<close> without its percentage text.
\<close>

section \<open>The key of a request\<close>

record content_block =
  cb_type :: string
  cb_text :: string
  cb_image :: "string option"
  cb_file :: "string option"

text \<open>The three shapes the content of a message is matched against; any other one is skipped.\<close>

datatype content = CText string | CBlocks "content_block list" | CAny "json list" | COther

record message =
  ms_role :: string
  ms_content :: content
  ms_reasoning :: string
  ms_tool_calls :: "json list"
  ms_tool_call_id :: string

record chat_request =
  cr_model :: string
  cr_messages :: "message list"
  cr_temperature :: "rat option"
  cr_max_tokens :: "int option"
  cr_max_completion :: "int option"
  cr_tools :: "json list"
  cr_tool_choice :: "json option"
  cr_parallel :: "bool option"
  cr_effort :: string
  cr_stream :: bool

text \<open>\<open>fastjson.Marshal\<close>, whose result is an error for some values, and \<open>%.4f\<close>.\<close>

record encoders =
  en_marshal :: "json \<Rightarrow> string option"
  en_temp :: "rat \<Rightarrow> string"
  en_sha :: "string \<Rightarrow> string"

definition newline :: string where
  "newline = [CHR 0x0A]"

definition nested_string :: "(string \<times> json) list \<Rightarrow> string \<Rightarrow> string \<Rightarrow> string" where
  "nested_string obj key subkey =
     (case as_object (obj_get obj key) of None \<Rightarrow> [] | Some inner \<Rightarrow> obj_string inner subkey)"

definition image_url_of :: "content_block \<Rightarrow> string" where
  "image_url_of b = (case cb_image b of None \<Rightarrow> [] | Some u \<Rightarrow> u)"

definition file_data_of :: "content_block \<Rightarrow> string" where
  "file_data_of b = (case cb_file b of None \<Rightarrow> [] | Some d \<Rightarrow> d)"

definition write_content_block :: "string \<Rightarrow> string \<Rightarrow> string \<Rightarrow> string \<Rightarrow> string" where
  "write_content_block ty text img fdata =
     ''block:'' @ ty @ '':'' @
     (if ty = ''text'' \<or> ty = [] then text
      else text @ ''|img='' @ img @ ''|file='' @ fdata) @ newline"

definition write_int_param :: "string \<Rightarrow> int option \<Rightarrow> string" where
  "write_int_param label v = (case v of None \<Rightarrow> [] | Some n \<Rightarrow> label @ '':'' @ itoa_int n @ newline)"

definition write_content :: "content \<Rightarrow> string" where
  "write_content c =
     (case c of
        CText s \<Rightarrow> s
      | CBlocks bs \<Rightarrow> concat (map (\<lambda>b. write_content_block (cb_type b) (cb_text b) (image_url_of b) (file_data_of b)) bs)
      | CAny els \<Rightarrow> concat (map (\<lambda>el. case as_object el of
            None \<Rightarrow> []
          | Some bm \<Rightarrow> write_content_block (obj_string bm ''type'') (obj_string bm ''text'')
                        (nested_string bm ''image_url'' ''url'') (nested_string bm ''file'' ''file_data'')) els)
      | COther \<Rightarrow> [])"

definition write_message :: "message \<Rightarrow> string" where
  "write_message m = ms_role m @ '':'' @ write_content (ms_content m) @ newline"

text \<open>The bytes \<open>BuildCacheKey\<close> feeds to the hash.\<close>

definition cache_text :: "encoders \<Rightarrow> string \<Rightarrow> chat_request \<Rightarrow> string" where
  "cache_text en session r =
     (if session \<noteq> [] then ''session:'' @ session @ newline else []) @
     ''model:'' @ cr_model r @ newline @
     concat (map write_message (cr_messages r)) @
     (if cr_tools r \<noteq> []
      then (case en_marshal en (JArr (cr_tools r)) of None \<Rightarrow> [] | Some tb \<Rightarrow> ''tools:'' @ tb @ newline) else []) @
     (case cr_tool_choice r of None \<Rightarrow> []
      | Some tc \<Rightarrow> (case en_marshal en tc of None \<Rightarrow> [] | Some tb \<Rightarrow> ''tool_choice:'' @ tb @ newline)) @
     (case cr_temperature r of None \<Rightarrow> [] | Some t \<Rightarrow> ''temp:'' @ en_temp en t @ newline) @
     write_int_param ''max_tokens'' (cr_max_tokens r) @
     write_int_param ''max_completion_tokens'' (cr_max_completion r) @
     (case cr_parallel r of None \<Rightarrow> []
      | Some b \<Rightarrow> ''parallel_tool_calls:'' @ (if b then ''true'' else ''false'') @ newline) @
     (if cr_effort r \<noteq> [] then ''reasoning_effort:'' @ cr_effort r @ newline else [])"

definition build_cache_key :: "encoders \<Rightarrow> string \<Rightarrow> chat_request option \<Rightarrow> string" where
  "build_cache_key en session req =
     (case req of None \<Rightarrow> [] | Some r \<Rightarrow> en_sha en (cache_text en session r))"

definition prompt_content :: "content \<Rightarrow> string" where
  "prompt_content c =
     (case c of
        CText s \<Rightarrow> s
      | CBlocks bs \<Rightarrow> concat (map (\<lambda>b. if cb_type b = ''text'' then cb_text b else []) bs)
      | CAny els \<Rightarrow> concat (map (\<lambda>el. case as_object el of
            None \<Rightarrow> []
          | Some bm \<Rightarrow> if obj_get bm ''type'' = JStr ''text'' then obj_string bm ''text'' else []) els)
      | COther \<Rightarrow> [])"

definition extract_prompt_text :: "chat_request option \<Rightarrow> string" where
  "extract_prompt_text req =
     (case req of
        None \<Rightarrow> []
      | Some r \<Rightarrow> concat (map (\<lambda>m. ms_role m @ '':'' @ prompt_content (ms_content m) @ newline) (cr_messages r)))"

section \<open>The coordinator\<close>

record 's store_ops =
  so_get :: "string \<Rightarrow> instant \<Rightarrow> 's \<Rightarrow> sc_entry option \<times> 's"
  so_put :: "string \<Rightarrow> sc_entry \<Rightarrow> instant \<Rightarrow> 's \<Rightarrow> 's"
  so_delete :: "string \<Rightarrow> 's \<Rightarrow> bool \<times> 's"
  so_hit :: "string \<Rightarrow> int \<Rightarrow> 's \<Rightarrow> 's"
  so_model :: "string \<Rightarrow> 's \<Rightarrow> int \<times> 's"
  so_older :: "duration \<Rightarrow> instant \<Rightarrow> 's \<Rightarrow> int \<times> 's"
  so_entries :: "instant \<Rightarrow> 's \<Rightarrow> sc_entry list"
  so_len :: "'s \<Rightarrow> int"
  so_clear :: "'s \<Rightarrow> 's"

record cache_config =
  cg_enabled :: bool
  cg_threshold :: rat
  cg_ttl :: duration
  cg_max :: int

record 's response_cache =
  rc_cfg :: cache_config
  rc_store :: 's
  rc_hits :: int
  rc_misses :: int
  rc_saved :: int

definition cache_defaults :: "cache_config \<Rightarrow> cache_config" where
  "cache_defaults cfg = cfg\<lparr>
     cg_max := (if cg_max cfg \<le> 0 then 1000 else cg_max cfg),
     cg_ttl := (if cg_ttl cfg \<le> 0 then 24 * hour else cg_ttl cfg),
     cg_threshold := (if cg_threshold cfg \<le> 0 then 95 / 100 else cg_threshold cfg)\<rparr>"

definition new_response_cache :: "cache_config \<Rightarrow> (cache_config \<Rightarrow> 's) \<Rightarrow> 's response_cache" where
  "new_response_cache cfg mk =
     (let cfg = cache_defaults cfg
      in \<lparr>rc_cfg = cfg, rc_store = mk cfg, rc_hits = 0, rc_misses = 0, rc_saved = 0\<rparr>)"

text \<open>\<open>enabled\<close> is what the optional predicate of \<open>New\<close> answers at the time of the call.\<close>

definition cache_enabled :: "bool option \<Rightarrow> 's response_cache \<Rightarrow> bool" where
  "cache_enabled enabled c = (case enabled of Some b \<Rightarrow> b | None \<Rightarrow> cg_enabled (rc_cfg c))"

text \<open>\<open>usage.total_tokens\<close> of a body that parses, otherwise a quarter of its length.\<close>

definition estimate_tokens :: "(string \<Rightarrow> int option) \<Rightarrow> string \<Rightarrow> int" where
  "estimate_tokens usage body =
     (if body = [] then 0
      else case usage body of
             Some n \<Rightarrow> (if n > 0 then n else max 1 (int (length body) div 4))
           | None \<Rightarrow> max 1 (int (length body) div 4))"

definition cache_lookup ::
  "encoders \<Rightarrow> (string \<Rightarrow> int option) \<Rightarrow> 's store_ops \<Rightarrow> bool option \<Rightarrow> string \<Rightarrow> chat_request option \<Rightarrow> instant \<Rightarrow>
   's response_cache \<Rightarrow> sc_entry option \<times> 's response_cache" where
  "cache_lookup en usage ops enabled session req now c =
     (case req of
        None \<Rightarrow> (None, c)
      | Some r \<Rightarrow>
          (if \<not> cache_enabled enabled c \<or> cr_stream r then (None, c)
           else let key = build_cache_key en session req in
             if key = [] then (None, c\<lparr>rc_misses := rc_misses c + 1\<rparr>)
             else (case so_get ops key now (rc_store c) of
                     (None, st) \<Rightarrow> (None, c\<lparr>rc_store := st, rc_misses := rc_misses c + 1\<rparr>)
                   | (Some e, st) \<Rightarrow>
                       (if se_model e \<noteq> [] \<and> cr_model r \<noteq> [] \<and> se_model e \<noteq> cr_model r
                        then (None, c\<lparr>rc_store := st, rc_misses := rc_misses c + 1\<rparr>)
                        else (let saved = estimate_tokens usage (se_body e)
                              in (Some e, c\<lparr>rc_store := so_hit ops key saved st, rc_hits := rc_hits c + 1,
                                            rc_saved := rc_saved c + saved\<rparr>))))))"

definition cache_store ::
  "encoders \<Rightarrow> 's store_ops \<Rightarrow> bool option \<Rightarrow> string \<Rightarrow> chat_request option \<Rightarrow> string \<Rightarrow> string \<Rightarrow> instant \<Rightarrow>
   's response_cache \<Rightarrow> 's response_cache" where
  "cache_store en ops enabled session req body ctype now c =
     (case req of
        None \<Rightarrow> c
      | Some r \<Rightarrow>
          (if \<not> cache_enabled enabled c \<or> cr_stream r \<or> body = [] then c
           else let key = build_cache_key en session req in
             if key = [] then c
             else c\<lparr>rc_store := so_put ops key
                      \<lparr>se_key = key, se_model = cr_model r, se_body = body,
                       se_ctype = (if ctype = [] then ''application/json'' else ctype),
                       se_stored = now, se_hits = 0, se_saved = 0\<rparr> now (rc_store c)\<rparr>))"

section \<open>The dashboard\<close>

text \<open>
  \<open>ListEntries\<close>: the filters, the order and the page. Times are instants here and RFC 3339 text in
  the code. \<open>sort.Slice\<close> leaves the order of equal entries open; it is the order of the list here.
\<close>

definition wanted_entry :: "string \<Rightarrow> string \<Rightarrow> sc_entry \<Rightarrow> bool" where
  "wanted_entry search model e \<longleftrightarrow>
     (to_lower model = [] \<or> to_lower (se_model e) = to_lower model) \<and>
     (to_lower search = [] \<or> contains_str (to_lower (se_key e)) (to_lower search))"

text \<open>The creation times are compared as RFC 3339 texts, which have whole seconds.\<close>

definition entry_less :: "string \<Rightarrow> string \<Rightarrow> sc_entry \<Rightarrow> sc_entry \<Rightarrow> bool" where
  "entry_less by_field order a b =
     (let asc = order = ''asc'';
          cmp = (\<lambda>f. if asc then f a < f b else f a > (f b :: int))
      in if by_field = ''hits'' \<or> by_field = ''hit_count'' then cmp se_hits
         else if by_field = ''tokens_saved'' then cmp se_saved
         else if by_field = ''model'' then (if asc then se_model a < se_model b else se_model a > se_model b)
         else cmp (\<lambda>e. se_stored e div second))"

text \<open>\<open>None\<close> is the panic of a slice expression whose bounds are out of range: the start is computed
  in 64-bit arithmetic.\<close>

definition list_entries ::
  "'s store_ops \<Rightarrow> int \<Rightarrow> int \<Rightarrow> string \<Rightarrow> string \<Rightarrow> string \<Rightarrow> string \<Rightarrow> instant \<Rightarrow> 's response_cache \<Rightarrow>
   (sc_entry list \<times> int) option" where
  "list_entries ops page limit search model by_field order now c =
     (let found = sort_by (entry_less by_field order) (filter (wanted_entry search model) (so_entries ops now (rc_store c)));
          n = int (length found);
          limit = (if limit \<le> 0 then 20 else limit);
          page = (if page \<le> 0 then 1 else page);
          start = wrap_int64 ((page - 1) * limit)
      in if start \<ge> n then Some ([], n)
         else (let stop = (if wrap_int64 (start + limit) > n then n else wrap_int64 (start + limit))
               in if 0 \<le> start \<and> start \<le> stop then Some (drop (nat start) (take (nat stop) found), n)
                  else None))"

definition cache_delete_entry :: "'s store_ops \<Rightarrow> string \<Rightarrow> 's response_cache \<Rightarrow> bool \<times> 's response_cache" where
  "cache_delete_entry ops key c = (case so_delete ops key (rc_store c) of (b, st) \<Rightarrow> (b, c\<lparr>rc_store := st\<rparr>))"

definition cache_invalidate_model :: "'s store_ops \<Rightarrow> string \<Rightarrow> 's response_cache \<Rightarrow> int \<times> 's response_cache" where
  "cache_invalidate_model ops m c = (case so_model ops m (rc_store c) of (n, st) \<Rightarrow> (n, c\<lparr>rc_store := st\<rparr>))"

definition cache_invalidate_older :: "'s store_ops \<Rightarrow> duration \<Rightarrow> instant \<Rightarrow> 's response_cache \<Rightarrow> int \<times> 's response_cache" where
  "cache_invalidate_older ops d now c = (case so_older ops d now (rc_store c) of (n, st) \<Rightarrow> (n, c\<lparr>rc_store := st\<rparr>))"

definition cache_clear :: "'s store_ops \<Rightarrow> 's response_cache \<Rightarrow> 's response_cache" where
  "cache_clear ops c = c\<lparr>rc_store := so_clear ops (rc_store c)\<rparr>"

definition cache_len :: "'s store_ops \<Rightarrow> 's response_cache \<Rightarrow> int" where
  "cache_len ops c = so_len ops (rc_store c)"

section \<open>The contract of a store\<close>

type_synonym stored = "string \<times> string \<times> string \<times> instant"

definition entry_view :: "sc_entry \<Rightarrow> stored" where
  "entry_view e = (se_model e, se_body e, se_ctype e, se_stored e)"

text \<open>What the coordinator relies on: a store gives back under a key what was last put there, or
  nothing; only \<open>Put\<close> adds, and it adds one key.\<close>

locale response_store =
  fixes ops :: "'s store_ops"
    and inv :: "'s \<Rightarrow> bool"
    and held :: "'s \<Rightarrow> string \<Rightarrow> stored option"
  assumes get_held: "inv s \<Longrightarrow> fst (so_get ops k t s) = Some e \<Longrightarrow> held s k = Some (entry_view e)"
    and get_keeps: "inv s \<Longrightarrow> inv (snd (so_get ops k t s)) \<and> (held (snd (so_get ops k t s)) j = Some v \<longrightarrow> held s j = Some v)"
    and put_held: "inv s \<Longrightarrow> se_stored e = t \<Longrightarrow> inv (so_put ops k e t s) \<and>
        (held (so_put ops k e t s) j = Some v \<longrightarrow> (if j = k then v = entry_view e else held s j = Some v))"
    and hit_keeps: "inv s \<Longrightarrow> inv (so_hit ops k n s) \<and> (held (so_hit ops k n s) j = Some v \<longrightarrow> held s j = Some v)"
    and delete_keeps: "inv s \<Longrightarrow> inv (snd (so_delete ops k s)) \<and> (held (snd (so_delete ops k s)) j = Some v \<longrightarrow> held s j = Some v)"
    and model_keeps: "inv s \<Longrightarrow> inv (snd (so_model ops m s)) \<and> (held (snd (so_model ops m s)) j = Some v \<longrightarrow> held s j = Some v)"
    and older_keeps: "inv s \<Longrightarrow> inv (snd (so_older ops d t s)) \<and> (held (snd (so_older ops d t s)) j = Some v \<longrightarrow> held s j = Some v)"
    and clear_keeps: "inv s \<Longrightarrow> inv (so_clear ops s) \<and> (held (so_clear ops s) j = Some v \<longrightarrow> held s j = Some v)"

text \<open>The operations of the coordinator, as a client or the dashboard calls them.\<close>

datatype cache_op =
    CLookup "bool option" string "chat_request option" instant
  | CStore "bool option" string "chat_request option" string string instant
  | CDelete string
  | CModel string
  | COlder duration instant
  | CClear

fun exec_cache ::
  "encoders \<Rightarrow> (string \<Rightarrow> int option) \<Rightarrow> 's store_ops \<Rightarrow> cache_op \<Rightarrow> 's response_cache \<Rightarrow> 's response_cache" where
  "exec_cache en usage ops (CLookup b s r t) c = snd (cache_lookup en usage ops b s r t c)"
| "exec_cache en usage ops (CStore b s r body ct t) c = cache_store en ops b s r body ct t c"
| "exec_cache en usage ops (CDelete k) c = snd (cache_delete_entry ops k c)"
| "exec_cache en usage ops (CModel m) c = snd (cache_invalidate_model ops m c)"
| "exec_cache en usage ops (COlder d t) c = snd (cache_invalidate_older ops d t c)"
| "exec_cache en usage ops CClear c = cache_clear ops c"

text \<open>The entry a \<open>Store\<close> writes, if it is accepted, and the key it goes to.\<close>

fun wrote_entry :: "encoders \<Rightarrow> 's response_cache \<Rightarrow> cache_op \<Rightarrow> string \<Rightarrow> stored option" where
  "wrote_entry en c (CStore b s (Some r) body ct t) k =
     (if cache_enabled b c \<and> \<not> cr_stream r \<and> body \<noteq> [] \<and> k \<noteq> [] \<and> build_cache_key en s (Some r) = k
      then Some (cr_model r, body, if ct = [] then ''application/json'' else ct, t) else None)"
| "wrote_entry en c _ k = None"

context response_store
begin

lemma lookup_keeps:
  assumes inv: "inv (rc_store c)"
  shows "inv (rc_store (snd (cache_lookup en usage ops b s r t c))) \<and>
    (held (rc_store (snd (cache_lookup en usage ops b s r t c))) k = Some v \<longrightarrow> held (rc_store c) k = Some v)"
proof -
  let ?key = "build_cache_key en s r"
  let ?c = "snd (cache_lookup en usage ops b s r t c)"
  obtain g st where g: "so_get ops ?key t (rc_store c) = (g, st)" by fastforce
  have st: "inv st" "\<And>j v. held st j = Some v \<Longrightarrow> held (rc_store c) j = Some v"
    using get_keeps[OF inv, of ?key t] g by auto
  have "rc_store ?c = rc_store c \<or> rc_store ?c = st \<or> (\<exists>n. rc_store ?c = so_hit ops ?key n st)"
    using g by (cases r) (auto simp: cache_lookup_def Let_def split: option.split)
  then show ?thesis using inv st hit_keeps[OF st(1)] by (elim disjE exE) simp_all
qed

lemma store_writes:
  assumes inv: "inv (rc_store c)"
  shows "inv (rc_store (cache_store en ops b s r body ct t c)) \<and>
    (held (rc_store (cache_store en ops b s r body ct t c)) k = Some v \<longrightarrow>
      (case wrote_entry en c (CStore b s r body ct t) k of Some w \<Rightarrow> v = w | None \<Rightarrow> held (rc_store c) k = Some v))"
proof (cases "r = None \<or> \<not> cache_enabled b c \<or> cr_stream (the r) \<or> body = [] \<or> build_cache_key en s r = []")
  case True
  then have "cache_store en ops b s r body ct t c = c" by (auto simp: cache_store_def split: option.split)
  moreover have "wrote_entry en c (CStore b s r body ct t) k = None" using True by (cases r) auto
  ultimately show ?thesis using inv by simp
next
  case False
  then obtain q where q: "r = Some q" by auto
  let ?key = "build_cache_key en s r"
  let ?e = "\<lparr>se_key = ?key, se_model = cr_model q, se_body = body,
      se_ctype = (if ct = [] then ''application/json'' else ct), se_stored = t, se_hits = 0, se_saved = 0\<rparr>"
  have "rc_store (cache_store en ops b s r body ct t c) = so_put ops ?key ?e t (rc_store c)"
    using q False by (simp add: cache_store_def Let_def)
  then show ?thesis using put_held[OF inv, of ?e t ?key k v] q False by (auto simp: entry_view_def)
qed

end

sublocale response_store \<subseteq> cache: keyed_cache "exec_cache en usage ops" "\<lambda>c :: 's response_cache. inv (rc_store c)"
    "\<lambda>c. held (rc_store c)" "wrote_entry en" for en usage
proof
  fix c :: "'s response_cache" and x k v
  assume inv: "inv (rc_store c)"
  have "inv (rc_store (exec_cache en usage ops x c)) \<and>
    (held (rc_store (exec_cache en usage ops x c)) k = Some v \<longrightarrow>
      (case wrote_entry en c x k of Some w \<Rightarrow> v = w | None \<Rightarrow> held (rc_store c) k = Some v))"
  proof (cases x)
    case (CLookup b s r t)
    show ?thesis using lookup_keeps[OF inv, of en usage b s r t k v] CLookup by simp
  next
    case (CStore b s r body ct t)
    show ?thesis using store_writes[OF inv, of en b s r body ct t k v] CStore by simp
  next
    case (CDelete j)
    show ?thesis using delete_keeps[OF inv, of j k v] CDelete
      by (simp add: cache_delete_entry_def case_prod_unfold)
  next
    case (CModel m)
    show ?thesis using model_keeps[OF inv, of m k v] CModel
      by (simp add: cache_invalidate_model_def case_prod_unfold)
  next
    case (COlder d t)
    show ?thesis using older_keeps[OF inv, of d t k v] COlder
      by (simp add: cache_invalidate_older_def case_prod_unfold)
  next
    case CClear
    show ?thesis using clear_keeps[OF inv, of k v] CClear by (simp add: cache_clear_def)
  qed
  then show "inv (rc_store (exec_cache en usage ops x c))"
    "held (rc_store (exec_cache en usage ops x c)) k = Some v \<Longrightarrow>
      (case wrote_entry en c x k of Some w \<Rightarrow> v = w | None \<Rightarrow> held (rc_store c) k = Some v)" by blast+
qed

section \<open>The in-memory store\<close>

definition lru_store_ops :: "lru_store store_ops" where
  "lru_store_ops = \<lparr>so_get = store_get, so_put = store_put, so_delete = store_delete, so_hit = store_record_hit,
     so_model = store_invalidate_model, so_older = store_invalidate_older, so_entries = store_entries,
     so_len = store_len, so_clear = store_clear\<rparr>"

definition store_held :: "lru_store \<Rightarrow> string \<Rightarrow> stored option" where
  "store_held s k = map_option entry_view (map_of (store_abs s) k)"

lemma store_view:
  assumes "store_ok s"
  shows "store_ok (snd (store_exec x s)) \<and>
    store_held (snd (store_exec x s)) k = map_option entry_view (map_of (snd (spec_exec (lc_max s) (lc_ttl s) x (store_abs s))) k)"
  using store_exec_refines[OF assms, of x] by (simp add: store_held_def)

lemma map_of_filterD: "distinct (map fst xs) \<Longrightarrow> map_of (filter P xs) k = Some v \<Longrightarrow> map_of xs k = Some v"
  by (auto dest!: map_of_SomeD intro: map_of_is_SomeI)

lemma map_of_record_hit:
  "map_of (spec_record_hit k n xs) j =
     map_option (\<lambda>e. if j = k then e\<lparr>se_hits := se_hits e + 1, se_saved := se_saved e + n\<rparr> else e) (map_of xs j)"
  by (induction xs) (auto simp: spec_record_hit_def)

interpretation mem: response_store lru_store_ops store_ok store_held
proof
  fix s :: lru_store and k t e
  assume ok: "store_ok s"
  then have keys: "is_map (store_abs s)" by (simp add: store_ok_def)
  {
    assume "fst (so_get lru_store_ops k t s) = Some e"
    then show "store_held s k = Some (entry_view e)"
      using store_exec_refines[OF ok, of "SGet k t"]
      by (auto simp: lru_store_ops_def store_held_def spec_get_def case_prod_unfold split: option.splits if_splits)
  }
  show "store_ok (snd (so_get lru_store_ops k t s)) \<and> (store_held (snd (so_get lru_store_ops k t s)) j = Some v \<longrightarrow> store_held s j = Some v)" for j v
    using store_view[OF ok, of "SGet k t" j]
    by (auto simp: lru_store_ops_def store_held_def spec_get_def case_prod_unfold split: option.splits if_splits)
  show "se_stored e = t \<Longrightarrow> store_ok (so_put lru_store_ops k e t s) \<and>
      (store_held (so_put lru_store_ops k e t s) j = Some v \<longrightarrow> (if j = k then v = entry_view e else store_held s j = Some v))" for j v
    using store_view[OF ok, of "SPut k e t" j] map_of_takeD[OF keys]
    by (auto simp: lru_store_ops_def store_held_def spec_put_def Let_def entry_view_def split: if_splits)
  show "store_ok (so_hit lru_store_ops k n s) \<and> (store_held (so_hit lru_store_ops k n s) j = Some v \<longrightarrow> store_held s j = Some v)" for n j v
    using store_view[OF ok, of "SHit k n" j]
    by (auto simp: lru_store_ops_def store_held_def map_of_record_hit entry_view_def split: if_splits)
  show "store_ok (snd (so_delete lru_store_ops k s)) \<and> (store_held (snd (so_delete lru_store_ops k s)) j = Some v \<longrightarrow> store_held s j = Some v)" for j v
    using store_view[OF ok, of "SDelete k" j]
    by (auto simp: lru_store_ops_def store_held_def case_prod_unfold split: if_splits)
  show "store_ok (snd (so_model lru_store_ops m s)) \<and> (store_held (snd (so_model lru_store_ops m s)) j = Some v \<longrightarrow> store_held s j = Some v)" for m j v
    using store_view[OF ok, of "SModel m" j] map_of_filterD[OF keys]
    by (auto simp: lru_store_ops_def store_held_def case_prod_unfold)
  show "store_ok (snd (so_older lru_store_ops d t s)) \<and> (store_held (snd (so_older lru_store_ops d t s)) j = Some v \<longrightarrow> store_held s j = Some v)" for d j v
    using store_view[OF ok, of "SOlder d t" j] map_of_filterD[OF keys]
    by (auto simp: lru_store_ops_def store_held_def case_prod_unfold)
  show "store_ok (so_clear lru_store_ops s) \<and> (store_held (so_clear lru_store_ops s) j = Some v \<longrightarrow> store_held s j = Some v)" for j v
    by (simp add: lru_store_ops_def store_clear_def store_ok_def store_held_def)
qed

lemma lru_store_ops_ttl [simp]:
  "lc_ttl (snd (so_get lru_store_ops k t s)) = lc_ttl s" "lc_ttl (so_put lru_store_ops k e t s) = lc_ttl s"
  "lc_ttl (so_hit lru_store_ops k n s) = lc_ttl s" "lc_ttl (snd (so_delete lru_store_ops k s)) = lc_ttl s"
  "lc_ttl (snd (so_model lru_store_ops m s)) = lc_ttl s" "lc_ttl (snd (so_older lru_store_ops d t s)) = lc_ttl s"
  "lc_ttl (so_clear lru_store_ops s) = lc_ttl s"
  using store_exec_config(2)[of "SGet k t" s] store_exec_config(2)[of "SPut k e t" s]
    store_exec_config(2)[of "SHit k n" s] store_exec_config(2)[of "SDelete k" s]
    store_exec_config(2)[of "SModel m" s] store_exec_config(2)[of "SOlder d t" s] store_exec_config(2)[of SClear s]
  by (simp_all add: lru_store_ops_def case_prod_unfold)

lemma exec_cache_ttl: "lc_ttl (rc_store (exec_cache en usage lru_store_ops x c)) = lc_ttl (rc_store c)"
proof (cases x)
  case (CLookup b s r t)
  obtain g st where g: "so_get lru_store_ops (build_cache_key en s r) t (rc_store c) = (g, st)" by fastforce
  then have "lc_ttl st = lc_ttl (rc_store c)"
    using lru_store_ops_ttl(1)[of "build_cache_key en s r" t "rc_store c"] by simp
  then show ?thesis using CLookup g
    by (cases r) (auto simp: cache_lookup_def Let_def split: option.split)
next
  case (CStore b s r body ct t)
  then show ?thesis by (cases r) (auto simp: cache_store_def Let_def)
qed (simp_all add: cache_delete_entry_def cache_invalidate_model_def cache_invalidate_older_def cache_clear_def case_prod_unfold)

definition memory_cache :: "cache_config \<Rightarrow> lru_store response_cache" where
  "memory_cache cfg = new_response_cache cfg (\<lambda>c. new_lru_store (cg_max c) (cg_ttl c))"

lemma memory_cache_start [simp]:
  "store_ok (rc_store (memory_cache cfg))" "store_held (rc_store (memory_cache cfg)) k = None"
  "lc_ttl (rc_store (memory_cache cfg)) = cg_ttl (cache_defaults cfg)" "0 < cg_ttl (cache_defaults cfg)"
  by (simp_all add: memory_cache_def new_response_cache_def Let_def new_lru_store_def store_ok_def store_held_def
      cache_defaults_def hour_def)

lemma fold_exec_cache_ttl:
  "lc_ttl (rc_store (fold (exec_cache en usage lru_store_ops) xs c)) = lc_ttl (rc_store c)"
  by (induction xs arbitrary: c) (simp_all add: exec_cache_ttl)

lemma cache_lookup_hit:
  assumes "fst (cache_lookup en usage lru_store_ops b s (Some r) now c) = Some e" "store_ok (rc_store c)"
  shows "store_held (rc_store c) (build_cache_key en s (Some r)) = Some (entry_view e)"
    and "\<not> expired_at (lc_ttl (rc_store c)) now e" "se_model e = [] \<or> cr_model r = [] \<or> se_model e = cr_model r"
proof -
  let ?key = "build_cache_key en s (Some r)"
  have get: "fst (store_get ?key now (rc_store c)) = Some e"
    and m: "se_model e = [] \<or> cr_model r = [] \<or> se_model e = cr_model r"
    using assms(1) by (auto simp: cache_lookup_def Let_def lru_store_ops_def split: if_splits option.splits prod.splits)
  show "store_held (rc_store c) ?key = Some (entry_view e)"
    using mem.get_held[OF assms(2), of ?key now e] get by (simp add: lru_store_ops_def)
  show "\<not> expired_at (lc_ttl (rc_store c)) now e"
    using get by (auto simp: store_get_def split: option.splits if_splits)
  show "se_model e = [] \<or> cr_model r = [] \<or> se_model e = cr_model r" by (rule m)
qed

section \<open>Properties\<close>


definition demo_encoders :: encoders where
  "demo_encoders = \<lparr>en_marshal = (\<lambda>_. None), en_temp = (\<lambda>_. []), en_sha = (\<lambda>s. s)\<rparr>"

definition demo_message :: "string \<Rightarrow> string \<Rightarrow> message" where
  "demo_message ro t = \<lparr>ms_role = ro, ms_content = CText t, ms_reasoning = [], ms_tool_calls = [], ms_tool_call_id = []\<rparr>"

definition demo_request :: "message list \<Rightarrow> chat_request" where
  "demo_request ms = \<lparr>cr_model = ''m'', cr_messages = ms, cr_temperature = None, cr_max_tokens = Some 5,
     cr_max_completion = None, cr_tools = [], cr_tool_choice = None, cr_parallel = None, cr_effort = [], cr_stream = False\<rparr>"


section \<open>What the key does not tell apart\<close>

text \<open>
  The text of a message reaches the hash without any mark of its end but the newline it may hold
  itself, so a conversation of two messages and a single message that spells both have one key.
\<close>

lemma cache_text_message_boundary:
  "cache_text en s (demo_request [demo_message ''user'' ''a'', demo_message ''assistant'' ''b'']) =
   cache_text en s (demo_request [demo_message ''user'' (''a'' @ newline @ ''assistant:b'')])"
  by (simp add: cache_text_def demo_request_def write_message_def demo_message_def write_content_def)

text \<open>The tool calls of a message, the id a tool message answers and the reasoning are not hashed at all.\<close>

lemma cache_text_ignores_tool_calls:
  "cache_text en s (r\<lparr>cr_messages := map (\<lambda>m. m\<lparr>ms_tool_calls := f m, ms_tool_call_id := g m, ms_reasoning := h m\<rparr>) (cr_messages r)\<rparr>)
   = cache_text en s r"
proof -
  have "write_message (m\<lparr>ms_tool_calls := x, ms_tool_call_id := y, ms_reasoning := z\<rparr>) = write_message m" for m x y z
    by (simp add: write_message_def)
  then show ?thesis by (simp add: cache_text_def comp_def)
qed

text \<open>The start of a page is computed in 64 bits: a page far enough out panics instead of being empty.\<close>

lemma list_entries_panics:
  "list_entries lru_store_ops 4611686018427387905 2 [] [] [] [] 5 (memory_cache \<lparr>cg_enabled = True, cg_threshold = 0, cg_ttl = 100, cg_max = 2\<rparr>) = None"
  by code_simp

end
