(* ===== verification/PromptCache.thy ===== *)
theory PromptCache
  imports CacheBase GoStrings
begin

text \<open>
  The exact-prompt cache of \<open>internal/promptcache/cache.go\<close>: a map into a linked list bounded in
  entries and in bytes, with a time to live. The response body is a byte string; the JSON text of
  a request reaches \<open>HashRequest\<close> as the raw bytes of the fields it reads.
\<close>

record pc_entry =
  pe_model :: string
  pe_ctype :: string
  pe_status :: int
  pe_body :: string
  pe_stream :: bool
  pe_created :: instant
  pe_expires :: instant

record prompt_cache =
  pc_capacity :: int
  pc_max_bytes :: int
  pc_max_entry :: int
  pc_bytes :: int
  pc_ttl :: duration
  pc_lru :: "pc_entry lru"
  pc_hits :: int
  pc_misses :: int
  pc_last_sweep :: instant

record pc_config =
  pg_capacity :: int
  pg_ttl :: duration
  pg_max_bytes :: int
  pg_max_entry :: int

definition default_max_bytes :: int where
  "default_max_bytes = 16 * 1048576"

definition default_max_entry_bytes :: int where
  "default_max_entry_bytes = 512 * 1024"

definition sweep_interval :: duration where
  "sweep_interval = minute"

definition new_prompt_cache :: "pc_config \<Rightarrow> instant \<Rightarrow> prompt_cache" where
  "new_prompt_cache cfg now =
     (let cap = (if pg_capacity cfg \<le> 0 then 500 else pg_capacity cfg);
          ttl = (if pg_ttl cfg \<le> 0 then 15 * minute else pg_ttl cfg);
          mb = (if pg_max_bytes cfg \<le> 0 then default_max_bytes else pg_max_bytes cfg);
          me = (if pg_max_entry cfg \<le> 0 then default_max_entry_bytes else pg_max_entry cfg);
          me = (if me > mb then mb else me)
      in \<lparr>pc_capacity = cap, pc_max_bytes = mb, pc_max_entry = me, pc_bytes = 0, pc_ttl = ttl,
          pc_lru = lru_empty, pc_hits = 0, pc_misses = 0, pc_last_sweep = now\<rparr>)"

definition max_entry_bytes :: "prompt_cache \<Rightarrow> int" where
  "max_entry_bytes c = (if pc_max_entry c \<le> 0 then default_max_entry_bytes else pc_max_entry c)"

definition body_size :: "pc_entry \<Rightarrow> int" where
  "body_size e = int (length (pe_body e))"

definition evict_element :: "nat \<Rightarrow> prompt_cache \<Rightarrow> prompt_cache" where
  "evict_element el c =
     (case map_of (lr_list (pc_lru c)) el of
        None \<Rightarrow> c
      | Some kv \<Rightarrow>
          (let b = pc_bytes c - body_size (snd kv)
           in c\<lparr>pc_lru := lru_remove el (pc_lru c), pc_bytes := (if b < 0 then 0 else b)\<rparr>))"

definition evict_oldest :: "prompt_cache \<Rightarrow> prompt_cache" where
  "evict_oldest c = (case lru_back (pc_lru c) of None \<Rightarrow> c | Some (el, _) \<Rightarrow> evict_element el c)"

definition prompt_get :: "string \<Rightarrow> instant \<Rightarrow> prompt_cache \<Rightarrow> pc_entry option \<times> prompt_cache" where
  "prompt_get k now c =
     (case lru_find k (pc_lru c) of
        None \<Rightarrow> (None, c\<lparr>pc_misses := pc_misses c + 1\<rparr>)
      | Some (el, e) \<Rightarrow>
          (if now > pe_expires e
           then (None, (evict_element el c)\<lparr>pc_misses := pc_misses c + 1\<rparr>)
           else (Some e, c\<lparr>pc_lru := lru_front el (pc_lru c), pc_hits := pc_hits c + 1\<rparr>)))"

lemma evict_oldest_shrinks:
  assumes "lr_list (pc_lru c) \<noteq> []"
  shows "length (lr_list (pc_lru (evict_oldest c))) < length (lr_list (pc_lru c))"
proof -
  let ?xs = "lr_list (pc_lru c)"
  obtain el kv where b: "last ?xs = (el, kv)" using prod.exhaust by blast
  then have el: "el \<in> fst ` set ?xs" using last_in_set[OF assms] by force
  then obtain kw where "map_of ?xs el = Some kw" by (metis domD dom_map_of_conv_image_fst)
  then show ?thesis using assms b delete_shrinks[OF el]
    by (simp add: evict_oldest_def evict_element_def lru_back_def lru_remove_def Let_def)
qed

text \<open>\<open>enforceBudgetLocked\<close>, and the walk of \<open>sweepExpiredLocked\<close> from the back.\<close>

function enforce_budget :: "prompt_cache \<Rightarrow> prompt_cache" where
  "enforce_budget c =
     (if lru_len (pc_lru c) > pc_capacity c \<or> pc_bytes c > pc_max_bytes c
      then (if lr_list (pc_lru c) = [] then c\<lparr>pc_bytes := 0\<rparr> else enforce_budget (evict_oldest c))
      else c)"
  by pat_completeness auto
termination
  by (relation "measure (\<lambda>c. length (lr_list (pc_lru c)))") (simp_all add: evict_oldest_shrinks)

function sweep_loop :: "instant \<Rightarrow> prompt_cache \<Rightarrow> prompt_cache" where
  "sweep_loop now c =
     (if lr_list (pc_lru c) = [] \<or> now < pe_expires (snd (snd (last (lr_list (pc_lru c))))) then c
      else sweep_loop now (evict_oldest c))"
  by pat_completeness auto
termination
  by (relation "measure (\<lambda>(now, c). length (lr_list (pc_lru c)))") (simp_all add: evict_oldest_shrinks)

declare enforce_budget.simps [simp del] sweep_loop.simps [simp del]

definition sweep_expired :: "instant \<Rightarrow> prompt_cache \<Rightarrow> prompt_cache" where
  "sweep_expired now c =
     (if now - pc_last_sweep c < sweep_interval then c else sweep_loop now (c\<lparr>pc_last_sweep := now\<rparr>))"

definition prompt_set ::
  "string \<Rightarrow> string \<Rightarrow> string \<Rightarrow> int \<Rightarrow> string \<Rightarrow> bool \<Rightarrow> instant \<Rightarrow> prompt_cache \<Rightarrow> prompt_cache" where
  "prompt_set k model ctype status body stream now c =
     (if k = [] \<or> body = [] then c
      else if int (length body) > max_entry_bytes c then c
      else (let c = sweep_expired now c;
                e = \<lparr>pe_model = model, pe_ctype = ctype, pe_status = status, pe_body = body,
                     pe_stream = stream, pe_created = now, pe_expires = now + pc_ttl c\<rparr>
            in case lru_find k (pc_lru c) of
                 Some (el, old) \<Rightarrow>
                   enforce_budget (c\<lparr>pc_lru := lru_write el e (lru_front el (pc_lru c)),
                                     pc_bytes := pc_bytes c + (int (length body) - body_size old)\<rparr>)
               | None \<Rightarrow>
                   enforce_budget (c\<lparr>pc_lru := lru_push k e (pc_lru c), pc_bytes := pc_bytes c + int (length body)\<rparr>)))"

definition prompt_clear :: "prompt_cache \<Rightarrow> prompt_cache" where
  "prompt_clear c = c\<lparr>pc_lru := lru_empty, pc_bytes := 0\<rparr>"

definition prompt_stats :: "prompt_cache \<Rightarrow> int \<times> int \<times> int" where
  "prompt_stats c = (lru_len (pc_lru c), pc_hits c, pc_misses c)"

definition prompt_stats_detail :: "prompt_cache \<Rightarrow> int \<times> int \<times> int \<times> int \<times> int" where
  "prompt_stats_detail c = (lru_len (pc_lru c), pc_bytes c, pc_max_bytes c, pc_hits c, pc_misses c)"

section \<open>The key\<close>

record raw_request =
  rw_messages :: string
  rw_system :: string
  rw_tools :: string
  rw_temperature :: string
  rw_top_p :: string
  rw_max_tokens :: string

definition write_field :: "string \<Rightarrow> string \<Rightarrow> string" where
  "write_field name v = (if v = [] then [] else name @ [CHR 0x00] @ v @ [CHR 0x00])"

text \<open>The bytes that are hashed; \<open>None\<close> when the request is not cacheable. \<open>parse\<close> is the JSON decoder.\<close>

definition hash_request :: "(string \<Rightarrow> string) \<Rightarrow> (string \<Rightarrow> raw_request option) \<Rightarrow> string \<Rightarrow> string \<Rightarrow> string option" where
  "hash_request sha parse model body =
     (case parse body of
        None \<Rightarrow> None
      | Some raw \<Rightarrow>
          (if rw_messages raw = [] \<or> rw_messages raw = ''[]'' \<or> rw_messages raw = ''null'' then None
           else Some (sha (model @ [CHR 0x00] @ write_field ''messages'' (rw_messages raw) @
                  write_field ''system'' (rw_system raw) @ write_field ''tools'' (rw_tools raw) @
                  write_field ''temperature'' (rw_temperature raw) @ write_field ''top_p'' (rw_top_p raw) @
                  write_field ''max_tokens'' (rw_max_tokens raw)))))"

section \<open>The budget\<close>

abbreviation prompt_abs :: "prompt_cache \<Rightarrow> (string \<times> pc_entry) list" where
  "prompt_abs c \<equiv> lru_abs (pc_lru c)"

definition total_bytes :: "(string \<times> pc_entry) list \<Rightarrow> int" where
  "total_bytes xs = sum_list (map (body_size \<circ> snd) xs)"

lemma body_size_nonneg [simp]: "0 \<le> body_size e"
  by (simp add: body_size_def)

lemma total_bytes_simps [simp]:
  "total_bytes [] = 0" "total_bytes (x # xs) = body_size (snd x) + total_bytes xs"
  "total_bytes (xs @ ys) = total_bytes xs + total_bytes ys"
  by (simp_all add: total_bytes_def)

lemma total_bytes_nonneg [simp]: "0 \<le> total_bytes xs"
  by (induction xs) auto

lemma total_bytes_delete:
  "distinct (map fst xs) \<Longrightarrow> map_of xs k = Some e \<Longrightarrow> total_bytes (AList.delete k xs) = total_bytes xs - body_size e"
proof (induction xs)
  case (Cons x xs)
  then show ?case
    by (cases x) (auto simp: delete_idem)
qed simp

text \<open>The byte count is exact, and the entries are those the map can find.\<close>

definition prompt_ok :: "prompt_cache \<Rightarrow> bool" where
  "prompt_ok c \<longleftrightarrow> lru_ok (pc_lru c) \<and> pc_bytes c = total_bytes (prompt_abs c) \<and> 0 < pc_capacity c \<and> 0 < pc_max_bytes c"

definition within_budget :: "prompt_cache \<Rightarrow> bool" where
  "within_budget c \<longleftrightarrow> lru_len (pc_lru c) \<le> pc_capacity c \<and> pc_bytes c \<le> pc_max_bytes c"

lemma evict_element_abs:
  assumes "prompt_ok c" "(el, k, e) \<in> set (lr_list (pc_lru c))"
  shows "prompt_ok (evict_element el c)" "prompt_abs (evict_element el c) = AList.delete k (prompt_abs c)"
proof -
  have ok: "lru_ok (pc_lru c)" using assms(1) by (simp add: prompt_ok_def)
  have "(k, e) \<in> set (prompt_abs c)" using assms(2) by (force simp: lru_abs_def)
  then have "map_of (prompt_abs c) k = Some e" using lru_ok_keys[OF ok] by simp
  from total_bytes_delete[OF lru_ok_keys[OF ok] this] total_bytes_nonneg[of "AList.delete k (prompt_abs c)"]
  show "prompt_ok (evict_element el c)" "prompt_abs (evict_element el c) = AList.delete k (prompt_abs c)"
    using assms(1) lru_elem[OF ok assms(2)] lru_remove_abs[OF ok assms(2)]
    by (auto simp: evict_element_def prompt_ok_def Let_def)
qed

lemma evict_element_config [simp]:
  "pc_capacity (evict_element el c) = pc_capacity c" "pc_max_bytes (evict_element el c) = pc_max_bytes c"
  "pc_max_entry (evict_element el c) = pc_max_entry c" "pc_ttl (evict_element el c) = pc_ttl c"
  by (simp_all add: evict_element_def Let_def split: option.split)

lemma evict_oldest_config [simp]:
  "pc_capacity (evict_oldest c) = pc_capacity c" "pc_max_bytes (evict_oldest c) = pc_max_bytes c"
  "pc_max_entry (evict_oldest c) = pc_max_entry c" "pc_ttl (evict_oldest c) = pc_ttl c"
  by (simp_all add: evict_oldest_def split: option.split)

lemma evict_oldest_abs:
  assumes "prompt_ok c"
  shows "prompt_ok (evict_oldest c)" "prompt_abs (evict_oldest c) = butlast (prompt_abs c)"
proof -
  have ok: "lru_ok (pc_lru c)" using assms by (simp add: prompt_ok_def)
  have "prompt_ok (evict_oldest c) \<and> prompt_abs (evict_oldest c) = butlast (prompt_abs c)"
  proof (cases "lru_back (pc_lru c)")
    case None
    then show ?thesis using assms lru_back_abs(2)[of "pc_lru c"] by (simp add: evict_oldest_def)
  next
    case (Some b)
    obtain el k v where b: "b = (el, k, v)" by (cases b) auto
    note bk = lru_back_abs(1)[OF Some[unfolded b]]
    then obtain xs where xs: "prompt_abs c = xs @ [(k, v)]" by (metis append_butlast_last_id)
    then have "k \<notin> fst ` set xs" using lru_ok_keys[OF ok] by auto
    then have "AList.delete k (xs @ [(k, v)]) = xs" by (force simp: AList.delete_eq intro!: filter_True)
    then show ?thesis using Some b bk xs evict_element_abs[OF assms, of el k v] by (simp add: evict_oldest_def)
  qed
  then show "prompt_ok (evict_oldest c)" "prompt_abs (evict_oldest c) = butlast (prompt_abs c)" by blast+
qed

text \<open>Both loops cut the recency list at some point and change nothing else.\<close>

definition cut_of :: "prompt_cache \<Rightarrow> prompt_cache \<Rightarrow> bool" where
  "cut_of d c \<longleftrightarrow> prompt_ok d \<and> (\<exists>n. prompt_abs d = take n (prompt_abs c)) \<and> pc_capacity d = pc_capacity c \<and>
     pc_max_bytes d = pc_max_bytes c \<and> pc_max_entry d = pc_max_entry c \<and> pc_ttl d = pc_ttl c"

lemma cut_of_self: "prompt_ok c \<Longrightarrow> cut_of c c"
  by (auto simp: cut_of_def intro: exI[of _ "length (prompt_abs c)"])

lemma cut_of_evict: "prompt_ok c \<Longrightarrow> cut_of d (evict_oldest c) \<Longrightarrow> cut_of d c"
  by (auto simp: cut_of_def evict_oldest_abs butlast_conv_take)

lemma enforce_budget_cut:
  "prompt_ok c \<Longrightarrow> cut_of (enforce_budget c) c \<and> within_budget (enforce_budget c)"
proof (induction c rule: enforce_budget.induct)
  case (1 c)
  consider (fit) "\<not> (lru_len (pc_lru c) > pc_capacity c \<or> pc_bytes c > pc_max_bytes c)"
    | (over) "lru_len (pc_lru c) > pc_capacity c \<or> pc_bytes c > pc_max_bytes c" "lr_list (pc_lru c) \<noteq> []"
    using 1(2) by (cases "lr_list (pc_lru c) = []") (auto simp: prompt_ok_def lru_len_def lru_abs_def)
  then show ?case
  proof cases
    case fit
    then have "enforce_budget c = c" by (subst enforce_budget.simps) simp
    then show ?thesis using fit 1(2) by (simp add: cut_of_self within_budget_def)
  next
    case over
    then have "enforce_budget c = enforce_budget (evict_oldest c)" by (subst enforce_budget.simps) simp
    then show ?thesis using 1(1)[OF over evict_oldest_abs(1)[OF 1(2)]] cut_of_evict[OF 1(2)] by simp
  qed
qed

lemma sweep_loop_cut: "prompt_ok c \<Longrightarrow> cut_of (sweep_loop now c) c"
proof (induction now c rule: sweep_loop.induct)
  case (1 now c)
  then show ?case
    using cut_of_self[OF 1(2)] cut_of_evict[OF 1(2)] evict_oldest_abs(1)[OF 1(2)]
    by (subst sweep_loop.simps) auto
qed

lemma sweep_expired_cut: "prompt_ok c \<Longrightarrow> cut_of (sweep_expired now c) c"
  using sweep_loop_cut[of "c\<lparr>pc_last_sweep := now\<rparr>" now] cut_of_self[of c]
  by (simp add: sweep_expired_def cut_of_def prompt_ok_def)

text \<open>The cut keeps the entry at the front when that entry alone fits.\<close>

lemma enforce_budget_front:
  "prompt_ok c \<Longrightarrow> prompt_abs c = (k, e) # xs \<Longrightarrow> body_size e \<le> pc_max_bytes c \<Longrightarrow>
   \<exists>ys. prompt_abs (enforce_budget c) = (k, e) # ys"
proof (induction c arbitrary: xs rule: enforce_budget.induct)
  case (1 c)
  show ?case
  proof (cases "lru_len (pc_lru c) > pc_capacity c \<or> pc_bytes c > pc_max_bytes c")
    case True
    have ne: "lr_list (pc_lru c) \<noteq> []" using 1(3) by (auto simp: lru_abs_def)
    have "xs \<noteq> []" using True 1(2-4) by (auto simp: prompt_ok_def lru_len_abs)
    then have "prompt_abs (evict_oldest c) = (k, e) # butlast xs"
      using evict_oldest_abs(2)[OF 1(2)] 1(3) by simp
    moreover have "enforce_budget c = enforce_budget (evict_oldest c)" using True ne by (subst enforce_budget.simps) simp
    ultimately show ?thesis using 1(1)[OF True ne evict_oldest_abs(1)[OF 1(2)]] 1(4) by simp
  next
    case False
    then have "enforce_budget c = c" by (subst enforce_budget.simps) simp
    then show ?thesis using 1(3) by simp
  qed
qed

section \<open>Histories\<close>

datatype prompt_op = PSet string string string int string bool instant | PGet string instant | PClear

fun exec_prompt :: "prompt_op \<Rightarrow> prompt_cache \<Rightarrow> prompt_cache" where
  "exec_prompt (PSet k m ct st body stream now) c = prompt_set k m ct st body stream now c"
| "exec_prompt (PGet k now) c = snd (prompt_get k now c)"
| "exec_prompt PClear c = prompt_clear c"

definition accepts :: "prompt_cache \<Rightarrow> string \<Rightarrow> string \<Rightarrow> bool" where
  "accepts c k body \<longleftrightarrow> k \<noteq> [] \<and> body \<noteq> [] \<and> int (length body) \<le> max_entry_bytes c"

fun wrote_prompt :: "prompt_cache \<Rightarrow> prompt_op \<Rightarrow> string \<Rightarrow> pc_entry option" where
  "wrote_prompt c (PSet k m ct st body stream now) j =
     (if accepts c k body \<and> j = k
      then Some \<lparr>pe_model = m, pe_ctype = ct, pe_status = st, pe_body = body, pe_stream = stream,
                 pe_created = now, pe_expires = now + pc_ttl c\<rparr> else None)"
| "wrote_prompt c _ j = None"

definition prompt_inv :: "prompt_cache \<Rightarrow> bool" where
  "prompt_inv c \<longleftrightarrow> prompt_ok c \<and> within_budget c \<and> pc_max_entry c \<le> pc_max_bytes c \<and> 0 < pc_max_entry c"

lemma cut_of_inv:
  "prompt_inv c \<Longrightarrow> cut_of d c \<Longrightarrow> within_budget d \<Longrightarrow> prompt_inv d"
  by (auto simp: prompt_inv_def cut_of_def)

lemma cut_of_lookup:
  "prompt_ok c \<Longrightarrow> cut_of d c \<Longrightarrow> map_of (prompt_abs d) k = Some v \<Longrightarrow> map_of (prompt_abs c) k = Some v"
  unfolding cut_of_def prompt_ok_def by (metis lru_ok_keys map_of_takeD)

text \<open>An accepted store: the sweep, the entry at the front of the list, then the budget.\<close>

lemma prompt_set_step:
  assumes "prompt_inv c" "accepts c k body"
    and e_def: "e = \<lparr>pe_model = m, pe_ctype = ct, pe_status = st, pe_body = body, pe_stream = stream,
                 pe_created = now, pe_expires = now + pc_ttl c\<rparr>"
  obtains d where "prompt_set k m ct st body stream now c = enforce_budget d" "prompt_ok d"
    "prompt_abs d = (k, e) # AList.delete k (prompt_abs (sweep_expired now c))"
    "pc_max_bytes d = pc_max_bytes c" "pc_max_entry d = pc_max_entry c" "pc_ttl d = pc_ttl c"
proof -
  let ?s = "sweep_expired now c"
  have cut: "cut_of ?s c" using assms(1) by (intro sweep_expired_cut) (simp add: prompt_inv_def)
  then have s: "prompt_ok ?s" "lru_ok (pc_lru ?s)" "pc_ttl ?s = pc_ttl c" by (auto simp: cut_of_def prompt_ok_def)
  have set: "prompt_set k m ct st body stream now c =
     (case lru_find k (pc_lru ?s) of
        Some (el, old) \<Rightarrow> enforce_budget (?s\<lparr>pc_lru := lru_write el e (lru_front el (pc_lru ?s)),
            pc_bytes := pc_bytes ?s + (int (length body) - body_size old)\<rparr>)
      | None \<Rightarrow> enforce_budget (?s\<lparr>pc_lru := lru_push k e (pc_lru ?s), pc_bytes := pc_bytes ?s + int (length body)\<rparr>))"
    using assms(2) by (simp add: prompt_set_def accepts_def Let_def e_def s(3) split: option.split)
  have e: "body_size e = int (length body)" by (simp add: e_def body_size_def)
  show thesis
  proof (rule lru_findE[OF s(2), of k])
    assume k: "lru_find k (pc_lru ?s) = None" "k \<notin> fst ` set (prompt_abs ?s)"
    show thesis
      by (rule that, unfold set k(1) option.case, rule refl)
        (use k s cut e in \<open>simp_all add: prompt_ok_def lru_push_ok lru_push_abs delete_idem cut_of_def\<close>)
  next
    fix el old assume k: "lru_find k (pc_lru ?s) = Some (el, old)" "(el, k, old) \<in> set (lr_list (pc_lru ?s))"
      "map_of (prompt_abs ?s) k = Some old"
    have front: "lru_ok (lru_front el (pc_lru ?s))" "(el, k, old) \<in> set (lr_list (lru_front el (pc_lru ?s)))"
      using lru_front_ok[OF s(2), of el] lru_elem[OF s(2) k(2)] by (simp, simp add: lru_front_def)
    show thesis
      by (rule that, unfold set k(1) option.case prod.case, rule refl)
        (use s cut e total_bytes_delete[OF lru_ok_keys[OF s(2)] k(3)] in
          \<open>simp_all add: prompt_ok_def lru_write_abs[OF front] lru_write_ok[OF front(1)] lru_front_abs[OF s(2) k(2)] cut_of_def\<close>)
  qed
qed

lemma prompt_set_inv:
  assumes "prompt_inv c"
  shows "prompt_inv (prompt_set k m ct st body stream now c)"
proof (cases "accepts c k body")
  case True
  obtain d where d: "prompt_set k m ct st body stream now c = enforce_budget d" "prompt_ok d"
    "pc_max_bytes d = pc_max_bytes c" "pc_max_entry d = pc_max_entry c"
    using prompt_set_step[OF assms True refl] by metis
  then show ?thesis using enforce_budget_cut[OF d(2)] assms by (auto simp: prompt_inv_def cut_of_def)
next
  case False
  then show ?thesis using assms by (auto simp: prompt_set_def accepts_def)
qed

lemma prompt_get_cases:
  assumes "prompt_ok c"
  obtains (miss) "prompt_get k now c = (None, c\<lparr>pc_misses := pc_misses c + 1\<rparr>)" "map_of (prompt_abs c) k = None"
  | (stale) el e where "prompt_get k now c = (None, (evict_element el c)\<lparr>pc_misses := pc_misses c + 1\<rparr>)"
      "now > pe_expires e" "(el, k, e) \<in> set (lr_list (pc_lru c))" "map_of (prompt_abs c) k = Some e"
  | (hit) el e where "prompt_get k now c = (Some e, c\<lparr>pc_lru := lru_front el (pc_lru c), pc_hits := pc_hits c + 1\<rparr>)"
      "now \<le> pe_expires e" "(el, k, e) \<in> set (lr_list (pc_lru c))" "map_of (prompt_abs c) k = Some e"
proof -
  have ok: "lru_ok (pc_lru c)" using assms by (simp add: prompt_ok_def)
  show thesis
  proof (rule lru_findE[OF ok, of k])
    fix el e assume k: "lru_find k (pc_lru c) = Some (el, e)" "(el, k, e) \<in> set (lr_list (pc_lru c))"
      "map_of (prompt_abs c) k = Some e"
    then show thesis using stale hit by (cases "now > pe_expires e") (auto simp: prompt_get_def)
  qed (use miss in \<open>simp add: prompt_get_def\<close>)
qed

lemma prompt_get_inv:
  assumes "prompt_inv c"
  shows "prompt_inv (snd (prompt_get k now c))"
    and "map_of (prompt_abs (snd (prompt_get k now c))) j = Some v \<Longrightarrow> map_of (prompt_abs c) j = Some v"
proof -
  have ok: "prompt_ok c" "lru_ok (pc_lru c)" using assms by (simp_all add: prompt_inv_def prompt_ok_def)
  have "prompt_inv (snd (prompt_get k now c)) \<and>
    (map_of (prompt_abs (snd (prompt_get k now c))) j = Some v \<longrightarrow> map_of (prompt_abs c) j = Some v)"
  proof (rule prompt_get_cases[OF ok(1), of k now])
    fix el e assume g: "prompt_get k now c = (None, (evict_element el c)\<lparr>pc_misses := pc_misses c + 1\<rparr>)"
      "(el, k, e) \<in> set (lr_list (pc_lru c))" "map_of (prompt_abs c) k = Some e"
    have "length (AList.delete k (prompt_abs c)) \<le> length (prompt_abs c)" by (rule length_delete_le)
    moreover have "total_bytes (AList.delete k (prompt_abs c)) \<le> total_bytes (prompt_abs c)"
      using total_bytes_delete[OF lru_ok_keys[OF ok(2)] g(3)] by simp
    ultimately show ?thesis using g evict_element_abs[OF ok(1) g(2)] assms
      by (simp add: prompt_inv_def within_budget_def prompt_ok_def lru_len_abs)
  next
    fix el e assume g: "prompt_get k now c = (Some e, c\<lparr>pc_lru := lru_front el (pc_lru c), pc_hits := pc_hits c + 1\<rparr>)"
      "(el, k, e) \<in> set (lr_list (pc_lru c))" "map_of (prompt_abs c) k = Some e"
    have k: "k \<in> fst ` set (prompt_abs c)" using g(3) by (force dest: map_of_SomeD)
    have "total_bytes ((k, e) # AList.delete k (prompt_abs c)) = total_bytes (prompt_abs c)"
      using total_bytes_delete[OF lru_ok_keys[OF ok(2)] g(3)] by simp
    moreover have "map_of ((k, e) # AList.delete k (prompt_abs c)) = map_of (prompt_abs c)"
      using g(3) by (simp add: fun_eq_iff)
    ultimately show ?thesis using g lru_front_abs[OF ok(2) g(2)] lru_front_ok[OF ok(2)] assms delete_shrinks[OF k]
      by (simp add: prompt_inv_def within_budget_def prompt_ok_def lru_len_abs)
  qed (use assms in \<open>simp add: prompt_inv_def within_budget_def prompt_ok_def\<close>)
  then show "prompt_inv (snd (prompt_get k now c))"
    "map_of (prompt_abs (snd (prompt_get k now c))) j = Some v \<Longrightarrow> map_of (prompt_abs c) j = Some v" by blast+
qed

lemma prompt_set_content:
  assumes "prompt_inv c" "map_of (prompt_abs (prompt_set k m ct st body stream now c)) j = Some v"
  shows "case wrote_prompt c (PSet k m ct st body stream now) j of Some w \<Rightarrow> v = w | None \<Rightarrow> map_of (prompt_abs c) j = Some v"
proof (cases "accepts c k body")
  case True
  have ok: "prompt_ok c" using assms(1) by (simp add: prompt_inv_def)
  obtain d e where d: "prompt_set k m ct st body stream now c = enforce_budget d" "prompt_ok d"
    "prompt_abs d = (k, e) # AList.delete k (prompt_abs (sweep_expired now c))"
    "e = \<lparr>pe_model = m, pe_ctype = ct, pe_status = st, pe_body = body, pe_stream = stream,
                 pe_created = now, pe_expires = now + pc_ttl c\<rparr>"
    using prompt_set_step[OF assms(1) True refl] by metis
  have "map_of (prompt_abs d) j = Some v"
    using cut_of_lookup[OF d(2) enforce_budget_cut[OF d(2), THEN conjunct1]] assms(2) d(1) by simp
  then show ?thesis
    using True d(3,4) cut_of_lookup[OF ok sweep_expired_cut[OF ok, of now]] by (auto split: if_splits)
next
  case False
  then show ?thesis using assms(2) by (auto simp: prompt_set_def accepts_def split: if_splits)
qed

interpretation prompt: keyed_cache exec_prompt prompt_inv "\<lambda>c. map_of (prompt_abs c)" wrote_prompt
proof
  fix c x k v assume inv: "prompt_inv c"
  have "prompt_inv (prompt_clear c)"
    using inv by (simp add: prompt_clear_def prompt_inv_def prompt_ok_def within_budget_def lru_len_abs)
  then show "prompt_inv (exec_prompt x c)"
    by (cases x) (simp_all add: prompt_set_inv[OF inv] prompt_get_inv(1)[OF inv])
  assume "map_of (prompt_abs (exec_prompt x c)) k = Some v"
  then show "case wrote_prompt c x k of Some w \<Rightarrow> v = w | None \<Rightarrow> map_of (prompt_abs c) k = Some v"
    using prompt_set_content[OF inv] prompt_get_inv(2)[OF inv] by (cases x) (simp_all add: prompt_clear_def)
qed

section \<open>Properties\<close>

lemma new_prompt_cache_inv [simp]: "prompt_inv (new_prompt_cache cfg t0)"
  by (simp add: new_prompt_cache_def prompt_inv_def prompt_ok_def within_budget_def Let_def lru_len_abs
      default_max_bytes_def default_max_entry_bytes_def)

lemma new_prompt_cache_empty [simp]: "prompt_abs (new_prompt_cache cfg t0) = []"
  by (simp add: new_prompt_cache_def Let_def)

text \<open>C36: The cache never outgrows its budget: after any sequence of stores, lookups and flushes it
  holds at most its capacity of entries, its byte count is exactly the total length of the bodies it
  retains, and that total is within the byte budget.\<close>
theorem prompt_cache_within_budget:
  "let c = fold exec_prompt ops (new_prompt_cache cfg t0)
   in lru_len (pc_lru c) \<le> pc_capacity c \<and> pc_bytes c \<le> pc_max_bytes c \<and>
      pc_bytes c = sum_list (map (\<lambda>x. int (length (pe_body (snd x)))) (lru_abs (pc_lru c)))"
proof -
  have "prompt_inv (fold exec_prompt ops (new_prompt_cache cfg t0))" by (rule prompt.inv_fold) simp
  then show ?thesis
    by (simp add: Let_def prompt_inv_def within_budget_def prompt_ok_def total_bytes_def comp_def body_size_def)
qed

text \<open>A hit replays the right response: whatever was stored, read and flushed before, a lookup
  returns the entry of the last accepted store under its key, and only while that entry has not
  outlived the time to live.\<close>
theorem prompt_hit_is_last_store:
  assumes "fst (prompt_get k now (fold exec_prompt ops (new_prompt_cache cfg t0))) = Some e"
  shows "last_write exec_prompt wrote_prompt k ops (new_prompt_cache cfg t0) None = Some e \<and> now \<le> pe_expires e"
proof -
  let ?c = "fold exec_prompt ops (new_prompt_cache cfg t0)"
  have "prompt_inv ?c" by (rule prompt.inv_fold) simp
  then have "prompt_ok ?c" by (simp add: prompt_inv_def)
  then have "map_of (prompt_abs ?c) k = Some e \<and> now \<le> pe_expires e"
    by (rule prompt_get_cases[of _ k now]) (use assms in auto)
  then show ?thesis by (auto intro!: prompt.content_is_last_write)
qed

definition demo_prompt_ops :: "prompt_op list" where
  "demo_prompt_ops = [PSet ''k'' ''m'' ''json'' 200 ''old'' False 1, PSet ''j'' ''m'' ''json'' 200 ''other'' False 2,
     PSet ''k'' ''m'' ''json'' 200 ''new'' False 3, PGet ''j'' 4]"

definition demo_prompt_config :: pc_config where
  "demo_prompt_config = \<lparr>pg_capacity = 2, pg_ttl = 10, pg_max_bytes = 8, pg_max_entry = 6\<rparr>"

lemma prompt_hit_is_last_store_witness:
  "\<exists>e. fst (prompt_get ''k'' 13 (fold exec_prompt demo_prompt_ops (new_prompt_cache demo_prompt_config 0))) = Some e \<and>
     pe_body e = ''new'' \<and> 13 \<le> pe_expires e"
proof -
  let ?g = "fst (prompt_get ''k'' 13 (fold exec_prompt demo_prompt_ops (new_prompt_cache demo_prompt_config 0)))"
  have "map_option pe_body ?g = Some ''new''" by code_simp
  then obtain e where e: "?g = Some e" "pe_body e = ''new''" by auto
  then show ?thesis using prompt_hit_is_last_store[OF e(1)] by blast
qed

text \<open>What is accepted is served: after any history, a response within the size limit is returned
  by a lookup that follows its store within the time to live; the evictions it causes never take it
  out itself.\<close>
theorem stored_prompt_is_served:
  assumes "c = fold exec_prompt ops (new_prompt_cache cfg t0)" "k \<noteq> []" "body \<noteq> []"
    and "int (length body) \<le> max_entry_bytes c" "now' \<le> now + pc_ttl c"
  shows "map_option (\<lambda>e. (pe_model e, pe_ctype e, pe_status e, pe_body e))
           (fst (prompt_get k now' (prompt_set k m ct st body stream now c))) = Some (m, ct, st, body)"
proof -
  have inv: "prompt_inv c" unfolding assms(1) by (rule prompt.inv_fold) simp
  have acc: "accepts c k body" using assms(2-4) by (simp add: accepts_def)
  obtain d e where d: "prompt_set k m ct st body stream now c = enforce_budget d" "prompt_ok d"
    "prompt_abs d = (k, e) # AList.delete k (prompt_abs (sweep_expired now c))"
    "e = \<lparr>pe_model = m, pe_ctype = ct, pe_status = st, pe_body = body, pe_stream = stream,
                 pe_created = now, pe_expires = now + pc_ttl c\<rparr>"
    "pc_max_bytes d = pc_max_bytes c"
    using prompt_set_step[OF inv acc refl] by metis
  have "body_size e \<le> pc_max_bytes d"
    using acc inv d(4,5) by (simp add: accepts_def body_size_def max_entry_bytes_def prompt_inv_def)
  then obtain ys where "prompt_abs (enforce_budget d) = (k, e) # ys"
    using enforce_budget_front[OF d(2,3)] by blast
  then have look: "map_of (prompt_abs (enforce_budget d)) k = Some e" by simp
  have "prompt_ok (enforce_budget d)" using enforce_budget_cut[OF d(2)] by (simp add: cut_of_def)
  then have "fst (prompt_get k now' (enforce_budget d)) = Some e"
    by (rule prompt_get_cases[of _ k now']) (use look assms(5) d(4) in auto)
  then show ?thesis using d(1,4) by simp
qed

lemma stored_prompt_is_served_witness:
  "\<exists>c. c = fold exec_prompt demo_prompt_ops (new_prompt_cache demo_prompt_config 0) \<and>
     map_option (\<lambda>e. (pe_model e, pe_ctype e, pe_status e, pe_body e))
       (fst (prompt_get ''x'' 20 (prompt_set ''x'' ''m'' ''json'' 200 ''sixsix'' False 10 c))) = Some (''m'', ''json'', 200, ''sixsix'')"
proof -
  let ?c = "fold exec_prompt demo_prompt_ops (new_prompt_cache demo_prompt_config 0)"
  have "max_entry_bytes ?c = 6" "pc_ttl ?c = 10" by code_simp+
  then show ?thesis using stored_prompt_is_served[OF refl, of "''x''" "''sixsix''" demo_prompt_ops demo_prompt_config 0 20 10] by simp
qed

section \<open>What the sweep and the key miss\<close>

text \<open>
  The sweep stops at the first live entry from the back, but a hit moves an entry to the front
  without renewing it: an expired entry in front of a live one survives the sweep.
\<close>

lemma sweep_leaves_expired:
  "let c = fold exec_prompt [PSet ''a'' ''m'' ''json'' 200 ''x'' False 0, PSet ''b'' ''m'' ''json'' 200 ''y'' False (2 * minute),
       PGet ''a'' (3 * minute)]
       (new_prompt_cache \<lparr>pg_capacity = 9, pg_ttl = 4 * minute, pg_max_bytes = 9, pg_max_entry = 9\<rparr> 0)
   in map (\<lambda>x. (fst x, pe_expires (snd x) < 5 * minute)) (lru_abs (pc_lru (sweep_expired (5 * minute) c)))
      = [(''a'', True), (''b'', False)]"
  by code_simp

text \<open>A request field that is not one of the six, such as the tool choice, is not part of the key.\<close>

lemma hash_ignores_other_fields:
  "parse body = parse body' \<Longrightarrow> hash_request sha parse m body = hash_request sha parse m body'"
  by (simp add: hash_request_def)

end
