(* ===== verification/KeyCache.thy ===== *)
theory KeyCache
  imports CacheBase GoStrings
begin

text \<open>
  API-key authentication: the cache of verified rows of \<open>internal/keikey/cache.go\<close> and the
  middleware of \<open>internal/middleware/auth.go\<close> that fills it. SHA-256, argon2id, the parsing of a
  time stamp and the two database reads are parameters. Only the columns the middleware reads are
  part of a row.
\<close>

section \<open>The cache of verified keys\<close>

record 'r key_cache =
  kc_entries :: "(string \<times> 'r \<times> instant) list"
  kc_ttl :: duration
  kc_max :: int
  kc_order :: "string list"

definition cache_capacity :: int where
  "cache_capacity = 256"

definition cache_ttl :: duration where
  "cache_ttl = 5 * second"

definition new_key_cache :: "duration \<Rightarrow> int \<Rightarrow> 'r key_cache" where
  "new_key_cache ttl cap = \<lparr>kc_entries = [], kc_ttl = (if ttl \<le> 0 then cache_ttl else ttl),
     kc_max = (if cap \<le> 0 then cache_capacity else cap), kc_order = []\<rparr>"

definition default_auth_cache :: "'r key_cache" where
  "default_auth_cache = new_key_cache cache_ttl cache_capacity"

definition kc_remove :: "string \<Rightarrow> 'r key_cache \<Rightarrow> 'r key_cache" where
  "kc_remove k c = c\<lparr>kc_entries := AList.delete k (kc_entries c), kc_order := remove1 k (kc_order c)\<rparr>"

definition kc_get :: "string \<Rightarrow> instant \<Rightarrow> 'r key_cache \<Rightarrow> 'r option \<times> 'r key_cache" where
  "kc_get k now c =
     (if k = [] then (None, c)
      else case map_of (kc_entries c) k of
             None \<Rightarrow> (None, c)
           | Some (r, ex) \<Rightarrow> if now > ex then (None, kc_remove k c) else (Some r, c))"

text \<open>The second loop of \<open>evictLocked\<close>.\<close>

fun drop_oldest :: "int \<Rightarrow> string list \<Rightarrow> (string \<times> 'v) list \<Rightarrow> string list \<times> (string \<times> 'v) list" where
  "drop_oldest mx [] es = ([], es)"
| "drop_oldest mx (k # ks) es =
     (if int (length es) > mx then drop_oldest mx ks (AList.delete k es) else (k # ks, es))"

definition kc_stale :: "instant \<Rightarrow> 'r key_cache \<Rightarrow> string \<Rightarrow> bool" where
  "kc_stale now c k = (case map_of (kc_entries c) k of None \<Rightarrow> True | Some (r, ex) \<Rightarrow> now > ex)"

definition kc_evict :: "instant \<Rightarrow> 'r key_cache \<Rightarrow> 'r key_cache" where
  "kc_evict now c =
     (let live = filter (\<lambda>k. \<not> kc_stale now c k) (kc_order c);
          entries = filter (\<lambda>e. \<not> (fst e \<in> set (kc_order c) \<and> kc_stale now c (fst e))) (kc_entries c);
          (ord, entries) = drop_oldest (kc_max c) live entries
      in c\<lparr>kc_order := ord, kc_entries := entries\<rparr>)"

definition kc_set :: "string \<Rightarrow> 'r \<Rightarrow> instant \<Rightarrow> 'r key_cache \<Rightarrow> 'r key_cache" where
  "kc_set k r now c =
     (if k = [] then c
      else kc_evict now (c\<lparr>
             kc_order := (if map_of (kc_entries c) k = None then kc_order c @ [k] else kc_order c),
             kc_entries := AList.update k (r, now + kc_ttl c) (kc_entries c)\<rparr>))"

definition kc_len :: "'r key_cache \<Rightarrow> int" where
  "kc_len c = int (length (kc_entries c))"

text \<open>\<open>row_id\<close> is \<open>None\<close> for a cached value that is not a row.\<close>

definition kc_invalidate :: "('r \<Rightarrow> string option) \<Rightarrow> string \<Rightarrow> 'r key_cache \<Rightarrow> 'r key_cache" where
  "kc_invalidate row_id i c =
     (if i = [] then c
      else fold (\<lambda>(k, r, _) c. if row_id r = Some i then kc_remove k c else c) (kc_entries c) c)"

section \<open>The middleware\<close>

record auth_row =
  ar_id :: string
  ar_hash :: "string option"
  ar_active :: int
  ar_expires :: "string option"

text \<open>The headers, path and query of a request that \<open>ExtractApiKey\<close> reads; absent is empty.\<close>

record auth_request =
  rq_authorization :: string
  rq_x_api_key :: string
  rq_path :: string
  rq_query_key :: string
  rq_query_api_key :: string

definition extract_api_key :: "auth_request \<Rightarrow> string" where
  "extract_api_key q =
     (let fallback =
        (if rq_x_api_key q \<noteq> [] then rq_x_api_key q
         else if has_suffix ''/stream'' (rq_path q)
         then (if rq_query_key q \<noteq> [] then rq_query_key q
               else if rq_query_api_key q \<noteq> [] then rq_query_api_key q else [])
         else [])
      in case index_byte (CHR '' '') (rq_authorization q) of
           None \<Rightarrow> fallback
         | Some i \<Rightarrow>
             (if to_lower (take i (rq_authorization q)) = ''bearer''
              then trim_space (drop (Suc i) (rq_authorization q)) else fallback))"

text \<open>What the middleware is given: hash, verifier, time parser, and the two reads of the repository.\<close>

record auth_env =
  ae_lookup :: "string \<Rightarrow> string"
  ae_verify :: "string \<Rightarrow> string \<Rightarrow> bool"
  ae_time :: "string \<Rightarrow> instant option"
  ae_by_key :: "string \<Rightarrow> string + auth_row option"
  ae_by_lookup :: "string \<Rightarrow> string + auth_row option"

definition resolve_api_key ::
  "auth_env \<Rightarrow> string \<Rightarrow> string \<Rightarrow> instant \<Rightarrow> auth_row key_cache \<Rightarrow> (string + auth_row option) \<times> auth_row key_cache" where
  "resolve_api_key env lookup plain now c =
     (case kc_get lookup now c of
        (Some r, c) \<Rightarrow> (Inr (Some r), c)
      | (None, c) \<Rightarrow>
          ((case ae_by_key env plain of
              Inl err \<Rightarrow> Inl err
            | Inr None \<Rightarrow> ae_by_lookup env lookup
            | Inr (Some r) \<Rightarrow> Inr (Some r)), c))"

definition verify_api_key :: "auth_env \<Rightarrow> string \<Rightarrow> auth_row \<Rightarrow> bool" where
  "verify_api_key env plain r =
     (case ar_hash r of None \<Rightarrow> True | Some h \<Rightarrow> h = [] \<or> ae_verify env plain h)"

definition key_expired :: "auth_env \<Rightarrow> instant \<Rightarrow> auth_row \<Rightarrow> bool" where
  "key_expired env now r =
     (case ar_expires r of
        None \<Rightarrow> False
      | Some s \<Rightarrow> s \<noteq> [] \<and> (case ae_time env s of None \<Rightarrow> False | Some t \<Rightarrow> now > t))"

datatype auth_result =
    NoKey | LookupFailed | InvalidKey | InactiveKey | ExpiredKey | Served auth_row

definition require_api_key :: "auth_env \<Rightarrow> auth_request \<Rightarrow> instant \<Rightarrow> auth_row key_cache \<Rightarrow> auth_result \<times> auth_row key_cache" where
  "require_api_key env q now c =
     (let plain = extract_api_key q
      in if plain = [] then (NoKey, c)
         else let lookup = ae_lookup env plain in
           case resolve_api_key env lookup plain now c of
             (Inl _, c) \<Rightarrow> (LookupFailed, c)
           | (Inr None, c) \<Rightarrow> (InvalidKey, c)
           | (Inr (Some r), c) \<Rightarrow>
               (if \<not> verify_api_key env plain r then (InvalidKey, c)
                else (let c = (if lookup \<noteq> [] then kc_set lookup r now c else c)
                      in (if ar_active r \<noteq> 1 then InactiveKey
                          else if key_expired env now r then ExpiredKey else Served r, c))))"

section \<open>Well-formedness\<close>

definition kc_ok :: "'r key_cache \<Rightarrow> bool" where
  "kc_ok c \<longleftrightarrow> is_map (kc_entries c) \<and> distinct (kc_order c) \<and> set (kc_order c) = fst ` set (kc_entries c) \<and>
     int (length (kc_entries c)) \<le> kc_max c \<and> 0 < kc_max c"

definition kc_content :: "'r key_cache \<Rightarrow> string \<Rightarrow> ('r \<times> instant) option" where
  "kc_content c k = map_of (kc_entries c) k"

lemma new_key_cache_ok [simp]: "kc_ok (new_key_cache ttl cap)" "kc_content (new_key_cache ttl cap) k = None"
  by (simp_all add: new_key_cache_def kc_ok_def kc_content_def cache_capacity_def)

lemma kc_remove_ok: "kc_ok c \<Longrightarrow> kc_ok (kc_remove k c)"
  using length_delete_le[of k "kc_entries c"] by (auto simp: kc_ok_def kc_remove_def)

lemma kc_remove_content: "kc_content (kc_remove k c) j = (if j = k then None else kc_content c j)"
  by (simp add: kc_content_def kc_remove_def)

text \<open>The eviction loop removes a prefix of the order and the entries it names.\<close>

lemma drop_oldest_spec:
  assumes "is_map es" "distinct ks" "set ks = fst ` set es" "0 \<le> mx" "drop_oldest mx ks es = (ks', es')"
  shows "is_map es' \<and> distinct ks' \<and> set ks' = fst ` set es' \<and> int (length es') \<le> mx \<and>
    (\<forall>k. map_of es' k = None \<or> map_of es' k = map_of es k)"
  using assms
proof (induction mx ks es rule: drop_oldest.induct)
  case (2 mx k ks es)
  show ?case
  proof (cases "int (length es) > mx")
    case True
    have "set ks = fst ` set (AList.delete k es)" using 2(3,4) by auto
    then have "is_map es' \<and> distinct ks' \<and> set ks' = fst ` set es' \<and> int (length es') \<le> mx \<and>
        (\<forall>j. map_of es' j = None \<or> map_of es' j = map_of (AList.delete k es) j)"
      using 2(1)[OF True] 2(2-6) True by simp
    then show ?thesis by (metis fun_upd_apply map_of_delete)
  next
    case False
    then have "ks' = k # ks" "es' = es" using 2(6) by auto
    then show ?thesis using 2(2-4) False by simp
  qed
qed simp

lemma drop_oldest_fits: "int (length es) \<le> mx \<Longrightarrow> drop_oldest mx ks es = (ks, es)"
  by (cases ks) auto

lemma kc_evict_ok:
  assumes "is_map (kc_entries c)" "distinct (kc_order c)" "set (kc_order c) = fst ` set (kc_entries c)" "0 < kc_max c"
  shows "kc_ok (kc_evict now c)"
    and "kc_content (kc_evict now c) k = None \<or> kc_content (kc_evict now c) k = kc_content c k"
proof -
  let ?live = "filter (\<lambda>k. \<not> kc_stale now c k) (kc_order c)"
  let ?es = "filter (\<lambda>e. \<not> (fst e \<in> set (kc_order c) \<and> kc_stale now c (fst e))) (kc_entries c)"
  obtain ks es where d: "drop_oldest (kc_max c) ?live ?es = (ks, es)" by fastforce
  have "is_map ?es" using assms(1) by (simp add: distinct_map_filter)
  moreover have "set ?live = fst ` set ?es" using assms(3) by (auto simp: image_iff)
  ultimately have s: "is_map es \<and> distinct ks \<and> set ks = fst ` set es \<and> int (length es) \<le> kc_max c \<and>
    (\<forall>k. map_of es k = None \<or> map_of es k = map_of ?es k)"
    using drop_oldest_spec[OF _ _ _ _ d] assms(2,4) by simp
  have "map_of ?es k = None \<or> map_of ?es k = map_of (kc_entries c) k"
    using assms(1) by (cases "map_of ?es k") (auto dest!: map_of_SomeD)
  then show "kc_ok (kc_evict now c)"
    "kc_content (kc_evict now c) k = None \<or> kc_content (kc_evict now c) k = kc_content c k"
    using s d assms(4) by (auto simp: kc_evict_def kc_ok_def kc_content_def)
qed

lemma kc_evict_config [simp]: "kc_ttl (kc_evict now c) = kc_ttl c" "kc_max (kc_evict now c) = kc_max c"
  by (simp_all add: kc_evict_def case_prod_unfold Let_def)

lemma kc_set_ok: "kc_ok c \<Longrightarrow> kc_ok (kc_set k r now c)"
proof -
  assume "kc_ok c"
  then have "kc_ok (kc_evict now (c\<lparr>
       kc_order := (if map_of (kc_entries c) k = None then kc_order c @ [k] else kc_order c),
       kc_entries := AList.update k (r, now + kc_ttl c) (kc_entries c)\<rparr>))"
    by (intro kc_evict_ok(1)) (auto simp: kc_ok_def map_of_eq_None_iff)
  then show ?thesis using \<open>kc_ok c\<close> by (simp add: kc_set_def)
qed

lemma kc_set_content:
  assumes "kc_ok c" "kc_content (kc_set k r now c) j = Some v"
  shows "if k \<noteq> [] \<and> j = k then v = (r, now + kc_ttl c) else kc_content c j = Some v"
proof (cases "k = []")
  case False
  let ?c = "c\<lparr>kc_order := (if map_of (kc_entries c) k = None then kc_order c @ [k] else kc_order c),
             kc_entries := AList.update k (r, now + kc_ttl c) (kc_entries c)\<rparr>"
  have "kc_content (kc_evict now ?c) j = None \<or> kc_content (kc_evict now ?c) j = kc_content ?c j"
    using assms(1) by (intro kc_evict_ok(2)) (auto simp: kc_ok_def map_of_eq_None_iff)
  then show ?thesis using assms(2) False by (auto simp: kc_set_def kc_content_def split: if_splits)
qed (use assms in \<open>simp add: kc_set_def\<close>)

lemma kc_get_cases:
  "kc_get k now c = (None, c) \<and> (k = [] \<or> kc_content c k = None) \<or>
   (\<exists>r ex. k \<noteq> [] \<and> kc_content c k = Some (r, ex) \<and>
      kc_get k now c = (if now > ex then (None, kc_remove k c) else (Some r, c)))"
proof (cases "k = [] \<or> map_of (kc_entries c) k = None")
  case False
  then obtain r ex where "map_of (kc_entries c) k = Some (r, ex)" by auto
  then show ?thesis using False by (simp add: kc_get_def kc_content_def)
qed (auto simp: kc_get_def kc_content_def)

lemma fold_kc_remove:
  "kc_content (fold (\<lambda>(k, r, _) c. if P r then kc_remove k c else c) es c) k =
     (if \<exists>r t. (k, r, t) \<in> set es \<and> P r then None else kc_content c k)"
  by (induction es arbitrary: c) (force simp: kc_remove_content)+

lemma kc_invalidate_ok: "kc_ok (c :: 'a key_cache) \<Longrightarrow> kc_ok (kc_invalidate row_id i c)"
proof -
  have "kc_ok c \<Longrightarrow> kc_ok (fold (\<lambda>(k, r, _) c. if row_id r = Some i then kc_remove k c else c) es c)"
    for es :: "(string \<times> 'a \<times> instant) list" and c :: "'a key_cache"
    by (induction es arbitrary: c) (auto simp: kc_remove_ok)
  then show "kc_ok (c :: 'a key_cache) \<Longrightarrow> kc_ok (kc_invalidate row_id i c)" by (simp add: kc_invalidate_def)
qed

lemma kc_invalidate_content:
  assumes "kc_content (kc_invalidate row_id i c) k = Some (r, t)"
  shows "kc_content c k = Some (r, t)" "i \<noteq> [] \<Longrightarrow> row_id r \<noteq> Some i"
proof -
  have c: "kc_content c k = Some (r, t)" using assms by (auto simp: kc_invalidate_def fold_kc_remove split: if_splits)
  then have "(k, r, t) \<in> set (kc_entries c)" by (simp add: kc_content_def map_of_SomeD)
  then show "kc_content c k = Some (r, t)" "i \<noteq> [] \<Longrightarrow> row_id r \<noteq> Some i"
    using assms c by (auto simp: kc_invalidate_def fold_kc_remove split: if_splits)
qed

section \<open>Histories of the cache\<close>

datatype 'r key_op = KSet string 'r instant | KGet string instant | KInvalidate string

fun exec_key :: "('r \<Rightarrow> string option) \<Rightarrow> 'r key_op \<Rightarrow> 'r key_cache \<Rightarrow> 'r key_cache" where
  "exec_key row_id (KSet k r now) c = kc_set k r now c"
| "exec_key row_id (KGet k now) c = snd (kc_get k now c)"
| "exec_key row_id (KInvalidate i) c = kc_invalidate row_id i c"

fun wrote_key :: "'r key_cache \<Rightarrow> 'r key_op \<Rightarrow> string \<Rightarrow> ('r \<times> instant) option" where
  "wrote_key c (KSet k r now) j = (if k \<noteq> [] \<and> j = k then Some (r, now + kc_ttl c) else None)"
| "wrote_key c _ j = None"

interpretation keys: keyed_cache "exec_key row_id" kc_ok kc_content wrote_key for row_id
proof
  fix c :: "'a key_cache" and x k v
  assume ok: "kc_ok c"
  show "kc_ok (exec_key row_id x c)"
  proof (cases x)
    case (KGet j now)
    then show ?thesis using ok kc_get_cases[of j now c] by (auto simp: kc_remove_ok split: if_splits)
  qed (use ok in \<open>simp_all add: kc_set_ok kc_invalidate_ok\<close>)
  assume v: "kc_content (exec_key row_id x c) k = Some v"
  show "case wrote_key c x k of Some w \<Rightarrow> v = w | None \<Rightarrow> kc_content c k = Some v"
  proof (cases x)
    case (KSet j r now)
    then show ?thesis using kc_set_content[OF ok, of j r now k v] v by (auto split: if_splits)
  next
    case (KGet j now)
    then show ?thesis using v kc_get_cases[of j now c] by (auto simp: kc_remove_content split: if_splits)
  next
    case (KInvalidate i)
    then show ?thesis using v kc_invalidate_content(1)[of row_id i c k] by (cases v) simp
  qed
qed

section \<open>Properties\<close>

lemma exec_key_ttl: "kc_ttl (exec_key row_id x c) = kc_ttl (c :: 'a key_cache)"
proof (cases x)
  case (KGet j now)
  then show ?thesis using kc_get_cases[of j now c] by (auto simp: kc_remove_def split: if_splits)
next
  case (KInvalidate i)
  have "kc_ttl (fold (\<lambda>(k, r, _) c. if row_id r = Some i then kc_remove k c else c) es c) = kc_ttl c"
    for es :: "(string \<times> 'a \<times> instant) list" and c :: "'a key_cache"
    by (induction es arbitrary: c) (auto simp: kc_remove_def)
  then show ?thesis using KInvalidate by (simp add: kc_invalidate_def)
qed (simp add: kc_set_def)

text \<open>A policy write takes effect on the spot: after any history of the cache, once a key id has
  been invalidated no lookup returns a row of that id until a request stores one again, and what
  other lookups return is unchanged.\<close>
theorem invalidated_key_is_gone:
  assumes "c = fold (exec_key row_id) ops (new_key_cache ttl cap)" "i \<noteq> []"
    and "fst (kc_get k now (kc_invalidate row_id i c)) = Some r"
  shows "row_id r \<noteq> Some i \<and> fst (kc_get k now c) = Some r"
proof -
  obtain ex where ex: "k \<noteq> []" "kc_content (kc_invalidate row_id i c) k = Some (r, ex)" "now \<le> ex"
    using assms(3) kc_get_cases[of k now "kc_invalidate row_id i c"] by (auto split: if_splits)
  then show ?thesis
    using kc_invalidate_content[OF ex(2)] assms(2) kc_get_cases[of k now c] by (auto split: if_splits)
qed

lemma invalidated_key_is_gone_witness:
  "let c = fold (exec_key Some) [KSet ''h1'' ''id1'' 0, KSet ''h2'' ''id2'' 1] (new_key_cache 10 4)
   in fst (kc_get ''h2'' 5 (kc_invalidate Some ''id1'' c)) = Some ''id2'' \<and> fst (kc_get ''h2'' 5 c) = Some ''id2'' \<and>
      fst (kc_get ''h1'' 5 (kc_invalidate Some ''id1'' c)) = None"
proof -
  let ?c = "fold (exec_key Some) [KSet ''h1'' ''id1'' 0, KSet ''h2'' ''id2'' 1] (new_key_cache 10 4)"
  have g: "fst (kc_get ''h2'' 5 (kc_invalidate Some ''id1'' ?c)) = Some ''id2''"
    "fst (kc_get ''h1'' 5 (kc_invalidate Some ''id1'' ?c)) = None" by code_simp+
  then show ?thesis using invalidated_key_is_gone[OF refl _ g(1)] by (simp only: Let_def) simp
qed

text \<open>C30: The middleware serves a request only with a row that is active, not expired and whose verifier
  accepts the presented secret, and that row came from the cache under the secret's own hash or from
  one of the two reads for this secret; every other outcome leaves the request unauthenticated.\<close>
theorem served_key_is_verified:
  assumes "fst (require_api_key env q now c) = Served r"
  shows "ar_active r = 1 \<and> \<not> key_expired env now r \<and> verify_api_key env (extract_api_key q) r \<and> extract_api_key q \<noteq> [] \<and>
    (fst (kc_get (ae_lookup env (extract_api_key q)) now c) = Some r \<or>
     ae_by_key env (extract_api_key q) = Inr (Some r) \<or>
     ae_by_key env (extract_api_key q) = Inr None \<and> ae_by_lookup env (ae_lookup env (extract_api_key q)) = Inr (Some r))"
  using assms
  by (auto simp: require_api_key_def resolve_api_key_def Let_def split: if_splits sum.splits option.splits prod.splits)

definition demo_row :: auth_row where
  "demo_row = \<lparr>ar_id = ''id'', ar_hash = None, ar_active = 1, ar_expires = None\<rparr>"

definition demo_env :: "(string + auth_row option) \<Rightarrow> auth_env" where
  "demo_env row = \<lparr>ae_lookup = (\<lambda>s. ''h'' @ s), ae_verify = (\<lambda>_ _. False), ae_time = (\<lambda>_. None),
     ae_by_key = (\<lambda>_. row), ae_by_lookup = (\<lambda>_. Inr None)\<rparr>"

definition demo_auth_request :: auth_request where
  "demo_auth_request = \<lparr>rq_authorization = ''Bearer sk-1'', rq_x_api_key = [], rq_path = ''/v1'',
     rq_query_key = [], rq_query_api_key = []\<rparr>"

lemma served_key_is_verified_witness:
  "fst (require_api_key (demo_env (Inr (Some demo_row))) demo_auth_request 7 (new_key_cache 10 4)) = Served demo_row \<and>
   ar_active demo_row = 1 \<and> verify_api_key (demo_env (Inr (Some demo_row))) ''sk-1'' demo_row"
proof -
  have s: "fst (require_api_key (demo_env (Inr (Some demo_row))) demo_auth_request 7 (new_key_cache 10 4)) = Served demo_row"
    and k: "extract_api_key demo_auth_request = ''sk-1''" by code_simp+
  show ?thesis using served_key_is_verified[OF s] s k by simp
qed

section \<open>A revoked key under steady traffic\<close>

text \<open>Every request stores the row it was given, also a row that came from the cache, so each one
  starts the time to live anew.\<close>

primrec auth_run :: "auth_env \<Rightarrow> auth_request \<Rightarrow> instant list \<Rightarrow> auth_row key_cache \<Rightarrow> auth_result list" where
  "auth_run env q [] c = []"
| "auth_run env q (t # ts) c = (case require_api_key env q t c of (r, c) \<Rightarrow> r # auth_run env q ts c)"

primrec paced :: "duration \<Rightarrow> instant \<Rightarrow> instant list \<Rightarrow> bool" where
  "paced d t0 [] = True"
| "paced d t0 (t # ts) \<longleftrightarrow> t0 \<le> t \<and> t \<le> t0 + d \<and> paced d t ts"

lemma kc_set_hit:
  assumes "kc_ok c" "k \<noteq> []" "kc_content c k = Some (r, ex)" "now \<le> ex" "0 \<le> kc_ttl c"
  shows "kc_content (kc_set k r now c) k = Some (r, now + kc_ttl c)"
proof -
  let ?es = "AList.update k (r, now + kc_ttl c) (kc_entries c)"
  let ?c = "c\<lparr>kc_entries := ?es\<rparr>"
  have k: "k \<in> fst ` set (kc_entries c)" using assms(3) by (force simp: kc_content_def dest: map_of_SomeD)
  then have len: "int (length ?es) \<le> kc_max c" using assms(1) by (simp add: length_update kc_ok_def)
  let ?live = "filter (\<lambda>k. \<not> kc_stale now ?c k) (kc_order c)"
  let ?kept = "filter (\<lambda>e. \<not> (fst e \<in> set (kc_order c) \<and> kc_stale now ?c (fst e))) ?es"
  have "int (length ?kept) \<le> kc_max c" by (rule order_trans[OF _ len]) simp
  then have "kc_entries (kc_evict now ?c) = ?kept" by (simp add: kc_evict_def drop_oldest_fits)
  moreover have "\<not> kc_stale now ?c k" using assms(5) by (simp add: kc_stale_def)
  moreover have "is_map ?kept" using assms(1) by (simp add: distinct_map_filter kc_ok_def)
  moreover have "(k, r, now + kc_ttl c) \<in> set ?es" by (rule map_of_SomeD) simp
  ultimately have "map_of (kc_entries (kc_evict now ?c)) k = Some (r, now + kc_ttl c)"
    by (simp add: map_of_is_SomeI)
  then show ?thesis using assms(2,3) k by (auto simp: kc_set_def kc_content_def)
qed

text \<open>The five-second bound on a cached row does not hold under steady traffic: once a row is in the
  cache, requests that follow each other within the time to live are all served with it, whatever
  the database answers meanwhile, so a key revoked there keeps working as long as it is used.\<close>
theorem revoked_key_outlives_ttl:
  assumes "kc_ok c" "extract_api_key q \<noteq> []" "ae_lookup env (extract_api_key q) \<noteq> []"
    and "kc_content c (ae_lookup env (extract_api_key q)) = Some (r, t0 + kc_ttl c)" "0 \<le> kc_ttl c"
    and "ar_active r = 1" "ar_expires r = None" "verify_api_key env (extract_api_key q) r"
    and "paced (kc_ttl c) t0 ts"
  shows "auth_run env q ts c = map (\<lambda>_. Served r) ts"
  using assms
proof (induction ts arbitrary: c t0)
  case (Cons t ts)
  let ?k = "ae_lookup env (extract_api_key q)"
  have "kc_get ?k t c = (Some r, c)"
    using Cons.prems(3,4,9) by (simp add: kc_get_def kc_content_def)
  then have step: "require_api_key env q t c = (Served r, kc_set ?k r t c)"
    using Cons.prems(2,3,6-8) by (simp add: require_api_key_def resolve_api_key_def key_expired_def Let_def)
  have ttl: "kc_ttl (kc_set ?k r t c) = kc_ttl c" by (simp add: kc_set_def)
  have "kc_content (kc_set ?k r t c) ?k = Some (r, t + kc_ttl (kc_set ?k r t c))"
    unfolding ttl using Cons.prems by (intro kc_set_hit) auto
  then have "auth_run env q ts (kc_set ?k r t c) = map (\<lambda>_. Served r) ts"
    using Cons.prems kc_set_ok[OF Cons.prems(1)] ttl by (intro Cons.IH) auto
  then show ?case using step by simp
qed simp

lemma revoked_key_outlives_ttl_witness:
  "let c = snd (require_api_key (demo_env (Inr (Some demo_row))) demo_auth_request 0 (new_key_cache 5 4))
   in auth_run (demo_env (Inr None)) demo_auth_request [4, 8, 12] c = [Served demo_row, Served demo_row, Served demo_row] \<and>
      fst (require_api_key (demo_env (Inr None)) demo_auth_request 12 c) = InvalidKey"
proof -
  let ?c = "snd (require_api_key (demo_env (Inr (Some demo_row))) demo_auth_request 0 (new_key_cache 5 4))"
  have "?c = kc_set ''hsk-1'' demo_row 0 (new_key_cache 5 4)" by code_simp
  then have ok: "kc_ok ?c" by (simp add: kc_set_ok)
  have facts: "extract_api_key demo_auth_request = ''sk-1''" "ae_lookup (demo_env (Inr None)) ''sk-1'' = ''hsk-1''"
    "kc_content ?c ''hsk-1'' = Some (demo_row, 5)" "kc_ttl ?c = 5"
    "fst (require_api_key (demo_env (Inr None)) demo_auth_request 12 ?c) = InvalidKey" by code_simp+
  have "auth_run (demo_env (Inr None)) demo_auth_request [4, 8, 12] ?c = map (\<lambda>_. Served demo_row) [4, 8, 12 :: instant]"
    by (rule revoked_key_outlives_ttl[OF ok, where ?t0.0 = 0])
      (use facts in \<open>simp_all add: demo_row_def verify_api_key_def\<close>)
  then show ?thesis using facts(5) by (simp add: Let_def)
qed

end
