(* ===== verification/Gateway.thy ===== *)
theory Gateway
  imports Policy RateWindow TokenBucket GoJson
begin

text \<open>
  The rate-limit middleware as a whole: \<open>RequireRateLimit\<close> of
  \<open>internal/middleware/ratelimit.go\<close>, which puts the lifetime quota, the period budget, the token
  bucket and the queue in front of a handler, and the estimator of
  \<open>internal/middleware/ratelimit_tokens.go\<close> that sizes the token charge. The handler is cut where
  it waits in the queue. The stores it reads are parameters, as in the theories it composes.
\<close>

section \<open>Sizing the charge\<close>

text \<open>The decoder yields no value but the six kinds of JSON, so the last branch of the type switch
  never runs.\<close>

fun value_chars :: "json \<Rightarrow> int" where
  "value_chars (JStr s) = int (length s)"
| "value_chars (JNum _) = 4"
| "value_chars (JBool _) = 4"
| "value_chars JNull = 4"
| "value_chars (JArr vs) = sum_list (map value_chars vs)"
| "value_chars (JObj kvs) = sum_list (map (\<lambda>(k, v). int (length k) + value_chars v) kvs)"

definition estimate_from_map :: "(string \<times> json) list option \<Rightarrow> int" where
  "estimate_from_map payload =
     (case payload of
        None \<Rightarrow> 0
      | Some m \<Rightarrow>
          (let count = (\<lambda>key. case map_of m key of None \<Rightarrow> 0 | Some v \<Rightarrow> value_chars v);
               chars = sum_list (map count [''messages'', ''system'', ''tools'', ''input'', ''contents'']);
               chars = (if chars = 0 then chars + count ''prompt'' else chars)
           in if chars = 0 then 0
              else (let tokens = (chars + 3) div 4 in if tokens < 1 then 1 else tokens)))"

text \<open>\<open>decode\<close> is the JSON decoder into a map: \<open>None\<close> is an error, \<open>Some None\<close> a JSON null.\<close>

definition estimate_prompt_tokens :: "(string \<Rightarrow> (string \<times> json) list option option) \<Rightarrow> string \<Rightarrow> int" where
  "estimate_prompt_tokens decode body =
     (if body = [] then 0
      else case decode body of
             None \<Rightarrow> (int (length body) + 3) div 4
           | Some payload \<Rightarrow>
               (let tokens = estimate_from_map payload
                in if tokens = 0 then (int (length body) + 3) div 4 else tokens))"

definition max_token_scan_body :: int where
  "max_token_scan_body = 4194304"

text \<open>A request body: its declared length (\<open>-1\<close> when undeclared) and its bytes, \<open>None\<close> when reading
  fails.\<close>

record request_body =
  rb_length :: int
  rb_bytes :: "string option"

text \<open>The charge, and the body the next handler reads.\<close>

definition prompt_tokens_for_request ::
  "(string \<Rightarrow> (string \<times> json) list option option) \<Rightarrow> request_body option \<Rightarrow> int \<times> request_body option" where
  "prompt_tokens_for_request decode b =
     (case b of
        None \<Rightarrow> (0, None)
      | Some r \<Rightarrow>
          (if rb_length r > max_token_scan_body then (rb_length r div 4 + 1, Some r)
           else case rb_bytes r of
                  None \<Rightarrow> (0, Some r)
                | Some bytes \<Rightarrow>
                    (let body = take (nat max_token_scan_body) bytes
                     in (estimate_prompt_tokens decode body, Some (r\<lparr>rb_bytes := Some body\<rparr>)))))"

section \<open>The middleware\<close>

record limit_env =
  ge_usage :: "(string \<Rightarrow> int option) option"
  ge_spend :: spend_reader
  ge_defaults :: "limits option"
  ge_plans :: plan_source
  ge_zone :: duration

record caller =
  cl_id :: string
  cl_key :: string
  cl_row :: api_key

text \<open>What the middleware does with a request: pass it on, refuse it (402 or 429), or let it wait.\<close>

datatype limit_answer =
    Unmetered
  | QuotaRefused
  | BudgetRefused budget_decision
  | RateRefused string int
  | Waits int limits
  | Proceeds int limits

definition budget_of_request :: "limit_env \<Rightarrow> caller \<Rightarrow> limits \<Rightarrow> instant \<Rightarrow> budget_decision" where
  "budget_of_request env c l now =
     (if \<not> budget_armed (li_budget l) \<or> cl_key c = [] then empty_decision
      else check_budget (ge_zone env) (ge_spend env) (cl_key c) (li_budget l) now)"

definition refuse_queued :: "caller \<Rightarrow> int \<Rightarrow> limits \<Rightarrow> limiter \<Rightarrow> limit_answer \<times> limiter" where
  "refuse_queued c pending l rl =
     (RateRefused (queue_scope l) (queue_retry_after l),
      if pending > 0 then refund_tpm (cl_id c) (li_tpm l) pending rl else rl)"

text \<open>
  The handler up to the point where it answers, passes the request on or waits; \<open>prompt\<close> is the
  size of the request, and the flag is the \<open>X-Budget-Status\<close> header.
\<close>

definition require_rate_limit ::
  "(string list \<Rightarrow> string list) \<Rightarrow> limit_env \<Rightarrow> bool \<Rightarrow> nat \<Rightarrow> caller option \<Rightarrow> int \<Rightarrow> instant \<Rightarrow> limiter \<Rightarrow>
   bool \<times> limit_answer \<times> limiter" where
  "require_rate_limit ord env gone i who prompt now rl =
     (case who of
        None \<Rightarrow> (False, Unmetered, rl)
      | Some c \<Rightarrow>
          (let l = limits_for (cl_row c) (ge_defaults env) (ge_plans env)
           in if quota_exhausted l (cl_key c) (map_option (\<lambda>f. f (cl_key c)) (ge_usage env)) then (False, QuotaRefused, rl)
              else let d = budget_of_request env c l now in
                if dc_refuse d then (False, BudgetRefused d, rl)
                else let pending = (if li_tpm l > 0 then prompt else 0);
                         ((ok, retry, scope), rl) =
                           (if li_tpm l > 0 then check_tpm_only (cl_id c) (li_tpm l) pending now rl
                            else ((True, 0, []), rl)) in
                  if \<not> ok then (dc_alerting d, RateRefused scope retry, rl)
                  else (case acquire_start ord gone i (cl_id c) (li_rpm l) (li_conc l) (li_queue l) now rl of
                          (Queued, _, rl) \<Rightarrow> (dc_alerting d, Waits pending l, rl)
                        | (Admitted, _, rl) \<Rightarrow> (dc_alerting d, Proceeds pending l, rl)
                        | (Refused, _, rl) \<Rightarrow> (dc_alerting d, refuse_queued c pending l rl))))"

text \<open>The end of a wait, and the deferred release once the next handler is done.\<close>

definition rate_limit_resume :: "bool \<Rightarrow> caller \<Rightarrow> int \<Rightarrow> limits \<Rightarrow> limiter \<Rightarrow> limit_answer \<times> limiter" where
  "rate_limit_resume ok c pending l rl = (if ok then (Proceeds pending l, rl) else refuse_queued c pending l rl)"

definition rate_limit_leave :: "(string list \<Rightarrow> string list) \<Rightarrow> caller \<Rightarrow> limits \<Rightarrow> instant \<Rightarrow> limiter \<Rightarrow> limiter" where
  "rate_limit_leave ord c l now rl = (if li_conc l > 0 then snd (release_concurrency ord (cl_id c) now rl) else rl)"

section \<open>What a refusal costs\<close>

text \<open>The balance of a token bucket at an instant: a bucket that does not exist yet is full.\<close>

definition bucket_of :: "int \<Rightarrow> string \<Rightarrow> instant \<Rightarrow> limiter \<Rightarrow> token_bucket" where
  "bucket_of tpm k now rl = (case map_of (rl_tokens rl) k of None \<Rightarrow> \<lparr>tb_tokens = of_int tpm, tb_last = now\<rparr> | Some b \<Rightarrow> b)"

definition token_balance :: "int \<Rightarrow> string \<Rightarrow> instant \<Rightarrow> limiter \<Rightarrow> rat" where
  "token_balance tpm k now rl = tb_tokens (refill rl tpm now (bucket_of tpm k now rl))"

lemma refill_window:
  assumes "rl_window rl' = rl_window rl" shows "refill rl' = refill rl"
proof -
  have r: "refill_rate rl' = refill_rate rl" using assms by (simp add: fun_eq_iff refill_rate_def)
  show ?thesis by (rule ext)+ (simp only: refill_def r)
qed

lemma refill_done:
  assumes "now \<le> tb_last b" shows "refill rl tpm now b = b"
proof -
  have "\<not> 0 < seconds_of (now - tb_last b)" using assms by (simp add: seconds_of_def zero_less_divide_iff second_def)
  then show ?thesis by (simp add: refill_def)
qed

lemma refill_last: "now \<le> tb_last (refill rl tpm now b)"
proof (cases "0 < seconds_of (now - tb_last b)")
  case False
  then have "now - tb_last b \<le> 0" by (simp add: seconds_of_def zero_less_divide_iff not_less)
  then show ?thesis using False by (simp add: refill_def)
qed (simp add: refill_def Let_def)

lemma check_tpm_eq:
  "check_tpm k tpm n now rl =
     (let b = refill rl tpm now (bucket_of tpm k now rl); ok = of_int n \<le> tb_tokens b
      in (ok, rl\<lparr>rl_tokens := AList.update k (if ok then b\<lparr>tb_tokens := tb_tokens b - of_int n\<rparr> else b) (rl_tokens rl)\<rparr>))"
  by (simp add: check_tpm_def bucket_of_def Let_def not_less split: option.split)

lemma token_balance_charged:
  assumes "check_tpm k tpm n now rl = (ok, rl')"
  shows "token_balance tpm k now rl' = token_balance tpm k now rl - (if ok then of_int n else 0)"
    and "rl_window rl' = rl_window rl" "stamps rl' j = stamps rl j" "active_count rl' j = active_count rl j"
proof -
  let ?b = "refill rl tpm now (bucket_of tpm k now rl)"
  have rl': "ok = (of_int n \<le> tb_tokens ?b)"
    "rl' = rl\<lparr>rl_tokens := AList.update k (if ok then ?b\<lparr>tb_tokens := tb_tokens ?b - of_int n\<rparr> else ?b) (rl_tokens rl)\<rparr>"
    using assms by (auto simp: check_tpm_eq Let_def)
  then show w: "rl_window rl' = rl_window rl" "stamps rl' j = stamps rl j" "active_count rl' j = active_count rl j"
    by (simp_all add: stamps_def active_count_def)
  have "now \<le> tb_last (if ok then ?b\<lparr>tb_tokens := tb_tokens ?b - of_int n\<rparr> else ?b)"
    using refill_last[of now rl tpm "bucket_of tpm k now rl"] by simp
  moreover have "bucket_of tpm k now rl' = (if ok then ?b\<lparr>tb_tokens := tb_tokens ?b - of_int n\<rparr> else ?b)"
    unfolding rl'(2) by (simp add: bucket_of_def)
  ultimately show "token_balance tpm k now rl' = token_balance tpm k now rl - (if ok then of_int n else 0)"
    by (simp add: token_balance_def refill_done)
qed

lemma refund_balance:
  assumes "token_balance tpm k now rl + of_int n \<le> of_int tpm" "0 < n" "0 < tpm" "k \<noteq> []"
    and b: "map_of (rl_tokens rl) k = Some b" "now \<le> tb_last b"
  shows "token_balance tpm k now (refund_tpm k tpm n rl) = token_balance tpm k now rl + of_int n"
    and "map_of (rl_tokens (refund_tpm k tpm n rl)) k \<noteq> None"
proof -
  have "token_balance tpm k now rl = tb_tokens b" using b by (simp add: token_balance_def bucket_of_def refill_done)
  with assms have "refund_tpm k tpm n rl = rl\<lparr>rl_tokens := AList.update k (b\<lparr>tb_tokens := tb_tokens b + of_int n\<rparr>) (rl_tokens rl)\<rparr>"
    by (auto simp: refund_tpm_def Let_def)
  then show "token_balance tpm k now (refund_tpm k tpm n rl) = token_balance tpm k now rl + of_int n"
    "map_of (rl_tokens (refund_tpm k tpm n rl)) k \<noteq> None"
    using b by (simp_all add: token_balance_def bucket_of_def refill_done)
qed

lemma acquire_start_refused:
  assumes "acquire_start ord gone i k rpm conc timeout now rl = (Refused, gs, rl')"
  obtains rl1 where "try_admit ord k rpm conc now rl = (False, rl1)" "rl' = rl1 \<or> rl' = set_queue k (waiters rl1 k) rl1"
proof -
  obtain ok rl1 where t: "try_admit ord k rpm conc now rl = (ok, rl1)" by fastforce
  with assms that show thesis
    by (cases ok) (auto simp: acquire_start_def acquire_enqueue_def Let_def split: if_splits)
qed

text \<open>What the limiter keeps for a key, as far as any later decision can see it: the live stamps and
  held slots at \<open>later\<close>, and the balance of its bucket.\<close>

definition account :: "int \<Rightarrow> string \<Rightarrow> instant \<Rightarrow> instant \<Rightarrow> limiter \<Rightarrow> (int \<times> int) \<times> rat" where
  "account tpm k now later rl = (snapshot k later rl, token_balance tpm k now rl)"

lemma refused_start_account:
  assumes "acquire_start ord gone i k rpm conc timeout now rl = (Refused, gs, rl')" "now \<le> later" "k \<noteq> []"
  shows "account tpm k now later rl' = account tpm k now later rl" "rl_tokens rl' = rl_tokens rl"
proof -
  obtain rl1 where t: "try_admit ord k rpm conc now rl = (False, rl1)" "rl' = rl1 \<or> rl' = set_queue k (waiters rl1 k) rl1"
    by (rule acquire_start_refused[OF assms(1)])
  note same = try_admit_refused[OF t(1)]
  have "live (rl_window rl) later (stamps rl1 k) = live (rl_window rl) later (stamps rl k)"
    using same(1)[of k] same(3) live_live[OF assms(2), of "rl_window rl"] by metis
  then have "snapshot k later rl1 = snapshot k later rl" using same assms(3) by (simp add: snapshot_def live_def)
  moreover have "snapshot k later rl' = snapshot k later rl1 \<and> rl_tokens rl' = rl_tokens rl1 \<and> rl_window rl' = rl_window rl1"
    using t(2) by (auto simp: set_queue_def snapshot_def stamps_def active_count_def)
  ultimately show "account tpm k now later rl' = account tpm k now later rl" "rl_tokens rl' = rl_tokens rl"
    using same(3,6) refill_window[of rl' rl] by (simp_all add: account_def token_balance_def bucket_of_def)
qed

lemma charged_account:
  assumes "check_tpm k tpm n now rl = (ok, rl')"
  shows "snapshot k later rl' = snapshot k later rl"
    and "\<exists>b. map_of (rl_tokens rl') k = Some b \<and> now \<le> tb_last b"
proof -
  show "snapshot k later rl' = snapshot k later rl"
    using token_balance_charged(2-4)[OF assms] by (simp add: snapshot_def)
  show "\<exists>b. map_of (rl_tokens rl') k = Some b \<and> now \<le> tb_last b"
    using assms refill_last[of now rl tpm "bucket_of tpm k now rl"] by (auto simp: check_tpm_eq Let_def)
qed

lemma refund_snapshot: "snapshot k later (refund_tpm k tpm n rl) = snapshot k later rl"
  by (auto simp: refund_tpm_def Let_def snapshot_def stamps_def active_count_def split: option.split)

lemma refused_queue_account:
  assumes charge: "check_tpm k tpm n now rl = (True, rl1)" and "0 \<le> n" "0 < tpm" "k \<noteq> []" "now \<le> later"
    and start: "acquire_start ord gone i k rpm conc timeout now rl1 = (Refused, gs, rl2)"
    and "token_balance tpm k now rl \<le> of_int tpm"
  shows "account tpm k now later (if n > 0 then refund_tpm k tpm n rl2 else rl2) = account tpm k now later rl"
proof -
  obtain b where b: "map_of (rl_tokens rl1) k = Some b" "now \<le> tb_last b" using charged_account(2)[OF charge] by blast
  note rl2 = refused_start_account(1)[OF start assms(5,4), of tpm] refused_start_account(2)[OF start assms(5,4)]
  have bal: "token_balance tpm k now rl2 = token_balance tpm k now rl - of_int n"
    using rl2(1) token_balance_charged(1)[OF charge] by (simp add: account_def)
  have "snapshot k later rl2 = snapshot k later rl"
    using rl2(1) charged_account(1)[OF charge] by (simp add: account_def)
  moreover have "token_balance tpm k now (refund_tpm k tpm n rl2) = token_balance tpm k now rl2 + of_int n" if "0 < n"
    using bal b rl2(2) assms(3,4,7) that by (intro refund_balance(1)) auto
  ultimately show ?thesis using bal assms(2) by (auto simp: account_def refund_snapshot)
qed

text \<open>The four ways through the handler.\<close>

abbreviation limits_of :: "limit_env \<Rightarrow> caller \<Rightarrow> limits" where
  "limits_of env c \<equiv> limits_for (cl_row c) (ge_defaults env) (ge_plans env)"

abbreviation over_quota :: "limit_env \<Rightarrow> caller \<Rightarrow> bool" where
  "over_quota env c \<equiv> quota_exhausted (limits_of env c) (cl_key c) (map_option (\<lambda>f. f (cl_key c)) (ge_usage env))"

abbreviation decision_of :: "limit_env \<Rightarrow> caller \<Rightarrow> instant \<Rightarrow> budget_decision" where
  "decision_of env c now \<equiv> budget_of_request env c (limits_of env c) now"

lemma require_rate_limit_early:
  "over_quota env c \<Longrightarrow> require_rate_limit ord env gone i (Some c) prompt now rl = (False, QuotaRefused, rl)"
  "\<not> over_quota env c \<Longrightarrow> dc_refuse (decision_of env c now) \<Longrightarrow>
     require_rate_limit ord env gone i (Some c) prompt now rl = (False, BudgetRefused (decision_of env c now), rl)"
  by (simp_all add: require_rate_limit_def Let_def)

lemma require_rate_limit_low:
  assumes "\<not> over_quota env c" "\<not> dc_refuse (decision_of env c now)" "0 < li_tpm (limits_of env c)"
    and "check_tpm (cl_id c) (li_tpm (limits_of env c)) prompt now rl = (False, rl1)"
  shows "snd (snd (require_rate_limit ord env gone i (Some c) prompt now rl)) = rl1"
  using assms by (simp add: require_rate_limit_def Let_def check_tpm_only_def)

lemma require_rate_limit_start:
  assumes "\<not> over_quota env c" "\<not> dc_refuse (decision_of env c now)"
    and "if 0 < li_tpm (limits_of env c)
         then check_tpm (cl_id c) (li_tpm (limits_of env c)) prompt now rl = (True, rl1) \<and> pending = prompt
         else rl1 = rl \<and> pending = 0"
    and "acquire_start ord gone i (cl_id c) (li_rpm (limits_of env c)) (li_conc (limits_of env c))
           (li_queue (limits_of env c)) now rl1 = (r, gs, rl2)"
  shows "require_rate_limit ord env gone i (Some c) prompt now rl = (dc_alerting (decision_of env c now),
    (case r of Queued \<Rightarrow> (Waits pending (limits_of env c), rl2)
     | Admitted \<Rightarrow> (Proceeds pending (limits_of env c), rl2)
     | Refused \<Rightarrow> refuse_queued c pending (limits_of env c) rl2))"
  using assms by (cases "0 < li_tpm (limits_of env c)"; cases r) (simp_all add: require_rate_limit_def Let_def check_tpm_only_def)

lemma turned_away:
  assumes "(alert, ans, rl') = (a, (case r of Queued \<Rightarrow> (Waits p l, rl2) | Admitted \<Rightarrow> (Proceeds p l, rl2)
      | Refused \<Rightarrow> refuse_queued c p l rl2))"
    and "\<forall>p l. ans \<noteq> Waits p l \<and> ans \<noteq> Proceeds p l"
  shows "r = Refused" "rl' = (if p > 0 then refund_tpm (cl_id c) (li_tpm l) p rl2 else rl2)"
  using assms by (cases r; simp add: refuse_queued_def)+

section \<open>Properties\<close>


text \<open>A key with one request per window and a hundred tokens, whose window is full.\<close>

definition demo_caller :: caller where
  "demo_caller = \<lparr>cl_id = ''k'', cl_key = ''sk'', cl_row = \<lparr>ak_rpm = Some 1, ak_tpm = Some 100, ak_conc = None,
     ak_queue_ms = None, ak_quota = None, ak_plan = None, ak_micros = 0, ak_tokens = 0, ak_period = [],
     ak_alert_pct = 0, ak_hard = False\<rparr>\<rparr>"

definition plain_env :: limit_env where
  "plain_env = \<lparr>ge_usage = None, ge_spend = None, ge_defaults = None, ge_plans = None, ge_zone = 0\<rparr>"

definition busy_limiter :: limiter where
  "busy_limiter = (new_limiter 60)\<lparr>rl_windows := [(''k'', [5])]\<rparr>"

lemma demo_limits: "limits_for (cl_row demo_caller) (ge_defaults plain_env) (ge_plans plain_env) =
  \<lparr>li_rpm = 1, li_tpm = 100, li_conc = 0, li_quota = 0, li_queue = 0,
   li_budget = \<lparr>bl_micros = 0, bl_tokens = 0, bl_period = [], bl_alert_pct = 0, bl_hard = False\<rparr>\<rparr>"
  by code_simp


text \<open>A body of undeclared length that is longer than the scan limit reaches the next handler cut short.\<close>

lemma undeclared_body_is_truncated:
  assumes "rb_length r = -1" "rb_bytes r = Some bytes" "int (length bytes) > max_token_scan_body"
  shows "snd (prompt_tokens_for_request decode (Some r)) = Some (r\<lparr>rb_bytes := Some (take 4194304 bytes)\<rparr>)"
    and "take 4194304 bytes \<noteq> bytes"
proof -
  show "snd (prompt_tokens_for_request decode (Some r)) = Some (r\<lparr>rb_bytes := Some (take 4194304 bytes)\<rparr>)"
    using assms(1,2) by (simp add: prompt_tokens_for_request_def max_token_scan_body_def Let_def)
  have "4194304 < length bytes" using assms(3) by (simp add: max_token_scan_body_def)
  then show "take 4194304 bytes \<noteq> bytes" by (metis length_take min_less_iff_conj nat_less_le order.refl)
qed

end
