(* ===== verification/Rotation.thy ===== *)
theory Rotation
  imports GoStrings
begin

text \<open>
  The order in which a combo tries its members: rotation (\<open>applyComboStrategy\<close>), cheapest first
  (\<open>combo_cascade.go\<close>), members that fit the request first (\<open>ReorderByCapabilities\<close> of
  \<open>combo.go\<close>) and the bench of members that timed out (\<open>combo_timeout.go\<close>), all under
  \<open>internal/handlers/chat\<close>. The price table and the capability table of the providers are
  parameters, and so are the orders computed by the smart and the tokenmaxxing strategy.
\<close>

section \<open>Rotation\<close>

record sticky_state =
  ss_index :: int
  ss_count :: int
  ss_serving :: int

type_synonym sticky_map = "string \<Rightarrow> sticky_state option"

text \<open>The members starting at one of them, the earlier ones behind the last.\<close>

definition rotate_from :: "int \<Rightarrow> 'a list \<Rightarrow> 'a list" where
  "rotate_from start xs = map (\<lambda>i. xs ! nat ((start + int i) mod int (length xs))) [0..<length xs]"

text \<open>The member that owns the turn, and the pointer moved at a turn boundary.\<close>

definition advance_sticky :: "int \<Rightarrow> bool \<Rightarrow> int \<Rightarrow> sticky_state \<Rightarrow> int \<times> sticky_state" where
  "advance_sticky limit new_turn n s =
     (let serving = ss_index s mod n
      in if new_turn
         then (let s = s\<lparr>ss_count := ss_count s + 1\<rparr>;
                   s = (if ss_count s \<ge> limit then s\<lparr>ss_index := (serving + 1) mod n, ss_count := 0\<rparr> else s)
               in (serving, s\<lparr>ss_serving := serving\<rparr>))
         else (ss_serving s, s))"

text \<open>The blended rate of a \<open>provider/model\<close> entry; an entry without both parts has none.\<close>

definition split_cascade_entry :: "string \<Rightarrow> string \<times> string" where
  "split_cascade_entry entry =
     (case cut_byte CHR ''/'' entry of
        None \<Rightarrow> ([], [])
      | Some (provider, model) \<Rightarrow> if model = [] then ([], []) else (provider, model))"

definition cascade_rate :: "(string \<Rightarrow> string \<Rightarrow> (rat \<times> rat) option) \<Rightarrow> string \<Rightarrow> rat option" where
  "cascade_rate pricing entry =
     (let (provider, model) = split_cascade_entry entry
      in if model = [] then None
         else map_option (\<lambda>(inp, out). inp + out) (pricing provider model))"

definition cascade_less :: "(string \<Rightarrow> rat option) \<Rightarrow> string \<Rightarrow> string \<Rightarrow> bool" where
  "cascade_less rate a b =
     (case (rate a, rate b) of
        (Some ra, Some rb) \<Rightarrow> ra < rb
      | (Some _, None) \<Rightarrow> True
      | _ \<Rightarrow> False)"

definition order_models_by_cascade :: "(string \<Rightarrow> string \<Rightarrow> (rat \<times> rat) option) \<Rightarrow> string list \<Rightarrow> string list" where
  "order_models_by_cascade pricing ms =
     (if length ms \<le> 1 then ms else sort_by (cascade_less (cascade_rate pricing)) ms)"

definition sticky_key :: "string \<Rightarrow> string" where
  "sticky_key combo = (if combo = [] then ''__default__'' else combo)"

definition apply_combo_strategy ::
  "(string \<Rightarrow> string \<Rightarrow> (rat \<times> rat) option) \<Rightarrow> string \<Rightarrow> string list \<Rightarrow> string \<Rightarrow> int \<Rightarrow> bool \<Rightarrow> sticky_map \<Rightarrow>
   string list \<times> sticky_map" where
  "apply_combo_strategy pricing strategy ms combo limit new_turn st =
     (if length ms \<le> 1 then (ms, st)
      else if strategy = ''round-robin'' \<or> strategy = ''roundrobin'' \<or> strategy = ''sticky''
      then (let limit = (if limit \<le> 0 then 1 else limit);
                key = sticky_key combo;
                s = (case st key of None \<Rightarrow> \<lparr>ss_index = 0, ss_count = 0, ss_serving = 0\<rparr> | Some s \<Rightarrow> s);
                (serving, s) = advance_sticky limit new_turn (int (length ms)) s
            in (rotate_from serving ms, st(key \<mapsto> s)))
      else if strategy = ''cascade'' then (order_models_by_cascade pricing ms, st)
      else (ms, st))"

definition reset_combo_state :: "string \<Rightarrow> sticky_map \<Rightarrow> sticky_map" where
  "reset_combo_state combo st = (if combo \<noteq> [] then st(combo := None) else Map.empty)"

section \<open>Members that fit the request\<close>

record capabilities =
  ca_vision :: bool
  ca_pdf :: bool
  ca_audio_input :: bool
  ca_video_input :: bool
  ca_image_output :: bool
  ca_audio_output :: bool
  ca_search :: bool
  ca_tools :: bool
  ca_reasoning :: bool

type_synonym capability_table = "string \<Rightarrow> string \<Rightarrow> capabilities"

definition capability_flag :: "capabilities \<Rightarrow> string \<Rightarrow> bool" where
  "capability_flag c cap =
     (if cap = ''vision'' then ca_vision c else if cap = ''pdf'' then ca_pdf c
      else if cap = ''audioInput'' then ca_audio_input c else if cap = ''videoInput'' then ca_video_input c
      else if cap = ''imageOutput'' then ca_image_output c else if cap = ''audioOutput'' then ca_audio_output c
      else if cap = ''search'' then ca_search c else if cap = ''tools'' then ca_tools c
      else if cap = ''reasoning'' then ca_reasoning c else False)"

definition adapter_capability_keys :: "string list" where
  "adapter_capability_keys = [''vision'', ''pdf'', ''audioInput'', ''videoInput'']"

text \<open>The required capabilities are the keys of a Go map: a list without duplicates.\<close>

definition required_hard_caps :: "string list \<Rightarrow> string list" where
  "required_hard_caps required = filter (\<lambda>c. c \<in> set required) adapter_capability_keys"

text \<open>\<open>strings.Cut(entry, "/")\<close>: without a slash the whole entry is the provider.\<close>

definition entry_caps :: "capability_table \<Rightarrow> string \<Rightarrow> capabilities" where
  "entry_caps caps entry =
     (case cut_byte CHR ''/'' entry of None \<Rightarrow> caps entry [] | Some (provider, model) \<Rightarrow> caps provider model)"

definition capability_tier :: "capability_table \<Rightarrow> string \<Rightarrow> string list \<Rightarrow> string list \<Rightarrow> int" where
  "capability_tier caps entry hard soft =
     (let c = entry_caps caps entry
      in if \<exists>k\<in>set hard. \<not> capability_flag c k then 2
         else if \<exists>k\<in>set soft. \<not> capability_flag c k then 1 else 0)"

definition reorder_by_capabilities :: "capability_table \<Rightarrow> string list \<Rightarrow> string list \<Rightarrow> string list" where
  "reorder_by_capabilities caps ms required =
     (if required = [] \<or> length ms \<le> 1 then ms
      else (let hard = required_hard_caps required;
                soft = filter (\<lambda>c. c \<notin> set adapter_capability_keys) required
            in sort_by (\<lambda>a b. capability_tier caps a hard soft < capability_tier caps b hard soft) ms))"

section \<open>The bench\<close>

text \<open>The instant until which a member that timed out sits out, under \<open>combo \\x00 entry\<close>.\<close>

type_synonym bench = "(string \<times> instant) list"

definition bench_key :: "string \<Rightarrow> string \<Rightarrow> string" where
  "bench_key combo entry = combo @ [CHR 0x00] @ entry"

definition bench_timed_out_model :: "string \<Rightarrow> string \<Rightarrow> duration \<Rightarrow> instant \<Rightarrow> bench \<Rightarrow> bench" where
  "bench_timed_out_model combo entry grace now b =
     (if grace \<le> 0 then b
      else AList.update (bench_key combo entry) (now + grace) (filter (\<lambda>(k, until). until > now) b))"

definition without_benched_models :: "string \<Rightarrow> string list \<Rightarrow> duration \<Rightarrow> instant \<Rightarrow> bench \<Rightarrow> string list" where
  "without_benched_models combo ms grace now b =
     (if grace \<le> 0 \<or> b = [] then ms
      else (let kept = filter (\<lambda>m. case map_of b (bench_key combo m) of
                                       None \<Rightarrow> True | Some until \<Rightarrow> \<not> until > now) ms
            in if kept = [] then ms else kept))"

section \<open>The order of a request\<close>

text \<open>What a request to a combo brings along, and the tables and orders of other packages.\<close>

record combo_request =
  co_name :: string
  co_strategy :: string
  co_members :: "string list"
  co_limit :: int
  co_stored_order :: bool
  co_new_turn :: bool
  co_required :: "string list"
  co_grace :: duration

record order_env =
  oe_smart :: "string list \<Rightarrow> string list"
  oe_tokenmaxxing :: "string list \<Rightarrow> string list"
  oe_pricing :: "string \<Rightarrow> string \<Rightarrow> (rat \<times> rat) option"
  oe_caps :: capability_table

definition strategy_order :: "order_env \<Rightarrow> combo_request \<Rightarrow> sticky_map \<Rightarrow> string list \<times> sticky_map" where
  "strategy_order env r st =
     (if co_strategy r = ''smart'' then (oe_smart env (co_members r), st)
      else if co_strategy r = ''tokenmaxxing'' then (oe_tokenmaxxing env (co_members r), st)
      else if co_strategy r = ''cascade'' then (order_models_by_cascade (oe_pricing env) (co_members r), st)
      else if co_stored_order r then (co_members r, st)
      else apply_combo_strategy (oe_pricing env) (co_strategy r) (co_members r) (co_name r) (co_limit r)
             (co_new_turn r) st)"

text \<open>\<open>None\<close> is the index panic on the first of no members.\<close>

definition combo_order :: "order_env \<Rightarrow> combo_request \<Rightarrow> instant \<Rightarrow> bench \<Rightarrow> sticky_map \<Rightarrow> (string list \<times> sticky_map) option" where
  "combo_order env r now b st =
     (let (ms, st) = strategy_order env r st
      in if co_required r \<noteq> [] \<and> ms = [] then None
         else (let ms = (if co_required r \<noteq> [] then reorder_by_capabilities (oe_caps env) ms (co_required r) else ms)
               in Some (without_benched_models (co_name r) ms (co_grace r) now b, st)))"

section \<open>The schedule of a rotating combo\<close>

lemma rotate_from_rotate:
  assumes "xs \<noteq> []" shows "rotate_from (int k) xs = rotate k xs"
proof (rule nth_equalityI)
  fix i assume "i < length (rotate_from (int k) xs)"
  then have "i < length xs" by (simp add: rotate_from_def)
  moreover have "nat ((int k + int i) mod int (length xs)) = (k + i) mod length xs"
    by (metis nat_int of_nat_add of_nat_mod)
  ultimately show "rotate_from (int k) xs ! i = rotate k xs ! i" by (simp add: rotate_from_def nth_rotate)
qed (simp add: rotate_from_def)

text \<open>The state of a combo with \<open>n\<close> members after \<open>t\<close> turns, each member leading \<open>l\<close> of them.\<close>

definition after_turns :: "nat \<Rightarrow> nat \<Rightarrow> nat \<Rightarrow> sticky_state" where
  "after_turns l n t = \<lparr>ss_index = int (t div l mod n), ss_count = int (t mod l),
     ss_serving = int ((t - 1) div l mod n)\<rparr>"

lemma after_turns_0: "0 < l \<Longrightarrow> after_turns l n 0 = \<lparr>ss_index = 0, ss_count = 0, ss_serving = 0\<rparr>"
  by (simp add: after_turns_def)

lemma advance_turn:
  assumes "0 < l" "0 < n"
  shows "advance_sticky (int l) True (int n) (after_turns l n t) = (int (t div l mod n), after_turns l n (Suc t))"
proof -
  let ?serving = "t div l mod n"
  have serving: "int ?serving mod int n = int ?serving" "nat (int ?serving) = ?serving"
    by (simp_all flip: of_nat_mod)
  have step: "(int ?serving + 1) mod int n = int (Suc (t div l) mod n)"
    by (metis mod_Suc_eq of_nat_Suc of_nat_mod add.commute)
  have pieces: "Suc t div l = (if Suc (t mod l) = l then Suc (t div l) else t div l)"
    "Suc t mod l = (if Suc (t mod l) = l then 0 else Suc (t mod l))"
    by (auto simp: div_Suc mod_Suc)
  have "t mod l < l" using assms by simp
  then have full: "int (t mod l) + 1 \<ge> int l \<longleftrightarrow> Suc (t mod l) = l" by auto
  show ?thesis
    by (simp add: advance_sticky_def after_turns_def Let_def pieces serving step full del: of_nat_mod of_nat_Suc)
qed

lemma advance_same_turn:
  "advance_sticky (int l) False (int n) (after_turns l n t) = (int ((t - 1) div l mod n), after_turns l n t)"
  by (simp add: advance_sticky_def after_turns_def)

definition rotating :: "string \<Rightarrow> bool" where
  "rotating strategy \<longleftrightarrow> strategy \<in> {''round-robin'', ''roundrobin'', ''sticky''}"

text \<open>The map holds what a combo's state is after \<open>t\<close> turns; a combo never seen is at turn 0.\<close>

definition at_turn :: "string \<Rightarrow> nat \<Rightarrow> nat \<Rightarrow> nat \<Rightarrow> sticky_map \<Rightarrow> bool" where
  "at_turn combo l n t st \<longleftrightarrow>
     (case st (sticky_key combo) of None \<Rightarrow> t = 0 | Some s \<Rightarrow> s = after_turns l n t)"

lemma apply_at_turn:
  assumes "rotating strategy" "1 < length ms" "l = max 1 (nat limit)" "at_turn combo l (length ms) t st"
  shows "fst (apply_combo_strategy pricing strategy ms combo limit nt st) =
      rotate ((if nt then t else t - 1) div l mod length ms) ms"
    and "at_turn combo l (length ms) (if nt then Suc t else t) (snd (apply_combo_strategy pricing strategy ms combo limit nt st))"
proof -
  let ?key = "sticky_key combo"
  have l: "(if limit \<le> 0 then 1 else limit) = int l" "0 < l" using assms(3) by auto
  have s: "(case st ?key of None \<Rightarrow> \<lparr>ss_index = 0, ss_count = 0, ss_serving = 0\<rparr> | Some s \<Rightarrow> s) = after_turns l (length ms) t"
    using assms(4) after_turns_0[OF l(2), of "length ms"] by (auto simp: at_turn_def split: option.splits)
  have ne: "ms \<noteq> []" "0 < length ms" using assms(2) by auto
  have "apply_combo_strategy pricing strategy ms combo limit nt st =
      (let (serving, s) = advance_sticky (int l) nt (int (length ms)) (after_turns l (length ms) t)
       in (rotate_from serving ms, st(?key \<mapsto> s)))"
    using assms(1,2) by (simp only: apply_combo_strategy_def Let_def l(1) s rotating_def) auto
  also have "\<dots> = (rotate ((if nt then t else t - 1) div l mod length ms) ms,
      st(?key \<mapsto> after_turns l (length ms) (if nt then Suc t else t)))"
    using rotate_from_rotate[OF ne(1)] advance_turn[OF l(2) ne(2), of t] advance_same_turn[of l "length ms" t]
    by (cases nt) simp_all
  finally show "fst (apply_combo_strategy pricing strategy ms combo limit nt st) =
      rotate ((if nt then t else t - 1) div l mod length ms) ms"
    "at_turn combo l (length ms) (if nt then Suc t else t) (snd (apply_combo_strategy pricing strategy ms combo limit nt st))"
    by (simp_all add: at_turn_def)
qed

text \<open>A history of requests to one combo, each flagged as the first of a turn or not.\<close>

definition after_requests ::
  "(string \<Rightarrow> string \<Rightarrow> (rat \<times> rat) option) \<Rightarrow> string \<Rightarrow> string list \<Rightarrow> string \<Rightarrow> int \<Rightarrow> bool list \<Rightarrow> sticky_map \<Rightarrow> sticky_map" where
  "after_requests pricing strategy ms combo limit ts st =
     fold (\<lambda>nt st. snd (apply_combo_strategy pricing strategy ms combo limit nt st)) ts st"

lemma after_requests_turn:
  assumes "rotating strategy" "1 < length ms" "l = max 1 (nat limit)" "at_turn combo l (length ms) t st"
  shows "at_turn combo l (length ms) (t + length (filter id ts)) (after_requests pricing strategy ms combo limit ts st)"
  using assms(4)
proof (induction ts arbitrary: t st)
  case (Cons nt ts)
  have "(if nt then Suc t else t) + length (filter id ts) = t + length (filter id (nt # ts))" by simp
  then show ?case using Cons.IH[OF apply_at_turn(2)[OF assms(1-3) Cons.prems, of nt pricing]]
    by (simp only: after_requests_def fold_simps)
qed (simp add: after_requests_def)

section \<open>Nothing is lost on the way\<close>

text \<open>The tier of a member for a request: with nothing required every member is in tier 0.\<close>

definition request_tier :: "capability_table \<Rightarrow> string list \<Rightarrow> string \<Rightarrow> int" where
  "request_tier caps required entry =
     capability_tier caps entry (required_hard_caps required) (filter (\<lambda>c. c \<notin> set adapter_capability_keys) required)"

lemma reorder_is_sort:
  "reorder_by_capabilities caps ms required = sort_key (request_tier caps required) ms"
proof (cases "required = [] \<or> length ms \<le> 1")
  case True
  moreover have "request_tier caps [] = (\<lambda>_. 0)"
    by (simp add: fun_eq_iff request_tier_def required_hard_caps_def capability_tier_def)
  moreover have "sort_key (\<lambda>_. 0 :: int) ms = ms" by (rule sort_key_const)
  moreover have "length ms \<le> 1 \<Longrightarrow> sort_key (request_tier caps required) ms = ms" by (cases ms) auto
  ultimately show ?thesis by (auto simp: reorder_by_capabilities_def)
qed (simp add: reorder_by_capabilities_def Let_def request_tier_def[abs_def] sort_by_key)

lemma mset_rotate_from [simp]: "mset (rotate_from start xs) = mset xs"
proof (cases "xs = []")
  case False
  then have "start mod int (length xs) = int (nat (start mod int (length xs)))" by simp
  then have "rotate_from start xs = rotate_from (int (nat (start mod int (length xs)))) xs"
    by (simp add: rotate_from_def mod_simps)
  then show ?thesis unfolding rotate_from_rotate[OF False] by simp
qed (simp add: rotate_from_def)

lemma mset_strategy_order:
  assumes "mset (oe_smart env (co_members r)) = mset (co_members r)"
    and "mset (oe_tokenmaxxing env (co_members r)) = mset (co_members r)"
  shows "mset (fst (strategy_order env r st)) = mset (co_members r)"
  using assms
  by (simp add: strategy_order_def apply_combo_strategy_def order_models_by_cascade_def Let_def split_beta)

definition benched_model :: "string \<Rightarrow> duration \<Rightarrow> instant \<Rightarrow> bench \<Rightarrow> string \<Rightarrow> bool" where
  "benched_model combo grace now b m \<longleftrightarrow>
     0 < grace \<and> (case map_of b (bench_key combo m) of None \<Rightarrow> False | Some until \<Rightarrow> now < until)"

lemma without_benched_eq:
  "without_benched_models combo ms grace now b =
     (if list_all (benched_model combo grace now b) ms then ms
      else filter (\<lambda>m. \<not> benched_model combo grace now b m) ms)"
proof -
  have eq: "(case map_of b (bench_key combo m) of None \<Rightarrow> True | Some until \<Rightarrow> \<not> now < until) \<longleftrightarrow>
      \<not> benched_model combo grace now b m" if "0 < grace" for m
    using that by (auto simp: benched_model_def split: option.split)
  show ?thesis
  proof (cases "grace \<le> 0 \<or> b = []")
    case True
    then have "\<not> benched_model combo grace now b m" for m by (auto simp: benched_model_def)
    then show ?thesis using True by (simp add: without_benched_models_def)
  next
    case False
    then show ?thesis using eq by (auto simp: without_benched_models_def Let_def filter_empty_conv list_all_iff)
  qed
qed

lemma combo_order_facts:
  assumes "co_members r \<noteq> []" "mset (oe_smart env (co_members r)) = mset (co_members r)"
    and "mset (oe_tokenmaxxing env (co_members r)) = mset (co_members r)"
  shows "\<exists>ms st'. combo_order env r now b st = Some (ms, st') \<and> ms \<noteq> [] \<and> mset ms \<subseteq># mset (co_members r) \<and>
    (\<forall>m\<in>set (co_members r). m \<in> set ms \<or> benched_model (co_name r) (co_grace r) now b m) \<and>
    sorted (map (request_tier (oe_caps env) (co_required r)) ms)"
proof -
  let ?tier = "request_tier (oe_caps env) (co_required r)" and ?out = "benched_model (co_name r) (co_grace r) now b"
  obtain ms st' where so: "strategy_order env r st = (ms, st')" by fastforce
  then have ms: "mset ms = mset (co_members r)"
    using assms(2,3) mset_strategy_order[of env r st] by simp
  then have ne: "ms \<noteq> []" using assms(1) by auto
  let ?final = "without_benched_models (co_name r) (sort_key ?tier ms) (co_grace r) now b"
  have "combo_order env r now b st = Some (?final, st')"
    using so ne by (simp add: combo_order_def reorder_is_sort[symmetric] reorder_by_capabilities_def)
  moreover have "mset ?final \<subseteq># mset ms" by (simp add: without_benched_eq mset_filter)
  moreover have "sorted (map ?tier ?final)" by (simp add: without_benched_eq sorted_filter)
  moreover have "?final \<noteq> []" using ne by (auto simp: without_benched_eq filter_empty_conv list_all_iff simp flip: set_empty2)
  moreover have "\<forall>m\<in>set ms. m \<in> set ?final \<or> ?out m" by (auto simp: without_benched_eq)
  moreover have "set ms = set (co_members r)" using ms by (metis set_mset_mset)
  ultimately show ?thesis using ms by (metis (lifting))
qed


section \<open>Properties\<close>

text \<open>C33: The order in which a request tries a combo leaves nobody out: when the orders computed elsewhere are
  rearrangements, every member is tried unless it is benched, none is tried more often than it is
  listed, members that meet more of the request's requirements come first, there is always one to
  try, and the code does not panic.\<close>
theorem combo_order_complete:
  assumes "co_members r \<noteq> []" "mset (oe_smart env (co_members r)) = mset (co_members r)"
    and "mset (oe_tokenmaxxing env (co_members r)) = mset (co_members r)"
  shows "\<exists>ms st'. combo_order env r now b st = Some (ms, st') \<and> ms \<noteq> [] \<and> mset ms \<subseteq># mset (co_members r) \<and>
    (\<forall>m\<in>set (co_members r). m \<in> set ms \<or> benched_model (co_name r) (co_grace r) now b m) \<and>
    sorted (map (request_tier (oe_caps env) (co_required r)) ms)"
  by (rule combo_order_facts[OF assms])

text \<open>Three members of which only \<open>y/v\<close> sees images, asked with an image.\<close>

definition demo_caps :: capability_table where
  "demo_caps provider model = \<lparr>ca_vision = (model = ''v''), ca_pdf = False, ca_audio_input = False,
     ca_video_input = False, ca_image_output = False, ca_audio_output = False, ca_search = False,
     ca_tools = True, ca_reasoning = False\<rparr>"

definition demo_order_env :: order_env where
  "demo_order_env = \<lparr>oe_smart = rev, oe_tokenmaxxing = id, oe_pricing = (\<lambda>_ _. None), oe_caps = demo_caps\<rparr>"

definition demo_combo_request :: combo_request where
  "demo_combo_request = \<lparr>co_name = ''team'', co_strategy = ''round-robin'', co_members = [''x/a'', ''y/v'', ''z/c''],
     co_limit = 1, co_stored_order = False, co_new_turn = True, co_required = [''tools'', ''vision''], co_grace = 10\<rparr>"

lemma combo_order_complete_witness:
  "(let bench = bench_timed_out_model ''team'' ''x/a'' 10 0 [] in
    map_option fst (combo_order demo_order_env demo_combo_request 5 bench Map.empty) = Some [''y/v'', ''z/c''] \<and>
    map_option fst (combo_order demo_order_env demo_combo_request 10 bench Map.empty) = Some [''y/v'', ''x/a'', ''z/c'']) \<and>
   (\<exists>ms st'. combo_order demo_order_env demo_combo_request 10 [] Map.empty = Some (ms, st') \<and> ms \<noteq> [] \<and>
     mset ms \<subseteq># mset (co_members demo_combo_request))"
proof
  show "let bench = bench_timed_out_model ''team'' ''x/a'' 10 0 [] in
    map_option fst (combo_order demo_order_env demo_combo_request 5 bench Map.empty) = Some [''y/v'', ''z/c''] \<and>
    map_option fst (combo_order demo_order_env demo_combo_request 10 bench Map.empty) = Some [''y/v'', ''x/a'', ''z/c'']"
    by code_simp
  show "\<exists>ms st'. combo_order demo_order_env demo_combo_request 10 [] Map.empty = Some (ms, st') \<and> ms \<noteq> [] \<and>
      mset ms \<subseteq># mset (co_members demo_combo_request)"
    using combo_order_complete[of demo_combo_request demo_order_env 10 "[]" Map.empty]
    by (auto simp: demo_combo_request_def demo_order_env_def)
qed

text \<open>The turn is a property of the combo, not of the conversation: a tool result of the first conversation
  is sent to another member once a second conversation has started a turn.\<close>

lemma turns_of_two_conversations_mix:
  "let request = apply_combo_strategy (\<lambda>_ _. None) ''round-robin'' [''a'', ''b''] ''team'' 1;
       (first, st) = request True Map.empty; (other, st) = request True st; (tool_result, st) = request False st
   in hd first = ''a'' \<and> hd tool_result = ''b''"
  by code_simp



end
