(* ===== verification/Capability.thy ===== *)
theory Capability
  imports Rotation GoJson
begin

text \<open>
  What a request needs of a model: \<open>DetectRequiredCapabilities\<close> and \<open>detectNewTurn\<close> of
  \<open>internal/handlers/chat/combo.go\<close> read it off the decoded body, and the capacity adapter
  (\<open>capacity_adapter.go\<close>) puts capable pool models in front of a combo none of whose members
  meets it. The set of capabilities, a Go map, is a list without duplicates. The JSON decoder
  is a parameter; a body it rejects is \<open>None\<close>.
\<close>

section \<open>Scanning a body\<close>

definition is_assistant_role :: "string \<Rightarrow> bool" where
  "is_assistant_role role \<longleftrightarrow> role = ''assistant'' \<or> role = ''model''"

definition field :: "json \<Rightarrow> string \<Rightarrow> json" where
  "field v k = (case as_object v of None \<Rightarrow> JNull | Some m \<Rightarrow> obj_get m k)"

definition item_role :: "json \<Rightarrow> string" where
  "item_role item = (case as_string (field item ''role'') of None \<Rightarrow> [] | Some r \<Rightarrow> r)"

text \<open>The items behind the last turn of the model.\<close>

definition trailing_user_items :: "json \<Rightarrow> json list" where
  "trailing_user_items arr =
     (case as_array arr of
        None \<Rightarrow> []
      | Some items \<Rightarrow> rev (takeWhile (\<lambda>it. \<not> is_assistant_role (item_role it)) (rev items)))"

definition item_parts :: "json \<Rightarrow> json" where
  "item_parts item = field item ''parts''"

definition item_content :: "json \<Rightarrow> json" where
  "item_content item =
     (case as_object item of
        None \<Rightarrow> JNull
      | Some m \<Rightarrow> (case map_of m ''content'' of Some c \<Rightarrow> c | None \<Rightarrow> obj_get m ''parts''))"

definition require :: "string \<Rightarrow> string list \<Rightarrow> string list" where
  "require cap required = List.insert cap required"

definition add_by_mime :: "string \<Rightarrow> string list \<Rightarrow> string list" where
  "add_by_mime mime required =
     (if mime = [] then required
      else if has_prefix ''image/'' mime then require ''vision'' required
      else if mime = ''application/pdf'' then require ''pdf'' required
      else if has_prefix ''audio/'' mime then require ''audioInput'' required
      else if has_prefix ''video/'' mime then require ''videoInput'' required
      else required)"

definition data_uri_mime :: "string \<Rightarrow> string" where
  "data_uri_mime url =
     (case cut_prefix ''data:'' url of
        None \<Rightarrow> []
      | Some rest \<Rightarrow>
          (case cut_byte CHR '','' rest of
             None \<Rightarrow> []
           | Some (mime, _) \<Rightarrow> (case cut_byte CHR '';'' mime of None \<Rightarrow> mime | Some (m, _) \<Rightarrow> m)))"

fun first_string :: "(string \<times> json) list \<Rightarrow> string list \<Rightarrow> string" where
  "first_string m [] = []"
| "first_string m (k # ks) = (if obj_string m k \<noteq> [] then obj_string m k else first_string m ks)"

definition file_block_mime :: "(string \<times> json) list \<Rightarrow> string" where
  "file_block_mime b =
     (let audio = (case as_object (obj_get b ''input_audio'') of None \<Rightarrow> [] | Some ia \<Rightarrow> obj_string ia ''format'');
          file = (case as_object (obj_get b ''file'') of None \<Rightarrow> [] | Some f \<Rightarrow> obj_string f ''file_data'');
          source = (case as_object (obj_get b ''source'') of
              None \<Rightarrow> []
            | Some s \<Rightarrow> (if obj_string s ''media_type'' \<noteq> [] then obj_string s ''media_type''
                         else if obj_string s ''data'' \<noteq> [] then data_uri_mime (obj_string s ''data'') else []))
      in if audio \<noteq> [] then ''audio/'' @ audio
         else if file \<noteq> [] then data_uri_mime file
         else source)"

definition scan_inner :: "json \<Rightarrow> string list \<Rightarrow> string list" where
  "scan_inner inner required =
     (case as_object inner of None \<Rightarrow> required | Some m \<Rightarrow> add_by_mime (obj_string m ''mimeType'') required)"

definition scan_content_block :: "json \<Rightarrow> string list \<Rightarrow> string list" where
  "scan_content_block block required =
     (case as_object block of
        None \<Rightarrow> required
      | Some b \<Rightarrow>
          (let typ = obj_string b ''type'';
               required =
                 (if typ \<in> {''image_url'', ''image'', ''input_image''} then require ''vision'' required
                  else if typ \<in> {''input_audio'', ''audio_url'', ''audio''} then require ''audioInput'' required
                  else if typ \<in> {''input_video'', ''video_url'', ''video''} then require ''videoInput'' required
                  else if typ \<in> {''file'', ''document'', ''input_file''}
                  then (if file_block_mime b \<noteq> [] then add_by_mime (file_block_mime b) required
                        else require ''pdf'' required)
                  else required)
           in scan_inner (obj_get b ''fileData'') (scan_inner (obj_get b ''inlineData'') required)))"

definition scan_content_blocks :: "json \<Rightarrow> string list \<Rightarrow> string list" where
  "scan_content_blocks content required =
     (case as_array content of None \<Rightarrow> required | Some blocks \<Rightarrow> fold scan_content_block blocks required)"

definition nonempty_array :: "json \<Rightarrow> json list" where
  "nonempty_array v = (case as_array v of None \<Rightarrow> [] | Some xs \<Rightarrow> xs)"

definition scan_attachment :: "json \<Rightarrow> string list \<Rightarrow> string list" where
  "scan_attachment raw required =
     (case as_object raw of
        None \<Rightarrow> required
      | Some att \<Rightarrow>
          (let mime = first_string att [''contentType'', ''mediaType''];
               mime = (if mime = [] then (case as_string (obj_get att ''url'') of None \<Rightarrow> [] | Some url \<Rightarrow> data_uri_mime url)
                       else mime)
           in if mime \<noteq> [] then add_by_mime mime required
              else if obj_get att ''url'' \<noteq> JNull \<or> obj_get att ''data'' \<noteq> JNull then require ''vision'' required
              else required))"

definition scan_text :: "json \<Rightarrow> string list \<Rightarrow> string list" where
  "scan_text content required =
     (case as_string content of
        None \<Rightarrow> required
      | Some s \<Rightarrow> (if contains_str s ''data:image/'' then require ''vision'' required
                   else if contains_str s ''data:audio/'' then require ''audioInput'' required
                   else if contains_str s ''data:application/pdf'' then require ''pdf'' required
                   else required))"

definition scan_message :: "json \<Rightarrow> string list \<Rightarrow> string list" where
  "scan_message msg required =
     (case as_object msg of
        None \<Rightarrow> required
      | Some m \<Rightarrow>
          (let required = (if nonempty_array (obj_get m ''images'') \<noteq> [] then require ''vision'' required else required);
               attachments = nonempty_array (obj_get m ''experimental_attachments'');
               attachments = (if attachments = [] then nonempty_array (obj_get m ''attachments'') else attachments);
               required = fold scan_attachment attachments required;
               required = (if obj_get m ''image_url'' \<noteq> JNull \<or> obj_get m ''image'' \<noteq> JNull
                           then require ''vision'' required else required);
               required = (if obj_get m ''audio_url'' \<noteq> JNull \<or> obj_get m ''audio'' \<noteq> JNull
                           then require ''audioInput'' required else required)
           in scan_text (obj_get m ''content'') (scan_content_blocks (obj_get m ''content'') required)))"

definition is_tool :: "json \<Rightarrow> bool" where
  "is_tool t =
     (case as_object t of
        None \<Rightarrow> False
      | Some m \<Rightarrow> obj_get m ''type'' = JStr ''function'' \<or> obj_get m ''function'' \<noteq> JNull \<or>
                  obj_get m ''functionDeclarations'' \<noteq> JNull)"

definition required_capabilities :: "(string \<times> json) list \<Rightarrow> string list" where
  "required_capabilities m =
     (let required = fold scan_message (trailing_user_items (obj_get m ''messages'')) [];
          required = fold (scan_content_blocks \<circ> item_content) (trailing_user_items (obj_get m ''input'')) required;
          contents = nonempty_array (obj_get m ''contents'');
          contents = (if contents = []
                      then (case as_object (obj_get m ''request'') of
                              None \<Rightarrow> [] | Some req \<Rightarrow> nonempty_array (obj_get req ''contents''))
                      else contents);
          required = fold (scan_content_blocks \<circ> item_parts) (trailing_user_items (JArr contents)) required
      in if \<exists>t\<in>set (nonempty_array (obj_get m ''tools'')). is_tool t then require ''tools'' required else required)"

definition detect_required_capabilities :: "(string \<Rightarrow> (string \<times> json) list option) \<Rightarrow> string \<Rightarrow> string list" where
  "detect_required_capabilities decode body =
     (case decode body of None \<Rightarrow> [] | Some m \<Rightarrow> required_capabilities m)"

section \<open>Turns\<close>

text \<open>The text of a content part as the decoder fills it in: a missing or null text is empty, one of
  another kind is an error.\<close>

definition part_text :: "json \<Rightarrow> string option" where
  "part_text p =
     (case p of
        JObj m \<Rightarrow> (case obj_get m ''text'' of JStr s \<Rightarrow> Some s | JNull \<Rightarrow> Some [] | _ \<Rightarrow> None)
      | JNull \<Rightarrow> Some []
      | _ \<Rightarrow> None)"

definition content_has_text :: "json option \<Rightarrow> bool" where
  "content_has_text content =
     (case content of
        Some (JStr s) \<Rightarrow> s \<noteq> []
      | Some (JArr parts) \<Rightarrow> (case those (map part_text parts) of None \<Rightarrow> False | Some ts \<Rightarrow> \<exists>t\<in>set ts. t \<noteq> [])
      | _ \<Rightarrow> False)"

text \<open>The loop runs over the messages from the last to the first.\<close>

fun turn_scan :: "(string \<times> json option) list \<Rightarrow> bool" where
  "turn_scan [] = True"
| "turn_scan ((role, content) # earlier) =
     (if role = ''tool'' then False
      else if role \<noteq> ''user'' then turn_scan earlier
      else content_has_text content)"

definition detect_new_turn :: "(string \<Rightarrow> (string \<times> json option) list option) \<Rightarrow> string \<Rightarrow> bool" where
  "detect_new_turn decode body = (case decode body of None \<Rightarrow> True | Some ms \<Rightarrow> turn_scan (rev ms))"

section \<open>The capacity adapter\<close>

record adapter_entry =
  ad_enabled :: bool
  ad_round_robin :: bool
  ad_models :: "string list"

definition default_adapter_fallback_model :: string where
  "default_adapter_fallback_model = ''oc/mimo-v2.6-flash-free''"

definition upgrade_legacy_adapter_model :: "string \<Rightarrow> string" where
  "upgrade_legacy_adapter_model m = (if m = ''oc/mimo-v2.5-free'' then default_adapter_fallback_model else m)"

definition adapter_model_of :: "json \<Rightarrow> string" where
  "adapter_model_of e = (case e of JStr s \<Rightarrow> s | JObj m \<Rightarrow> obj_string m ''model'' | _ \<Rightarrow> [])"

definition plain_string :: "json \<Rightarrow> string" where
  "plain_string v = (case as_string v of None \<Rightarrow> [] | Some s \<Rightarrow> s)"

definition normalize_cap_entry :: "json \<Rightarrow> adapter_entry" where
  "normalize_cap_entry raw =
     (case raw of
        JArr v \<Rightarrow> \<lparr>ad_enabled = True, ad_round_robin = False,
          ad_models = filter (\<lambda>s. s \<noteq> []) (map (upgrade_legacy_adapter_model \<circ> adapter_model_of) v)\<rparr>
      | JObj v \<Rightarrow> \<lparr>ad_enabled = (case as_bool (obj_get v ''enabled'') of None \<Rightarrow> True | Some b \<Rightarrow> b),
          ad_round_robin = (case as_bool (obj_get v ''roundRobin'') of None \<Rightarrow> False | Some b \<Rightarrow> b),
          ad_models = filter (\<lambda>s. s \<noteq> []) (map (upgrade_legacy_adapter_model \<circ> plain_string) (nonempty_array (obj_get v ''models'')))\<rparr>
      | _ \<Rightarrow> \<lparr>ad_enabled = False, ad_round_robin = False, ad_models = []\<rparr>)"

text \<open>The pools of a settings row that has none: vision and audio are on, and empty.\<close>

definition default_pools :: "(string \<times> json) list" where
  "default_pools = map (\<lambda>cap. (cap, JObj [(''enabled'', JBool (cap = ''vision'' \<or> cap = ''audioInput'')),
     (''roundRobin'', JBool False), (''models'', JArr [])])) adapter_capability_keys"

definition merge_adapter_defaults :: "(string \<times> json) list \<Rightarrow> (string \<times> json) list" where
  "merge_adapter_defaults pools = (if pools \<noteq> [] then pools else default_pools)"

definition adapter_config :: "string \<Rightarrow> (string \<times> json) list \<Rightarrow> adapter_entry" where
  "adapter_config cap pools =
     (let e = normalize_cap_entry (obj_get pools cap)
      in if ad_enabled e \<and> ad_models e = [] then e\<lparr>ad_models := [default_adapter_fallback_model]\<rparr> else e)"

definition adapter_models :: "(string \<times> json) list \<Rightarrow> string list" where
  "adapter_models pools =
     dedupe_onto [] (concat (map (\<lambda>cap. let e = adapter_config cap pools in if ad_enabled e then ad_models e else [])
       adapter_capability_keys))"

definition adapter_strategy_for :: "adapter_entry \<Rightarrow> string" where
  "adapter_strategy_for e = (if ad_enabled e \<and> ad_round_robin e then ''round-robin'' else ''fallback'')"

definition active_adapter_strategy :: "string list \<Rightarrow> (string \<times> json) list \<Rightarrow> string" where
  "active_adapter_strategy required pools =
     (case filter (\<lambda>cap. cap \<in> set required \<and> ad_enabled (adapter_config cap pools) \<and>
                         ad_models (adapter_config cap pools) \<noteq> []) adapter_capability_keys of
        [] \<Rightarrow> ''fallback''
      | cap # _ \<Rightarrow> adapter_strategy_for (adapter_config cap pools))"

definition model_satisfies_hard :: "capability_table \<Rightarrow> string \<Rightarrow> string list \<Rightarrow> bool" where
  "model_satisfies_hard caps entry hard =
     (case cut_byte CHR ''/'' entry of
        None \<Rightarrow> False
      | Some (provider, model) \<Rightarrow> list_all (capability_flag (caps provider model)) hard)"

text \<open>\<open>pools\<close> are the stored pools with the defaults merged in, \<open>None\<close> without a repository;
  \<open>allowed\<close> is the verdict of the caller's model patterns.\<close>

definition augment_models ::
  "capability_table \<Rightarrow> (string \<times> json) list option \<Rightarrow> (string \<Rightarrow> bool) \<Rightarrow> string list \<Rightarrow> string list \<Rightarrow> string list \<times> string" where
  "augment_models caps pools allowed ms required =
     (let hard = required_hard_caps required
      in if hard = [] \<or> ms = [] then (ms, ''fallback'')
         else if \<exists>m\<in>set ms. model_satisfies_hard caps m hard then (ms, ''fallback'')
         else (let pools = (case pools of None \<Rightarrow> [] | Some p \<Rightarrow> merge_adapter_defaults p);
                   injected = filter (\<lambda>m. m \<notin> set ms \<and> model_satisfies_hard caps m hard \<and> allowed m) (adapter_models pools)
               in if injected = [] then (ms, ''fallback'')
                  else (injected @ ms, active_adapter_strategy required pools)))"

section \<open>What the scan finds\<close>

lemma takeWhile_all:
  "\<forall>x\<in>set xs. P x \<Longrightarrow> takeWhile P (xs @ ys) = xs @ takeWhile P ys"
  "\<forall>x\<in>set xs. P x \<Longrightarrow> takeWhile P xs = xs"
  by (induction xs) auto

lemma trailing_after_reply:
  assumes "is_assistant_role (item_role reply)"
  shows "trailing_user_items (JArr (old @ reply # turn)) = trailing_user_items (JArr turn)"
proof (cases "\<forall>x\<in>set (rev turn). \<not> is_assistant_role (item_role x)")
  case False
  then have "\<exists>x\<in>set (rev turn). is_assistant_role (item_role x)" by blast
  then show ?thesis by (auto simp: trailing_user_items_def takeWhile_append1)
qed (use assms in \<open>simp add: trailing_user_items_def takeWhile_all\<close>)

lemma set_require [simp]: "set (require c req) = insert c (set req)"
  by (simp add: require_def)

text \<open>Every scanning step only adds.\<close>

lemma add_by_mime_grows: "set req \<subseteq> set (add_by_mime mime req)"
  by (auto simp: add_by_mime_def)

lemma scan_inner_grows: "set req \<subseteq> set (scan_inner v req)"
  using add_by_mime_grows by (auto simp: scan_inner_def split: option.split)

lemma scan_content_block_grows: "set req \<subseteq> set (scan_content_block b req)"
proof (cases "as_object b")
  case (Some m)
  let ?base = "if obj_string m ''type'' \<in> {''image_url'', ''image'', ''input_image''} then require ''vision'' req
    else if obj_string m ''type'' \<in> {''input_audio'', ''audio_url'', ''audio''} then require ''audioInput'' req
    else if obj_string m ''type'' \<in> {''input_video'', ''video_url'', ''video''} then require ''videoInput'' req
    else if obj_string m ''type'' \<in> {''file'', ''document'', ''input_file''}
    then (if file_block_mime m \<noteq> [] then add_by_mime (file_block_mime m) req else require ''pdf'' req) else req"
  have "set req \<subseteq> set ?base" using add_by_mime_grows[of req] by (auto split: if_splits)
  also have "\<dots> \<subseteq> set (scan_inner (obj_get m ''inlineData'') ?base)" by (rule scan_inner_grows)
  also have "\<dots> \<subseteq> set (scan_inner (obj_get m ''fileData'') (scan_inner (obj_get m ''inlineData'') ?base))"
    by (rule scan_inner_grows)
  finally show ?thesis by (simp add: scan_content_block_def Some Let_def)
qed (simp add: scan_content_block_def)

lemma fold_grows:
  assumes "\<And>x req. set req \<subseteq> set (f x req)" shows "set req \<subseteq> set (fold f xs req)"
  using assms by (induction xs arbitrary: req) fastforce+

lemma scan_content_blocks_grows: "set req \<subseteq> set (scan_content_blocks v req)"
  using fold_grows[of scan_content_block, OF scan_content_block_grows]
  by (simp add: scan_content_blocks_def split: option.split)

lemma scan_text_grows: "set req \<subseteq> set (scan_text v req)"
  by (auto simp: scan_text_def split: option.split)

lemma scan_attachment_grows: "set req \<subseteq> set (scan_attachment v req)"
  using add_by_mime_grows[of req] by (auto simp: scan_attachment_def Let_def split: option.split)

lemma fold_finds:
  assumes "\<And>x req. set req \<subseteq> set (f x req)" "x \<in> set xs" "\<And>req. c \<in> set (f x req)"
  shows "c \<in> set (fold f xs req)"
proof -
  obtain ys zs where xs: "xs = ys @ x # zs" using assms(2) by (auto simp: in_set_conv_decomp)
  have "c \<in> set (f x (fold f ys req))" by (rule assms(3))
  then show ?thesis using fold_grows[of f, OF assms(1)] by (fastforce simp: xs)
qed

definition image_block :: "json \<Rightarrow> bool" where
  "image_block b \<longleftrightarrow> as_string (field b ''type'') \<in> Some ` {''image_url'', ''image'', ''input_image''}"

lemma image_block_scanned: "image_block b \<Longrightarrow> ''vision'' \<in> set (scan_content_block b req)"
proof (cases "as_object b")
  case (Some m)
  assume "image_block b"
  then have "obj_string m ''type'' \<in> {''image_url'', ''image'', ''input_image''}"
    using Some by (auto simp: image_block_def field_def obj_string_def)
  then show ?thesis
    using scan_inner_grows[of "scan_inner (obj_get m ''inlineData'') (require ''vision'' req)" "obj_get m ''fileData''"]
      scan_inner_grows[of "require ''vision'' req" "obj_get m ''inlineData''"]
    by (auto simp: scan_content_block_def Some Let_def)
qed (simp add: image_block_def field_def)

lemma image_message_scanned:
  assumes "as_array (field msg ''content'') = Some blocks" "b \<in> set blocks" "image_block b"
  shows "''vision'' \<in> set (scan_message msg req)"
proof -
  obtain m where m: "as_object msg = Some m" using assms(1) by (cases msg) (auto simp: field_def)
  have "''vision'' \<in> set (scan_content_blocks (obj_get m ''content'') req)" for req
    using fold_finds[of scan_content_block, OF scan_content_block_grows assms(2) image_block_scanned[OF assms(3)]] assms(1) m
    by (simp add: scan_content_blocks_def field_def)
  then show ?thesis using scan_text_grows by (auto simp: scan_message_def m Let_def)
qed

lemma scan_message_grows: "set req \<subseteq> set (scan_message msg req)"
proof (cases "as_object msg")
  case (Some m)
  define r1 where "r1 = (if nonempty_array (obj_get m ''images'') \<noteq> [] then require ''vision'' req else req)"
  define r2 where "r2 = fold scan_attachment (if nonempty_array (obj_get m ''experimental_attachments'') = []
      then nonempty_array (obj_get m ''attachments'') else nonempty_array (obj_get m ''experimental_attachments'')) r1"
  define r3 where "r3 = (if obj_get m ''image_url'' \<noteq> JNull \<or> obj_get m ''image'' \<noteq> JNull then require ''vision'' r2 else r2)"
  define r4 where "r4 = (if obj_get m ''audio_url'' \<noteq> JNull \<or> obj_get m ''audio'' \<noteq> JNull then require ''audioInput'' r3 else r3)"
  have "set req \<subseteq> set r1" by (auto simp: r1_def)
  also have "\<dots> \<subseteq> set r2" unfolding r2_def by (rule fold_grows[OF scan_attachment_grows])
  also have "\<dots> \<subseteq> set r4" by (auto simp: r3_def r4_def)
  also have "\<dots> \<subseteq> set (scan_content_blocks (obj_get m ''content'') r4)" by (rule scan_content_blocks_grows)
  also have "\<dots> \<subseteq> set (scan_text (obj_get m ''content'') (scan_content_blocks (obj_get m ''content'') r4))"
    by (rule scan_text_grows)
  finally show ?thesis by (simp only: scan_message_def Some Let_def r1_def r2_def r3_def r4_def option.case)
qed (simp add: scan_message_def)

lemma message_scan_kept:
  "set (fold scan_message (trailing_user_items (obj_get m ''messages'')) []) \<subseteq> set (required_capabilities m)"
proof -
  have "set req \<subseteq> set (fold (scan_content_blocks \<circ> g) xs req)" for g :: "json \<Rightarrow> json" and xs req
    by (rule fold_grows) (simp add: scan_content_blocks_grows)
  then show ?thesis unfolding required_capabilities_def Let_def by (auto split: if_splits) blast+
qed

section \<open>Properties\<close>

text \<open>Media of older turns does not pin a combo: what came before the model's last answer, in the messages
  of a chat request or the input of a Responses request, has no influence on the capabilities a
  request is found to need, and an image in the current turn always has.\<close>
theorem history_does_not_pin:
  assumes "is_assistant_role (item_role reply)" "\<forall>x\<in>set turn. \<not> is_assistant_role (item_role x)"
    and "msg \<in> set turn"
    and "as_array (field msg ''content'') = Some blocks" "b \<in> set blocks" "image_block b"
  shows "required_capabilities (AList.update ''messages'' (JArr (old @ reply # turn)) m) =
      required_capabilities (AList.update ''messages'' (JArr turn) m) \<and>
    required_capabilities (AList.update ''input'' (JArr (old @ reply # turn)) m) =
      required_capabilities (AList.update ''input'' (JArr turn) m) \<and>
    ''vision'' \<in> set (required_capabilities (AList.update ''messages'' (JArr (old @ reply # turn)) m))"
proof -
  note cut = trailing_after_reply[OF assms(1), of old turn]
  have turn: "trailing_user_items (JArr turn) = turn"
    using assms(2) by (simp add: trailing_user_items_def takeWhile_all)
  have "''vision'' \<in> set (fold scan_message turn [])"
    by (rule fold_finds[of scan_message, OF scan_message_grows assms(3)]) (rule image_message_scanned[OF assms(4-6)])
  then have "''vision'' \<in> set (required_capabilities (AList.update ''messages'' (JArr turn) m))"
    using message_scan_kept[of "AList.update ''messages'' (JArr turn) m"] turn by auto
  moreover have "required_capabilities (AList.update ''messages'' (JArr (old @ reply # turn)) m) =
      required_capabilities (AList.update ''messages'' (JArr turn) m)"
    "required_capabilities (AList.update ''input'' (JArr (old @ reply # turn)) m) =
      required_capabilities (AList.update ''input'' (JArr turn) m)"
    by (simp_all add: required_capabilities_def Let_def cut)
  ultimately show ?thesis by simp
qed

lemma history_does_not_pin_witness:
  "let picture = JObj [(''type'', JStr ''image_url'')];
       old = [JObj [(''role'', JStr ''user''), (''content'', JArr [JObj [(''type'', JStr ''input_audio'')]])]];
       reply = JObj [(''role'', JStr ''assistant''), (''content'', JStr ''ok'')];
       turn = [JObj [(''role'', JStr ''user''), (''content'', JArr [picture])]]
   in required_capabilities (AList.update ''messages'' (JArr (old @ reply # turn)) []) = [''vision''] \<and>
      ''vision'' \<in> set (required_capabilities (AList.update ''messages'' (JArr (old @ reply # turn)) []))"
proof -
  let ?picture = "JObj [(''type'', JStr ''image_url'')]"
  let ?old = "[JObj [(''role'', JStr ''user''), (''content'', JArr [JObj [(''type'', JStr ''input_audio'')]])]]"
  let ?reply = "JObj [(''role'', JStr ''assistant''), (''content'', JStr ''ok'')]"
  let ?msg = "JObj [(''role'', JStr ''user''), (''content'', JArr [?picture])]"
  have "''vision'' \<in> set (required_capabilities (AList.update ''messages'' (JArr (?old @ ?reply # [?msg])) []))"
    by (rule history_does_not_pin[of _ _ ?msg "[?picture]" ?picture, THEN conjunct2, THEN conjunct2])
      (simp_all add: is_assistant_role_def item_role_def field_def obj_get_def image_block_def)
  moreover have "required_capabilities (AList.update ''messages'' (JArr (?old @ ?reply # [?msg])) []) = [''vision'']"
    by code_simp
  ultimately show ?thesis by (simp add: Let_def)
qed

text \<open>A request that needs a kind of input starts at a member that takes it: if some member that is not
  benched meets every input requirement of the request, the first member tried meets them all.\<close>
theorem media_request_starts_at_capable_member:
  assumes "co_members r \<noteq> []" "mset (oe_smart env (co_members r)) = mset (co_members r)"
    and "mset (oe_tokenmaxxing env (co_members r)) = mset (co_members r)"
    and "co_required r = detect_required_capabilities decode body"
    and "x \<in> set (co_members r)" "\<not> benched_model (co_name r) (co_grace r) now b x"
    and "\<forall>cap\<in>set (required_hard_caps (co_required r)). capability_flag (entry_caps (oe_caps env) x) cap"
    and "combo_order env r now b st = Some (ms, st')"
    and "cap \<in> set (detect_required_capabilities decode body)" "cap \<in> set adapter_capability_keys"
  shows "capability_flag (entry_caps (oe_caps env) (hd ms)) cap"
proof -
  let ?tier = "request_tier (oe_caps env) (co_required r)"
  have ms: "ms \<noteq> []" "x \<in> set ms" "sorted (map ?tier ms)"
    using combo_order_facts[OF assms(1-3), of now b st] assms(5,6,8) by auto
  then have "?tier (hd ms) \<le> ?tier x" by (cases ms) auto
  also have "\<dots> \<le> 1" using assms(7) by (simp add: request_tier_def capability_tier_def Let_def)
  finally have "\<forall>k\<in>set (required_hard_caps (co_required r)). capability_flag (entry_caps (oe_caps env) (hd ms)) k"
    by (simp add: request_tier_def capability_tier_def Let_def split: if_splits)
  then show ?thesis using assms(4,9,10) by (simp add: required_hard_caps_def)
qed

lemma media_request_starts_at_capable_member_witness:
  "let decode = (\<lambda>_. Some [(''messages'', JArr [JObj [(''role'', JStr ''user''), (''content'', JArr [JObj [(''type'', JStr ''image'')]])]])]);
       r = demo_combo_request\<lparr>co_required := detect_required_capabilities decode ''body''\<rparr>
   in map_option fst (combo_order demo_order_env r 5 [] Map.empty) = Some [''y/v'', ''x/a'', ''z/c''] \<and>
      capability_flag (entry_caps demo_caps ''y/v'') ''vision''"
proof -
  let ?decode = "\<lambda>_ :: string. Some [(''messages'', JArr [JObj [(''role'', JStr ''user''), (''content'', JArr [JObj [(''type'', JStr ''image'')]])]])]"
  let ?r = "demo_combo_request\<lparr>co_required := detect_required_capabilities ?decode ''body''\<rparr>"
  have found: "detect_required_capabilities ?decode ''body'' = [''vision'']" by code_simp
  have first: "map_option fst (combo_order demo_order_env ?r 5 [] Map.empty) = Some [''y/v'', ''x/a'', ''z/c'']"
    unfolding found by code_simp
  then obtain st where st: "combo_order demo_order_env ?r 5 [] Map.empty = Some ([''y/v'', ''x/a'', ''z/c''], st)" by auto
  have "capability_flag (entry_caps (oe_caps demo_order_env) (hd [''y/v'', ''x/a'', ''z/c''])) ''vision''"
    by (rule media_request_starts_at_capable_member[OF _ _ _ _ _ _ _ st, of ?decode "''body''" "''y/v''"])
      (simp_all add: found demo_combo_request_def demo_order_env_def benched_model_def required_hard_caps_def
        adapter_capability_keys_def entry_caps_def cut_byte_def demo_caps_def capability_flag_def)
  then show ?thesis using first by (simp add: demo_order_env_def)
qed

text \<open>The capacity adapter never overrides a combo that can serve the request, and never lets in a model the
  caller may not use: the members stay, in their order, behind the injected models; models are injected
  only when no member meets every input requirement; and each injected model is new to the combo,
  meets every input requirement and is permitted for the key.\<close>
theorem capacity_adapter_sound:
  assumes "augment_models caps pools allowed ms required = (out, strategy)"
  shows "\<exists>injected. out = injected @ ms \<and> distinct injected \<and>
    (injected \<noteq> [] \<longrightarrow> ms \<noteq> [] \<and> required_hard_caps required \<noteq> [] \<and>
       (\<forall>m\<in>set ms. \<not> model_satisfies_hard caps m (required_hard_caps required))) \<and>
    (\<forall>m\<in>set injected. m \<notin> set ms \<and> allowed m \<and> model_satisfies_hard caps m (required_hard_caps required))"
proof -
  let ?pools = "case pools of None \<Rightarrow> [] | Some p \<Rightarrow> merge_adapter_defaults p"
  let ?inj = "filter (\<lambda>m. m \<notin> set ms \<and> model_satisfies_hard caps m (required_hard_caps required) \<and> allowed m) (adapter_models ?pools)"
  show ?thesis
  proof (cases "required_hard_caps required = [] \<or> ms = [] \<or> (\<exists>m\<in>set ms. model_satisfies_hard caps m (required_hard_caps required))")
    case True
    then have "augment_models caps pools allowed ms required = (ms, ''fallback'')"
      unfolding augment_models_def Let_def by (metis (full_types))
    then have "out = ms" using assms by simp
    then show ?thesis by (intro exI[of _ "[]"]) simp
  next
    case False
    then have "out = ?inj @ ms" using assms by (auto simp: augment_models_def Let_def split: if_splits)
    moreover have "distinct ?inj" by (simp add: adapter_models_def)
    ultimately show ?thesis using False by (intro exI[of _ ?inj]) auto
  qed
qed

lemma capacity_adapter_sound_witness:
  "let pools = [(''vision'', JObj [(''models'', JArr [JStr ''p/v'', JStr ''q/v'', JStr ''p/text''])])];
       out = augment_models demo_caps (Some pools) (\<lambda>m. m \<noteq> ''q/v'') [''x/a''] [''vision'']
   in fst out = [''p/v'', ''x/a''] \<and> (\<exists>injected. fst out = injected @ [''x/a''] \<and> distinct injected)"
proof -
  let ?out = "augment_models demo_caps (Some [(''vision'', JObj [(''models'', JArr [JStr ''p/v'', JStr ''q/v'', JStr ''p/text''])])])
    (\<lambda>m. m \<noteq> ''q/v'') [''x/a''] [''vision'']"
  have "fst ?out = [''p/v'', ''x/a'']" by code_simp
  moreover have "\<exists>injected. fst ?out = injected @ [''x/a''] \<and> distinct injected"
    using capacity_adapter_sound[of demo_caps _ _ _ _ "fst ?out" "snd ?out"] by (metis prod.collapse)
  ultimately show ?thesis by (simp only: Let_def)
qed

end
