(* ===== verification/Affinity.thy ===== *)
theory Affinity
  imports GoStrings CacheBase
begin

text \<open>
  Session affinity of \<open>internal/handlers/chat/session_affinity.go\<close>: which account a client
  session is pinned to, so that its prompt cache stays warm. A bounded map with an inactivity
  limit that every read and write renews. SHA-256, which shortens long session ids, is a
  parameter. Go walks the map in an unspecified order when it looks for an entry to drop: here
  it is the order of the list.
\<close>

section \<open>Keys\<close>

text \<open>\<open>strings.FieldsFunc\<close>: the non-empty runs between separators.\<close>

definition is_separator :: "char \<Rightarrow> bool" where
  "is_separator c \<longleftrightarrow> c \<in> {CHR ''-'', CHR ''_'', CHR ''.'', CHR ''/'', CHR '':''}"

fun fields_onto :: "string \<Rightarrow> string \<Rightarrow> string list" where
  "fields_onto cur [] = (if cur = [] then [] else [rev cur])"
| "fields_onto cur (c # s) =
     (if is_separator c then (if cur = [] then fields_onto [] s else rev cur # fields_onto [] s)
      else fields_onto (c # cur) s)"

definition has_model_token :: "string \<Rightarrow> string \<Rightarrow> bool" where
  "has_model_token m token \<longleftrightarrow> token \<in> set (fields_onto [] m)"

definition model_families :: "string list" where
  "model_families = [''haiku'', ''opus'', ''sonnet'', ''flash'', ''pro'', ''mini'']"

definition normalize_model_family :: "string \<Rightarrow> string" where
  "normalize_model_family model =
     (let m = to_lower (trim_space model);
          m = (case index_byte CHR ''/'' m of None \<Rightarrow> m | Some i \<Rightarrow> drop (Suc i) m)
      in if m = [] then ''default''
         else case filter (has_model_token m) model_families of [] \<Rightarrow> m | f # _ \<Rightarrow> f)"

definition hash_session_id :: "(string \<Rightarrow> string) \<Rightarrow> string \<Rightarrow> string" where
  "hash_session_id sha session = (let s = trim_space session in if length s > 64 then sha s else s)"

definition is_affinity_eligible_strategy :: "string \<Rightarrow> bool" where
  "is_affinity_eligible_strategy strategy \<longleftrightarrow>
     to_lower (trim_space strategy) \<in> {''round-robin'', ''roundrobin'', ''sticky''}"

definition affinity_key :: "(string \<Rightarrow> string) \<Rightarrow> string \<Rightarrow> string \<Rightarrow> string \<Rightarrow> string" where
  "affinity_key sha provider model session =
     to_lower (trim_space provider) @ '':'' @ normalize_model_family model @ '':'' @ hash_session_id sha session"

section \<open>The store\<close>

record session_binding =
  sb_provider :: string
  sb_family :: string
  sb_session :: string
  sb_conn :: string
  sb_seen :: instant

record affinity_store =
  af_entries :: "(string \<times> session_binding) list"
  af_max :: int
  af_ttl :: duration

definition new_affinity_store :: "int \<Rightarrow> duration \<Rightarrow> affinity_store" where
  "new_affinity_store n ttl = \<lparr>af_entries = [], af_max = (if n \<le> 0 then 10000 else n),
     af_ttl = (if ttl \<le> 0 then 2 * hour else ttl)\<rparr>"

definition idle :: "affinity_store \<Rightarrow> instant \<Rightarrow> session_binding \<Rightarrow> bool" where
  "idle s now b \<longleftrightarrow> now - sb_seen b > af_ttl s"

definition affinity_get ::
  "(string \<Rightarrow> string) \<Rightarrow> string \<Rightarrow> string \<Rightarrow> string \<Rightarrow> instant \<Rightarrow> affinity_store \<Rightarrow> string option \<times> affinity_store" where
  "affinity_get sha provider model session now s =
     (if session = [] then (None, s)
      else let key = affinity_key sha provider model session in
        case map_of (af_entries s) key of
          None \<Rightarrow> (None, s)
        | Some b \<Rightarrow>
            (if idle s now b then (None, s\<lparr>af_entries := AList.delete key (af_entries s)\<rparr>)
             else (Some (sb_conn b), s\<lparr>af_entries := AList.update key (b\<lparr>sb_seen := now\<rparr>) (af_entries s)\<rparr>)))"

text \<open>The entry to make room with: the first idle one met, or the one seen longest ago. The first
  argument is the best candidate so far.\<close>

fun eviction_victim :: "affinity_store \<Rightarrow> instant \<Rightarrow> (string \<times> instant) option \<Rightarrow> (string \<times> session_binding) list \<Rightarrow> string option" where
  "eviction_victim s now best [] = map_option fst best"
| "eviction_victim s now best ((k, b) # es) =
     (if idle s now b then Some k
      else eviction_victim s now
        (case best of None \<Rightarrow> Some (k, sb_seen b)
         | Some (j, t) \<Rightarrow> if sb_seen b < t then Some (k, sb_seen b) else Some (j, t)) es)"

definition affinity_bind ::
  "(string \<Rightarrow> string) \<Rightarrow> string \<Rightarrow> string \<Rightarrow> string \<Rightarrow> string \<Rightarrow> instant \<Rightarrow> affinity_store \<Rightarrow> affinity_store" where
  "affinity_bind sha provider model session conn now s =
     (if session = [] \<or> conn = [] then s
      else let key = affinity_key sha provider model session in
        case map_of (af_entries s) key of
          Some b \<Rightarrow> s\<lparr>af_entries := AList.update key (b\<lparr>sb_conn := conn, sb_seen := now\<rparr>) (af_entries s)\<rparr>
        | None \<Rightarrow>
            (let es = (if int (length (af_entries s)) \<ge> af_max s
                       then (case eviction_victim s now None (af_entries s) of
                               None \<Rightarrow> af_entries s | Some k \<Rightarrow> AList.delete k (af_entries s))
                       else af_entries s)
             in s\<lparr>af_entries := AList.update key \<lparr>sb_provider = provider, sb_family = normalize_model_family model,
                    sb_session = hash_session_id sha session, sb_conn = conn, sb_seen = now\<rparr> es\<rparr>))"

definition affinity_evict :: "(string \<Rightarrow> string) \<Rightarrow> string \<Rightarrow> string \<Rightarrow> string \<Rightarrow> affinity_store \<Rightarrow> affinity_store" where
  "affinity_evict sha provider model session s =
     (if session = [] then s
      else s\<lparr>af_entries := AList.delete (affinity_key sha provider model session) (af_entries s)\<rparr>)"

definition affinity_evict_connection :: "string \<Rightarrow> affinity_store \<Rightarrow> affinity_store" where
  "affinity_evict_connection conn s =
     (if conn = [] then s else s\<lparr>af_entries := filter (\<lambda>(_, b). sb_conn b \<noteq> conn) (af_entries s)\<rparr>)"

section \<open>The invariant\<close>

definition affinity_ok :: "affinity_store \<Rightarrow> bool" where
  "affinity_ok s \<longleftrightarrow> is_map (af_entries s) \<and> int (length (af_entries s)) \<le> af_max s \<and> 0 < af_max s"

lemma length_delete_key:
  "is_map m \<Longrightarrow> k \<in> fst ` set m \<Longrightarrow> Suc (length (AList.delete k m)) = length m"
proof (induction m)
  case (Cons e m)
  then show ?case by (cases "fst e = k"; cases e) (auto simp: AList.delete_idem delete_id)
qed simp

lemma victim_in_keys:
  "eviction_victim s now best es = Some k \<Longrightarrow> k \<in> fst ` set es \<or> map_option fst best = Some k"
proof (induction es arbitrary: best)
  case (Cons e es)
  obtain j b where e: "e = (j, b)" by fastforce
  show ?case
  proof (cases "idle s now b")
    case False
    let ?best = "case best of None \<Rightarrow> Some (j, sb_seen b) | Some (i, t) \<Rightarrow> if sb_seen b < t then Some (j, sb_seen b) else Some (i, t)"
    have "map_option fst ?best = Some j \<or> map_option fst ?best = map_option fst best" by (auto split: option.split)
    moreover have "k \<in> fst ` set es \<or> map_option fst ?best = Some k" using Cons.IH[of ?best] Cons.prems False by (simp add: e)
    ultimately show ?thesis unfolding e by (elim disjE) simp_all
  qed (use Cons.prems in \<open>simp add: e\<close>)
qed simp

lemma victim_exists:
  "es \<noteq> [] \<or> best \<noteq> None \<Longrightarrow> \<exists>k. eviction_victim s now best es = Some k"
  by (induction es arbitrary: best) (auto split: option.splits)

lemma filter_is_map: "is_map m \<Longrightarrow> is_map (filter P m)"
  by (induction m) auto

text \<open>The connection a key is bound to, which is what a lookup of a session that is not idle returns.\<close>

definition bound_conn :: "affinity_store \<Rightarrow> string \<Rightarrow> string option" where
  "bound_conn s k = map_option sb_conn (map_of (af_entries s) k)"

datatype affinity_op =
    AGet string string string instant
  | ABind string string string string instant
  | AEvict string string string
  | AEvictConn string

fun exec_affinity :: "(string \<Rightarrow> string) \<Rightarrow> affinity_op \<Rightarrow> affinity_store \<Rightarrow> affinity_store" where
  "exec_affinity sha (AGet p m se now) s = snd (affinity_get sha p m se now s)"
| "exec_affinity sha (ABind p m se c now) s = affinity_bind sha p m se c now s"
| "exec_affinity sha (AEvict p m se) s = affinity_evict sha p m se s"
| "exec_affinity sha (AEvictConn c) s = affinity_evict_connection c s"

fun wrote_affinity :: "(string \<Rightarrow> string) \<Rightarrow> affinity_store \<Rightarrow> affinity_op \<Rightarrow> string \<Rightarrow> string option" where
  "wrote_affinity sha s (ABind p m se c now) k =
     (if se \<noteq> [] \<and> c \<noteq> [] \<and> k = affinity_key sha p m se then Some c else None)"
| "wrote_affinity sha s _ k = None"

lemma affinity_get_ok: "affinity_ok s \<Longrightarrow> affinity_ok (snd (affinity_get sha p m se now s))"
  by (auto simp: affinity_get_def affinity_ok_def Let_def length_update map_of_some_in_keys[simplified]
      intro: order_trans[OF of_nat_mono[OF length_delete_le]] split: option.split)

lemma affinity_get_bound:
  "bound_conn (snd (affinity_get sha p m se now s)) k = Some c \<Longrightarrow> bound_conn s k = Some c"
  by (auto simp: affinity_get_def bound_conn_def Let_def split: option.splits if_splits)

lemma affinity_bind_ok: "affinity_ok s \<Longrightarrow> affinity_ok (affinity_bind sha p m se c now s)"
proof -
  assume ok: "affinity_ok s"
  let ?key = "affinity_key sha p m se"
  have full: "Suc (length (AList.delete k (af_entries s))) = length (af_entries s)"
    if "eviction_victim s now None (af_entries s) = Some k" for k
    using victim_in_keys[OF that] ok by (intro length_delete_key) (auto simp: affinity_ok_def)
  have "\<exists>k. eviction_victim s now None (af_entries s) = Some k" if "int (length (af_entries s)) \<ge> af_max s"
    using that ok by (intro victim_exists) (auto simp: affinity_ok_def)
  then show ?thesis using ok full
    by (auto simp: affinity_bind_def affinity_ok_def Let_def length_update map_of_some_in_keys[simplified]
        split: option.split dest: map_of_eq_None_iff[THEN iffD1])
qed

lemma affinity_bind_bound:
  assumes "bound_conn (affinity_bind sha p m se c now s) k = Some d"
  shows "if se \<noteq> [] \<and> c \<noteq> [] \<and> k = affinity_key sha p m se then d = c else bound_conn s k = Some d"
  using assms by (auto simp: affinity_bind_def bound_conn_def Let_def split: option.splits if_splits)

lemma evict_connection_ok: "affinity_ok s \<Longrightarrow> affinity_ok (affinity_evict_connection c s)"
  by (auto simp: affinity_evict_connection_def affinity_ok_def filter_is_map
      intro: order_trans[OF of_nat_mono[OF length_filter_le]])

lemma evict_connection_bound:
  assumes "affinity_ok s" "bound_conn (affinity_evict_connection c s) k = Some d"
  shows "bound_conn s k = Some d" "c \<noteq> [] \<Longrightarrow> d \<noteq> c"
proof -
  have "\<exists>b. map_of (af_entries s) k = Some b \<and> sb_conn b = d \<and> (c \<noteq> [] \<longrightarrow> d \<noteq> c)"
  proof (cases "c = []")
    case True
    then show ?thesis using assms(2) by (auto simp: affinity_evict_connection_def bound_conn_def)
  next
    case False
    then obtain b where b: "map_of (filter (\<lambda>(_, b). sb_conn b \<noteq> c) (af_entries s)) k = Some b" "sb_conn b = d"
      using assms(2) by (auto simp: affinity_evict_connection_def bound_conn_def)
    then have "(k, b) \<in> set (af_entries s)" "sb_conn b \<noteq> c" by (auto dest: map_of_SomeD)
    then show ?thesis using assms(1) b(2) by (auto simp: affinity_ok_def)
  qed
  then show "bound_conn s k = Some d" "c \<noteq> [] \<Longrightarrow> d \<noteq> c" by (auto simp: bound_conn_def)
qed

lemma affinity_evict_ok: "affinity_ok s \<Longrightarrow> affinity_ok (affinity_evict sha p m se s)"
  by (auto simp: affinity_evict_def affinity_ok_def intro: order_trans[OF of_nat_mono[OF length_delete_le]])

interpretation sessions: keyed_cache "exec_affinity sha" affinity_ok bound_conn "wrote_affinity sha" for sha
proof
  fix s x k d
  assume ok: "affinity_ok s"
  show "affinity_ok (exec_affinity sha x s)"
    using ok by (cases x) (simp_all add: affinity_get_ok affinity_bind_ok affinity_evict_ok evict_connection_ok)
  assume d: "bound_conn (exec_affinity sha x s) k = Some d"
  show "case wrote_affinity sha s x k of Some w \<Rightarrow> d = w | None \<Rightarrow> bound_conn s k = Some d"
  proof (cases x)
    case (ABind p m se c now)
    then show ?thesis using d affinity_bind_bound[of sha p m se c now s k d] by (simp split: if_splits)
  next
    case (AEvict p m se)
    then show ?thesis using d by (auto simp: affinity_evict_def bound_conn_def split: if_splits)
  next
    case (AGet p m se now)
    then show ?thesis using d affinity_get_bound[of sha p m se now s k d] by simp
  next
    case (AEvictConn c)
    then show ?thesis using d evict_connection_bound(1)[OF ok, of c k d] by simp
  qed
qed

lemma affinity_get_hit:
  "fst (affinity_get sha p m se now s) = Some c \<Longrightarrow> se \<noteq> [] \<and> bound_conn s (affinity_key sha p m se) = Some c"
  by (auto simp: affinity_get_def bound_conn_def Let_def split: if_splits option.splits)

lemma new_affinity_ok: "affinity_ok (new_affinity_store n ttl)" "bound_conn (new_affinity_store n ttl) k = None"
  by (simp_all add: new_affinity_store_def affinity_ok_def bound_conn_def)

section \<open>Properties\<close>

text \<open>A session is only ever sent to the account it was last bound to: whatever lookups, bindings and
  evictions happened, a pin that a lookup returns is the connection of the last binding under the same
  provider, model family and session, and the store never holds more bindings than its limit.\<close>
theorem session_pin_is_last_binding:
  assumes "s = fold (exec_affinity sha) ops (new_affinity_store n ttl)"
    and "fst (affinity_get sha p m se now s) = Some c"
  shows "last_write (exec_affinity sha) (wrote_affinity sha) (affinity_key sha p m se) ops (new_affinity_store n ttl) None = Some c \<and>
    int (length (af_entries s)) \<le> af_max s"
proof
  show "last_write (exec_affinity sha) (wrote_affinity sha) (affinity_key sha p m se) ops (new_affinity_store n ttl) None = Some c"
    using affinity_get_hit[OF assms(2)] unfolding assms(1)
    by (intro sessions.content_is_last_write) (simp_all add: new_affinity_ok)
  show "int (length (af_entries s)) \<le> af_max s"
    using sessions.inv_fold[OF new_affinity_ok(1), of sha ops n ttl] by (simp add: assms(1) affinity_ok_def)
qed

definition demo_affinity :: affinity_store where
  "demo_affinity = fold (exec_affinity id) [ABind ''Claude'' ''cc/claude-sonnet-4'' ''s1'' ''acc1'' 0,
     ABind ''claude'' ''claude-opus-4'' ''s1'' ''acc2'' 1, ABind ''claude'' ''sonnet'' ''s2'' ''acc1'' 2]
     (new_affinity_store 3 100)"

lemma session_pin_is_last_binding_witness:
  "fst (affinity_get id ''claude'' ''claude-sonnet-4.5'' ''s1'' 50 demo_affinity) = Some ''acc1'' \<and>
   int (length (af_entries demo_affinity)) \<le> af_max demo_affinity"
proof -
  have hit: "fst (affinity_get id ''claude'' ''claude-sonnet-4.5'' ''s1'' 50 demo_affinity) = Some ''acc1''" by code_simp
  show ?thesis using session_pin_is_last_binding[OF demo_affinity_def hit] hit by simp
qed

text \<open>An account that was taken out of rotation serves no pinned session: once its bindings are evicted, no
  lookup of any session returns it, whatever else happens, until a request binds a session to it again.\<close>
theorem evicted_account_serves_no_session:
  assumes "c \<noteq> []" "s = fold (exec_affinity sha) ops (new_affinity_store n ttl)"
    and "\<forall>x\<in>set later. \<forall>p m se now. x \<noteq> ABind p m se c now"
  shows "fst (affinity_get sha p m se now (fold (exec_affinity sha) later (affinity_evict_connection c s))) \<noteq> Some c"
proof
  let ?s = "affinity_evict_connection c s" and ?k = "affinity_key sha p m se"
  have ok: "affinity_ok s" unfolding assms(2) by (rule sessions.inv_fold[OF new_affinity_ok(1)])
  assume "fst (affinity_get sha p m se now (fold (exec_affinity sha) later ?s)) = Some c"
  from affinity_get_hit[OF this] have "last_write (exec_affinity sha) (wrote_affinity sha) ?k later ?s (bound_conn ?s ?k) = Some c"
    by (intro sessions.content_from[OF evict_connection_ok[OF ok]]) simp_all
  from last_write_from[OF this] show False
  proof
    assume "bound_conn ?s ?k = Some c"
    then show False using evict_connection_bound(2)[OF ok _ assms(1)] by blast
  next
    assume "\<exists>x\<in>set later. \<exists>t. wrote_affinity sha t x ?k = Some c"
    then obtain x t where "x \<in> set later" "wrote_affinity sha t x ?k = Some c" by blast
    moreover have "\<exists>p m se now. x = ABind p m se c now" using calculation(2) by (cases x) (auto split: if_splits)
    ultimately show False using assms(3) by blast
  qed
qed

lemma evicted_account_serves_no_session_witness:
  "let s = fold (exec_affinity id) [ABind ''claude'' ''opus'' ''s9'' ''acc2'' 40] (affinity_evict_connection ''acc1'' demo_affinity)
   in fst (affinity_get id ''claude'' ''sonnet'' ''s1'' 50 s) \<noteq> Some ''acc1'' \<and>
      fst (affinity_get id ''claude'' ''opus'' ''s1'' 50 s) = Some ''acc2''"
proof -
  have "fst (affinity_get id ''claude'' ''sonnet'' ''s1'' 50
      (fold (exec_affinity id) [ABind ''claude'' ''opus'' ''s9'' ''acc2'' 40] (affinity_evict_connection ''acc1'' demo_affinity))) \<noteq> Some ''acc1''"
    by (rule evicted_account_serves_no_session[OF _ demo_affinity_def]) simp_all
  moreover have "fst (affinity_get id ''claude'' ''opus'' ''s1'' 50
      (fold (exec_affinity id) [ABind ''claude'' ''opus'' ''s9'' ''acc2'' 40] (affinity_evict_connection ''acc1'' demo_affinity))) = Some ''acc2''"
    by code_simp
  ultimately show ?thesis unfolding Let_def by (rule conjI)
qed

end
