(* ===== verification/ErrorClass.thy ===== *)
theory ErrorClass
  imports GoStrings
begin

text \<open>
  How an upstream failure is read: the ordered rule table, the exponential backoff and the
  pattern tests of \<open>internal/providers/errorclassify.go\<close>. Cooldowns are milliseconds, as in
  the code. Text in Chinese is its UTF-8 bytes. The alias table of the providers is a parameter.
\<close>

section \<open>The rule table\<close>

record error_rule =
  er_text :: string
  er_status :: int
  er_cooldown :: int
  er_backoff :: bool
  er_provider :: string
  er_quota :: bool

definition cooldown_long :: int where
  "cooldown_long = 120000"

definition cooldown_short :: int where
  "cooldown_short = 5000"

definition cooldown_banned_account :: int where
  "cooldown_banned_account = 86400000"

definition cooldown_address_refused :: int where
  "cooldown_address_refused = 1800000"

definition quota_exhausted_cooldown :: int where
  "quota_exhausted_cooldown = 3600000"

definition transient_cooldown :: int where
  "transient_cooldown = 30000"

lemmas cooldown_defs = cooldown_long_def cooldown_short_def cooldown_banned_account_def
  cooldown_address_refused_def quota_exhausted_cooldown_def transient_cooldown_def

abbreviation blank_rule :: error_rule where
  "blank_rule \<equiv> \<lparr>er_text = [], er_status = 0, er_cooldown = 0, er_backoff = False, er_provider = [], er_quota = False\<rparr>"

definition text_rule :: "string \<Rightarrow> int \<Rightarrow> error_rule" where
  "text_rule t ms = blank_rule\<lparr>er_text := t, er_cooldown := ms\<rparr>"

definition quota_rule :: "string \<Rightarrow> error_rule" where
  "quota_rule t = blank_rule\<lparr>er_text := t, er_cooldown := quota_exhausted_cooldown, er_quota := True\<rparr>"

definition backoff_rule :: "string \<Rightarrow> error_rule" where
  "backoff_rule t = blank_rule\<lparr>er_text := t, er_backoff := True\<rparr>"

definition provider_backoff :: "string \<Rightarrow> string \<Rightarrow> error_rule" where
  "provider_backoff p t = blank_rule\<lparr>er_provider := p, er_text := t, er_backoff := True\<rparr>"

definition provider_rule :: "string \<Rightarrow> string \<Rightarrow> int \<Rightarrow> error_rule" where
  "provider_rule p t ms = blank_rule\<lparr>er_provider := p, er_text := t, er_cooldown := ms\<rparr>"

definition status_rule :: "int \<Rightarrow> int \<Rightarrow> error_rule" where
  "status_rule s ms = blank_rule\<lparr>er_status := s, er_cooldown := ms\<rparr>"

definition status_backoff :: "int \<Rightarrow> error_rule" where
  "status_backoff s = blank_rule\<lparr>er_status := s, er_backoff := True\<rparr>"

lemmas rule_defs = text_rule_def quota_rule_def backoff_rule_def provider_backoff_def provider_rule_def
  status_rule_def status_backoff_def

definition zh_model_not_supported :: string where
  "zh_model_not_supported = [CHR 0xE5, CHR 0xBD, CHR 0x93, CHR 0xE5, CHR 0x89, CHR 0x8D, CHR 0xE8, CHR 0xB4, CHR 0xA6, CHR 0xE5, CHR 0x8F, CHR 0xB7, CHR 0xE7, CHR 0xB1, CHR 0xBB, CHR 0xE5, CHR 0x9E, CHR 0x8B, CHR 0xE6, CHR 0x9A, CHR 0x82, CHR 0xE4, CHR 0xB8, CHR 0x8D, CHR 0xE6, CHR 0x94, CHR 0xAF, CHR 0xE6, CHR 0x8C, CHR 0x81, CHR 0xE8, CHR 0xAF, CHR 0xA5, CHR 0xE6, CHR 0xA8, CHR 0xA1, CHR 0xE5, CHR 0x9E, CHR 0x8B]"

definition zh_quota_used_up :: string where
  "zh_quota_used_up = [CHR 0xE9, CHR 0xA2, CHR 0x9D, CHR 0xE5, CHR 0xBA, CHR 0xA6, CHR 0xE5, CHR 0xB7, CHR 0xB2, CHR 0xE7, CHR 0x94, CHR 0xA8, CHR 0xE5, CHR 0xB0, CHR 0xBD]"

definition zh_account_abnormal :: string where
  "zh_account_abnormal = [CHR 0xE8, CHR 0xB4, CHR 0xA6, CHR 0xE5, CHR 0x8F, CHR 0xB7, CHR 0xE5, CHR 0xAD, CHR 0x98, CHR 0xE5, CHR 0x9C, CHR 0xA8, CHR 0xE5, CHR 0xBC, CHR 0x82, CHR 0xE5, CHR 0xB8, CHR 0xB8, CHR 0xE8, CHR 0xA1, CHR 0x8C, CHR 0xE4, CHR 0xB8, CHR 0xBA]"

definition error_rules :: "error_rule list" where
  "error_rules =
     [text_rule ''11158'' cooldown_long,
      text_rule ''model_not_in_plan'' cooldown_long,
      text_rule zh_model_not_supported cooldown_long,
      text_rule ''14018'' cooldown_long,
      text_rule zh_quota_used_up cooldown_long,
      text_rule ''11140'' cooldown_address_refused,
      text_rule ''account has been restricted due to unusual activity'' cooldown_address_refused,
      text_rule zh_account_abnormal cooldown_address_refused,
      quota_rule ''insufficient balance'',
      quota_rule ''insufficient credit'',
      quota_rule ''credits exhausted'',
      quota_rule ''credit exhausted'',
      quota_rule ''no remaining credits'',
      quota_rule ''quota exceeded'',
      quota_rule ''insufficient quota'',
      quota_rule ''monthly limit'',
      quota_rule ''frequency limit'',
      quota_rule ''payment required'',
      quota_rule ''free allowance'',
      provider_backoff ''codebuddy-intl'' ''request illegal'',
      provider_backoff ''codebuddy-intl'' ''conversation id missing'',
      provider_rule ''deepseek-web'' ''refused this account'' cooldown_banned_account,
      provider_rule ''deepseek-web'' ''refused this address'' cooldown_address_refused,
      text_rule ''no credentials'' cooldown_long,
      text_rule ''request not allowed'' cooldown_short,
      backoff_rule ''rate limit'',
      backoff_rule ''too many requests'',
      quota_rule ''credit balance is too low'',
      backoff_rule ''capacity'',
      backoff_rule ''overloaded'',
      backoff_rule ''resource_exhausted'',
      backoff_rule ''resource has been exhausted'',
      backoff_rule ''model_capacity_exhausted'',
      backoff_rule ''server is temporarily unavailable'',
      text_rule ''11158'' cooldown_long,
      text_rule ''model_not_in_plan'' cooldown_long,
      text_rule zh_model_not_supported cooldown_long,
      text_rule ''14018'' cooldown_long,
      text_rule zh_quota_used_up cooldown_long,
      text_rule ''11140'' cooldown_address_refused,
      text_rule ''account has been restricted due to unusual activity'' cooldown_address_refused,
      text_rule zh_account_abnormal cooldown_address_refused,
      status_rule 401 cooldown_long,
      status_rule 402 cooldown_long,
      status_rule 403 cooldown_long,
      status_rule 404 cooldown_long,
      status_backoff 429,
      status_backoff 502,
      status_backoff 503,
      status_backoff 504]"

section \<open>Classification\<close>

definition base_backoff :: int where
  "base_backoff = 2000"

definition max_backoff :: int where
  "max_backoff = 300000"

definition max_backoff_level :: int where
  "max_backoff_level = 15"

text \<open>\<open>math.Pow\<close> of two is exact on the levels that occur, which are at most 15.\<close>

definition get_quota_cooldown :: "int \<Rightarrow> int" where
  "get_quota_cooldown level = min (base_backoff * 2 ^ nat (max (level - 1) 0)) max_backoff"

record classification =
  ec_fallback :: bool
  ec_cooldown :: int
  ec_level :: int

definition apply_rule :: "error_rule \<Rightarrow> int \<Rightarrow> classification" where
  "apply_rule r level =
     (if er_backoff r
      then (let new = min (level + 1) max_backoff_level
            in \<lparr>ec_fallback = True, ec_cooldown = get_quota_cooldown new, ec_level = new\<rparr>)
      else \<lparr>ec_fallback = True, ec_cooldown = er_cooldown r, ec_level = level\<rparr>)"

text \<open>A rule whose text matches but whose provider does not is skipped, its status included.\<close>

fun match_rules :: "error_rule list \<Rightarrow> int \<Rightarrow> string \<Rightarrow> int \<Rightarrow> string \<Rightarrow> classification option" where
  "match_rules [] status text level provider = None"
| "match_rules (r # rs) status text level provider =
     (if er_text r \<noteq> [] \<and> text \<noteq> [] \<and> contains_str text (er_text r)
      then (if er_provider r \<noteq> [] \<and> er_provider r \<noteq> provider then match_rules rs status text level provider
            else Some (apply_rule r level))
      else if er_status r \<noteq> 0 \<and> er_status r = status then Some (apply_rule r level)
      else match_rules rs status text level provider)"

definition classify_error_for_provider :: "(string \<Rightarrow> string) \<Rightarrow> int \<Rightarrow> string \<Rightarrow> int \<Rightarrow> string \<Rightarrow> classification" where
  "classify_error_for_provider alias status text level provider =
     (let provider = (if provider = [] then [] else alias provider)
      in case match_rules error_rules status (to_lower text) level provider of
           Some c \<Rightarrow> c
         | None \<Rightarrow>
             (if status \<ge> 400 \<and> status < 500 \<and> status \<noteq> 401 \<and> status \<noteq> 402 \<and> status \<noteq> 403 \<and> status \<noteq> 429
              then \<lparr>ec_fallback = False, ec_cooldown = 0, ec_level = 0\<rparr>
              else \<lparr>ec_fallback = True, ec_cooldown = transient_cooldown, ec_level = level\<rparr>))"

definition classify_error :: "(string \<Rightarrow> string) \<Rightarrow> int \<Rightarrow> string \<Rightarrow> int \<Rightarrow> classification" where
  "classify_error alias status text level = classify_error_for_provider alias status text level []"

definition retryable_status_codes :: "int list" where
  "retryable_status_codes = [401, 402, 403, 429, 502, 503, 504]"

section \<open>Pattern tests\<close>

definition quota_exhausted_patterns :: "string list" where
  "quota_exhausted_patterns =
    [''monthly limit'', ''monthly quota'', ''per month limit'', ''per-month limit'', ''quota exceeded'',
     ''exceeded quota'', ''exceed quota'', ''exceeded your current quota'', ''insufficient quota'',
     ''insufficient balance'', ''insufficient credit'', ''billing cap'', ''credit exhausted'',
     ''credits exhausted'', ''out of credits'', ''no remaining credit'', ''hard limit'', ''plan limit'',
     ''resource exhausted'', ''individual quota reached'', ''enable overages'', ''billing required'',
     ''payment required'', ''balance=0'', ''frequency limit'']"

definition rate_limit_patterns :: "string list" where
  "rate_limit_patterns =
    [''rate limit'', ''rate_limit'', ''ratelimit'', ''too many requests'', ''resource_exhausted'',
     ''resource has been exhausted'', ''requests per minute'', ''rpm limit'', ''tpm limit'',
     ''tokens per minute'', ''requests per day'', ''rpd limit'', ''429'']"

definition permanent_failure_patterns :: "string list" where
  "permanent_failure_patterns =
    [''invalid api key'', ''invalid_api_key'', ''invalid key'', ''apikey is invalid'',
     ''incorrect api key'', ''unauthorized'', ''authentication_error'', ''authentication failed'',
     ''permission denied'', ''access denied'', ''not authorized'', ''invalid_grant'', ''invalid_token'',
     ''token expired'', ''token has expired'', ''revoked'', ''no credentials'', ''account suspended'',
     ''account disabled'', ''not found'']"

definition throttle_window_patterns :: "string list" where
  "throttle_window_patterns =
    [''per minute'', ''per-minute'', ''per second'', ''per-second'', ''per hour'',
     ''requests per minute'', ''requests per second'', ''tokens per minute'', ''tokens per second'',
     ''rpm limit'', ''tpm limit'', ''rps limit'', ''too many requests'']"

definition model_fit_error_patterns :: "string list" where
  "model_fit_error_patterns =
    [''context_length_exceeded'', ''maximum context length'', ''prompt is too long'',
     ''reduce the length of the messages'', ''input is too long'', ''too many tokens'',
     ''context window'', ''exceeds the maximum number of tokens'',
     (''unsupported value '' @ [CHR 0x5C] @ [CHR 0x22] @ ''image''),
     (''unsupported value '' @ [CHR 0x22] @ ''image''), ''not support image'',
     ''image input not supported'', ''images are not supported'']"

definition mentions_any :: "string list \<Rightarrow> string \<Rightarrow> bool" where
  "mentions_any patterns text \<longleftrightarrow> list_ex (contains_str (to_lower text)) patterns"

definition looks_like_quota_exhausted :: "string \<Rightarrow> bool" where
  "looks_like_quota_exhausted text \<longleftrightarrow> text \<noteq> [] \<and> mentions_any quota_exhausted_patterns text"

definition looks_like_permanent_failure :: "string \<Rightarrow> bool" where
  "looks_like_permanent_failure text \<longleftrightarrow> text \<noteq> [] \<and> mentions_any permanent_failure_patterns text"

definition looks_like_throttle_window :: "string \<Rightarrow> bool" where
  "looks_like_throttle_window text \<longleftrightarrow> text \<noteq> [] \<and> mentions_any throttle_window_patterns text"

definition looks_like_rate_limited :: "string \<Rightarrow> bool" where
  "looks_like_rate_limited text \<longleftrightarrow> text \<noteq> [] \<and> mentions_any rate_limit_patterns text"

definition model_fit_status_codes :: "int list" where
  "model_fit_status_codes = [400, 413, 422, 403]"

definition is_model_fit_error :: "int \<Rightarrow> string \<Rightarrow> bool" where
  "is_model_fit_error status body \<longleftrightarrow>
     status \<in> set model_fit_status_codes \<and> body \<noteq> [] \<and> mentions_any model_fit_error_patterns body"

section \<open>Bounds\<close>

lemma get_quota_cooldown_bounds: "0 < get_quota_cooldown l \<and> get_quota_cooldown l \<le> max_backoff"
  by (simp add: get_quota_cooldown_def base_backoff_def max_backoff_def)

definition rule_ok :: "error_rule \<Rightarrow> bool" where
  "rule_ok r \<longleftrightarrow> er_backoff r \<or> 0 < er_cooldown r \<and> er_cooldown r \<le> cooldown_banned_account"

lemma error_rules_ok: "list_all rule_ok error_rules"
  by (simp add: error_rules_def rule_ok_def rule_defs cooldown_defs)

lemma match_rules_in: "match_rules rs status text level provider = Some c \<Longrightarrow> \<exists>r\<in>set rs. c = apply_rule r level"
  by (induction rs) (auto split: if_splits)

lemma apply_rule_bounds:
  assumes "rule_ok r" "0 \<le> level" "level \<le> max_backoff_level"
  shows "ec_fallback (apply_rule r level) \<and> 0 < ec_cooldown (apply_rule r level) \<and>
    ec_cooldown (apply_rule r level) \<le> cooldown_banned_account \<and>
    level \<le> ec_level (apply_rule r level) \<and> ec_level (apply_rule r level) \<le> max_backoff_level"
  using assms get_quota_cooldown_bounds[of "min (level + 1) max_backoff_level"]
  by (auto simp: apply_rule_def rule_ok_def Let_def max_backoff_level_def max_backoff_def cooldown_banned_account_def)

lemma status_only_match:
  assumes "list_all (\<lambda>r. er_text r = [] \<or> \<not> contains_str text (er_text r)) rs"
  shows "match_rules rs status text level provider =
    map_option (\<lambda>r. apply_rule r level) (List.find (\<lambda>r. er_status r \<noteq> 0 \<and> er_status r = status) rs)"
  using assms by (induction rs) auto

lemma status_404_matches: "match_rules error_rules 404 text level provider \<noteq> None"
proof -
  have "match_rules rs 404 text level provider \<noteq> None" if "list_ex (\<lambda>r. er_status r = 404 \<and> er_text r = []) rs" for rs
    using that by (induction rs) auto
  moreover have "list_ex (\<lambda>r. er_status r = 404 \<and> er_text r = []) error_rules" by (simp add: error_rules_def rule_defs)
  ultimately show ?thesis by blast
qed

lemma throttle_classified:
  assumes "status \<in> {429, 502, 503, 504}"
    and "list_all (\<lambda>r. er_text r = [] \<or> \<not> contains_str (to_lower text) (er_text r)) error_rules"
  shows "classify_error_for_provider alias status text l provider =
    (let new = min (l + 1) 15 in \<lparr>ec_fallback = True, ec_cooldown = get_quota_cooldown new, ec_level = new\<rparr>)"
  using assms(1) unfolding classify_error_for_provider_def status_only_match[OF assms(2)]
  by (auto simp: error_rules_def rule_defs apply_rule_def max_backoff_level_def Let_def)

section \<open>Properties\<close>

text \<open>Whatever an upstream answers, the verdict on the account is bounded: an account is parked exactly when
  another one is to be tried, for at most a day, and its backoff level only grows and never passes the
  cap. An error that says nothing about the account (a client error other than 401, 402, 403, 404 and
  429, with no telling text) does not park it.\<close>
theorem classification_bounded:
  assumes "0 \<le> level" "level \<le> 15"
    and "c = classify_error_for_provider alias status text level provider"
  shows "(if ec_fallback c then 0 < ec_cooldown c \<and> ec_cooldown c \<le> 86400000 \<and> level \<le> ec_level c \<and> ec_level c \<le> 15
          else ec_cooldown c = 0 \<and> 400 \<le> status \<and> status < 500 \<and> status \<notin> {401, 402, 403, 404, 429}) \<and>
    (list_all (\<lambda>r. er_text r = [] \<or> \<not> contains_str (to_lower text) (er_text r)) error_rules \<and>
     400 \<le> status \<and> status < 500 \<and> status \<notin> {401, 402, 403, 404, 429} \<longrightarrow> \<not> ec_fallback c)"
proof -
  let ?p = "if provider = [] then [] else alias provider"
  let ?free = "list_all (\<lambda>r. er_text r = [] \<or> \<not> contains_str (to_lower text) (er_text r)) error_rules"
  have level: "level \<le> max_backoff_level" using assms(2) by (simp add: max_backoff_level_def)
  show ?thesis
  proof (cases "match_rules error_rules status (to_lower text) level ?p")
    case None
    then have c: "c = (if status \<ge> 400 \<and> status < 500 \<and> status \<noteq> 401 \<and> status \<noteq> 402 \<and> status \<noteq> 403 \<and> status \<noteq> 429
        then \<lparr>ec_fallback = False, ec_cooldown = 0, ec_level = 0\<rparr>
        else \<lparr>ec_fallback = True, ec_cooldown = transient_cooldown, ec_level = level\<rparr>)"
      using assms(3) by (simp add: classify_error_for_provider_def Let_def)
    have "status \<noteq> 404" using None status_404_matches by blast
    then show ?thesis using c assms(1,2) by (simp add: transient_cooldown_def)
  next
    case (Some d)
    then have c: "c = d" using assms(3) by (simp add: classify_error_for_provider_def Let_def)
    obtain r where r: "r \<in> set error_rules" "d = apply_rule r level" using match_rules_in[OF Some] by blast
    then have "rule_ok r" using error_rules_ok by (simp add: list_all_iff)
    note b = apply_rule_bounds[OF this assms(1) level, folded r(2)]
    have "status \<in> {401, 402, 403, 404, 429, 502, 503, 504}" if ?free
      using Some unfolding status_only_match[OF that] by (auto simp: error_rules_def rule_defs split: if_splits)
    then show ?thesis using b c by (auto simp: max_backoff_level_def cooldown_banned_account_def)
  qed
qed

lemma classification_bounded_witness:
  "\<not> ec_fallback (classify_error_for_provider id 422 ''bad field'' 3 ''openai'') \<and>
   ec_cooldown (classify_error_for_provider id 403 ''refused this account'' 3 ''deepseek-web'') = 86400000 \<and>
   ec_cooldown (classify_error_for_provider id 403 ''refused this account'' 3 ''deepseek-web'') \<le> 86400000"
proof -
  have "\<not> ec_fallback (classify_error_for_provider id 422 ''bad field'' 3 ''openai'')"
    "ec_cooldown (classify_error_for_provider id 403 ''refused this account'' 3 ''deepseek-web'') = 86400000"
    "ec_fallback (classify_error_for_provider id 403 ''refused this account'' 3 ''deepseek-web'')" by code_simp+
  then show ?thesis
    using classification_bounded[of 3 _ id 403 "''refused this account''" "''deepseek-web''", OF _ _ refl] by simp
qed

text \<open>Repeated throttling backs off exponentially: the \<open>n\<close>th failure in a row with a throttling or gateway
  status and no telling text parks the account for two seconds doubled \<open>n\<close> times, capped at five
  minutes.\<close>
theorem backoff_doubles:
  assumes "status \<in> {429, 502, 503, 504}"
    and "list_all (\<lambda>r. er_text r = [] \<or> \<not> contains_str (to_lower text) (er_text r)) error_rules"
    and "level = ((\<lambda>l. ec_level (classify_error_for_provider alias status text l provider)) ^^ n) 0"
  shows "ec_cooldown (classify_error_for_provider alias status text level provider) = min (2000 * 2 ^ n) 300000"
proof -
  have levels: "((\<lambda>l. ec_level (classify_error_for_provider alias status text l provider)) ^^ k) 0 = int (min k 15)" for k
    by (induction k) (simp_all add: throttle_classified[OF assms(1,2)] Let_def min_def)
  have new: "min (int (min n 15) + 1) 15 = int (min (Suc n) 15)" by simp
  have "get_quota_cooldown (int (min (Suc n) 15)) = min (2000 * 2 ^ n) 300000"
  proof (cases "n < 15")
    case False
    then have "(2::int) ^ 15 \<le> 2 ^ n" by (intro power_increasing) simp_all
    then show ?thesis using False by (simp add: get_quota_cooldown_def base_backoff_def max_backoff_def)
  qed (simp add: get_quota_cooldown_def base_backoff_def max_backoff_def min_def)
  then show ?thesis unfolding assms(3) levels by (simp only: throttle_classified[OF assms(1,2)] Let_def new classification.simps)
qed

lemma backoff_doubles_witness:
  "ec_cooldown (classify_error_for_provider id 429 ''slow down'' 3 ''openai'') = 16000"
proof -
  have "list_all (\<lambda>r. er_text r = [] \<or> \<not> contains_str (to_lower ''slow down'') (er_text r)) error_rules" by code_simp
  note free = this
  have "((\<lambda>l. ec_level (classify_error_for_provider id 429 ''slow down'' l ''openai'')) ^^ 3) 0 = 3"
    by (simp add: throttle_classified[OF _ free] eval_nat_numeral Let_def)
  from backoff_doubles[OF _ free this[symmetric]] show ?thesis by simp
qed

end
