(* ===== verification/Cooldown.thy ===== *)
theory Cooldown
  imports ErrorClass GoJson
begin

text \<open>
  How long a failed account or a failed combo pass waits: \<open>internal/handlers/chat/retry_after.go\<close>
  and the reset-time readers of \<open>fallback.go\<close>. \<open>time.ParseDuration\<close> is modelled; the JSON
  decoders, the two regular expressions and the parsers of calendar texts are parameters.
  Durations are 64-bit: a product of seconds is written with its wrap-around.
\<close>

section \<open>Durations as text\<close>

definition unit_nanos :: "string \<Rightarrow> int option" where
  "unit_nanos u =
     (if u = ''ns'' then Some 1 else if u = ''us'' then Some 1000
      else if u = [CHR 0xC2, CHR 0xB5, CHR ''s''] \<or> u = [CHR 0xCE, CHR 0xBC, CHR ''s''] then Some 1000
      else if u = ''ms'' then Some millisecond else if u = ''s'' then Some second
      else if u = ''m'' then Some minute else if u = ''h'' then Some hour else None)"

definition two63 :: int where
  "two63 = 9223372036854775808"

text \<open>The digits in front, \<open>None\<close> on overflow; and those of a fraction, which stop counting instead.\<close>

definition leading_int :: "string \<Rightarrow> (int \<times> string) option" where
  "leading_int s = (let v = digits_val (takeWhile is_digit s) in if v > two63 then None else Some (v, dropWhile is_digit s))"

fun leading_fraction :: "int \<Rightarrow> int \<Rightarrow> bool \<Rightarrow> string \<Rightarrow> int \<times> int \<times> string" where
  "leading_fraction x scale over [] = (x, scale, [])"
| "leading_fraction x scale over (c # s) =
     (if \<not> is_digit c then (x, scale, c # s)
      else if over then leading_fraction x scale over s
      else if x > (two63 - 1) div 10 then leading_fraction x scale True s
      else if 10 * x + digit_val c > two63 then leading_fraction x scale True s
      else leading_fraction (10 * x + digit_val c) (scale * 10) False s)"

lemma leading_fraction_length: "length (snd (snd (leading_fraction x scale over s))) \<le> length s"
  by (induction s arbitrary: x scale over) (auto simp: le_SucI)

text \<open>The fraction of a unit is computed in \<open>float64\<close> by the library; here it is exact.\<close>

function parse_units :: "int \<Rightarrow> string \<Rightarrow> int option" where
  "parse_units d s =
     (if s = [] then Some d
      else if hd s \<noteq> CHR ''.'' \<and> \<not> is_digit (hd s) then None
      else case leading_int s of
             None \<Rightarrow> None
           | Some (v, s1) \<Rightarrow>
               (let pre = length s1 \<noteq> length s;
                    dot = s1 \<noteq> [] \<and> hd s1 = CHR ''.'';
                    (f, scale, s2) = (if dot then leading_fraction 0 1 False (tl s1) else (0, 1, s1));
                    post = dot \<and> length s2 \<noteq> length (tl s1);
                    u = takeWhile (\<lambda>c. c \<noteq> CHR ''.'' \<and> \<not> is_digit c) s2;
                    rest = dropWhile (\<lambda>c. c \<noteq> CHR ''.'' \<and> \<not> is_digit c) s2
                in if \<not> pre \<and> \<not> post then None
                   else if u = [] then None
                   else case unit_nanos u of
                          None \<Rightarrow> None
                        | Some unit \<Rightarrow>
                            (if v > two63 div unit then None
                             else let v = v * unit + (if f > 0 then f * unit div scale else 0)
                                  in if v > two63 \<or> d + v > two63 then None
                                     else parse_units (d + v) rest)))"
  by pat_completeness auto
termination
proof (relation "measure (\<lambda>(d, s). length s)")
  fix d :: int and s vs v s1 pre dot x f y scale s2 post u rest un unit w
  assume eqs: "leading_int s = Some vs" "(v, s1) = vs" "dot = (s1 \<noteq> [] \<and> hd s1 = CHR ''.'')"
    "x = (if dot then leading_fraction 0 1 False (tl s1) else (0, 1, s1))" "(f, y) = x" "(scale, s2) = y"
    "u = takeWhile (\<lambda>c. c \<noteq> CHR ''.'' \<and> \<not> is_digit c) s2"
    "rest = dropWhile (\<lambda>c. c \<noteq> CHR ''.'' \<and> \<not> is_digit c) s2" "u \<noteq> []"
  have "length s1 \<le> length s" using eqs(1,2) by (auto simp: leading_int_def Let_def length_dropWhile_le split: if_splits)
  moreover have "length s2 \<le> length s1"
    using eqs(4-6) leading_fraction_length[of 0 1 False "tl s1"]
    by (cases dot) (auto dest: arg_cong[where f = "\<lambda>t. length (snd (snd t))"])
  moreover have "length s2 = length u + length rest" unfolding eqs(7,8) by (metis length_append takeWhile_dropWhile_id)
  moreover have "0 < length u" using eqs(9) by simp
  ultimately have "length rest < length s" by linarith
  then show "((w :: int, rest), (d, s)) \<in> measure (\<lambda>(d, s). length s)" by simp
qed simp

declare parse_units.simps [simp del]

definition parse_go_duration :: "string \<Rightarrow> duration option" where
  "parse_go_duration s =
     (let neg = s \<noteq> [] \<and> hd s = CHR ''-'';
          s = (if s \<noteq> [] \<and> (hd s = CHR ''-'' \<or> hd s = CHR ''+'') then tl s else s)
      in if s = ''0'' then Some 0
         else if s = [] then None
         else case parse_units 0 s of
                None \<Rightarrow> None
              | Some d \<Rightarrow> (if neg then Some (- d) else if d > two63 - 1 then None else Some d))"

definition trim_dots :: "string \<Rightarrow> string" where
  "trim_dots s = rev (dropWhile (\<lambda>c. c = CHR ''.'') (rev s))"

text \<open>The flag of the code's result is whether it is \<open>Some\<close>.\<close>

definition parse_duration_string :: "string \<Rightarrow> duration option" where
  "parse_duration_string v =
     (let v = trim_dots (trim_space v)
      in if v = [] then None
         else case parse_go_duration v of
                Some d \<Rightarrow> (if d > 0 then Some d else None)
              | None \<Rightarrow> (case atoi v of
                          Some secs \<Rightarrow> (if secs > 0 then Some (wrap_int64 (secs * second)) else None)
                        | None \<Rightarrow> None))"

section \<open>The wait an upstream asks for\<close>

record upstream_error =
  ue_status :: int
  ue_retry_after :: string
  ue_body :: string

text \<open>An entry of \<open>error.details\<close>: its type, its delay, the delay and the quota delay of its metadata.\<close>

record rpc_detail =
  rd_type :: string
  rd_delay :: string
  rd_meta_delay :: string
  rd_quota_delay :: string

text \<open>
  The decoders: the error object, the retry fields in their order, the first group of
  \<open>resets? in <duration>\<close> and the groups of the date pattern, an RFC 3339 text and an HTTP date,
  and the RFC 3339 text of an instant.
\<close>

record error_fields =
  ef_message :: string
  ef_status :: string
  ef_reasons :: "string list"
  ef_top_message :: string

record decoders =
  de_error :: "string \<Rightarrow> error_fields option"
  de_details :: "string \<Rightarrow> rpc_detail list option"
  de_reset :: "string \<Rightarrow> (string \<times> rpc_detail list) option"
  de_retry_fields :: "string \<Rightarrow> string list option"
  de_resets_in :: "string \<Rightarrow> string option"
  de_reset_date :: "string \<Rightarrow> (string \<times> string \<times> string) option"
  de_rfc3339 :: "string \<Rightarrow> instant option"
  de_http_time :: "string \<Rightarrow> instant option"
  de_format :: "instant \<Rightarrow> string"

definition min_reset_cooldown :: duration where
  "min_reset_cooldown = 5 * second"

definition max_reset_cooldown :: duration where
  "max_reset_cooldown = 2 * hour"

definition clamp_reset_duration :: "duration \<Rightarrow> duration" where
  "clamp_reset_duration d =
     (if d < min_reset_cooldown then min_reset_cooldown
      else if d > max_reset_cooldown then max_reset_cooldown else d)"

definition positive :: "duration option \<Rightarrow> duration option" where
  "positive d = (case d of Some n \<Rightarrow> (if n > 0 then Some n else None) | None \<Rightarrow> None)"

definition first_some :: "'a option list \<Rightarrow> 'a option" where
  "first_some xs = (case filter (\<lambda>x. x \<noteq> None) xs of [] \<Rightarrow> None | x # _ \<Rightarrow> x)"

definition dotted_duration :: "string \<Rightarrow> duration option" where
  "dotted_duration s = positive (parse_go_duration (trim_dots s))"

definition two_digits :: "int \<Rightarrow> string" where
  "two_digits n = (if 0 \<le> n \<and> n < 10 then CHR ''0'' # itoa_int n else itoa_int n)"

definition zone_of :: "string \<Rightarrow> string" where
  "zone_of tz =
     (if tz = [] then ''+08:00''
      else if CHR '':'' \<notin> set tz then (case atoi tz of Some n \<Rightarrow> ''+'' @ two_digits n @ '':00'' | None \<Rightarrow> ''+08:00'')
      else if hd tz \<noteq> CHR ''+'' \<and> hd tz \<noteq> CHR ''-'' then ''+'' @ tz else tz)"

definition extract_reset_duration :: "decoders \<Rightarrow> instant \<Rightarrow> string \<Rightarrow> duration option" where
  "extract_reset_duration de now body =
     (if body = [] then None
      else map_option clamp_reset_duration (first_some (
        (case de_reset de body of
           None \<Rightarrow> []
         | Some (message, details) \<Rightarrow>
             map (\<lambda>d. if rd_quota_delay d = [] then None else dotted_duration (rd_quota_delay d)) details @
             [if message = [] then None else Option.bind (de_resets_in de message) dotted_duration]) @
        [Option.bind (de_resets_in de body) dotted_duration,
         (case de_reset_date de body of
            None \<Rightarrow> None
          | Some (date, clock, tz) \<Rightarrow>
              positive (map_option (\<lambda>t. t - now) (de_rfc3339 de (date @ ''T'' @ clock @ zone_of tz))))])))"

definition extract_retry_after :: "decoders \<Rightarrow> instant \<Rightarrow> string \<Rightarrow> string" where
  "extract_retry_after de now body =
     (case extract_reset_duration de now body of
        Some d \<Rightarrow> de_format de (now + d)
      | None \<Rightarrow> (case de_retry_fields de body of
                   None \<Rightarrow> []
                 | Some fs \<Rightarrow> (case filter (\<lambda>f. f \<noteq> []) fs of [] \<Rightarrow> [] | f # _ \<Rightarrow> f)))"

definition parse_retry_after_header :: "decoders \<Rightarrow> instant \<Rightarrow> string \<Rightarrow> duration option" where
  "parse_retry_after_header de now v =
     (let v = trim_space v
      in if v = [] then None
         else case atoi v of
                Some secs \<Rightarrow> (if secs \<le> 0 then None else Some (wrap_int64 (secs * second)))
              | None \<Rightarrow> positive (map_option (\<lambda>t. t - now) (de_http_time de v)))"

definition parse_retry_after_value :: "decoders \<Rightarrow> instant \<Rightarrow> string \<Rightarrow> duration option" where
  "parse_retry_after_value de now v =
     (let v = trim_space v
      in if v = [] then None
         else case de_rfc3339 de v of
                Some t \<Rightarrow> (if t - now > 0 then Some (t - now) else None)
              | None \<Rightarrow> parse_duration_string v)"

definition retry_info_delay :: "decoders \<Rightarrow> string \<Rightarrow> duration option" where
  "retry_info_delay de body =
     (if body = [] then None
      else case de_details de body of
             None \<Rightarrow> None
           | Some details \<Rightarrow>
               first_some (concat (map (\<lambda>d.
                 if \<not> contains_str (rd_type d) ''RetryInfo'' \<and> rd_delay d = [] \<and> rd_meta_delay d = [] then []
                 else [parse_duration_string (rd_delay d), parse_duration_string (rd_meta_delay d)]) details)))"

definition note_longest :: "duration option \<Rightarrow> duration option \<Rightarrow> duration option" where
  "note_longest d longest =
     (case d of
        None \<Rightarrow> longest
      | Some n \<Rightarrow> (if n > (case longest of None \<Rightarrow> 0 | Some m \<Rightarrow> m) then Some n else longest))"

definition retry_after_wait :: "decoders \<Rightarrow> instant \<Rightarrow> upstream_error \<Rightarrow> duration option" where
  "retry_after_wait de now ue =
     note_longest (parse_retry_after_value de now (extract_retry_after de now (ue_body ue)))
       (note_longest (retry_info_delay de (ue_body ue))
         (note_longest (parse_retry_after_header de now (ue_retry_after ue)) None))"

section \<open>Cooldown of an account\<close>

definition deepseek_web_max_mute :: duration where
  "deepseek_web_max_mute = 7 * 24 * hour"

definition max_cooldown_for :: "string \<Rightarrow> duration" where
  "max_cooldown_for provider = (if provider = ''deepseek-web'' then deepseek_web_max_mute else max_reset_cooldown)"

definition ceil_seconds :: "duration \<Rightarrow> int" where
  "ceil_seconds d = (if d \<le> 0 then 0 else wrap_int64 (d + second - 1) sdiv second)"

definition retryable_cooldown_sec :: "decoders \<Rightarrow> instant \<Rightarrow> int \<Rightarrow> duration \<Rightarrow> upstream_error \<Rightarrow> string \<Rightarrow> int" where
  "retryable_cooldown_sec de now status base ue provider =
     (let cooldown =
        (if status = 429 then (case retry_after_wait de now ue of Some w \<Rightarrow> w | None \<Rightarrow> base)
         else (case extract_reset_duration de now (ue_body ue) of Some d \<Rightarrow> d | None \<Rightarrow> base))
      in ceil_seconds (min cooldown (max_cooldown_for provider)))"

section \<open>Repeating a pass\<close>

definition brief_429_retry_tolerance :: duration where
  "brief_429_retry_tolerance = 2 * second"

definition combo_retry_wait_cap :: duration where
  "combo_retry_wait_cap = 8 * second"

definition combo_pass_retry_wait :: "duration \<Rightarrow> bool \<Rightarrow> duration" where
  "combo_pass_retry_wait earliest rate_limited =
     (let limit = (if rate_limited then brief_429_retry_tolerance else combo_retry_wait_cap)
      in if earliest \<le> 0 \<or> earliest > limit then 0 else earliest)"

text \<open>\<open>jitter\<close> is the random number below the jitter range, in milliseconds.\<close>

definition min_retry_jitter :: int where
  "min_retry_jitter = 100"

definition max_retry_jitter :: int where
  "max_retry_jitter = 400"

definition add_retry_jitter :: "int \<Rightarrow> duration \<Rightarrow> duration" where
  "add_retry_jitter jitter d = (if d \<le> 0 then 0 else d + (min_retry_jitter + jitter) * millisecond)"

record pass_retry =
  pr_earliest :: duration
  pr_rate_limited :: bool

definition fresh_pass :: pass_retry where
  "fresh_pass = \<lparr>pr_earliest = 0, pr_rate_limited = False\<rparr>"

definition pass_note :: "decoders \<Rightarrow> instant \<Rightarrow> upstream_error \<Rightarrow> pass_retry \<Rightarrow> pass_retry" where
  "pass_note de now ue p =
     (let p = (if ue_status ue = 429 then p\<lparr>pr_rate_limited := True\<rparr> else p)
      in case retry_after_wait de now ue of
           Some w \<Rightarrow> (if pr_earliest p = 0 \<or> w < pr_earliest p then p\<lparr>pr_earliest := w\<rparr> else p)
         | None \<Rightarrow> p)"

definition pass_wait :: "int \<Rightarrow> pass_retry \<Rightarrow> duration" where
  "pass_wait jitter p =
     (let w = combo_pass_retry_wait (pr_earliest p) (pr_rate_limited p)
      in if w \<le> 0 then 0 else add_retry_jitter jitter w)"

section \<open>Facts\<close>

lemma note_longest_pos:
  "(\<And>n. longest = Some n \<Longrightarrow> 0 < n) \<Longrightarrow> note_longest d longest = Some w \<Longrightarrow> 0 < w"
  by (cases d; cases longest) (force simp: note_longest_def split: if_splits)+

lemma retry_after_wait_pos: "retry_after_wait de now ue = Some w \<Longrightarrow> 0 < w"
  unfolding retry_after_wait_def by (erule note_longest_pos[rotated])+ simp

lemma max_cooldown_range: "0 < max_cooldown_for p \<and> max_cooldown_for p \<le> 604800 * second"
  by (simp add: max_cooldown_for_def deepseek_web_max_mute_def max_reset_cooldown_def duration_defs)

lemma ceil_seconds_small:
  assumes "0 < d" "d \<le> 604800 * second"
  shows "d \<le> ceil_seconds d * second \<and> ceil_seconds d * second < d + second"
proof -
  have "wrap_int64 (d + second - 1) = d + second - 1"
    using assms by (intro wrap_int64_id) (simp_all add: second_def)
  then have c: "ceil_seconds d = (d + second - 1) div second" using assms by (simp add: ceil_seconds_def)
  show ?thesis
    using div_mult_mod_eq[of "d + second - 1" second] pos_mod_bound[OF second_pos(1), of "d + second - 1"]
      pos_mod_sign[OF second_pos(1), of "d + second - 1"] unfolding c by linarith
qed

lemma extract_reset_pos: "extract_reset_duration de now body = Some d \<Longrightarrow> 0 < d"
  by (auto simp: extract_reset_duration_def clamp_reset_duration_def min_reset_cooldown_def max_reset_cooldown_def
      duration_defs split: if_splits)

section \<open>Properties\<close>


text \<open>Decoders that know nothing, so that only the header counts.\<close>

definition blind_decoders :: decoders where
  "blind_decoders = \<lparr>de_error = (\<lambda>_. None), de_details = (\<lambda>_. None), de_reset = (\<lambda>_. None),
     de_retry_fields = (\<lambda>_. None), de_resets_in = (\<lambda>_. None), de_reset_date = (\<lambda>_. None),
     de_rfc3339 = (\<lambda>_. None), de_http_time = (\<lambda>_. None), de_format = (\<lambda>_. [])\<rparr>"

definition plain_error :: "int \<Rightarrow> string \<Rightarrow> upstream_error" where
  "plain_error status after = \<lparr>ue_status = status, ue_retry_after = after, ue_body = []\<rparr>"


text \<open>The waits the failures of a pass announced, each at its instant.\<close>

definition announced :: "decoders \<Rightarrow> (instant \<times> upstream_error) list \<Rightarrow> duration list" where
  "announced de es = concat (map (\<lambda>(now, ue). case retry_after_wait de now ue of None \<Rightarrow> [] | Some w \<Rightarrow> [w]) es)"

lemma announced_Cons:
  "announced de ((now, ue) # es) = (case retry_after_wait de now ue of None \<Rightarrow> [] | Some w \<Rightarrow> [w]) @ announced de es"
  by (simp add: announced_def)

lemma pass_note_eq:
  "pass_note de now ue p =
     \<lparr>pr_earliest = (case retry_after_wait de now ue of None \<Rightarrow> pr_earliest p
        | Some w \<Rightarrow> if pr_earliest p = 0 \<or> w < pr_earliest p then w else pr_earliest p),
      pr_rate_limited = (pr_rate_limited p \<or> ue_status ue = 429)\<rparr>"
  by (simp add: pass_note_def Let_def split: option.split)

lemma pass_wait_eq:
  "pass_wait jitter \<lparr>pr_earliest = e, pr_rate_limited = r\<rparr> =
     (if 0 < e \<and> e \<le> (if r then 2 * second else 8 * second) then e + (100 + jitter) * millisecond else 0)"
  by (simp add: pass_wait_def combo_pass_retry_wait_def add_retry_jitter_def Let_def
      brief_429_retry_tolerance_def combo_retry_wait_cap_def min_retry_jitter_def)

lemma pass_note_fold:
  "fold (\<lambda>(now, ue). pass_note de now ue) es p =
     \<lparr>pr_earliest = foldl (\<lambda>a w. if a = 0 \<or> w < a then w else a) (pr_earliest p) (announced de es),
      pr_rate_limited = (pr_rate_limited p \<or> (\<exists>(now, ue)\<in>set es. ue_status ue = 429))\<rparr>"
proof (induction es arbitrary: p)
  case (Cons e es)
  obtain now ue where e: "e = (now, ue)" by fastforce
  have "fold (\<lambda>(now, ue). pass_note de now ue) (e # es) p = fold (\<lambda>(now, ue). pass_note de now ue) es (pass_note de now ue p)"
    by (simp add: e)
  also have "\<dots> = \<lparr>pr_earliest = foldl (\<lambda>a w. if a = 0 \<or> w < a then w else a) (pr_earliest p) (announced de (e # es)),
      pr_rate_limited = (pr_rate_limited p \<or> (\<exists>(now, ue)\<in>set (e # es). ue_status ue = 429))\<rparr>"
    unfolding Cons.IH by (auto simp: e announced_Cons pass_note_eq split: option.split)
  finally show ?case .
qed (simp add: announced_def)

lemma foldl_earliest:
  assumes "\<forall>w\<in>set ws. 0 < (w :: duration)" "0 \<le> a"
  shows "foldl (\<lambda>a w. if a = 0 \<or> w < a then w else a) a ws =
    (if ws = [] then a else if a = 0 then Min (set ws) else min a (Min (set ws)))"
  using assms
proof (induction ws arbitrary: a)
  case (Cons w ws)
  then have "0 < w" by simp
  show ?case
  proof (cases "ws = []")
    case False
    then have "0 < Min (set ws)" using Cons.prems by simp
    then show ?thesis using Cons \<open>0 < w\<close> False by (auto simp: min_def)
  qed (use Cons.prems in auto)
qed simp

text \<open>A combo whose members all failed is retried when, and only when, that can help: the pass is repeated
  after the shortest wait any member announced (plus the jitter) if that wait is within eight seconds,
  or within two when one of the failures was a 429; a longer wait, or none announced, ends the turn.\<close>
theorem pass_repeats_iff_worth_it:
  shows "pass_wait jitter (fold (\<lambda>(now, ue). pass_note de now ue) es fresh_pass) =
    (let ws = announced de es; limit = (if \<exists>(now, ue)\<in>set es. ue_status ue = 429 then 2 * second else 8 * second)
     in if ws \<noteq> [] \<and> Min (set ws) \<le> limit then Min (set ws) + (100 + jitter) * millisecond else 0)"
proof -
  have pos: "\<forall>w\<in>set (announced de es). 0 < w"
    using retry_after_wait_pos by (auto simp: announced_def split: option.splits)
  have p: "fold (\<lambda>(now, ue). pass_note de now ue) es fresh_pass =
      \<lparr>pr_earliest = (if announced de es = [] then 0 else Min (set (announced de es))),
       pr_rate_limited = (\<exists>(now, ue)\<in>set es. ue_status ue = 429)\<rparr>"
    unfolding pass_note_fold fresh_pass_def pass_retry.simps foldl_earliest[OF pos order.refl] by simp
  have "0 < Min (set (announced de es))" if "announced de es \<noteq> []" using that pos by simp
  then show ?thesis unfolding p pass_wait_eq by (cases "announced de es = []") (simp_all add: Let_def)
qed

end
