(* ===== verification/Accounts.thy ===== *)
theory Accounts
  imports GoStrings
begin

text \<open>
  The upstream accounts and what is known of their health: the rows of \<open>providerConnections\<close>
  with the fields of their JSON blob that routing reads, and the operations on them of
  \<open>internal/db/accounts.go\<close>, \<open>accounts_oauth_lock.go\<close>, \<open>rotation.go\<close> and \<open>connections.go\<close>. Each
  operation is one SQL statement or transaction. A missing, null or unreadable field is
  \<open>None\<close>, zero or empty, which is how the code reads it. Instants written to a row are RFC 3339
  texts with whole seconds; the fixed-width rotation stamp keeps the nanoseconds, so that its
  byte order is the order of the instants; stamps an older release left in another format are not
  modelled.
\<close>

section \<open>Rows\<close>

record conn_row =
  cn_id :: string
  cn_provider :: string
  cn_active :: bool
  cn_priority :: "int option"
  cn_updated :: instant
  cn_last_used :: "instant option"
  cn_consecutive :: "int option"
  cn_limited :: "instant option"
  cn_oauth :: "instant option"
  cn_oauth_failures :: int
  cn_locks :: "(string \<times> instant option) list"
  cn_backoff :: int
  cn_error :: "(int \<times> string) option"
  cn_reauth :: bool
  cn_models :: "string list"
  cn_assigned :: string
  cn_api_key :: string
  cn_access_token :: string
  cn_pool :: string

definition whole_seconds :: "instant \<Rightarrow> instant" where
  "whole_seconds t = t div second * second"

definition update_row :: "string \<Rightarrow> (conn_row \<Rightarrow> conn_row) \<Rightarrow> conn_row list \<Rightarrow> conn_row list" where
  "update_row i f t = map (\<lambda>r. if cn_id r = i then f r else r) t"

definition find_row :: "string \<Rightarrow> conn_row list \<Rightarrow> conn_row option" where
  "find_row i t = List.find (\<lambda>r. cn_id r = i) t"

text \<open>\<open>ORDER BY\<close> priority, where no priority sorts last, and then the row updated last.\<close>

definition row_before :: "conn_row \<Rightarrow> conn_row \<Rightarrow> bool" where
  "row_before a b =
     (let prio = (\<lambda>r. case cn_priority r of None \<Rightarrow> 999999 | Some p \<Rightarrow> p)
      in prio a < prio b \<or> prio a = prio b \<and> cn_updated a > cn_updated b)"

definition get_provider_connections :: "string \<Rightarrow> bool \<Rightarrow> conn_row list \<Rightarrow> conn_row list" where
  "get_provider_connections provider active_only t =
     sort_by row_before (filter (\<lambda>r. (provider = [] \<or> cn_provider r = provider) \<and> (\<not> active_only \<or> cn_active r)) t)"

section \<open>Locks of a model\<close>

definition lock_connection_model :: "string \<Rightarrow> string \<Rightarrow> int \<Rightarrow> int \<Rightarrow> instant \<Rightarrow> conn_row list \<Rightarrow> conn_row list" where
  "lock_connection_model i model secs level now =
     update_row i (\<lambda>r. r\<lparr>cn_locks := AList.update model (Some (whole_seconds (now + secs * second))) (cn_locks r),
       cn_backoff := level, cn_updated := whole_seconds now\<rparr>)"

definition model_locked :: "string \<Rightarrow> instant \<Rightarrow> conn_row \<Rightarrow> bool" where
  "model_locked model now r = (case map_of (cn_locks r) model of Some (Some t) \<Rightarrow> now < t | _ \<Rightarrow> False)"

definition is_connection_model_locked :: "string \<Rightarrow> string \<Rightarrow> instant \<Rightarrow> conn_row list \<Rightarrow> bool" where
  "is_connection_model_locked i model now t =
     (case find_row i t of None \<Rightarrow> False | Some r \<Rightarrow> model_locked model now r)"

definition unlock_connection_model :: "string \<Rightarrow> string \<Rightarrow> instant \<Rightarrow> conn_row list \<Rightarrow> conn_row list" where
  "unlock_connection_model i model now =
     update_row i (\<lambda>r. r\<lparr>cn_locks := AList.update model None (cn_locks r), cn_backoff := 0, cn_updated := whole_seconds now\<rparr>)"

text \<open>Clearing a lock leaves its field behind as a JSON null.\<close>

definition no_locks :: "conn_row \<Rightarrow> (string \<times> instant option) list" where
  "no_locks r = map (\<lambda>(m, _). (m, None)) (cn_locks r)"

text \<open>A missing row is an error of the reads that follow; nothing is written then.\<close>

definition clear_connection_model_locks :: "string \<Rightarrow> instant \<Rightarrow> conn_row list \<Rightarrow> conn_row list" where
  "clear_connection_model_locks i now =
     update_row i (\<lambda>r. if \<forall>l\<in>set (cn_locks r). snd l = None then r
       else r\<lparr>cn_locks := no_locks r, cn_updated := whole_seconds now\<rparr>)"

definition reset_connection_health_state :: "string \<Rightarrow> instant \<Rightarrow> conn_row list \<Rightarrow> conn_row list" where
  "reset_connection_health_state i now =
     update_row i (\<lambda>r. r\<lparr>cn_limited := None, cn_oauth := None, cn_oauth_failures := 0, cn_backoff := 0,
       cn_locks := no_locks r, cn_updated := whole_seconds now\<rparr>)"

definition get_connection_backoff_level :: "string \<Rightarrow> conn_row list \<Rightarrow> int" where
  "get_connection_backoff_level i t = (case find_row i t of None \<Rightarrow> 0 | Some r \<Rightarrow> cn_backoff r)"

definition is_provider_available :: "string \<Rightarrow> string \<Rightarrow> instant \<Rightarrow> conn_row list \<Rightarrow> bool" where
  "is_provider_available provider model now t =
     (if provider = [] then True
      else (let conns = get_provider_connections provider True t
            in conns = [] \<or> (\<exists>c\<in>set conns. \<not> is_connection_model_locked (cn_id c) model now t)))"

text \<open>\<open>ResetProviderHealth\<close> with its three helpers.\<close>

definition clear_locks_of :: "instant \<Rightarrow> conn_row \<Rightarrow> conn_row" where
  "clear_locks_of now r = (if cn_locks r = [] then r else r\<lparr>cn_locks := no_locks r, cn_backoff := 0, cn_updated := whole_seconds now\<rparr>)"

definition reset_provider_health :: "string \<Rightarrow> string \<Rightarrow> instant \<Rightarrow> conn_row list \<Rightarrow> conn_row list" where
  "reset_provider_health provider model now t =
     (if provider = [] \<and> model = [] then map (clear_locks_of now) t
      else if model = [] then map (\<lambda>r. if cn_provider r = provider then clear_locks_of now r else r) t
      else map (\<lambda>r. if cn_provider r = provider \<and> model_locked model now r
                    then r\<lparr>cn_locks := AList.update model None (cn_locks r), cn_backoff := 0, cn_updated := whole_seconds now\<rparr>
                    else r) t)"

section \<open>Cooldown of an account\<close>

definition lock_connection_rate_limit ::
  "string \<Rightarrow> instant \<Rightarrow> int \<Rightarrow> int \<Rightarrow> string \<Rightarrow> instant \<Rightarrow> conn_row list \<Rightarrow> conn_row list" where
  "lock_connection_rate_limit i until level status msg now =
     update_row i (\<lambda>r. r\<lparr>cn_limited := Some (whole_seconds until), cn_backoff := level, cn_error := Some (status, msg),
       cn_updated := whole_seconds now\<rparr>)"

definition record_connection_scoped_error :: "string \<Rightarrow> int \<Rightarrow> string \<Rightarrow> int \<Rightarrow> instant \<Rightarrow> conn_row list \<Rightarrow> conn_row list" where
  "record_connection_scoped_error i status msg level now =
     update_row i (\<lambda>r. r\<lparr>cn_backoff := level, cn_error := Some (status, msg), cn_updated := whole_seconds now\<rparr>)"

definition clear_connection_rate_limit :: "string \<Rightarrow> instant \<Rightarrow> conn_row list \<Rightarrow> conn_row list" where
  "clear_connection_rate_limit i now =
     update_row i (\<lambda>r. r\<lparr>cn_limited := None, cn_error := None, cn_backoff := 0, cn_updated := whole_seconds now\<rparr>)"

definition connection_blocked_until :: "conn_row \<Rightarrow> instant option" where
  "connection_blocked_until r =
     (case (cn_limited r, cn_oauth r) of
        (None, None) \<Rightarrow> None
      | (None, Some u) \<Rightarrow> Some u
      | (Some e, None) \<Rightarrow> Some e
      | (Some e, Some u) \<Rightarrow> Some (if u < e then u else e))"

definition in_cooldown :: "instant \<Rightarrow> conn_row \<Rightarrow> bool" where
  "in_cooldown now r = (case connection_blocked_until r of None \<Rightarrow> False | Some t \<Rightarrow> t > now)"

section \<open>Park of a rejected grant\<close>

definition oauth_lock_base_delay :: duration where
  "oauth_lock_base_delay = 5 * minute"

definition oauth_lock_max_delay :: duration where
  "oauth_lock_max_delay = 24 * hour"

definition oauth_lock_max_shift :: int where
  "oauth_lock_max_shift = 16"

definition oauth_lock_delay :: "int \<Rightarrow> duration" where
  "oauth_lock_delay failures =
     (let n = (if failures < 1 then 1 else failures);
          n = (if n > oauth_lock_max_shift then oauth_lock_max_shift else n);
          delay = oauth_lock_base_delay * 2 ^ nat (n - 1)
      in if delay > oauth_lock_max_delay then oauth_lock_max_delay else delay)"

text \<open>The window and the count read from a row; a negative count reads as zero.\<close>

definition connection_oauth_state :: "string \<Rightarrow> conn_row list \<Rightarrow> instant \<times> int" where
  "connection_oauth_state i t =
     (if i = [] then (0, 0)
      else case find_row i t of
             None \<Rightarrow> (0, 0)
           | Some r \<Rightarrow> ((case cn_oauth r of None \<Rightarrow> 0 | Some u \<Rightarrow> u), max 0 (cn_oauth_failures r)))"

text \<open>\<open>dead\<close> is the verdict that only a new login repairs the grant.\<close>

definition record_connection_oauth_failure ::
  "string \<Rightarrow> int \<Rightarrow> string \<Rightarrow> bool \<Rightarrow> instant \<Rightarrow> conn_row list \<Rightarrow> (instant \<times> int) \<times> conn_row list" where
  "record_connection_oauth_failure i status msg dead now t =
     (if i = [] then ((0, 0), t)
      else (let (locked_until, failures) = connection_oauth_state i t;
                failures = (if locked_until > now then failures else failures + 1);
                until = now + oauth_lock_delay failures
            in ((until, failures),
                update_row i (\<lambda>r. r\<lparr>cn_oauth := Some (whole_seconds until), cn_oauth_failures := failures,
                  cn_error := Some (status, msg), cn_reauth := (if dead then True else cn_reauth r),
                  cn_updated := whole_seconds now\<rparr>) t)))"

definition clear_connection_oauth_lock :: "string \<Rightarrow> instant \<Rightarrow> conn_row list \<Rightarrow> conn_row list" where
  "clear_connection_oauth_lock i now t =
     (if i = [] then t
      else update_row i (\<lambda>r. r\<lparr>cn_oauth := None, cn_oauth_failures := 0, cn_reauth := False,
             cn_updated := whole_seconds now\<rparr>) t)"

section \<open>Rotation stamps\<close>

definition next_rotation_stamp :: "instant \<Rightarrow> instant option \<Rightarrow> instant" where
  "next_rotation_stamp now previous =
     (case previous of None \<Rightarrow> now | Some p \<Rightarrow> if now > p then now else p + nanosecond)"

definition highest_stamp :: "conn_row list \<Rightarrow> instant option" where
  "highest_stamp t = fold (\<lambda>r m. case (cn_last_used r, m) of (None, _) \<Rightarrow> m | (Some s, None) \<Rightarrow> Some s
     | (Some s, Some h) \<Rightarrow> Some (if s > h then s else h)) t None"

text \<open>The counter is set, or incremented for a row that served a request.\<close>

definition stamp_connection :: "string \<Rightarrow> int option \<Rightarrow> instant \<Rightarrow> conn_row list \<Rightarrow> instant \<times> conn_row list" where
  "stamp_connection i consecutive now t =
     (let stamp = next_rotation_stamp now (highest_stamp t)
      in (stamp, update_row i (\<lambda>r. r\<lparr>cn_last_used := Some stamp, cn_consecutive := Some (case consecutive of Some n \<Rightarrow> n
            | None \<Rightarrow> (case cn_consecutive r of None \<Rightarrow> 0 | Some n \<Rightarrow> n) + 1)\<rparr>) t))"

definition touch_connection_rotation :: "string \<Rightarrow> int \<Rightarrow> instant \<Rightarrow> conn_row list \<Rightarrow> instant \<times> conn_row list" where
  "touch_connection_rotation i n = stamp_connection i (Some n)"

definition update_connection_last_used :: "string \<Rightarrow> instant \<Rightarrow> conn_row list \<Rightarrow> conn_row list" where
  "update_connection_last_used i now t = snd (stamp_connection i None now t)"

section \<open>Facts\<close>

lemma find_update_row [simp]:
  assumes "\<And>r. cn_id (f r) = cn_id r"
  shows "find_row j (update_row i f t) = map_option (\<lambda>r. if j = i then f r else r) (find_row j t)"
  using assms by (induction t) (auto simp: find_row_def update_row_def)

lemma find_row_id: "find_row i t = Some r \<Longrightarrow> cn_id r = i \<and> r \<in> set t"
  by (auto simp: find_row_def find_Some_iff)

lemma oauth_lock_delay_eq:
  assumes "0 < n" shows "oauth_lock_delay (int n) = min (5 * minute * 2 ^ (n - 1)) (24 * hour)"
proof (cases "n \<le> 16")
  case False
  then have "(2::int) ^ 15 \<le> 2 ^ (n - 1)" by (intro power_increasing) auto
  then have "24 * hour \<le> 5 * minute * 2 ^ (n - 1)" by (simp add: duration_defs)
  then show ?thesis using False
    by (simp add: oauth_lock_delay_def oauth_lock_max_shift_def oauth_lock_base_delay_def oauth_lock_max_delay_def duration_defs)
next
  case True
  have "nat (int n - 1) = n - 1" by simp
  then show ?thesis using True assms
    by (simp add: oauth_lock_delay_def oauth_lock_max_shift_def oauth_lock_base_delay_def oauth_lock_max_delay_def Let_def min_def)
qed

text \<open>An account whose quota cooldown has run out but whose grant is still parked counts as free: the
  reader returns the earlier of the two instants, not the later.\<close>

lemma expired_limit_hides_oauth_park:
  assumes "cn_limited r = Some past" "cn_oauth r = Some park" "past \<le> now" "now < park"
  shows "\<not> in_cooldown now r"
  using assms by (simp add: in_cooldown_def connection_blocked_until_def)

text \<open>Rejections of one account at given instants.\<close>

definition reject_all :: "string \<Rightarrow> instant list \<Rightarrow> conn_row list \<Rightarrow> conn_row list" where
  "reject_all i = fold (\<lambda>now t. snd (record_connection_oauth_failure i 401 ''rejected'' False now t))"

lemma record_failure_row:
  assumes "i \<noteq> []" "find_row i t = Some r" "0 \<le> cn_oauth_failures r"
  shows "find_row i (snd (record_connection_oauth_failure i st msg dead now t)) =
    (let k = (if (case cn_oauth r of None \<Rightarrow> 0 | Some u \<Rightarrow> u) > now then cn_oauth_failures r else cn_oauth_failures r + 1)
     in Some (r\<lparr>cn_oauth := Some (whole_seconds (now + oauth_lock_delay k)), cn_oauth_failures := k,
       cn_error := Some (st, msg), cn_reauth := (if dead then True else cn_reauth r), cn_updated := whole_seconds now\<rparr>))"
  using assms by (simp add: record_connection_oauth_failure_def connection_oauth_state_def Let_def)

lemma whole_seconds_le: "whole_seconds t \<le> t"
  using div_mult_mod_eq[of t second] pos_mod_sign[OF second_pos(1), of t] unfolding whole_seconds_def by linarith

abbreviation park :: "nat \<Rightarrow> duration" where
  "park n \<equiv> min (5 * minute * 2 ^ n) (24 * hour)"

lemma reject_all_state:
  assumes "i \<noteq> []" "find_row i t = Some r" "cn_oauth r = None" "cn_oauth_failures r = 0" "ts \<noteq> []" "0 \<le> hd ts"
    and "\<forall>k. Suc k < length ts \<longrightarrow> ts ! k + park k \<le> ts ! Suc k"
  shows "\<exists>r'. find_row i (reject_all i ts t) = Some r' \<and> cn_oauth r' = Some (whole_seconds (last ts + park (length ts - 1))) \<and>
    cn_oauth_failures r' = int (length ts)"
  using assms(5-7)
proof (induction ts rule: rev_induct)
  case (snoc now ts)
  show ?case
  proof (cases "ts = []")
    case True
    then show ?thesis using record_failure_row[OF assms(1,2), of 401 "''rejected''" False now] assms(3,4) snoc.prems(2)
        oauth_lock_delay_eq[of 1] by (simp add: reject_all_def)
  next
    case False
    have "ts ! k + park k \<le> ts ! Suc k" if "Suc k < length ts" for k
      using snoc.prems(3)[rule_format, of k] that by (simp add: nth_append)
    then obtain r' where r': "find_row i (reject_all i ts t) = Some r'"
        "cn_oauth r' = Some (whole_seconds (last ts + park (length ts - 1)))" "cn_oauth_failures r' = int (length ts)"
      using snoc.IH[OF False] snoc.prems(2) False by auto
    have "last ts + park (length ts - 1) \<le> now"
      using snoc.prems(3)[rule_format, of "length ts - 1"] False by (simp add: nth_append last_conv_nth)
    then have "\<not> whole_seconds (last ts + park (length ts - 1)) > now" using whole_seconds_le order_trans not_less by metis
    then show ?thesis using record_failure_row[OF assms(1) r'(1), of 401 "''rejected''" False now] r'(2,3)
        oauth_lock_delay_eq[of "Suc (length ts)"] by (simp add: reject_all_def Let_def add.commute)
  qed
qed simp

section \<open>Properties\<close>

text \<open>An account whose grant keeps being rejected is asked less and less often: after \<open>n\<close> rejections, each
  once the window before it has run out, it is parked for five minutes doubled with every rejection,
  capped at a day, and a further rejection inside the window is not counted as another.\<close>
theorem oauth_park_escalates:
  assumes "i \<noteq> []" "find_row i t = Some r" "cn_oauth r = None" "cn_oauth_failures r = 0" "ts \<noteq> []" "0 \<le> hd ts"
    and "\<forall>k. Suc k < length ts \<longrightarrow> ts ! k + min (5 * minute * 2 ^ k) (24 * hour) \<le> ts ! Suc k"
    and "last ts \<le> later" "later < whole_seconds (last ts + min (5 * minute * 2 ^ (length ts - 1)) (24 * hour))"
  shows "map_option (\<lambda>r. (cn_oauth r, cn_oauth_failures r)) (find_row i (reject_all i ts t)) =
      Some (Some (whole_seconds (last ts + min (5 * minute * 2 ^ (length ts - 1)) (24 * hour))), int (length ts)) \<and>
    map_option cn_oauth_failures (find_row i (reject_all i (ts @ [later]) t)) = Some (int (length ts))"
proof -
  obtain r' where r': "find_row i (reject_all i ts t) = Some r'"
      "cn_oauth r' = Some (whole_seconds (last ts + park (length ts - 1)))" "cn_oauth_failures r' = int (length ts)"
    using reject_all_state[OF assms(1-7)] by blast
  have "reject_all i (ts @ [later]) t = snd (record_connection_oauth_failure i 401 ''rejected'' False later (reject_all i ts t))"
    by (simp add: reject_all_def)
  then show ?thesis using record_failure_row[OF assms(1) r'(1), of 401 "''rejected''" False later] r' assms(9)
    by (simp add: Let_def)
qed

definition demo_conn :: "string \<Rightarrow> conn_row" where
  "demo_conn i = \<lparr>cn_id = i, cn_provider = ''p'', cn_active = True, cn_priority = None, cn_updated = 0, cn_last_used = None,
     cn_consecutive = None, cn_limited = None, cn_oauth = None, cn_oauth_failures = 0, cn_locks = [], cn_backoff = 0,
     cn_error = None, cn_reauth = False, cn_models = [], cn_assigned = [], cn_api_key = ''key-'' @ i,
     cn_access_token = [], cn_pool = []\<rparr>"

lemma oauth_park_escalates_witness:
  "map_option cn_oauth_failures (find_row ''a'' (reject_all ''a'' ([0, 5 * minute, 15 * minute] @ [20 * minute]) [demo_conn ''a''])) = Some 3 \<and>
   map_option cn_oauth (find_row ''a'' (reject_all ''a'' [0, 5 * minute, 15 * minute] [demo_conn ''a''])) = Some (Some (35 * minute))"
proof -
  let ?ts = "[0, 5 * minute, 15 * minute]"
  have gaps: "\<forall>k. Suc k < length ?ts \<longrightarrow> ?ts ! k + min (5 * minute * 2 ^ k) (24 * hour) \<le> ?ts ! Suc k"
    by (auto simp: less_Suc_eq duration_defs)
  have row: "find_row ''a'' [demo_conn ''a''] = Some (demo_conn ''a'')" by (simp add: find_row_def demo_conn_def)
  show ?thesis
    using oauth_park_escalates[OF _ row _ _ _ _ gaps, of "20 * minute"]
    by (simp add: demo_conn_def duration_defs whole_seconds_def) (auto simp: map_option_case split: option.splits)
qed

end
