(* ===== verification/Selection.thy ===== *)
theory Selection
  imports Accounts Affinity
begin

text \<open>
  Which account serves a request: \<open>getBestConnectionWithContext\<close> of
  \<open>internal/handlers/chat/connections.go\<close> with the rotation strategies
  (\<open>applyConnectionStrategy\<close>, \<open>selectByRecency\<close>) and the forced choice of
  \<open>force_fallback.go\<close>. The database reads succeed in the model. The quota caches of two
  providers, the verdict on a custom node, the choice of a proxy pool, the model alias of one
  provider and the random number are parameters.
\<close>

section \<open>Rotation over accounts\<close>

record provider_strategy =
  ps_rotate :: string
  ps_conn_rotate :: string
  ps_sticky :: int
  ps_strict :: bool

record route_settings =
  rs_strategies :: "(string \<times> provider_strategy) list"
  rs_fallback :: string
  rs_sticky :: int
  rs_force :: bool

definition conn_rotation_strategy :: "(string \<Rightarrow> bool) \<Rightarrow> route_settings option \<Rightarrow> string \<Rightarrow> provider_strategy" where
  "conn_rotation_strategy no_auth settings provider =
     (let stored = (case settings of None \<Rightarrow> None | Some s \<Rightarrow> map_of (rs_strategies s) provider);
          strat = (case stored of None \<Rightarrow> \<lparr>ps_rotate = [], ps_conn_rotate = [], ps_sticky = 0, ps_strict = False\<rparr> | Some s \<Rightarrow> s);
          strat = (if no_auth provider then strat\<lparr>ps_rotate := ps_conn_rotate strat\<rparr> else strat)
      in case settings of
           None \<Rightarrow> strat
         | Some s \<Rightarrow> (if (stored = None \<or> ps_rotate strat = []) \<and> rs_fallback s \<noteq> [] \<and> rs_fallback s \<noteq> ''fill-first''
                      then strat\<lparr>ps_rotate := rs_fallback s, ps_sticky := rs_sticky s\<rparr> else strat))"

text \<open>The account used last (the later of equals), and the one unused longest: one that was never used, or
  else the first of those with the least stamp.\<close>

fun most_recent :: "nat \<Rightarrow> (nat \<times> instant) option \<Rightarrow> conn_row list \<Rightarrow> nat option" where
  "most_recent i best [] = map_option fst best"
| "most_recent i best (c # cs) =
     most_recent (Suc i) (case (cn_last_used c, best) of
         (None, _) \<Rightarrow> best
       | (Some s, None) \<Rightarrow> Some (i, s)
       | (Some s, Some (j, t)) \<Rightarrow> if t \<le> s then Some (i, s) else best) cs"

fun least_recent :: "nat \<Rightarrow> (nat \<times> instant) option \<Rightarrow> conn_row list \<Rightarrow> nat option" where
  "least_recent i best [] = map_option fst best"
| "least_recent i best (c # cs) =
     (case cn_last_used c of
        None \<Rightarrow> Some i
      | Some s \<Rightarrow> least_recent (Suc i) (case best of None \<Rightarrow> Some (i, s)
                    | Some (j, t) \<Rightarrow> if s < t then Some (i, s) else best) cs)"

definition recency_winner :: "int \<Rightarrow> conn_row list \<Rightarrow> nat \<times> int" where
  "recency_winner limit conns =
     (let sticky = (case most_recent 0 None conns of
            None \<Rightarrow> None
          | Some i \<Rightarrow> (let count = (case cn_consecutive (conns ! i) of None \<Rightarrow> 0 | Some n \<Rightarrow> n)
                       in if count < limit then Some (i, count + 1) else None))
      in case sticky of
           Some w \<Rightarrow> w
         | None \<Rightarrow> ((case least_recent 0 None conns of None \<Rightarrow> 0 | Some i \<Rightarrow> i), 1))"

definition move_front :: "nat \<Rightarrow> 'a list \<Rightarrow> 'a list" where
  "move_front i xs = xs ! i # take i xs @ drop (Suc i) xs"

text \<open>\<open>persisted\<close> says whether the stamp could be written to the database.\<close>

definition select_by_recency ::
  "bool \<Rightarrow> instant \<Rightarrow> int \<Rightarrow> conn_row list \<Rightarrow> conn_row list \<Rightarrow> conn_row list \<times> conn_row list" where
  "select_by_recency persisted now limit conns t =
     (let (w, consecutive) = recency_winner limit conns;
          (stamp, t) = (if persisted then touch_connection_rotation (cn_id (conns ! w)) consecutive now t
                        else (next_rotation_stamp now (highest_stamp conns), t));
          conns = conns[w := (conns ! w)\<lparr>cn_last_used := Some stamp, cn_consecutive := Some consecutive\<rparr>]
      in (move_front w conns, t))"

definition apply_connection_strategy ::
  "bool \<Rightarrow> nat \<Rightarrow> instant \<Rightarrow> provider_strategy \<Rightarrow> conn_row list \<Rightarrow> conn_row list \<Rightarrow> conn_row list \<times> conn_row list" where
  "apply_connection_strategy persisted dice now strat conns t =
     (if length conns \<le> 1 then (conns, t)
      else let mode = to_lower (trim_space (ps_rotate strat)) in
        if mode \<in> {''round-robin'', ''roundrobin'', ''sticky''}
        then select_by_recency persisted now (if ps_sticky strat \<le> 0 then 1 else ps_sticky strat) conns t
        else if mode = ''random'' then (map (\<lambda>i. conns ! ((dice mod length conns + i) mod length conns)) [0..<length conns], t)
        else (conns, t))"

section \<open>Eligibility\<close>

record select_env =
  sv_no_auth :: "string \<Rightarrow> bool"
  sv_antigravity :: "string \<Rightarrow> string"
  sv_quota_blocked :: "string \<Rightarrow> string \<Rightarrow> string \<Rightarrow> bool"
  sv_node_refusal :: "string \<Rightarrow> string option"
  sv_pool :: "string \<Rightarrow> string list \<Rightarrow> string"
  sv_force_env :: bool
  sv_sha :: "string \<Rightarrow> string"
  sv_settings :: "route_settings option"
  sv_persisted :: bool
  sv_dice :: nat

definition canonical_lock_model :: "(string \<Rightarrow> string) \<Rightarrow> string \<Rightarrow> string \<Rightarrow> string" where
  "canonical_lock_model antigravity provider model =
     (if model = [] then [] else if provider = ''antigravity'' then antigravity model else model)"

definition codex_account_serves_model :: "string \<Rightarrow> conn_row \<Rightarrow> bool" where
  "codex_account_serves_model model c \<longleftrightarrow>
     cn_provider c \<noteq> ''codex'' \<or> model = [] \<or> cn_models c = [] \<or> model \<in> set (cn_models c)"

definition lock_holds :: "select_env \<Rightarrow> string \<Rightarrow> string \<Rightarrow> instant \<Rightarrow> conn_row list \<Rightarrow> string \<Rightarrow> bool" where
  "lock_holds env provider model now t i \<longleftrightarrow>
     (let key = canonical_lock_model (sv_antigravity env) provider model
      in is_connection_model_locked i key now t \<or> key \<noteq> model \<and> is_connection_model_locked i model now t)"

definition connection_model_blocked :: "select_env \<Rightarrow> string \<Rightarrow> string \<Rightarrow> instant \<Rightarrow> conn_row list \<Rightarrow> conn_row \<Rightarrow> bool" where
  "connection_model_blocked env provider model now t c \<longleftrightarrow>
     model \<noteq> [] \<and> (lock_holds env provider model now t (cn_id c) \<or> sv_quota_blocked env provider (cn_id c) model)"

definition filter_connections_for_model :: "route_settings option \<Rightarrow> string \<Rightarrow> string \<Rightarrow> conn_row list \<Rightarrow> conn_row list" where
  "filter_connections_for_model settings provider model conns =
     (case settings of
        None \<Rightarrow> conns
      | Some s \<Rightarrow>
          (case map_of (rs_strategies s) provider of
             None \<Rightarrow> conns
           | Some strat \<Rightarrow> (if model = [] \<or> \<not> ps_strict strat then conns
                            else filter (\<lambda>c. cn_assigned c = model) conns)))"

definition filter_connections_by_enabled_models :: "string \<Rightarrow> string \<Rightarrow> conn_row list \<Rightarrow> conn_row list" where
  "filter_connections_by_enabled_models provider model conns =
     (if provider \<noteq> ''codex'' \<or> model = [] then conns else filter (codex_account_serves_model model) conns)"

datatype ineligible = Disabled | Excluded | AccountCooldown | ModelLock | QuotaCache | NotEnabled | StrictAssignment

definition pinned_connection_ineligible ::
  "select_env \<Rightarrow> string list \<Rightarrow> string \<Rightarrow> instant \<Rightarrow> conn_row list \<Rightarrow> conn_row \<Rightarrow> ineligible option" where
  "pinned_connection_ineligible env exclude model now t c =
     (if \<not> cn_active c then Some Disabled
      else if cn_id c \<in> set exclude then Some Excluded
      else if in_cooldown now c then Some AccountCooldown
      else if model = [] then None
      else if lock_holds env (cn_provider c) model now t (cn_id c) then Some ModelLock
      else if sv_quota_blocked env (cn_provider c) (cn_id c) model then Some QuotaCache
      else if \<not> codex_account_serves_model model c then Some NotEnabled
      else if filter_connections_for_model (sv_settings env) (cn_provider c) model [c] = [] then Some StrictAssignment
      else None)"

definition credential_fallbacks :: "(string \<times> string) list" where
  "credential_fallbacks = [(''ollama-search'', ''ollama''), (''zai-search'', ''glm''), (''cline'', ''clinepass''), (''clinepass'', ''cline'')]"

definition force_fallback_enabled :: "select_env \<Rightarrow> bool" where
  "force_fallback_enabled env \<longleftrightarrow> (case sv_settings env of None \<Rightarrow> False | Some s \<Rightarrow> rs_force s) \<or> sv_force_env env"

definition force_min_cooldown_connection ::
  "select_env \<Rightarrow> string list \<Rightarrow> string \<Rightarrow> instant \<Rightarrow> conn_row list \<Rightarrow> conn_row option" where
  "force_min_cooldown_connection env exclude model now conns =
     (if \<not> force_fallback_enabled env then None
      else fold (\<lambda>c best.
             if cn_id c \<in> set exclude \<or> \<not> codex_account_serves_model model c \<or> \<not> in_cooldown now c then best
             else case best of
                    None \<Rightarrow> Some c
                  | Some b \<Rightarrow> if the (connection_blocked_until c) < the (connection_blocked_until b) then Some c else best)
             conns None)"

section \<open>Selection\<close>

datatype select_error =
    PinMissing
  | PinOfOtherProvider
  | ProbeOfDisabled
  | NoConnections
  | NotAssigned
  | ModelNotEnabled
  | NodeRefused string
  | AllInCooldown instant
  | AllExcluded

text \<open>The request: its session, whether it is a probe, its pin, exclusions and pools refused so far.\<close>

record select_request =
  sq_provider :: string
  sq_model :: string
  sq_pin :: string
  sq_session :: string
  sq_probe :: bool
  sq_exclude :: "string list"
  sq_excluded_pools :: "string list"

record select_state =
  st_table :: "conn_row list"
  st_affinity :: affinity_store

text \<open>The first account of the order that can take the request; the earliest end of a cooldown met before
  it; and the accounts met in cooldown.\<close>

fun walk_candidates ::
  "select_env \<Rightarrow> select_request \<Rightarrow> instant \<Rightarrow> conn_row list \<Rightarrow> conn_row list \<Rightarrow> conn_row option \<times> conn_row list" where
  "walk_candidates env q now t [] = (None, [])"
| "walk_candidates env q now t (c # cs) =
     (if cn_id c \<in> set (sq_exclude q) \<or> \<not> codex_account_serves_model (sq_model q) c
         \<or> \<not> sq_probe q \<and> connection_model_blocked env (sq_provider q) (sq_model q) now t c
      then walk_candidates env q now t cs
      else if \<not> sq_probe q \<and> in_cooldown now c
      then (let (r, cooling) = walk_candidates env q now t cs in (r, c # cooling))
      else (Some c, []))"

definition earliest_reset :: "conn_row list \<Rightarrow> instant option" where
  "earliest_reset cooling =
     (case map (\<lambda>c. the (connection_blocked_until c)) cooling of [] \<Rightarrow> None | u # us \<Rightarrow> Some (fold min us u))"

text \<open>The account a session is pinned to, if it can take the request; a pin that cannot is dropped.\<close>

definition affine_connection ::
  "select_env \<Rightarrow> select_request \<Rightarrow> instant \<Rightarrow> conn_row list \<Rightarrow> select_state \<Rightarrow> conn_row option \<times> select_state" where
  "affine_connection env q now conns s =
     (case affinity_get (sv_sha env) (sq_provider q) (sq_model q) (sq_session q) now (st_affinity s) of
        (None, a) \<Rightarrow> (None, s\<lparr>st_affinity := a\<rparr>)
      | (Some i, a) \<Rightarrow>
          (let usable = (case List.find (\<lambda>c. cn_id c = i) conns of
                 None \<Rightarrow> None
               | Some c \<Rightarrow>
                   (if cn_id c \<notin> set (sq_exclude q) \<and> codex_account_serves_model (sq_model q) c
                       \<and> \<not> connection_model_blocked env (sq_provider q) (sq_model q) now (st_table s) c \<and> \<not> in_cooldown now c
                    then Some c else None))
           in (usable, s\<lparr>st_affinity := (if usable = None
                then affinity_evict (sv_sha env) (sq_provider q) (sq_model q) (sq_session q) a else a)\<rparr>)))"

definition rotation_of :: "select_env \<Rightarrow> string \<Rightarrow> provider_strategy" where
  "rotation_of env provider =
     (case sv_settings env of
        None \<Rightarrow> \<lparr>ps_rotate = [], ps_conn_rotate = [], ps_sticky = 0, ps_strict = False\<rparr>
      | Some s \<Rightarrow> conn_rotation_strategy (sv_no_auth env) (Some s) provider)"

definition sticky_one :: "string \<Rightarrow> provider_strategy \<Rightarrow> provider_strategy" where
  "sticky_one session strat =
     (if session \<noteq> [] \<and> is_affinity_eligible_strategy (ps_rotate strat) then strat\<lparr>ps_sticky := 1\<rparr> else strat)"

text \<open>The strategy over the candidates that remain after the filters.\<close>

definition select_by_strategy ::
  "select_env \<Rightarrow> select_request \<Rightarrow> instant \<Rightarrow> conn_row list \<Rightarrow> select_state \<Rightarrow> (select_error + conn_row) \<times> select_state" where
  "select_by_strategy env q now conns s =
     (let strat = rotation_of env (sq_provider q);
          has_strat = ps_rotate strat \<noteq> [] \<and> ps_rotate strat \<noteq> ''none'';
          eligible = is_affinity_eligible_strategy (ps_rotate strat);
          (bound, s) = (if \<not> sq_probe q \<and> sq_session q \<noteq> [] \<and> eligible then affine_connection env q now conns s else (None, s));
          (chosen, cooling, s) =
            (case bound of
               Some c \<Rightarrow> (Some c, [], s)
             | None \<Rightarrow>
                 (let (order, t) = (if length conns > 1 \<and> has_strat
                        then apply_connection_strategy (sv_persisted env) (sv_dice env) now
                               (sticky_one (sq_session q) strat) conns (st_table s)
                        else (conns, st_table s));
                      s = s\<lparr>st_table := t\<rparr>;
                      (c, cooling) = walk_candidates env q now t order
                  in (c, cooling, s)));
          chosen = (case chosen of Some c \<Rightarrow> Some c
            | None \<Rightarrow> force_min_cooldown_connection env (sq_exclude q) (sq_model q) now cooling)
      in case chosen of
           None \<Rightarrow> (Inl (case earliest_reset cooling of None \<Rightarrow> AllExcluded | Some u \<Rightarrow> AllInCooldown u), s)
         | Some c \<Rightarrow> (Inr c, (if \<not> sq_probe q \<and> sq_session q \<noteq> [] \<and> eligible
             then s\<lparr>st_affinity := affinity_bind (sv_sha env) (sq_provider q) (sq_model q) (sq_session q) (cn_id c) now (st_affinity s)\<rparr>
             else s)))"

text \<open>The virtual account of a provider that needs no credentials.\<close>

definition public_connection :: "string \<Rightarrow> conn_row" where
  "public_connection provider = \<lparr>cn_id = ''noauth'', cn_provider = provider, cn_active = True, cn_priority = None,
     cn_updated = 0, cn_last_used = None, cn_consecutive = None, cn_limited = None, cn_oauth = None, cn_oauth_failures = 0,
     cn_locks = [], cn_backoff = 0, cn_error = None, cn_reauth = False, cn_models = [], cn_assigned = [], cn_api_key = [],
     cn_access_token = ''public'', cn_pool = []\<rparr>"

text \<open>The active accounts of the provider or, where it has none, of the provider whose keys it may use.\<close>

definition provider_rows :: "string \<Rightarrow> conn_row list \<Rightarrow> conn_row list" where
  "provider_rows provider t =
     (let conns = get_provider_connections provider True t
      in if conns = [] then (case map_of credential_fallbacks provider of
           None \<Rightarrow> [] | Some p \<Rightarrow> get_provider_connections p True t) else conns)"

definition select_unpinned ::
  "select_env \<Rightarrow> select_request \<Rightarrow> instant \<Rightarrow> select_state \<Rightarrow> (select_error + conn_row) \<times> select_state" where
  "select_unpinned env q now s =
     (let conns = provider_rows (sq_provider q) (st_table s)
      in if conns = []
         then (if sv_no_auth env (sq_provider q) then (Inr (public_connection (sq_provider q)), s) else (Inl NoConnections, s))
         else let conns = filter_connections_for_model (sv_settings env) (sq_provider q) (sq_model q) conns in
           if conns = [] then (Inl NotAssigned, s)
           else let conns = filter_connections_by_enabled_models (sq_provider q) (sq_model q) conns in
             if conns = [] then (Inl ModelNotEnabled, s)
             else case sv_node_refusal env (sq_provider q) of
                    Some axis \<Rightarrow> (Inl (NodeRefused axis), s)
                  | None \<Rightarrow> select_by_strategy env q now conns s)"

text \<open>The pool the attempt goes through: the account's own, unless it has been refused in this turn.\<close>

definition apply_provider_proxy_pool :: "select_env \<Rightarrow> string \<Rightarrow> string list \<Rightarrow> string \<Rightarrow> string" where
  "apply_provider_proxy_pool env provider excluded pool =
     (if pool \<noteq> [] \<and> pool \<notin> set excluded then pool else sv_pool env provider excluded)"

definition select_connection ::
  "select_env \<Rightarrow> select_request \<Rightarrow> instant \<Rightarrow> select_state \<Rightarrow> (select_error + conn_row) \<times> select_state" where
  "select_connection env q now s =
     (if sq_pin q = [] then select_unpinned env q now s
      else case find_row (sq_pin q) (st_table s) of
             None \<Rightarrow> (Inl PinMissing, s)
           | Some c \<Rightarrow>
               (if cn_provider c \<noteq> sq_provider q then (Inl PinOfOtherProvider, s)
                else case pinned_connection_ineligible env (sq_exclude q) (sq_model q) now (st_table s) c of
                       None \<Rightarrow> (Inr c, s)
                     | Some reason \<Rightarrow>
                         (if sq_probe q \<and> cn_active c \<and> cn_id c \<notin> set (sq_exclude q)
                             \<and> reason \<in> {AccountCooldown, ModelLock, QuotaCache} then (Inr c, s)
                          else if sq_probe q \<and> reason = Disabled then (Inl ProbeOfDisabled, s)
                          else select_unpinned env q now s)))"

text \<open>The account together with the pool of the attempt.\<close>

definition get_best_connection ::
  "select_env \<Rightarrow> select_request \<Rightarrow> instant \<Rightarrow> select_state \<Rightarrow> (select_error + conn_row) \<times> select_state" where
  "get_best_connection env q now s =
     (case select_connection env q now s of
        (Inl e, s) \<Rightarrow> (Inl e, s)
      | (Inr c, s) \<Rightarrow> (Inr (c\<lparr>cn_pool := apply_provider_proxy_pool env (sq_provider q) (sq_excluded_pools q) (cn_pool c)\<rparr>), s))"

section \<open>What rotation leaves alone\<close>

text \<open>Rotation writes two fields of a row. A row without them is what the other decisions read.\<close>

definition strip :: "conn_row \<Rightarrow> conn_row" where
  "strip r = r\<lparr>cn_last_used := None, cn_consecutive := None\<rparr>"

lemma strip_simps [simp]:
  "cn_id (strip r) = cn_id r" "cn_provider (strip r) = cn_provider r" "cn_active (strip r) = cn_active r"
  "cn_locks (strip r) = cn_locks r" "cn_priority (strip r) = cn_priority r" "cn_updated (strip r) = cn_updated r"
  "cn_limited (strip r) = cn_limited r" "cn_oauth (strip r) = cn_oauth r" "cn_models (strip r) = cn_models r"
  "strip (r\<lparr>cn_last_used := a, cn_consecutive := b\<rparr>) = strip r"
  by (simp_all add: strip_def)

text \<open>The account can take the request: what the walk checks, cooldown apart.\<close>

definition admissible :: "select_env \<Rightarrow> select_request \<Rightarrow> instant \<Rightarrow> conn_row list \<Rightarrow> conn_row \<Rightarrow> bool" where
  "admissible env q now t c \<longleftrightarrow> cn_id c \<notin> set (sq_exclude q) \<and> codex_account_serves_model (sq_model q) c \<and>
     (sq_probe q \<or> \<not> connection_model_blocked env (sq_provider q) (sq_model q) now t c)"

lemma in_cooldown_strip [simp]: "in_cooldown now (strip c) = in_cooldown now c"
  by (simp add: in_cooldown_def connection_blocked_until_def)

lemma blocked_until_strip [simp]: "connection_blocked_until (strip c) = connection_blocked_until c"
  by (simp add: connection_blocked_until_def)

lemma find_row_strip: "find_row i (map strip t) = map_option strip (find_row i t)"
  by (induction t) (auto simp: find_row_def)

lemma model_locked_strip: "is_connection_model_locked i m now (map strip t) = is_connection_model_locked i m now t"
  by (simp add: is_connection_model_locked_def find_row_strip model_locked_def split: option.split)

lemma admissible_strip:
  assumes "map strip t = map strip t'" "strip c = strip c'"
  shows "admissible env q now t c = admissible env q now t' c'"
proof -
  have c: "cn_id c = cn_id c'" "cn_provider c = cn_provider c'" "cn_models c = cn_models c'"
    using arg_cong[OF assms(2), of cn_id] arg_cong[OF assms(2), of cn_provider] arg_cong[OF assms(2), of cn_models] by simp_all
  have "is_connection_model_locked i m now t = is_connection_model_locked i m now t'" for i m
    using model_locked_strip[of i m now t] model_locked_strip[of i m now t'] assms(1) by simp
  then show ?thesis using c by (simp add: admissible_def connection_model_blocked_def lock_holds_def codex_account_serves_model_def)
qed

lemma update_row_strip:
  "(\<And>r. strip (f r) = strip r) \<Longrightarrow> map strip (update_row i f t) = map strip t"
  by (simp add: update_row_def)

lemma touch_strip: "map strip (snd (touch_connection_rotation i n now t)) = map strip t"
  by (simp add: touch_connection_rotation_def stamp_connection_def Let_def update_row_strip)

lemma least_recent_in: "least_recent i best cs = Some j \<Longrightarrow> i \<le> j \<and> j < i + length cs \<or> map_option fst best = Some j"
proof (induction cs arbitrary: i best)
  case (Cons c cs)
  show ?case
  proof (cases "cn_last_used c")
    case (Some s)
    let ?b = "case best of None \<Rightarrow> Some (i, s) | Some (j, t) \<Rightarrow> if s < t then Some (i, s) else best"
    have "map_option fst ?b = Some i \<or> map_option fst ?b = map_option fst best" by (auto split: option.split)
    moreover have "Suc i \<le> j \<and> j < Suc i + length cs \<or> map_option fst ?b = Some j" using Cons.IH[of "Suc i" ?b] Cons.prems Some by simp
    ultimately show ?thesis by (elim disjE) auto
  qed (use Cons.prems in auto)
qed simp

lemma most_recent_in: "most_recent i best cs = Some j \<Longrightarrow> i \<le> j \<and> j < i + length cs \<or> map_option fst best = Some j"
proof (induction cs arbitrary: i best)
  case (Cons c cs)
  let ?b = "case (cn_last_used c, best) of (None, _) \<Rightarrow> best | (Some s, None) \<Rightarrow> Some (i, s)
       | (Some s, Some (j, t)) \<Rightarrow> if t \<le> s then Some (i, s) else best"
  have "map_option fst ?b = Some i \<or> map_option fst ?b = map_option fst best" by (auto split: option.split)
  moreover have "Suc i \<le> j \<and> j < Suc i + length cs \<or> map_option fst ?b = Some j" using Cons.IH[of "Suc i" ?b] Cons.prems by simp
  ultimately show ?case by (elim disjE) auto
qed simp

lemma recency_winner_in: "cs \<noteq> [] \<Longrightarrow> fst (recency_winner limit cs) < length cs"
  by (auto simp: recency_winner_def Let_def dest!: least_recent_in most_recent_in split: option.split)

lemma mset_move_front: "i < length xs \<Longrightarrow> mset (move_front i xs) = mset xs"
  by (metis (no_types, lifting) add_mset_add_single id_take_nth_drop move_front_def mset.simps(2) mset_append union_mset_add_mset_left union_mset_add_mset_right)

lemma select_by_recency_strip:
  assumes "conns \<noteq> []"
  shows "image_mset strip (mset (fst (select_by_recency p now limit conns t))) = image_mset strip (mset conns)"
    and "map strip (snd (select_by_recency p now limit conns t)) = map strip t"
proof -
  obtain w n where w: "recency_winner limit conns = (w, n)" by fastforce
  have len: "w < length conns" using recency_winner_in[OF assms, of limit] w by simp
  have up: "map strip (conns[w := (conns ! w)\<lparr>cn_last_used := a, cn_consecutive := b\<rparr>]) = map strip conns" for a b
    using len by (simp add: map_update list_update_same_conv)
  have front: "image_mset strip (mset (move_front w (conns[w := (conns ! w)\<lparr>cn_last_used := a, cn_consecutive := b\<rparr>]))) =
      image_mset strip (mset conns)" for a b
    using len by (simp add: mset_move_front up flip: mset_map)
  show "image_mset strip (mset (fst (select_by_recency p now limit conns t))) = image_mset strip (mset conns)"
    by (simp add: select_by_recency_def w front split: prod.split)
  show "map strip (snd (select_by_recency p now limit conns t)) = map strip t"
    using touch_strip[of "cn_id (conns ! w)" n now t] by (auto simp: select_by_recency_def w Let_def split: prod.split)
qed

lemma map_rotate_by: "map (\<lambda>i. xs ! ((d mod length xs + i) mod length xs)) [0..<length xs] = rotate (d mod length xs) xs"
  by (rule nth_equalityI) (simp_all add: nth_rotate add.commute)

lemma apply_strategy_cases:
  "\<exists>limit k. apply_connection_strategy p dice now strat conns t \<in>
     {(conns, t), (rotate k conns, t)} \<union> (if conns = [] then {} else {select_by_recency p now limit conns t})"
  by (auto simp: apply_connection_strategy_def Let_def map_rotate_by)

lemma apply_strategy_strip:
  "image_mset strip (mset (fst (apply_connection_strategy p dice now strat conns t))) = image_mset strip (mset conns)"
  "map strip (snd (apply_connection_strategy p dice now strat conns t)) = map strip t"
proof -
  obtain limit k where "apply_connection_strategy p dice now strat conns t \<in>
     {(conns, t), (rotate k conns, t)} \<union> (if conns = [] then {} else {select_by_recency p now limit conns t})"
    using apply_strategy_cases by blast
  then consider "apply_connection_strategy p dice now strat conns t = (conns, t)"
    | "apply_connection_strategy p dice now strat conns t = (rotate k conns, t)"
    | "conns \<noteq> []" "apply_connection_strategy p dice now strat conns t = select_by_recency p now limit conns t"
    by (auto split: if_splits)
  then show "image_mset strip (mset (fst (apply_connection_strategy p dice now strat conns t))) = image_mset strip (mset conns)"
    "map strip (snd (apply_connection_strategy p dice now strat conns t)) = map strip t"
    by (cases; simp add: select_by_recency_strip)+
qed

section \<open>The walk\<close>

lemma walk_found:
  assumes "walk_candidates env q now t cs = (Some c, cooling)"
  shows "c \<in> set cs \<and> admissible env q now t c \<and> (sq_probe q \<or> \<not> in_cooldown now c)"
  using assms by (induction cs arbitrary: cooling) (auto simp: admissible_def split: if_splits prod.splits)

lemma walk_cooling:
  assumes "d \<in> set (snd (walk_candidates env q now t cs))"
  shows "d \<in> set cs \<and> admissible env q now t d \<and> \<not> sq_probe q \<and> in_cooldown now d"
  using assms by (induction cs) (auto simp: admissible_def split: if_splits prod.splits)

lemma walk_none:
  assumes "fst (walk_candidates env q now t cs) = None" "d \<in> set cs" "admissible env q now t d"
  shows "d \<in> set (snd (walk_candidates env q now t cs))"
  using assms by (induction cs) (auto simp: admissible_def split: if_splits prod.splits)

text \<open>The forced account is one of those in cooldown, and none of the others is free earlier.\<close>

definition forceable :: "string list \<Rightarrow> string \<Rightarrow> instant \<Rightarrow> conn_row \<Rightarrow> bool" where
  "forceable exclude model now c \<longleftrightarrow> cn_id c \<notin> set exclude \<and> codex_account_serves_model model c \<and> in_cooldown now c"

abbreviation blocked_until :: "conn_row \<Rightarrow> instant" where
  "blocked_until c \<equiv> the (connection_blocked_until c)"

lemma force_fold:
  assumes "fold (\<lambda>c best. if cn_id c \<in> set ex \<or> \<not> codex_account_serves_model m c \<or> \<not> in_cooldown now c then best
      else case best of None \<Rightarrow> Some c | Some b \<Rightarrow> if blocked_until c < blocked_until b then Some c else best) cs best = Some f"
  shows "(f \<in> set cs \<and> forceable ex m now f \<or> best = Some f) \<and>
    (\<forall>d\<in>set cs. forceable ex m now d \<longrightarrow> blocked_until f \<le> blocked_until d) \<and> (\<forall>b. best = Some b \<longrightarrow> blocked_until f \<le> blocked_until b)"
  using assms
proof (induction cs arbitrary: best)
  case (Cons c cs)
  let ?best = "if cn_id c \<in> set ex \<or> \<not> codex_account_serves_model m c \<or> \<not> in_cooldown now c then best
      else case best of None \<Rightarrow> Some c | Some b \<Rightarrow> if blocked_until c < blocked_until b then Some c else best"
  show ?case using Cons.IH[of ?best] Cons.prems by (auto simp: forceable_def split: if_splits option.splits)
qed simp

lemma forced_account:
  assumes "force_min_cooldown_connection env ex m now cs = Some f"
  shows "force_fallback_enabled env" "f \<in> set cs" "forceable ex m now f"
    "\<And>d. d \<in> set cs \<Longrightarrow> forceable ex m now d \<Longrightarrow> blocked_until f \<le> blocked_until d"
proof -
  show "force_fallback_enabled env" using assms by (simp add: force_min_cooldown_connection_def split: if_splits)
  then have "fold (\<lambda>c best. if cn_id c \<in> set ex \<or> \<not> codex_account_serves_model m c \<or> \<not> in_cooldown now c then best
      else case best of None \<Rightarrow> Some c | Some b \<Rightarrow> if blocked_until c < blocked_until b then Some c else best) cs None = Some f"
    using assms by (simp add: force_min_cooldown_connection_def)
  from force_fold[OF this] show "f \<in> set cs" "forceable ex m now f"
    "\<And>d. d \<in> set cs \<Longrightarrow> forceable ex m now d \<Longrightarrow> blocked_until f \<le> blocked_until d" by auto
qed

section \<open>The chosen account\<close>

text \<open>The account comes from the pin of the session, from the walk, or from the forced choice.\<close>

definition rotated :: "select_env \<Rightarrow> select_request \<Rightarrow> instant \<Rightarrow> conn_row list \<Rightarrow> conn_row list \<Rightarrow> conn_row list \<times> conn_row list" where
  "rotated env q now conns t =
     (let strat = rotation_of env (sq_provider q)
      in if length conns > 1 \<and> ps_rotate strat \<noteq> [] \<and> ps_rotate strat \<noteq> ''none''
         then apply_connection_strategy (sv_persisted env) (sv_dice env) now (sticky_one (sq_session q) strat) conns t
         else (conns, t))"

lemma rotated_strip:
  "image_mset strip (mset (fst (rotated env q now conns t))) = image_mset strip (mset conns)"
  "map strip (snd (rotated env q now conns t)) = map strip t"
  by (simp_all add: rotated_def Let_def apply_strategy_strip)

lemma rotated_row:
  "c \<in> set (fst (rotated env q now conns t)) \<Longrightarrow> \<exists>r\<in>set conns. strip r = strip c"
  "r \<in> set conns \<Longrightarrow> \<exists>c\<in>set (fst (rotated env q now conns t)). strip c = strip r"
  using arg_cong[OF rotated_strip(1), of set_mset env q now conns t] by (auto simp: set_eq_iff image_iff) metis+

lemma affine_table: "st_table (snd (affine_connection env q now conns s)) = st_table s"
  by (auto simp: affine_connection_def Let_def split: option.splits prod.splits)

lemma affine_admissible:
  assumes "fst (affine_connection env q now conns s) = Some c"
  shows "c \<in> set conns \<and> admissible env q now (st_table s) c \<and> \<not> in_cooldown now c"
  using assms by (auto simp: affine_connection_def Let_def admissible_def find_Some_iff split: option.splits prod.splits if_splits)

definition candidate_rows :: "select_env \<Rightarrow> select_request \<Rightarrow> conn_row list \<Rightarrow> conn_row list" where
  "candidate_rows env q t =
     filter_connections_by_enabled_models (sq_provider q) (sq_model q)
       (filter_connections_for_model (sv_settings env) (sq_provider q) (sq_model q) (provider_rows (sq_provider q) t))"

lemma candidate_row:
  "c \<in> set (candidate_rows env q t) \<Longrightarrow> c \<in> set t \<and> cn_active c \<and>
     (sq_provider q = [] \<or> cn_provider c = sq_provider q \<or>
      get_provider_connections (sq_provider q) True t = [] \<and> map_of credential_fallbacks (sq_provider q) = Some (cn_provider c))"
  by (auto simp: candidate_rows_def provider_rows_def filter_connections_by_enabled_models_def filter_connections_for_model_def
      get_provider_connections_def Let_def credential_fallbacks_def split: if_splits option.splits)

text \<open>Where the account of a served request comes from.\<close>

lemma strategy_choice:
  assumes "select_by_strategy env q now conns s = (Inr c, s')"
  obtains (bound) "c \<in> set conns" "admissible env q now (st_table s) c" "\<not> in_cooldown now c"
  | (walked) r where "r \<in> set conns" "strip r = strip c" "admissible env q now (st_table s) c" "sq_probe q \<or> \<not> in_cooldown now c"
  | (forced) r where "r \<in> set conns" "strip r = strip c" "admissible env q now (st_table s) c" "in_cooldown now c" "\<not> sq_probe q"
      "force_fallback_enabled env"
      "\<forall>d\<in>set conns. admissible env q now (st_table s) d \<longrightarrow> in_cooldown now d \<and> blocked_until c \<le> blocked_until d"
proof -
  let ?el = "is_affinity_eligible_strategy (ps_rotate (rotation_of env (sq_provider q)))"
  obtain b s1 where bs: "(if \<not> sq_probe q \<and> sq_session q \<noteq> [] \<and> ?el then affine_connection env q now conns s else (None, s)) = (b, s1)"
    by fastforce
  have tab: "st_table s1 = st_table s" using bs affine_table[of env q now conns s] by (auto split: if_splits)
  obtain order t where ot: "rotated env q now conns (st_table s) = (order, t)" by fastforce
  obtain w cooling where walk: "walk_candidates env q now t order = (w, cooling)" by fastforce
  have sel: "c = d" if "b = Some d" for d
    using assms that by (simp add: select_by_strategy_def Let_def bs)
  have sel2: "(case w of Some d \<Rightarrow> Some d | None \<Rightarrow> force_min_cooldown_connection env (sq_exclude q) (sq_model q) now cooling) = Some c"
    if "b = None"
    using assms that ot walk
    by (auto simp: select_by_strategy_def Let_def bs rotated_def tab split: option.splits if_splits prod.splits)
  have t: "map strip t = map strip (st_table s)" using rotated_strip(2)[of env q now conns "st_table s"] ot by simp
  note row = rotated_row[where env = env and q = q and now = now and conns = conns and t = "st_table s", unfolded ot fst_conv]
  have adm: "admissible env q now t d = admissible env q now (st_table s) d'" if "strip d = strip d'" for d d'
    using admissible_strip[OF t that] .
  show thesis
  proof (cases b)
    case (Some d)
    then have "fst (affine_connection env q now conns s) = Some c" using bs sel by (auto split: if_splits)
    from affine_admissible[OF this] show thesis using bound by blast
  next
    case None
    note chosen = sel2[OF None]
    show thesis
    proof (cases w)
      case (Some d)
      then have "walk_candidates env q now t order = (Some c, cooling)" using chosen walk by simp
      from walk_found[OF this] obtain r where "r \<in> set conns" "strip r = strip c" "admissible env q now t c" "sq_probe q \<or> \<not> in_cooldown now c"
        using row(1) by blast
      then show thesis using walked adm[of c c] by blast
    next
      case None
      then have f: "force_min_cooldown_connection env (sq_exclude q) (sq_model q) now cooling = Some c" using chosen by simp
      have cool: "c \<in> set (snd (walk_candidates env q now t order))" using forced_account(2)[OF f] walk by simp
      from walk_cooling[OF this] obtain r where r: "r \<in> set conns" "strip r = strip c" "admissible env q now t c" "\<not> sq_probe q" "in_cooldown now c"
        using row(1) by blast
      have "in_cooldown now d \<and> blocked_until c \<le> blocked_until d" if d: "d \<in> set conns" "admissible env q now (st_table s) d" for d
      proof -
        obtain e where e: "e \<in> set order" "strip e = strip d" using row(2)[OF d(1)] by blast
        have "e \<in> set (snd (walk_candidates env q now t order))"
          using walk_none[of env q now t order e] adm[OF e(2)] d(2) e(1) walk None by simp
        then have "e \<in> set cooling" "in_cooldown now e" "admissible env q now t e"
          using walk_cooling[of e env q now t order] walk by simp_all
        then have "blocked_until c \<le> blocked_until e \<and> in_cooldown now e"
          using forced_account(4)[OF f, of e] by (simp add: forceable_def admissible_def)
        then show ?thesis using arg_cong[OF e(2), of connection_blocked_until] arg_cong[OF e(2), of "in_cooldown now"] by simp
      qed
      then show thesis using forced[of r] r adm[of c c] forced_account(1)[OF f] by blast
    qed
  qed
qed

lemma filter_for_model_Nil [simp]: "filter_connections_for_model st p m [] = []"
  by (simp add: filter_connections_for_model_def split: option.split)

lemma unpinned_choice:
  assumes "select_unpinned env q now s = (Inr c, s')"
  obtains "provider_rows (sq_provider q) (st_table s) = []" "sv_no_auth env (sq_provider q)"
      "c = public_connection (sq_provider q)" "s' = s"
    | "select_by_strategy env q now (candidate_rows env q (st_table s)) s = (Inr c, s')"
proof (cases "provider_rows (sq_provider q) (st_table s) = []")
  case True
  then show thesis using assms that(1) by (simp add: select_unpinned_def split: if_splits)
next
  case False
  then have "select_by_strategy env q now (candidate_rows env q (st_table s)) s = (Inr c, s')"
    using assms unfolding candidate_rows_def select_unpinned_def Let_def by (simp split: if_splits option.splits)
  then show thesis by (rule that(2))
qed

lemma pinned_choice:
  assumes "select_connection env q now s = (Inr c, s')" "sq_pin q \<noteq> []"
  obtains "c \<in> set (st_table s)" "cn_active c" "cn_provider c = sq_provider q" "cn_id c \<notin> set (sq_exclude q)"
      "sq_probe q \<or> admissible env q now (st_table s) c \<and> \<not> in_cooldown now c"
    | "select_unpinned env q now s = (Inr c, s')"
  using assms find_row_id[of "sq_pin q" "st_table s"]
  by (auto simp: select_connection_def pinned_connection_ineligible_def admissible_def connection_model_blocked_def
      codex_account_serves_model_def split: option.splits if_splits)

text \<open>The check of a pinned account stops at its first reason, so a probe that is let through a cooldown is not
  checked for the models enabled on the account, nor for the strict assignment, which come later.\<close>

lemma cooling_probe_skips_enablement:
  assumes "sq_probe q" "sq_pin q \<noteq> []" "find_row (sq_pin q) (st_table s) = Some c" "cn_provider c = sq_provider q"
    and "cn_active c" "cn_id c \<notin> set (sq_exclude q)" "in_cooldown now c"
    and "\<not> codex_account_serves_model (sq_model q) c"
  shows "select_connection env q now s = (Inr c, s)"
  using assms by (simp add: select_connection_def pinned_connection_ineligible_def)

text \<open>What is known of an account that a selection returns.\<close>

definition may_serve :: "select_env \<Rightarrow> select_request \<Rightarrow> instant \<Rightarrow> conn_row list \<Rightarrow> conn_row \<Rightarrow> bool" where
  "may_serve env q now t c \<longleftrightarrow>
     provider_rows (sq_provider q) t = [] \<and> sv_no_auth env (sq_provider q) \<and> c = public_connection (sq_provider q) \<or>
     (\<exists>r\<in>set t. strip r = strip c \<and> cn_active r \<and>
       (cn_provider r = sq_provider q \<or>
        get_provider_connections (sq_provider q) True t = [] \<and> map_of credential_fallbacks (sq_provider q) = Some (cn_provider r)) \<and>
       cn_id c \<notin> set (sq_exclude q) \<and>
       (codex_account_serves_model (sq_model q) c \<or> sq_probe q \<and> sq_pin q \<noteq> []) \<and>
       (sq_probe q \<or> \<not> connection_model_blocked env (sq_provider q) (sq_model q) now t c \<and>
          (in_cooldown now c \<longrightarrow> force_fallback_enabled env)))"

lemma selected_may_serve:
  assumes "select_connection env q now s = (Inr c, s')" "sq_provider q \<noteq> []"
  shows "may_serve env q now (st_table s) c"
proof -
  have unpinned: ?thesis if u: "select_unpinned env q now s = (Inr c, s')"
  proof (rule unpinned_choice[OF u])
    assume "select_by_strategy env q now (candidate_rows env q (st_table s)) s = (Inr c, s')"
    from strategy_choice[OF this] show ?thesis
      using candidate_row[of _ env q "st_table s"] assms(2) unfolding admissible_def may_serve_def by cases blast+
  qed (simp add: may_serve_def)
  show ?thesis
  proof (cases "sq_pin q = []")
    case True
    then show ?thesis using assms(1) unpinned by (simp add: select_connection_def)
  next
    case False
    from pinned_choice[OF assms(1) False] show ?thesis
    proof cases
      case 1
      then have "codex_account_serves_model (sq_model q) c \<or> sq_probe q \<and> sq_pin q \<noteq> []"
        "sq_probe q \<or> \<not> connection_model_blocked env (sq_provider q) (sq_model q) now (st_table s) c \<and>
          (in_cooldown now c \<longrightarrow> force_fallback_enabled env)"
        using False by (auto simp: admissible_def)
      then show ?thesis using 1(1-4) unfolding may_serve_def by (intro disjI2 bexI[of _ c]) simp_all
    qed (rule unpinned)
  qed
qed

section \<open>Properties\<close>


definition demo_select_env :: "provider_strategy \<Rightarrow> bool \<Rightarrow> select_env" where
  "demo_select_env strat force = \<lparr>sv_no_auth = (\<lambda>_. False), sv_antigravity = id, sv_quota_blocked = (\<lambda>_ _ _. False),
     sv_node_refusal = (\<lambda>_. None), sv_pool = (\<lambda>_ _. []), sv_force_env = force, sv_sha = id,
     sv_settings = Some \<lparr>rs_strategies = [(''p'', strat)], rs_fallback = [], rs_sticky = 0, rs_force = False\<rparr>,
     sv_persisted = True, sv_dice = 0\<rparr>"

definition demo_select_request :: select_request where
  "demo_select_request = \<lparr>sq_provider = ''p'', sq_model = ''m'', sq_pin = [], sq_session = ''s'', sq_probe = False,
     sq_exclude = [], sq_excluded_pools = []\<rparr>"

definition demo_round_robin :: provider_strategy where
  "demo_round_robin = \<lparr>ps_rotate = ''round-robin'', ps_conn_rotate = [], ps_sticky = 1, ps_strict = False\<rparr>"


text \<open>Three accounts of one provider: the first in cooldown for a long time, the second for a short one.\<close>

definition demo_accounts :: "conn_row list" where
  "demo_accounts = [(demo_conn ''a'')\<lparr>cn_limited := Some 9000\<rparr>, demo_conn ''b'', (demo_conn ''c'')\<lparr>cn_limited := Some 500\<rparr>]"


text \<open>C32: An account in cooldown is the last resort: it serves an ordinary request only when the operator forces
  traffic and every account that could take the request is in cooldown too, and then it is the one that is free
  first.\<close>
theorem cooldown_account_is_last_resort:
  assumes "select_connection env q now s = (Inr c, s')" "sq_pin q = []" "\<not> sq_probe q" "in_cooldown now c"
    and "d \<in> set (candidate_rows env q (st_table s))" "cn_id d \<notin> set (sq_exclude q)" "codex_account_serves_model (sq_model q) d"
    and "\<not> connection_model_blocked env (sq_provider q) (sq_model q) now (st_table s) d"
  shows "force_fallback_enabled env \<and> in_cooldown now d \<and> the (connection_blocked_until c) \<le> the (connection_blocked_until d)"
proof -
  have "select_unpinned env q now s = (Inr c, s')" using assms(1,2) by (simp add: select_connection_def)
  moreover have "\<not> in_cooldown now (public_connection p)" for p
    by (simp add: in_cooldown_def connection_blocked_until_def public_connection_def)
  ultimately have "select_by_strategy env q now (candidate_rows env q (st_table s)) s = (Inr c, s')"
    using assms(4) by (auto elim!: unpinned_choice)
  from strategy_choice[OF this] show ?thesis
  proof cases
    case (3 r)
    moreover have "admissible env q now (st_table s) d" using assms(6-8) by (simp add: admissible_def)
    ultimately show ?thesis using assms(5) by blast
  qed (use assms(3,4) in simp_all)
qed

lemma cooldown_account_is_last_resort_witness:
  "let env = demo_select_env demo_round_robin True; q = demo_select_request\<lparr>sq_exclude := [''b'']\<rparr>;
     s = \<lparr>st_table = demo_accounts, st_affinity = new_affinity_store 10 hour\<rparr>;
     a = (demo_conn ''a'')\<lparr>cn_limited := Some 9000\<rparr>
   in map_sum id cn_id (fst (select_connection env q 50 s)) = Inr ''c'' \<and> force_fallback_enabled env \<and> in_cooldown 50 a"
proof -
  let ?env = "demo_select_env demo_round_robin True" and ?q = "demo_select_request\<lparr>sq_exclude := [''b'']\<rparr>"
  let ?s = "\<lparr>st_table = demo_accounts, st_affinity = new_affinity_store 10 hour\<rparr>" and ?a = "(demo_conn ''a'')\<lparr>cn_limited := Some 9000\<rparr>"
  let ?c = "(demo_conn ''c'')\<lparr>cn_limited := Some 500\<rparr>"
  have sel: "fst (select_connection ?env ?q 50 ?s) = Inr ?c" by code_simp
  then have "select_connection ?env ?q 50 ?s = (Inr ?c, snd (select_connection ?env ?q 50 ?s))" by (metis prod.collapse)
  then have "force_fallback_enabled ?env \<and> in_cooldown 50 ?a \<and> the (connection_blocked_until ?c) \<le> the (connection_blocked_until ?a)"
    by (rule cooldown_account_is_last_resort) code_simp+
  then show ?thesis using sel by (simp add: Let_def demo_conn_def)
qed

end
