(* ===== verification/RoundRobin.thy ===== *)
theory RoundRobin
  imports Selection
begin

text \<open>
  What the account selection of \<open>Selection\<close> promises over several requests: the persistent
  round-robin serves the accounts in turn, and a session stays on its account.
\<close>

section \<open>The least and the most recent account\<close>

text \<open>Accounts that were never used come first, in list order, then the used ones by their stamp.\<close>

definition older :: "conn_row list \<Rightarrow> nat \<Rightarrow> nat \<Rightarrow> bool" where
  "older cs i j = (case (cn_last_used (cs ! i), cn_last_used (cs ! j)) of
     (None, None) \<Rightarrow> i < j | (None, Some _) \<Rightarrow> True | (Some _, None) \<Rightarrow> False | (Some s, Some t) \<Rightarrow> s < t)"

lemma least_recent_from:
  assumes "w < length cs" "\<And>j. j < length cs \<Longrightarrow> j \<noteq> w \<Longrightarrow> older cs w j" "i \<le> length cs"
    and "if i \<le> w then \<forall>b s. best = Some (b, s) \<longrightarrow> b < i \<and> cn_last_used (cs ! b) = Some s
         else \<exists>s. best = Some (w, s) \<and> cn_last_used (cs ! w) = Some s"
  shows "least_recent i best (drop i cs) = Some w"
  using assms(3,4)
proof (induction "drop i cs" arbitrary: i best)
  case Nil
  then show ?case using assms(1) by (auto split: if_splits)
next
  case (Cons c rest)
  have i: "i < length cs" "c = cs ! i" "rest = drop (Suc i) cs" using Cons(2) by (metis drop_eq_Nil linorder_not_le list.distinct(1), metis nth_via_drop, metis drop_Suc drop_tl list.sel(3))
  show ?case
  proof (cases "cn_last_used c")
    case None
    have "i = w"
    proof (rule ccontr)
      assume "i \<noteq> w"
      then show False using Cons.prems(2) assms(2)[OF i(1)] None i(2)
        by (cases "i \<le> w") (auto simp: older_def split: option.splits if_splits)
    qed
    moreover have "least_recent i best (c # rest) = Some i" using None by simp
    ultimately show ?thesis using Cons(2) by simp
  next
    case (Some s)
    let ?best = "case best of None \<Rightarrow> Some (i, s) | Some (j, t) \<Rightarrow> if s < t then Some (i, s) else best"
    have "if Suc i \<le> w then \<forall>b s. ?best = Some (b, s) \<longrightarrow> b < Suc i \<and> cn_last_used (cs ! b) = Some s
         else \<exists>s. ?best = Some (w, s) \<and> cn_last_used (cs ! w) = Some s"
    proof (cases "i = w")
      case True
      have "s < t" if "best = Some (b, t)" for b t
        using Cons.prems(2) that assms(2)[of b] True Some i by (auto simp: older_def)
      then show ?thesis using True Some i(2) by (auto split: option.split)
    next
      case False
      then show ?thesis using Cons.prems(2) assms(2)[OF i(1)] Some i(2)
        by (auto simp: older_def less_Suc_eq split: option.splits if_splits)
    qed
    from Cons(1)[OF i(3) _ this] have "least_recent (Suc i) ?best (drop (Suc i) cs) = Some w" using i by simp
    then show ?thesis using Some i(3) by (simp add: Cons(2)[symmetric])
  qed
qed

lemma least_recent_least:
  assumes "w < length cs" "\<And>j. j < length cs \<Longrightarrow> j \<noteq> w \<Longrightarrow> older cs w j"
  shows "least_recent 0 None cs = Some w"
  using least_recent_from[OF assms, of 0 None] by simp

lemma most_recent_from:
  assumes "w < length cs" "cn_last_used (cs ! w) = Some m" "\<And>j. j < length cs \<Longrightarrow> j \<noteq> w \<Longrightarrow> older cs j w" "i \<le> length cs"
    and "if i \<le> w then \<forall>b s. best = Some (b, s) \<longrightarrow> b < i \<and> cn_last_used (cs ! b) = Some s else best = Some (w, m)"
  shows "most_recent i best (drop i cs) = Some w"
  using assms(4,5)
proof (induction "drop i cs" arbitrary: i best)
  case Nil
  then show ?case using assms(1) by (auto split: if_splits)
next
  case (Cons c rest)
  have i: "i < length cs" "c = cs ! i" "rest = drop (Suc i) cs" using Cons(2) by (metis drop_eq_Nil linorder_not_le list.distinct(1), metis nth_via_drop, metis drop_Suc drop_tl list.sel(3))
  let ?best = "case (cn_last_used c, best) of (None, _) \<Rightarrow> best | (Some s, None) \<Rightarrow> Some (i, s)
       | (Some s, Some (j, t)) \<Rightarrow> if t \<le> s then Some (i, s) else best"
  have "if Suc i \<le> w then \<forall>b s. ?best = Some (b, s) \<longrightarrow> b < Suc i \<and> cn_last_used (cs ! b) = Some s else ?best = Some (w, m)"
  proof (cases "i = w")
    case True
    have "t \<le> m" if "best = Some (b, t)" for b t
      using Cons.prems(2) that assms(3)[of b] True assms(2) i by (auto simp: older_def)
    then show ?thesis using True assms(2) i(2) by (auto split: option.split)
  next
    case False
    then show ?thesis using Cons.prems(2) assms(3)[OF i(1)] assms(2) i(2)
      by (auto simp: older_def less_Suc_eq split: option.splits if_splits)
  qed
  from Cons(1)[OF i(3) _ this] have "most_recent (Suc i) ?best (drop (Suc i) cs) = Some w" using i by simp
  then show ?case using i(3) by (simp add: Cons(2)[symmetric])
qed

lemma most_recent_greatest:
  assumes "w < length cs" "cn_last_used (cs ! w) = Some m" "\<And>j. j < length cs \<Longrightarrow> j \<noteq> w \<Longrightarrow> older cs j w"
  shows "most_recent 0 None cs = Some w"
  using most_recent_from[OF assms, of 0 None] by simp

lemma most_recent_unused: "\<forall>c\<in>set cs. cn_last_used c = None \<Longrightarrow> most_recent i None cs = None"
  by (induction cs arbitrary: i) auto

section \<open>Rows keep their order\<close>

lemma insert_by_map:
  "(\<And>a b. lt (f a) (f b) = lt a b) \<Longrightarrow> insert_by lt (f x) (map f xs) = map f (insert_by lt x xs)"
  by (induction xs) auto

lemma sort_by_map:
  assumes "\<And>a b. lt (f a) (f b) = lt a b"
  shows "sort_by lt (map f xs) = map f (sort_by lt xs)"
  unfolding sort_by_def by (induction xs) (simp_all add: insert_by_map assms)

lemma provider_connections_update:
  assumes "\<And>r. strip (f r) = strip r"
  shows "get_provider_connections p a (update_row i f t) = update_row i f (get_provider_connections p a t)"
proof -
  let ?g = "\<lambda>r. if cn_id r = i then f r else r"
  have g: "cn_provider (?g r) = cn_provider r" "cn_active (?g r) = cn_active r" "cn_priority (?g r) = cn_priority r"
    "cn_updated (?g r) = cn_updated r" for r
    using arg_cong[OF assms, of cn_provider r] arg_cong[OF assms, of cn_active r] arg_cong[OF assms, of cn_priority r]
      arg_cong[OF assms, of cn_updated r] by auto
  have "row_before (?g a) (?g b) = row_before a b" for a b
    by (simp only: row_before_def Let_def g)
  then show ?thesis
    unfolding get_provider_connections_def update_row_def filter_map comp_def g by (rule sort_by_map)
qed

lemma update_row_nth:
  assumes "distinct (map cn_id cs)" "w < length cs"
  shows "update_row (cn_id (cs ! w)) f cs = cs[w := f (cs ! w)]"
  using assms by (intro nth_equalityI) (auto simp: update_row_def nth_list_update distinct_conv_nth)

lemma update_row_ids: "(\<And>r. cn_id (f r) = cn_id r) \<Longrightarrow> map cn_id (update_row i f t) = map cn_id t"
  by (simp add: update_row_def)

lemma highest_stamp_ge: "r \<in> set t \<Longrightarrow> cn_last_used r = Some s \<Longrightarrow> \<exists>h. highest_stamp t = Some h \<and> s \<le> h"
proof -
  let ?f = "\<lambda>r m. case (cn_last_used r, m) of (None, _) \<Rightarrow> m | (Some s, None) \<Rightarrow> Some s
     | (Some s, Some h) \<Rightarrow> Some (if s > h then s else h)"
  have keep: "\<exists>k. fold ?f rs (Some h) = Some k \<and> h \<le> k" for rs h
  proof (induction rs arbitrary: h)
    case (Cons r rs)
    show ?case
    proof (cases "cn_last_used r")
      case (Some s)
      then show ?thesis using Cons[of "max s h"] Cons[of s] Cons[of h] by auto
    qed (use Cons[of h] in simp)
  qed simp
  have "\<exists>h. fold ?f t m = Some h \<and> s \<le> h" if "r \<in> set t" "cn_last_used r = Some s" for m
    using that
  proof (induction t arbitrary: m)
    case (Cons c rs)
    show ?case
    proof (cases "c = r")
      case True
      obtain k where "?f r m = Some k" "s \<le> k" using Cons.prems(2) by (cases m) auto
      then show ?thesis using keep[of rs k] True by auto
    qed (use Cons in simp)
  qed simp
  then show "r \<in> set t \<Longrightarrow> cn_last_used r = Some s \<Longrightarrow> ?thesis" by (simp add: highest_stamp_def)
qed

lemma next_stamp_later:
  assumes "r \<in> set t" "cn_last_used r = Some s" shows "s < next_rotation_stamp now (highest_stamp t)"
  using highest_stamp_ge[OF assms] by (auto simp: next_rotation_stamp_def nanosecond_def)

section \<open>The turns\<close>

text \<open>Each request reads the accounts, rotates them, and takes the first.\<close>

primrec recency_turns :: "int \<Rightarrow> string \<Rightarrow> instant list \<Rightarrow> conn_row list \<Rightarrow> string list" where
  "recency_turns limit p [] t = []"
| "recency_turns limit p (now # nows) t =
     (let (order, t') = select_by_recency True now limit (get_provider_connections p True t) t
      in cn_id (hd order) # recency_turns limit p nows t')"

text \<open>The accounts in the order of their last use, the next in turn first, and how often the last one has served.\<close>

definition in_turn :: "conn_row list \<Rightarrow> nat list \<Rightarrow> bool" where
  "in_turn cs ord \<longleftrightarrow> distinct ord \<and> set ord = {..<length cs} \<and> sorted_wrt (older cs) ord"

definition served :: "conn_row list \<Rightarrow> nat list \<Rightarrow> int \<Rightarrow> bool" where
  "served cs ord n \<longleftrightarrow> cn_last_used (cs ! last ord) \<noteq> None \<and> cn_consecutive (cs ! last ord) = Some n"

lemma sorted_wrt_last: "sorted_wrt R xs \<Longrightarrow> x \<in> set xs \<Longrightarrow> x = last xs \<or> R x (last xs)"
  by (induction xs) auto

lemma in_turn_hd: "in_turn cs ord \<Longrightarrow> cs \<noteq> [] \<Longrightarrow> least_recent 0 None cs = Some (hd ord)"
proof -
  assume a: "in_turn cs ord" "cs \<noteq> []"
  then obtain w rest where ord: "ord = w # rest" by (cases ord) (auto simp: in_turn_def)
  have "older cs w j" if "j < length cs" "j \<noteq> w" for j
  proof -
    have "j \<in> set ord" using that(1) a(1) by (simp add: in_turn_def)
    then show ?thesis using that(2) a(1) by (simp add: ord in_turn_def)
  qed
  moreover have "w < length cs" using a(1) by (auto simp: ord in_turn_def)
  ultimately show ?thesis by (simp add: ord least_recent_least)
qed

lemma in_turn_last:
  assumes "in_turn cs ord" "cs \<noteq> []" "cn_last_used (cs ! last ord) = Some m"
  shows "most_recent 0 None cs = Some (last ord)"
proof (rule most_recent_greatest[OF _ assms(3)])
  have ord: "set ord = {..<length cs}" "sorted_wrt (older cs) ord" using assms(1) unfolding in_turn_def by blast+
  have "ord \<noteq> []" using ord(1) assms(2) by fastforce
  from last_in_set[OF this] show "last ord < length cs" unfolding ord(1) by simp
  fix j assume j: "j < length cs" "j \<noteq> last ord"
  have "j \<in> set ord" unfolding ord(1) using j(1) by simp
  from sorted_wrt_last[OF ord(2) this] show "older cs j (last ord)" using j(2) by blast
qed

text \<open>Moving an account to the end of the order, with a stamp later than all others.\<close>

lemma in_turn_stamp:
  assumes "distinct (ord @ [w])" "set (ord @ [w]) = {..<length cs}" "sorted_wrt (older cs) ord"
    and "\<And>j s. j < length cs \<Longrightarrow> cn_last_used (cs ! j) = Some s \<Longrightarrow> s < stamp"
  shows "in_turn (cs[w := (cs ! w)\<lparr>cn_last_used := Some stamp, cn_consecutive := Some n\<rparr>]) (ord @ [w])"
proof -
  let ?cs = "cs[w := (cs ! w)\<lparr>cn_last_used := Some stamp, cn_consecutive := Some n\<rparr>]"
  have w: "w < length cs" using assms(2) by auto
  have "older ?cs i j" if "older cs i j" "i \<in> set ord" "j \<in> set ord" for i j
  proof -
    have "i \<noteq> w" "j \<noteq> w" using that assms(1) by auto
    then show ?thesis using that(1) by (simp add: older_def)
  qed
  then have "sorted_wrt (older ?cs) ord" using sorted_wrt_mono_rel[OF _ assms(3)] by blast
  moreover have "older ?cs i w" if "i \<in> set ord" for i
    using that assms w by (auto simp: older_def nth_list_update split: option.split)
  ultimately show ?thesis using assms(1,2) by (auto simp: in_turn_def sorted_wrt_append)
qed

text \<open>One request.\<close>

definition turn :: "int \<Rightarrow> string \<Rightarrow> instant \<Rightarrow> conn_row list \<Rightarrow> conn_row list \<times> conn_row list" where
  "turn limit p now t = select_by_recency True now limit (get_provider_connections p True t) t"

lemma turn_winner:
  assumes "distinct (map cn_id t)" "cs = get_provider_connections p True t" "recency_winner limit cs = (w, n)" "w < length cs"
  obtains stamp where "cn_id (hd (fst (turn limit p now t))) = cn_id (cs ! w)"
    "get_provider_connections p True (snd (turn limit p now t)) = cs[w := (cs ! w)\<lparr>cn_last_used := Some stamp, cn_consecutive := Some n\<rparr>]"
    "map cn_id (snd (turn limit p now t)) = map cn_id t"
    "\<forall>j s. j < length cs \<longrightarrow> cn_last_used (cs ! j) = Some s \<longrightarrow> s < stamp"
proof -
  let ?stamp = "next_rotation_stamp now (highest_stamp t)"
  let ?f = "\<lambda>r. r\<lparr>cn_last_used := Some ?stamp, cn_consecutive := Some n\<rparr>"
  have touch: "touch_connection_rotation i n now t = (?stamp, update_row i ?f t)" for i
    by (simp add: touch_connection_rotation_def stamp_connection_def Let_def)
  have turn: "turn limit p now t = (move_front w (cs[w := ?f (cs ! w)]), update_row (cn_id (cs ! w)) ?f t)"
    by (simp add: turn_def select_by_recency_def assms(3) touch Let_def flip: assms(2))
  have sub: "set cs \<subseteq> set t" by (auto simp: assms(2) get_provider_connections_def)
  have "mset (map cn_id cs) = mset (map cn_id (filter (\<lambda>r. (p = [] \<or> cn_provider r = p) \<and> cn_active r) t))"
    by (simp add: assms(2) get_provider_connections_def)
  from mset_eq_imp_distinct_iff[OF this] have "distinct (map cn_id cs)" using assms(1) by (simp add: distinct_map_filter)
  then have rows: "get_provider_connections p True (update_row (cn_id (cs ! w)) ?f t) = cs[w := ?f (cs ! w)]"
    using provider_connections_update[of ?f p True "cn_id (cs ! w)" t] update_row_nth[of cs w ?f] assms(4)
    by (simp flip: assms(2))
  have "s < ?stamp" if "j < length cs" "cn_last_used (cs ! j) = Some s" for j s
    using next_stamp_later[OF subsetD[OF sub nth_mem[OF that(1)]] that(2)] .
  then have later: "\<forall>j s. j < length cs \<longrightarrow> cn_last_used (cs ! j) = Some s \<longrightarrow> s < ?stamp" by blast
  show thesis
    by (rule that[of ?stamp, OF _ _ _ later]) (simp_all add: turn rows move_front_def assms(4) update_row_ids)
qed

text \<open>After \<open>k > 0\<close> requests: the order has turned once for every \<open>l\<close> of them.\<close>

definition turned_times :: "nat \<Rightarrow> nat \<Rightarrow> conn_row list \<Rightarrow> bool" where
  "turned_times l k cs \<longleftrightarrow> in_turn cs (rotate (Suc ((k - 1) div l)) [0..<length cs]) \<and>
     served cs (rotate (Suc ((k - 1) div l)) [0..<length cs]) (int ((k - 1) mod l) + 1)"

lemma hd_rotate_upt: "0 < n \<Longrightarrow> hd (rotate m [0..<n]) = m mod n"
  by (simp add: hd_rotate_conv_nth)

lemma last_rotate_upt: "0 < n \<Longrightarrow> last (rotate (Suc m) [0..<n]) = m mod n"
proof -
  assume n: "0 < n"
  have "last (rotate (Suc m) [0..<n]) = rotate (Suc m) [0..<n] ! (n - 1)" using n by (subst last_conv_nth) auto
  also have "\<dots> = (Suc m + (n - 1)) mod n" using n by (subst nth_rotate) (auto simp del: rotate_Suc)
  also have "Suc m + (n - 1) = m + n" using n by simp
  finally show ?thesis by simp
qed

lemma rotate1_snoc: "xs \<noteq> [] \<Longrightarrow> rotate1 xs = tl xs @ [hd xs]"
  by (cases xs) simp_all

lemma in_turn_rotate1:
  assumes "in_turn cs ord" "cs \<noteq> []" "\<forall>j s. j < length cs \<longrightarrow> cn_last_used (cs ! j) = Some s \<longrightarrow> s < stamp"
  shows "in_turn (cs[hd ord := (cs ! hd ord)\<lparr>cn_last_used := Some stamp, cn_consecutive := Some n\<rparr>]) (rotate1 ord)"
proof -
  have ord: "distinct ord" "set ord = {..<length cs}" "sorted_wrt (older cs) ord" "ord \<noteq> []"
    using assms(1,2) unfolding in_turn_def by fastforce+
  then obtain w rest where "ord = w # rest" by (cases ord) auto
  then show ?thesis using ord in_turn_stamp[of rest w cs stamp n] assms(3) by auto
qed

lemma in_turn_again:
  assumes "in_turn cs ord" "cs \<noteq> []" "\<forall>j s. j < length cs \<longrightarrow> cn_last_used (cs ! j) = Some s \<longrightarrow> s < stamp"
  shows "in_turn (cs[last ord := (cs ! last ord)\<lparr>cn_last_used := Some stamp, cn_consecutive := Some n\<rparr>]) ord"
proof -
  have ord: "distinct ord" "set ord = {..<length cs}" "sorted_wrt (older cs) ord" "ord \<noteq> []"
    using assms(1,2) unfolding in_turn_def by fastforce+
  have eq: "ord = butlast ord @ [last ord]" using ord(4) by simp
  then have "sorted_wrt (older cs) (butlast ord)" using ord(3) by (metis sorted_wrt_append)
  then show ?thesis using in_turn_stamp[of "butlast ord" "last ord" cs stamp n] ord assms(3) by simp
qed

lemma turn_after:
  assumes "distinct (map cn_id t)" "cs = get_provider_connections p True t" "cs \<noteq> []" "0 < l"
    and "if k = 0 then \<forall>c\<in>set cs. cn_last_used c = None else turned_times l k cs"
  shows "cn_id (hd (fst (turn (int l) p now t))) = cn_id (cs ! (k div l mod length cs)) \<and>
    turned_times l (Suc k) (get_provider_connections p True (snd (turn (int l) p now t)))"
proof -
  let ?m = "if k = 0 then 0 else Suc ((k - 1) div l)"
  let ?ord = "rotate ?m [0..<length cs]"
  have n: "0 < length cs" using assms(3) by simp
  have turned: "in_turn cs ?ord"
  proof (cases "k = 0")
    case True
    then show ?thesis using assms(5) by (auto simp: in_turn_def older_def sorted_wrt_iff_nth_less)
  qed (use assms(5) in \<open>simp add: turned_times_def\<close>)
  let ?again = "0 < k \<and> k mod l \<noteq> 0"
  have again: "Suc ((k - 1) div l) = Suc (k div l) \<and> (k - 1) mod l + 1 = k mod l" if again: ?again
  proof -
    obtain j where j: "k = Suc j" using again by (cases k) auto
    show ?thesis using again unfolding j by (auto simp: div_Suc mod_Suc split: if_splits)
  qed
  have moved: "?m = k div l \<and> (k = 0 \<or> (k - 1) mod l + 1 = l)" if "\<not> ?again"
  proof (cases k)
    case (Suc j)
    then show ?thesis using that by (auto simp: div_Suc mod_Suc split: if_splits)
  qed simp
  have winner: "recency_winner (int l) cs = (if ?again then (last ?ord, int (k mod l) + 1) else (hd ?ord, 1))"
  proof (cases "k = 0")
    case True
    then show ?thesis using most_recent_unused[of cs 0] assms(5) in_turn_hd[OF turned assms(3)]
      by (simp add: recency_winner_def)
  next
    case False
    then have s: "served cs ?ord (int ((k - 1) mod l) + 1)" using assms(5) by (simp add: turned_times_def)
    then obtain s0 where s0: "cn_last_used (cs ! last ?ord) = Some s0" by (auto simp: served_def)
    have least: "least_recent 0 None cs = Some (hd ?ord)" by (rule in_turn_hd[OF turned assms(3)])
    have most: "most_recent 0 None cs = Some (last ?ord)" by (rule in_turn_last[OF turned assms(3) s0])
    show ?thesis
    proof (cases ?again)
      case True
      then have "int ((k - 1) mod l) + 1 = int (k mod l)" "int (k mod l) < int l" using again assms(4) by auto
      then show ?thesis using s True unfolding recency_winner_def Let_def most served_def by simp
    next
      case not_again: False
      then have "int ((k - 1) mod l) + 1 = int l" using moved False by auto
      then show ?thesis using s not_again unfolding recency_winner_def Let_def most least served_def by simp
    qed
  qed
  let ?w = "if ?again then last ?ord else hd ?ord" and ?n = "if ?again then int (k mod l) + 1 else 1"
  have w: "?w = k div l mod length cs"
    using again moved n by (auto simp: last_rotate_upt hd_rotate_upt simp del: rotate_Suc)
  have win: "recency_winner (int l) cs = (?w, ?n)" using winner by (simp split: if_splits)
  have len: "?w < length cs" unfolding w using n by simp
  obtain stamp where st: "cn_id (hd (fst (turn (int l) p now t))) = cn_id (cs ! ?w)"
    "get_provider_connections p True (snd (turn (int l) p now t)) = cs[?w := (cs ! ?w)\<lparr>cn_last_used := Some stamp, cn_consecutive := Some ?n\<rparr>]"
    "map cn_id (snd (turn (int l) p now t)) = map cn_id t"
    "\<forall>j s. j < length cs \<longrightarrow> cn_last_used (cs ! j) = Some s \<longrightarrow> s < stamp"
    by (rule turn_winner[OF assms(1,2) win len, where now = now])
  have "turned_times l (Suc k) (cs[?w := (cs ! ?w)\<lparr>cn_last_used := Some stamp, cn_consecutive := Some ?n\<rparr>])"
  proof (cases ?again)
    case True
    have "?m = Suc (k div l)" using True again by simp
    then show ?thesis using in_turn_again[OF turned assms(3) st(4), of "int (k mod l) + 1"] True w n
      by (simp add: turned_times_def served_def last_rotate_upt del: rotate_Suc)
  next
    case False
    have ord: "rotate1 ?ord = rotate (Suc (k div l)) [0..<length cs]" using moved[OF False] by simp
    have zero: "k mod l = 0" using False by (cases "k = 0") auto
    show ?thesis using in_turn_rotate1[OF turned assms(3) st(4), of 1, unfolded ord] False zero w n
      by (simp add: turned_times_def served_def last_rotate_upt del: rotate_Suc)
  qed
  then show ?thesis using st(1,2) w by simp
qed

lemma turn_keeps:
  assumes "get_provider_connections p True t \<noteq> []" "distinct (map cn_id t)"
  shows "map cn_id (snd (turn limit p now t)) = map cn_id t"
    "map cn_id (get_provider_connections p True (snd (turn limit p now t))) = map cn_id (get_provider_connections p True t)"
proof -
  let ?cs = "get_provider_connections p True t"
  obtain w n where w: "recency_winner limit ?cs = (w, n)" by fastforce
  have len: "w < length ?cs" using recency_winner_in[OF assms(1), of limit] w by simp
  obtain stamp where s: "cn_id (hd (fst (turn limit p now t))) = cn_id (?cs ! w)"
    "get_provider_connections p True (snd (turn limit p now t)) = ?cs[w := (?cs ! w)\<lparr>cn_last_used := Some stamp, cn_consecutive := Some n\<rparr>]"
    "map cn_id (snd (turn limit p now t)) = map cn_id t"
    "\<forall>j s. j < length ?cs \<longrightarrow> cn_last_used (?cs ! j) = Some s \<longrightarrow> s < stamp"
    by (rule turn_winner[OF assms(2) refl w len, where now = now])
  show "map cn_id (snd (turn limit p now t)) = map cn_id t" by (fact s(3))
  show "map cn_id (get_provider_connections p True (snd (turn limit p now t))) = map cn_id ?cs"
    using len by (simp add: s(2) map_update list_update_same_conv)
qed

lemma turns_from:
  assumes "distinct (map cn_id t)" "cs = get_provider_connections p True t" "cs \<noteq> []" "0 < l"
    and "if k = 0 then \<forall>c\<in>set cs. cn_last_used c = None else turned_times l k cs"
  shows "recency_turns (int l) p nows t = map (\<lambda>i. map cn_id cs ! (i div l mod length cs)) [k..<k + length nows]"
  using assms
proof (induction nows arbitrary: t cs k)
  case (Cons now nows)
  let ?t = "snd (turn (int l) p now t)" and ?cs = "get_provider_connections p True (snd (turn (int l) p now t))"
  note keeps = turn_keeps[of p t, folded Cons.prems(2), OF Cons.prems(3,1)]
  note here = turn_after[OF Cons.prems]
  have n: "0 < length cs" using Cons.prems(3) by simp
  have ids: "map cn_id ?cs = map cn_id cs" using keeps(2) Cons.prems(2) by simp
  then have len: "length ?cs = length cs" by (metis length_map)
  have "recency_turns (int l) p nows ?t = map (\<lambda>i. map cn_id ?cs ! (i div l mod length ?cs)) [Suc k..<Suc k + length nows]"
    using here len n Cons.prems(1) keeps(1) by (intro Cons.IH[OF _ refl _ Cons.prems(4)]) auto
  then show ?case using here n
    by (simp add: turn_def[symmetric] case_prod_unfold ids len upt_conv_Cons del: upt_Suc)
qed simp

section \<open>A session and its account\<close>

lemma affinity_get_ttl [simp]: "af_ttl (snd (affinity_get sha p m se now a)) = af_ttl a"
  by (simp add: affinity_get_def Let_def split: option.split)

lemma affinity_evict_ttl [simp]: "af_ttl (affinity_evict sha p m se a) = af_ttl a"
  by (simp add: affinity_evict_def)

lemma affine_ttl: "af_ttl (st_affinity (snd (affine_connection env q now conns s))) = af_ttl (st_affinity s)"
  using affinity_get_ttl[of "sv_sha env" "sq_provider q" "sq_model q" "sq_session q" now "st_affinity s"]
  by (auto simp: affine_connection_def Let_def simp del: affinity_get_ttl split: option.split prod.split)

text \<open>A pin answers as long as its session is not idle.\<close>

lemma affinity_bind_get:
  assumes "se \<noteq> []" "c \<noteq> []" "affinity_key sha p' m' se' = affinity_key sha p m se" "se' \<noteq> []" "now' - now \<le> af_ttl a"
  shows "fst (affinity_get sha p' m' se' now' (affinity_bind sha p m se c now a)) = Some c"
  using assms by (cases "map_of (af_entries a) (affinity_key sha p m se)") (simp_all add: affinity_get_def affinity_bind_def Let_def idle_def)

lemma strategy_binds:
  assumes "select_by_strategy env q now conns s = (Inr c, s')" "\<not> sq_probe q" "sq_session q \<noteq> []"
    and "is_affinity_eligible_strategy (ps_rotate (rotation_of env (sq_provider q)))"
  shows "\<exists>a. af_ttl a = af_ttl (st_affinity s) \<and>
    st_affinity s' = affinity_bind (sv_sha env) (sq_provider q) (sq_model q) (sq_session q) (cn_id c) now a"
proof -
  obtain b s1 where b: "affine_connection env q now conns s = (b, s1)" by fastforce
  have "af_ttl (st_affinity s1) = af_ttl (st_affinity s)" using affine_ttl[of env q now conns s] b by simp
  moreover have "st_affinity s' = affinity_bind (sv_sha env) (sq_provider q) (sq_model q) (sq_session q) (cn_id c) now (st_affinity s1)"
    using assms by (cases b) (auto simp: select_by_strategy_def Let_def b split: prod.splits option.splits)
  ultimately show ?thesis by blast
qed

lemma strategy_keeps_bound:
  assumes "fst (affine_connection env q now conns s) = Some c" "\<not> sq_probe q" "sq_session q \<noteq> []"
    and "is_affinity_eligible_strategy (ps_rotate (rotation_of env (sq_provider q)))"
  shows "fst (select_by_strategy env q now conns s) = Inr c" "st_table (snd (select_by_strategy env q now conns s)) = st_table s"
  using assms affine_table[of env q now conns s]
  by (cases "affine_connection env q now conns s"; simp add: select_by_strategy_def Let_def)+

lemma unpinned_strategy:
  assumes "candidate_rows env q (st_table s) \<noteq> []" "sv_node_refusal env (sq_provider q) = None"
  shows "select_unpinned env q now s = select_by_strategy env q now (candidate_rows env q (st_table s)) s"
proof -
  have rows: "filter_connections_for_model (sv_settings env) (sq_provider q) (sq_model q) (provider_rows (sq_provider q) (st_table s)) \<noteq> []"
    using assms(1) by (rule contrapos_nn) (simp add: candidate_rows_def filter_connections_by_enabled_models_def)
  then have "provider_rows (sq_provider q) (st_table s) \<noteq> []" by (rule contrapos_nn) simp
  then show ?thesis using rows assms unfolding select_unpinned_def Let_def by (simp flip: candidate_rows_def)
qed

section \<open>Properties\<close>


definition demo_table :: "conn_row list" where
  "demo_table = [(demo_conn ''b'')\<lparr>cn_priority := Some 2\<rparr>, (demo_conn ''a'')\<lparr>cn_priority := Some 1\<rparr>,
     (demo_conn ''x'')\<lparr>cn_provider := ''q''\<rparr>, (demo_conn ''c'')\<lparr>cn_active := False\<rparr>]"


text \<open>A session stays on its account: when a strategy that rotates accounts has served a session, the next request
  of the session for the same family of models goes to the same account, without a turn of the rotation, as
  long as the session was not idle and the account is still a candidate that can take the request.\<close>
theorem session_keeps_account:
  assumes "select_connection env q now s = (Inr c, s1)" "sq_pin q = []" "\<not> sq_probe q" "sq_session q \<noteq> []"
    and "cn_id c \<noteq> []" "candidate_rows env q (st_table s) \<noteq> []" "sv_node_refusal env (sq_provider q) = None"
    and "is_affinity_eligible_strategy (ps_rotate (rotation_of env (sq_provider q)))"
    and "sq_provider q' = sq_provider q" "sq_session q' = sq_session q" "sq_pin q' = []" "\<not> sq_probe q'"
    and "normalize_model_family (sq_model q') = normalize_model_family (sq_model q)"
    and "now' - now \<le> af_ttl (st_affinity s)"
    and "List.find (\<lambda>r. cn_id r = cn_id c) (candidate_rows env q' t') = Some r"
    and "cn_id r \<notin> set (sq_exclude q')" "codex_account_serves_model (sq_model q') r" "\<not> in_cooldown now' r"
    and "\<not> connection_model_blocked env (sq_provider q') (sq_model q') now' t' r"
  shows "fst (select_connection env q' now' \<lparr>st_table = t', st_affinity = st_affinity s1\<rparr>) = Inr r \<and>
    st_table (snd (select_connection env q' now' \<lparr>st_table = t', st_affinity = st_affinity s1\<rparr>)) = t'"
proof -
  let ?s = "\<lparr>st_table = t', st_affinity = st_affinity s1\<rparr>" and ?sha = "sv_sha env"
  have "select_by_strategy env q now (candidate_rows env q (st_table s)) s = (Inr c, s1)"
    using assms(1,2) unpinned_strategy[OF assms(6,7)] by (simp add: select_connection_def)
  from strategy_binds[OF this assms(3,4,8)] obtain a where a: "af_ttl a = af_ttl (st_affinity s)"
    "st_affinity s1 = affinity_bind ?sha (sq_provider q) (sq_model q) (sq_session q) (cn_id c) now a" by blast
  have "fst (affinity_get ?sha (sq_provider q') (sq_model q') (sq_session q') now' (st_affinity s1)) = Some (cn_id c)"
    unfolding a(2) using assms(4,5,9,10,13,14) a(1) by (intro affinity_bind_get) (simp_all add: affinity_key_def)
  then have "fst (affine_connection env q' now' (candidate_rows env q' t') ?s) = Some r"
    using assms(15-19) by (auto simp: affine_connection_def Let_def split: prod.split)
  note kept = strategy_keeps_bound[OF this assms(12)]
  have "candidate_rows env q' t' \<noteq> []" using assms(15) by auto
  then have "select_connection env q' now' ?s = select_by_strategy env q' now' (candidate_rows env q' t') ?s"
    using assms(7,9,11) unpinned_strategy[of env q' ?s now'] by (simp add: select_connection_def)
  then show ?thesis using kept assms(4,8,9,10) by simp
qed

lemma session_keeps_account_witness:
  "let env = demo_select_env demo_round_robin False; q = demo_select_request;
     s = \<lparr>st_table = demo_accounts, st_affinity = new_affinity_store 10 hour\<rparr>;
     first = select_connection env q 50 s;
     q' = q\<lparr>sq_exclude := [''c'']\<rparr>
   in map_sum id cn_id (fst first) = Inr ''b'' \<and>
      map_sum id cn_id (fst (select_connection env q' 90 \<lparr>st_table = st_table (snd first), st_affinity = st_affinity (snd first)\<rparr>)) = Inr ''b''"
proof -
  let ?env = "demo_select_env demo_round_robin False" and ?q = "demo_select_request" and ?q' = "demo_select_request\<lparr>sq_exclude := [''c'']\<rparr>"
  let ?s = "\<lparr>st_table = demo_accounts, st_affinity = new_affinity_store 10 hour\<rparr>"
  let ?b = "demo_conn ''b''"
  let ?s1 = "snd (select_connection ?env ?q 50 ?s)"
  have sel: "fst (select_connection ?env ?q 50 ?s) = Inr ?b" by code_simp
  then have first: "select_connection ?env ?q 50 ?s = (Inr ?b, ?s1)" by (metis prod.collapse)
  have "fst (select_connection ?env ?q' 90 \<lparr>st_table = st_table ?s1, st_affinity = st_affinity ?s1\<rparr>) = Inr ?b \<and>
    st_table (snd (select_connection ?env ?q' 90 \<lparr>st_table = st_table ?s1, st_affinity = st_affinity ?s1\<rparr>)) = st_table ?s1"
    by (rule session_keeps_account[OF first]; code_simp)
  then show ?thesis using sel by (simp add: Let_def demo_conn_def)
qed

end
