(* ===== verification/Failover.thy ===== *)
theory Failover
  imports Selection Cooldown GoJson
begin

text \<open>
  What a failed attempt means for the account it was sent to: the readers of an upstream error
  (\<open>fallback.go\<close> and \<open>deprecation.go\<close> of \<open>internal/handlers/chat\<close>, \<open>deprecation.go\<close> of
  \<open>internal/providers\<close>) and the locks and cooldowns that are written for it. The JSON parser is
  a parameter.
\<close>

section \<open>The text of an error\<close>

text \<open>\<open>strings.Index\<close>.\<close>

fun index_str :: "string \<Rightarrow> string \<Rightarrow> nat option" where
  "index_str [] sub = (if sub = [] then Some 0 else None)"
| "index_str (c # s) sub = (if has_prefix sub (c # s) then Some 0 else map_option Suc (index_str s sub))"

definition join_with :: "string \<Rightarrow> string list \<Rightarrow> string" where
  "join_with sep parts = (case parts of [] \<Rightarrow> [] | p # ps \<Rightarrow> p @ concat (map (\<lambda>q. sep @ q) ps))"

definition html_error_text :: "string \<Rightarrow> string" where
  "html_error_text page =
     (let lower = to_lower page
      in if contains_str lower ''cloudflare'' \<or> contains_str lower ''attention required''
         then ''Cloudflare WAF challenge (Attention Required!): check User-Agent or network proxy''
         else case index_str lower ''<title>'' of
                None \<Rightarrow> ''upstream returned HTML error page''
              | Some start \<Rightarrow>
                  (case index_str (drop start lower) ''</title>'' of
                     None \<Rightarrow> ''upstream returned HTML error page''
                   | Some stop \<Rightarrow> ''upstream returned HTML: '' @ trim_space (take (stop - 7) (drop (start + 7) page))))"

definition error_parts :: "error_fields \<Rightarrow> string list" where
  "error_parts f =
     (if ef_message f \<noteq> [] then [ef_message f] else if ef_top_message f \<noteq> [] then [ef_top_message f] else []) @
     (if ef_status f \<noteq> [] then [ef_status f] else []) @ filter (\<lambda>r. r \<noteq> []) (ef_reasons f)"

definition extract_error_text :: "decoders \<Rightarrow> string \<Rightarrow> string" where
  "extract_error_text de body =
     (let parts = (case de_error de body of None \<Rightarrow> [] | Some f \<Rightarrow> error_parts f);
          page = trim_space body
      in if parts \<noteq> [] then join_with '' '' parts
         else if has_prefix ''<!DOCTYPE html'' page \<or> has_prefix ''<html'' page then html_error_text page
         else [])"

section \<open>A retired model\<close>

text \<open>The key of a provider and its model, its inverse, and the key of a combo entry.\<close>

definition deprecation_key :: "string \<Rightarrow> string \<Rightarrow> string" where
  "deprecation_key provider model = to_lower provider @ ''/'' @ to_lower model"

definition split_deprecation_key :: "string \<Rightarrow> (string \<times> string) option" where
  "split_deprecation_key key =
     (case cut_byte CHR ''/'' key of
        None \<Rightarrow> None
      | Some (provider, model) \<Rightarrow> if provider = [] \<or> model = [] then None else Some (provider, model))"

definition deprecation_key_for_entry :: "string \<Rightarrow> string option" where
  "deprecation_key_for_entry entry =
     (case cut_byte CHR ''/'' entry of
        None \<Rightarrow> None
      | Some (provider, model) \<Rightarrow> if provider = [] \<or> model = [] then None else Some (deprecation_key provider model))"

definition deprecation_markers :: "string list" where
  "deprecation_markers = [''modeldeprecated'', ''model_deprecated'', ''model-deprecated'', ''modelnotfound'',
     ''model_not_found'', ''model-retired'', ''modelretired'', ''modelnotavailable'', ''model_not_available'',
     ''modelunavailable'', ''model_unavailable'', ''model is deprecated'', ''model has been deprecated'',
     ''model was deprecated'', ''model is retired'', ''model was retired'', ''model is no longer available'',
     ''model is not available'', ''model has been retired'']"

record deprecation_payload =
  dp_error :: json
  dp_message :: string
  dp_type :: string

text \<open>Decoding into a struct: a string field may be missing or null, and any other value is an error.\<close>

definition string_field :: "(string \<times> json) list \<Rightarrow> string \<Rightarrow> string option" where
  "string_field m k = (case obj_get m k of JNull \<Rightarrow> Some [] | JStr s \<Rightarrow> Some s | _ \<Rightarrow> None)"

definition decode_deprecation :: "(string \<Rightarrow> json option) \<Rightarrow> string \<Rightarrow> deprecation_payload option" where
  "decode_deprecation parse body =
     (if body = [] then None
      else case parse body of
             Some JNull \<Rightarrow> Some \<lparr>dp_error = JNull, dp_message = [], dp_type = []\<rparr>
           | Some (JObj m) \<Rightarrow>
               (case (string_field m ''message'', string_field m ''type'') of
                  (Some msg, Some typ) \<Rightarrow> Some \<lparr>dp_error = obj_get m ''error'', dp_message = msg, dp_type = typ\<rparr>
                | _ \<Rightarrow> None)
           | _ \<Rightarrow> None)"

definition deprecation_string_fields :: "string list" where
  "deprecation_string_fields = [''type'', ''message'', ''detail'', ''status'', ''successor'', ''replaced_by'', ''replacement'']"

definition deprecation_object_of :: "json \<Rightarrow> (string \<times> json) list option" where
  "deprecation_object_of e =
     (case as_object e of
        None \<Rightarrow> None
      | Some m \<Rightarrow>
          (if \<exists>k\<in>set deprecation_string_fields. string_field m k = None then None
           else if (\<forall>k\<in>set deprecation_string_fields. obj_string m k = []) \<and> obj_get m ''code'' = JNull then None
           else Some m))"

text \<open>A number is printed as the integer in front of its fraction.\<close>

definition deprecation_code_string :: "json \<Rightarrow> string" where
  "deprecation_code_string code =
     (case code of
        JStr s \<Rightarrow> s
      | JNum n \<Rightarrow> itoa_int (if n < 0 then \<lceil>n\<rceil> else \<lfloor>n\<rfloor>)
      | _ \<Rightarrow> [])"

definition deprecation_reason :: "(string \<Rightarrow> json option) \<Rightarrow> string \<Rightarrow> string" where
  "deprecation_reason parse body =
     (case decode_deprecation parse body of
        None \<Rightarrow> []
      | Some p \<Rightarrow>
          (let tokens = [dp_type p, dp_message p] @
                 (case deprecation_object_of (dp_error p) of
                    None \<Rightarrow> []
                  | Some m \<Rightarrow> [obj_string m ''type'', deprecation_code_string (obj_get m ''code''), obj_string m ''status'',
                              obj_string m ''message'']);
               haystack = to_lower (join_with '' '' tokens)
           in case filter (contains_str haystack) deprecation_markers of [] \<Rightarrow> [] | marker # _ \<Rightarrow> marker))"

definition has_error_envelope :: "(string \<Rightarrow> json option) \<Rightarrow> string \<Rightarrow> bool" where
  "has_error_envelope parse body =
     (case decode_deprecation parse body of
        None \<Rightarrow> False
      | Some p \<Rightarrow> dp_message p \<noteq> [] \<or> dp_type p \<noteq> [] \<or> (dp_error p \<noteq> JNull \<and> dp_error p \<noteq> JStr []))"

definition is_model_deprecation :: "(string \<Rightarrow> json option) \<Rightarrow> int \<Rightarrow> string \<Rightarrow> bool" where
  "is_model_deprecation parse status body \<longleftrightarrow>
     status = 410 \<and> (deprecation_reason parse body \<noteq> [] \<or> \<not> has_error_envelope parse body)"

section \<open>Whose fault it is\<close>

definition account_auth_texts :: "string list" where
  "account_auth_texts = [''no credentials'', ''invalid_grant'', ''invalid token'', ''token type is not supported'',
     ''authentication expired'', ''token expired'', ''account suspended'', ''account disabled'', ''incorrect api key'',
     ''invalid api key'', ''organization is not supported'', ''insufficient funds for organization'']"

definition is_account_auth_failure :: "string \<Rightarrow> bool" where
  "is_account_auth_failure lower \<longleftrightarrow> (\<exists>p\<in>set account_auth_texts. contains_str lower p)"

text \<open>\<open>strings.ToUpper\<close> on ASCII.\<close>

definition to_upper :: "string \<Rightarrow> string" where
  "to_upper s = map (\<lambda>c. let n = of_char c :: nat in if 97 \<le> n \<and> n \<le> 122 then char_of (n - 32) else c) s"

definition is_model_quota_text :: "string \<Rightarrow> bool" where
  "is_model_quota_text t \<longleftrightarrow>
     contains_str t ''Individual quota reached'' \<or>
     (\<exists>p\<in>{''QUOTA_EXHAUSTED'', ''MODEL_CAPACITY_EXHAUSTED'', ''PRICINGURL'', ''PRICING_URL'', ''STILL QUEUED''}.
        contains_str (to_upper t) p)"

definition mentions_gate :: "string \<Rightarrow> bool" where
  "mentions_gate lower \<longleftrightarrow>
     (\<exists>p\<in>{''is not supported'', ''not supported'', ''model access is disabled'', ''endpoint is unavailable''}.
        contains_str lower p)"

definition is_opencode_free_tier_refusal :: "string \<Rightarrow> upstream_error \<Rightarrow> bool" where
  "is_opencode_free_tier_refusal provider ue \<longleftrightarrow>
     provider \<in> {''opencode'', ''opencode-zen'', ''opencode-go''} \<and>
     (ue_status ue = 403 \<and> contains_str (ue_body ue) ''FreeTierError'' \<or>
      ue_status ue = 429 \<and> contains_str (ue_body ue) ''FreeUsageLimitError'')"

definition after_last_slash :: "string \<Rightarrow> string" where
  "after_last_slash s = (case last_index_byte CHR ''/'' s of None \<Rightarrow> s | Some i \<Rightarrow> drop (Suc i) s)"

definition is_model_scoped_error :: "int \<Rightarrow> string \<Rightarrow> string \<Rightarrow> string \<Rightarrow> bool" where
  "is_model_scoped_error status text model body \<longleftrightarrow>
     (let lower = to_lower text
      in model \<noteq> [] \<and> \<not> is_account_auth_failure lower \<and> \<not> (status = 403 \<and> contains_str body ''FreeTierError'') \<and>
         (status \<in> {429, 403, 503} \<and> is_model_quota_text text \<or>
          status \<in> {400, 401, 402, 403} \<and>
            (status = 402 \<and> (contains_str lower ''insufficient account funds'' \<or> contains_str lower ''insufficient funds'') \<and>
               \<not> contains_str lower ''credits are exhausted'' \<and> \<not> contains_str lower ''spending limit'' \<or>
             (contains_str lower (after_last_slash (to_lower model)) \<or> contains_str lower (to_lower model)) \<and>
               mentions_gate lower)))"

section \<open>Locks and cooldowns\<close>

record failover_env =
  fo_select :: select_env
  fo_decoders :: decoders
  fo_parse :: "string \<Rightarrow> json option"
  fo_alias :: "string \<Rightarrow> string"

definition model_deprecation_cooldown :: int where
  "model_deprecation_cooldown = 24 * 60 * 60"

text \<open>The lock of a model on an account, under its canonical name and under the name of the request.\<close>

definition lock_model :: "failover_env \<Rightarrow> string \<Rightarrow> string \<Rightarrow> string \<Rightarrow> int \<Rightarrow> int \<Rightarrow> instant \<Rightarrow> conn_row list \<Rightarrow> conn_row list" where
  "lock_model env i provider model secs level now t =
     (let key = canonical_lock_model (sv_antigravity (fo_select env)) provider model;
          t = lock_connection_model i key secs level now t
      in if key \<noteq> model then lock_connection_model i model secs level now t else t)"

text \<open>\<open>recordModelDeprecation\<close> on the account table; the badge of the dashboard is left out.\<close>

definition record_model_deprecation ::
  "failover_env \<Rightarrow> bool \<Rightarrow> string \<Rightarrow> string \<Rightarrow> string \<Rightarrow> upstream_error \<Rightarrow> instant \<Rightarrow> conn_row list \<Rightarrow> conn_row list" where
  "record_model_deprecation env probe provider model i ue now t =
     (if probe \<or> provider = [] \<or> model = [] \<or> \<not> is_model_deprecation (fo_parse env) (ue_status ue) (ue_body ue) \<or> i = []
      then t else lock_model env i provider model model_deprecation_cooldown 0 now t)"

definition classify_failure :: "failover_env \<Rightarrow> string \<Rightarrow> string \<Rightarrow> upstream_error \<Rightarrow> conn_row list \<Rightarrow> classification" where
  "classify_failure env provider i ue t =
     classify_error_for_provider (fo_alias env) (ue_status ue) (extract_error_text (fo_decoders env) (ue_body ue))
       (get_connection_backoff_level i t) provider"

definition failure_cooldown :: "failover_env \<Rightarrow> string \<Rightarrow> upstream_error \<Rightarrow> classification \<Rightarrow> instant \<Rightarrow> int" where
  "failure_cooldown env provider ue c now =
     retryable_cooldown_sec (fo_decoders env) now (ue_status ue) (ec_cooldown c * millisecond) ue provider"

text \<open>The account is locked for the model and, unless the failure is that of the model alone, rests as a whole.\<close>

definition park_account ::
  "failover_env \<Rightarrow> string \<Rightarrow> string \<Rightarrow> string \<Rightarrow> upstream_error \<Rightarrow> classification \<Rightarrow> instant \<Rightarrow> conn_row list \<Rightarrow> conn_row list" where
  "park_account env i provider model ue c now t =
     (let text = extract_error_text (fo_decoders env) (ue_body ue);
          secs = failure_cooldown env provider ue c now;
          t = lock_model env i provider model secs (ec_level c) now t
      in if is_model_scoped_error (ue_status ue) text model (ue_body ue)
         then record_connection_scoped_error i (ue_status ue) text (ec_level c) now t
         else lock_connection_rate_limit i (now + secs * second) (ec_level c) (ue_status ue) text now t)"

text \<open>\<open>comboLockRetryable\<close>: the accounts excluded for the rest of the pass, and the table.\<close>

definition combo_lock_retryable ::
  "failover_env \<Rightarrow> bool \<Rightarrow> string list \<Rightarrow> string \<Rightarrow> string \<Rightarrow> string \<Rightarrow> upstream_error \<Rightarrow> instant \<Rightarrow> conn_row list \<Rightarrow>
   string list \<times> conn_row list" where
  "combo_lock_retryable env probe ex i provider model ue now t =
     (if probe then (ex @ [i], t)
      else if i = [] then (ex, t)
      else if is_opencode_free_tier_refusal provider ue then (ex @ [i], t)
      else let c = classify_failure env provider i ue t in
        if \<not> ec_fallback c \<or> ec_cooldown c \<le> 0 then (ex, t)
        else (ex @ [i], park_account env i provider model ue c now t))"

section \<open>The answer to a refusal of the free tier\<close>

record refusal_detail =
  rf_status :: int
  rf_type :: string
  rf_message :: string
  rf_retry_after :: int

definition is_opencode_quota_refusal :: "string \<Rightarrow> string \<Rightarrow> bool" where
  "is_opencode_quota_refusal msg token \<longleftrightarrow>
     contains_str token ''freeusagelimiterror'' \<or>
     (\<exists>p\<in>{''rate limit'', ''too many requests'', ''quota'', ''usage limit''}. contains_str msg p)"

definition classify_opencode_free_tier_refusal :: "decoders \<Rightarrow> string \<Rightarrow> string \<Rightarrow> refusal_detail" where
  "classify_opencode_free_tier_refusal de provider body =
     (let lower = to_lower (extract_error_text de body);
          token = to_lower body;
          says = (\<lambda>ps. \<exists>p\<in>set ps. contains_str lower p)
      in if says [''not available in your country'', ''country_blocked'', ''country not allowed'', ''region'']
         then \<lparr>rf_status = 403, rf_type = ''free_tier_region_blocked'', rf_message =
             ''OpenCode's free tier is not available in your region ('' @ provider @
             ''). Route through a proxy pool in a supported country.'', rf_retry_after = 0\<rparr>
         else if is_opencode_quota_refusal lower token
         then \<lparr>rf_status = 429, rf_type = ''free_tier_quota_exhausted'', rf_message =
             ''OpenCode free tier rate limit or quota exceeded for this egress. Retry in about 60s, rotate proxy pool, or use a paid '' @
             provider @ '' key.'', rf_retry_after = 60\<rparr>
         else if says [''upgrade required'', ''upgrade_required'', ''client version'', ''version deprecated'']
         then \<lparr>rf_status = 426, rf_type = ''free_tier_upgrade_required'', rf_message =
             ''OpenCode client version is deprecated or requires upgrade.'', rf_retry_after = 0\<rparr>
         else if says [''detect abuse traffic'', ''abuse'']
         then \<lparr>rf_status = 503, rf_type = ''free_tier_abuse_detected'', rf_message =
             ''OpenCode free tier gateway flagged abuse traffic on this egress. Route through a clean residential/ISP proxy pool, or retry in about 30s.'',
             rf_retry_after = 30\<rparr>
         else \<lparr>rf_status = 503, rf_type = ''free_tier_unavailable'', rf_message =
             ''OpenCode's free tier is not serving requests right now. This is an upstream condition rather than a problem with your request or credentials. Retry in about 30s, or use a paid '' @
             provider @ '' key or another provider.'', rf_retry_after = 30\<rparr>)"

text \<open>The failure that reaches the client; \<open>encode\<close> is the JSON text of the error object.\<close>

definition opencode_closure_error :: "decoders \<Rightarrow> (refusal_detail \<Rightarrow> string) \<Rightarrow> string \<Rightarrow> upstream_error \<Rightarrow> upstream_error" where
  "opencode_closure_error de encode provider ue =
     (if \<not> is_opencode_free_tier_refusal provider ue then ue
      else let d = classify_opencode_free_tier_refusal de provider (ue_body ue)
           in \<lparr>ue_status = rf_status d, ue_retry_after = (if rf_retry_after d > 0 then itoa_int (rf_retry_after d) else []),
               ue_body = encode d\<rparr>)"

section \<open>Facts\<close>

lemma find_lock_connection_model:
  "find_row j (lock_connection_model i m secs level now t) = map_option (\<lambda>r. if j = i
     then r\<lparr>cn_locks := AList.update m (Some (whole_seconds (now + secs * second))) (cn_locks r), cn_backoff := level,
       cn_updated := whole_seconds now\<rparr> else r) (find_row j t)"
  unfolding lock_connection_model_def by (rule find_update_row) simp

lemma lock_connection_model_locked:
  "is_connection_model_locked j m' later (lock_connection_model i m secs level now t) =
     (if j = i \<and> m' = m \<and> find_row i t \<noteq> None then later < whole_seconds (now + secs * second)
      else is_connection_model_locked j m' later t)"
  by (auto simp: is_connection_model_locked_def find_lock_connection_model model_locked_def split: option.split)

lemma find_lock_present [simp]: "(find_row j (lock_connection_model i m secs level now t) = None) = (find_row j t = None)"
  by (simp add: find_lock_connection_model)

text \<open>What an operation on the table may change: the locks of an account are written by locks only.\<close>

lemma update_row_locked:
  assumes "\<And>r. cn_id (f r) = cn_id r" "\<And>r. cn_locks (f r) = cn_locks r"
  shows "is_connection_model_locked j m later (update_row i f t) = is_connection_model_locked j m later t"
  using assms by (auto simp: is_connection_model_locked_def model_locked_def split: option.split)

lemma lock_model_locked:
  "is_connection_model_locked j m later (lock_model env i provider model secs level now t) =
     (if j = i \<and> find_row i t \<noteq> None \<and> (m = model \<or> m = canonical_lock_model (sv_antigravity (fo_select env)) provider model)
      then later < whole_seconds (now + secs * second) else is_connection_model_locked j m later t)"
  by (auto simp: lock_model_def Let_def lock_connection_model_locked)

lemma park_account_locked:
  "is_connection_model_locked j m later (park_account env i provider model ue c now t) =
     (if j = i \<and> find_row i t \<noteq> None \<and> (m = model \<or> m = canonical_lock_model (sv_antigravity (fo_select env)) provider model)
      then later < whole_seconds (now + failure_cooldown env provider ue c now * second) else is_connection_model_locked j m later t)"
  by (auto simp: park_account_def Let_def record_connection_scoped_error_def lock_connection_rate_limit_def update_row_locked
      lock_model_locked)

text \<open>Until when an account rests as a whole.\<close>

definition rests_until :: "string \<Rightarrow> conn_row list \<Rightarrow> instant option" where
  "rests_until i t = Option.bind (find_row i t) connection_blocked_until"

lemma rests_until_update:
  assumes "\<And>r. cn_id (f r) = cn_id r"
  shows "rests_until j (update_row i f t) =
    (if j = i then Option.bind (find_row i t) (\<lambda>r. connection_blocked_until (f r)) else rests_until j t)"
  using assms by (cases "find_row j t") (auto simp: rests_until_def find_row_id)

lemma rests_until_lock: "rests_until j (lock_model env i provider model secs level now t) = rests_until j t"
  by (cases "find_row j t") (simp_all add: lock_model_def Let_def rests_until_def find_lock_connection_model
      connection_blocked_until_def split: option.split)

lemma rests_until_park:
  "rests_until j (park_account env i provider model ue c now t) =
     (if j = i \<and> \<not> is_model_scoped_error (ue_status ue) (extract_error_text (fo_decoders env) (ue_body ue)) model (ue_body ue)
      then map_option (\<lambda>r. let e = whole_seconds (now + failure_cooldown env provider ue c now * second)
             in case cn_oauth r of None \<Rightarrow> e | Some u \<Rightarrow> if u < e then u else e) (find_row i t)
      else rests_until j t)"
proof -
  let ?t = "lock_model env i provider model (failure_cooldown env provider ue c now) (ec_level c) now t"
  have oauth: "map_option cn_oauth (find_row i ?t) = map_option cn_oauth (find_row i t)"
    by (cases "find_row i t") (simp_all add: lock_model_def Let_def find_lock_connection_model)
  have lock: "Option.bind (find_row i ?t) (\<lambda>r. connection_blocked_until (r\<lparr>cn_limited := Some e, cn_backoff := l, cn_error := x, cn_updated := u\<rparr>)) =
      map_option (\<lambda>r. case cn_oauth r of None \<Rightarrow> e | Some u \<Rightarrow> if u < e then u else e) (find_row i t)" for e l x u
    using oauth by (cases "find_row i t"; cases "find_row i ?t") (simp_all add: connection_blocked_until_def split: option.split)
  have scoped: "Option.bind (find_row i ?t) (\<lambda>r. connection_blocked_until (r\<lparr>cn_backoff := l, cn_error := x, cn_updated := u\<rparr>)) =
      rests_until i ?t" for l x u
    by (cases "find_row i ?t") (simp_all add: rests_until_def connection_blocked_until_def)
  show ?thesis
    using scoped by (simp add: park_account_def Let_def record_connection_scoped_error_def lock_connection_rate_limit_def
        rests_until_update rests_until_lock lock)
qed

lemma lower_char_slash [simp]: "lower_char c = CHR ''/'' \<longleftrightarrow> c = CHR ''/''"
proof (cases "65 \<le> (of_char c :: nat) \<and> (of_char c :: nat) \<le> 90")
  case True
  then have "of_char (lower_char c) = (of_char c + 32 :: nat)" by (simp add: lower_char_def Let_def)
  moreover have "of_char (CHR ''/'') = (47 :: nat)" by simp
  ultimately have "lower_char c \<noteq> CHR ''/''" "c \<noteq> CHR ''/''" using True by auto
  then show ?thesis by blast
qed (auto simp: lower_char_def Let_def)

lemma slash_in_lower [simp]: "CHR ''/'' \<in> set (to_lower s) \<longleftrightarrow> CHR ''/'' \<in> set s"
  by (induction s) (simp_all add: to_lower_def eq_commute[of "CHR ''/''"])

text \<open>A deprecation whose \<open>error\<close> is a bare string is not read: only an object's message is looked at.\<close>

lemma bare_string_deprecation_missed:
  "let parse = (\<lambda>_. Some (JObj [(''error'', JStr ''model is no longer available'')]))
   in \<not> is_model_deprecation parse 410 ''body'' \<and>
      is_model_deprecation (\<lambda>_. Some (JObj [(''error'', JObj [(''message'', JStr ''model is no longer available'')])])) 410 ''body''"
  by code_simp

section \<open>Properties\<close>


definition demo_failover_env :: failover_env where
  "demo_failover_env = \<lparr>fo_select = demo_select_env demo_round_robin False,
     fo_decoders = blind_decoders\<lparr>de_error := \<lambda>b. Some \<lparr>ef_message = b, ef_status = [], ef_reasons = [], ef_top_message = []\<rparr>\<rparr>,
     fo_parse = (\<lambda>_. None), fo_alias = id\<rparr>"

definition demo_class :: classification where
  "demo_class = \<lparr>ec_fallback = True, ec_cooldown = 5000, ec_level = 1\<rparr>"


text \<open>A failed account is out of the running: when a combo parks an account for a failure that calls for it, then
  until the announced time, cut to whole seconds, no selection of that model may take the account, whoever
  asks and whatever else is excluded, unless it is a probe.\<close>
theorem parked_account_is_not_selected:
  assumes "i \<noteq> []" "find_row i t \<noteq> None" "model \<noteq> []" "\<not> is_opencode_free_tier_refusal provider ue"
    and "ec_fallback (classify_failure env provider i ue t)" "0 < ec_cooldown (classify_failure env provider i ue t)"
    and "combo_lock_retryable env False ex i provider model ue now t = (ex', t')"
    and "later < whole_seconds (now + failure_cooldown env provider ue (classify_failure env provider i ue t) now * second)"
    and "cn_id r = i" "\<not> sq_probe q" "sq_provider q = provider" "sq_model q = model"
  shows "\<not> admissible (fo_select env) q later t' r \<and> i \<in> set ex'"
proof -
  have t': "t' = park_account env i provider model ue (classify_failure env provider i ue t) now t" "ex' = ex @ [i]"
    using assms(1,4-7) by (auto simp: combo_lock_retryable_def Let_def)
  have "is_connection_model_locked i (canonical_lock_model (sv_antigravity (fo_select env)) provider model) later t'"
    using assms(2,8) by (simp add: t' park_account_locked)
  then show ?thesis using assms(3,9-12) by (simp add: t'(2) admissible_def connection_model_blocked_def lock_holds_def Let_def)
qed

lemma parked_account_is_not_selected_witness:
  "\<not> admissible (fo_select demo_failover_env) demo_select_request (2 * second)
     (snd (combo_lock_retryable demo_failover_env False [] ''b'' ''p'' ''m'' \<lparr>ue_status = 503, ue_retry_after = [], ue_body = ''down''\<rparr> second
        demo_accounts)) (demo_conn ''b'')"
proof -
  let ?ue = "\<lparr>ue_status = 503, ue_retry_after = [], ue_body = ''down''\<rparr>"
  let ?r = "combo_lock_retryable demo_failover_env False [] ''b'' ''p'' ''m'' ?ue second demo_accounts"
  have "?r = (fst ?r, snd ?r)" by simp
  from parked_account_is_not_selected[OF _ _ _ _ _ _ this, of "2 * second" "demo_conn ''b''" demo_select_request]
  show ?thesis by (rule conjunct1) code_simp+
qed

text \<open>The key of a retired model can be read back: for a provider without a slash and a model, splitting the key gives
  both in lower case, the model with its own slashes, and the key built from a combo entry is the same key.\<close>
theorem deprecation_key_round_trip:
  assumes "CHR ''/'' \<notin> set provider" "provider \<noteq> []" "model \<noteq> []"
  shows "split_deprecation_key (deprecation_key provider model) = Some (to_lower provider, to_lower model) \<and>
    deprecation_key_for_entry (provider @ ''/'' @ model) = Some (deprecation_key provider model)"
proof -
  have "cut_byte CHR ''/'' (deprecation_key provider model) = Some (to_lower provider, to_lower model)"
    "cut_byte CHR ''/'' (provider @ ''/'' @ model) = Some (provider, model)"
    using assms(1) by (simp_all add: deprecation_key_def cut_byte_append)
  moreover have "to_lower provider \<noteq> []" "to_lower model \<noteq> []" using assms(2,3) by (simp_all add: to_lower_def)
  ultimately show ?thesis using assms by (simp add: split_deprecation_key_def deprecation_key_for_entry_def)
qed

lemma deprecation_key_round_trip_witness:
  "split_deprecation_key (deprecation_key ''OpenRouter'' ''Meta/Llama-3'') = Some (''openrouter'', ''meta/llama-3'')"
proof -
  have "to_lower ''OpenRouter'' = ''openrouter''" "to_lower ''Meta/Llama-3'' = ''meta/llama-3''" by code_simp+
  then show ?thesis using deprecation_key_round_trip[of "''OpenRouter''" "''Meta/Llama-3''"] by simp
qed

end
