(* ===== verification/AccountLoop.thy ===== *)
theory AccountLoop
  imports Failover
begin

text \<open>
  One request to one provider over its accounts: \<open>handleAccountFallback\<close> of
  \<open>internal/handlers/chat/fallback.go\<close>. The forwarding of a request over one account is a
  parameter that tells, for the number of the attempt and the account, what came of it and how
  long it took; whether a provider needs no account, its default key and the pool of a
  provider are parameters too.
\<close>

section \<open>Attempts\<close>

text \<open>The failures of an attempt: the limit of the provider itself, an answer of the upstream, anything else.\<close>

datatype send_failure = NodeLimit upstream_error | Upstream upstream_error | Broken string

datatype send_result = Sent | Failed send_failure

text \<open>An attempt as it is recorded, with the account table it was sent under.\<close>

record attempt =
  at_time :: instant
  at_took :: duration
  at_table :: "conn_row list"
  at_conn :: conn_row
  at_result :: send_result

record fallback_env =
  fb_failover :: failover_env
  fb_send :: "nat \<Rightarrow> conn_row \<Rightarrow> send_result \<times> duration"
  fb_default_key :: "conn_row \<Rightarrow> string"
  fb_keyless :: "string \<Rightarrow> string option"
  fb_encode :: "refusal_detail \<Rightarrow> string"

record fallback_request =
  fq_provider :: string
  fq_model :: string
  fq_pin :: string
  fq_session :: string
  fq_probe :: bool

record fallback_state =
  fs_select :: select_state
  fs_now :: instant
  fs_log :: "attempt list"

datatype fallback_error =
    Unhealthy
  | NoAccounts
  | NoneAvailable
  | NoKey string
  | NotSelected select_error
  | SendFailure send_failure

text \<open>The request a selection is asked with: pinned to the candidate, with the refused pools.\<close>

definition candidate_request :: "fallback_request \<Rightarrow> string \<Rightarrow> string list \<Rightarrow> select_request" where
  "candidate_request q pin pools =
     \<lparr>sq_provider = fq_provider q, sq_model = fq_model q, sq_pin = pin, sq_session = fq_session q, sq_probe = fq_probe q,
      sq_exclude = [], sq_excluded_pools = pools\<rparr>"

definition extract_account_key :: "conn_row \<Rightarrow> string" where
  "extract_account_key c = (if cn_api_key c \<noteq> [] then cn_api_key c else cn_access_token c)"

definition send_over :: "fallback_env \<Rightarrow> conn_row \<Rightarrow> fallback_state \<Rightarrow> send_result \<times> fallback_state" where
  "send_over env c s =
     (let (r, took) = fb_send env (length (fs_log s)) c
      in (r, s\<lparr>fs_now := fs_now s + took, fs_log := fs_log s @ [\<lparr>at_time = fs_now s, at_took = took, at_table = st_table (fs_select s), at_conn = c, at_result = r\<rparr>]\<rparr>))"

definition choose_account ::
  "fallback_env \<Rightarrow> fallback_request \<Rightarrow> string \<Rightarrow> string list \<Rightarrow> fallback_state \<Rightarrow> (select_error + conn_row) \<times> fallback_state" where
  "choose_account env q pin pools s =
     (let (r, sel) = get_best_connection (fo_select (fb_failover env)) (candidate_request q pin pools) (fs_now s) (fs_select s)
      in (r, s\<lparr>fs_select := sel\<rparr>))"

definition on_table :: "(conn_row list \<Rightarrow> conn_row list) \<Rightarrow> fallback_state \<Rightarrow> fallback_state" where
  "on_table f s = s\<lparr>fs_select := (fs_select s)\<lparr>st_table := f (st_table (fs_select s))\<rparr>\<rparr>"

definition on_affinity :: "(affinity_store \<Rightarrow> affinity_store) \<Rightarrow> fallback_state \<Rightarrow> fallback_state" where
  "on_affinity f s = s\<lparr>fs_select := (fs_select s)\<lparr>st_affinity := f (st_affinity (fs_select s))\<rparr>\<rparr>"

section \<open>After an attempt\<close>

definition session_sha :: "fallback_env \<Rightarrow> string \<Rightarrow> string" where
  "session_sha env = sv_sha (fo_select (fb_failover env))"

definition rotates_sessions :: "fallback_env \<Rightarrow> fallback_request \<Rightarrow> bool" where
  "rotates_sessions env q = is_affinity_eligible_strategy (ps_rotate (rotation_of (fo_select (fb_failover env)) (fq_provider q)))"

definition failure_upstream :: "send_failure \<Rightarrow> upstream_error option" where
  "failure_upstream f = (case f of NodeLimit ue \<Rightarrow> Some ue | Upstream ue \<Rightarrow> Some ue | Broken _ \<Rightarrow> None)"

text \<open>A refused credential or a spent quota ends the pin of the session.\<close>

definition evict_on_refusal :: "fallback_env \<Rightarrow> fallback_request \<Rightarrow> send_failure \<Rightarrow> fallback_state \<Rightarrow> fallback_state" where
  "evict_on_refusal env q f s =
     (case failure_upstream f of
        None \<Rightarrow> s
      | Some ue \<Rightarrow>
          (if ue_status ue \<in> {429, 401, 403} \<and> fq_session q \<noteq> []
           then on_affinity (affinity_evict (session_sha env) (fq_provider q) (fq_model q) (fq_session q)) s else s))"

text \<open>The cooldown of an account whose failure is retryable.\<close>

definition cool_down :: "fallback_env \<Rightarrow> fallback_request \<Rightarrow> string \<Rightarrow> upstream_error \<Rightarrow> fallback_state \<Rightarrow> fallback_state" where
  "cool_down env q i ue s =
     (let fo = fb_failover env;
          c = classify_failure fo (fq_provider q) i ue (st_table (fs_select s));
          s = on_table (park_account fo i (fq_provider q) (fq_model q) ue c (fs_now s)) s
      in if is_model_scoped_error (ue_status ue) (extract_error_text (fo_decoders fo) (ue_body ue)) (fq_model q) (ue_body ue)
         then s else on_affinity (affinity_evict_connection i) s)"

text \<open>What the loop does about a failure: stop, or go on with another account or another pool excluded.\<close>

datatype verdict = Stop | SkipAccount | SkipPool string

definition after_failure ::
  "fallback_env \<Rightarrow> fallback_request \<Rightarrow> conn_row \<Rightarrow> send_failure \<Rightarrow> fallback_state \<Rightarrow> verdict \<times> fallback_state" where
  "after_failure env q c f s =
     (case f of
        NodeLimit _ \<Rightarrow> (SkipAccount, s)
      | Broken _ \<Rightarrow> (Stop, s)
      | Upstream ue \<Rightarrow>
          (if is_model_deprecation (fo_parse (fb_failover env)) (ue_status ue) (ue_body ue)
           then (SkipAccount, on_table (record_model_deprecation (fb_failover env) (fq_probe q) (fq_provider q) (fq_model q)
                   (cn_id c) ue (fs_now s)) s)
           else if ue_status ue \<in> set retryable_status_codes
           then (if fq_probe q then (SkipAccount, s)
                 else if is_opencode_free_tier_refusal (fq_provider q) ue
                 then (if cn_pool c \<noteq> [] then (SkipPool (cn_pool c), s) else (SkipAccount, s))
                 else (SkipAccount, cool_down env q (cn_id c) ue s))
           else (Stop, s)))"

section \<open>The loop\<close>

definition closure_error :: "fallback_env \<Rightarrow> fallback_request \<Rightarrow> fallback_error \<Rightarrow> fallback_error" where
  "closure_error env q e =
     (let close = opencode_closure_error (fo_decoders (fb_failover env)) (fb_encode env) (fq_provider q)
      in case e of
           SendFailure (Upstream ue) \<Rightarrow> SendFailure (Upstream (close ue))
         | SendFailure (NodeLimit ue) \<Rightarrow>
             (if is_opencode_free_tier_refusal (fq_provider q) ue then SendFailure (Upstream (close ue)) else e)
         | _ \<Rightarrow> e)"

text \<open>One candidate: it is skipped, or one attempt is made over the account that its selection returns. The
  request ends (\<open>Inl\<close>), or goes on with the accounts and pools excluded so far and the last error.\<close>

definition account_turn ::
  "fallback_env \<Rightarrow> fallback_request \<Rightarrow> conn_row \<Rightarrow> string list \<Rightarrow> string list \<Rightarrow> fallback_error option \<Rightarrow> fallback_state \<Rightarrow>
   (fallback_error option + string list \<times> string list \<times> fallback_error option) \<times> fallback_state" where
  "account_turn env q c ex pools err s =
     (if cn_id c \<in> set ex then (Inr (ex, pools, err), s)
      else case choose_account env q (cn_id c) pools s of
             (Inl e, s) \<Rightarrow> (Inr (ex, pools, if err = None then Some (NotSelected e) else err), s)
           | (Inr conn, s) \<Rightarrow>
               (if extract_account_key conn = [] \<and> fb_default_key env conn = []
                then (Inr (ex, pools, if err = None then Some (NoKey (cn_id conn)) else err), s)
                else case send_over env conn s of
                       (Sent, s) \<Rightarrow>
                         (Inl None, if fq_session q \<noteq> [] \<and> rotates_sessions env q
                                then on_affinity (affinity_bind (session_sha env) (fq_provider q) (fq_model q) (fq_session q)
                                       (cn_id conn) (fs_now s)) s
                                else s)
                     | (Failed f, s) \<Rightarrow>
                         (case after_failure env q conn f (evict_on_refusal env q f s) of
                            (Stop, s) \<Rightarrow> (Inl (Some (SendFailure f)), s)
                          | (SkipAccount, s) \<Rightarrow> (Inr (ex @ [cn_id conn], pools, Some (SendFailure f)), s)
                          | (SkipPool p, s) \<Rightarrow> (Inr (ex, List.insert p pools, Some (SendFailure f)), s))))"

fun account_loop ::
  "fallback_env \<Rightarrow> fallback_request \<Rightarrow> conn_row list \<Rightarrow> string list \<Rightarrow> string list \<Rightarrow> fallback_error option \<Rightarrow> fallback_state \<Rightarrow>
   fallback_error option \<times> fallback_state" where
  "account_loop env q [] ex pools err s =
     (Some (case err of None \<Rightarrow> NoneAvailable | Some e \<Rightarrow> closure_error env q e), s)"
| "account_loop env q (c # cs) ex pools err s =
     (case account_turn env q c ex pools err s of
        (Inl r, s) \<Rightarrow> (r, s)
      | (Inr (ex, pools, err), s) \<Rightarrow> account_loop env q cs ex pools err s)"

section \<open>The order of the accounts\<close>

definition order_accounts :: "fallback_env \<Rightarrow> fallback_request \<Rightarrow> conn_row list \<Rightarrow> fallback_state \<Rightarrow> conn_row list \<times> fallback_state" where
  "order_accounts env q conns s =
     (let sel = fo_select (fb_failover env);
          strat = rotation_of sel (fq_provider q)
      in if length conns \<le> 1 \<or> ps_rotate strat = [] \<or> ps_rotate strat = ''none'' then (conns, s)
         else
           (let (bound, s) = (if fq_session q \<noteq> [] \<and> rotates_sessions env q
                  then (let (b, a) = affinity_get (sv_sha sel) (fq_provider q) (fq_model q) (fq_session q) (fs_now s)
                                       (st_affinity (fs_select s));
                            found = Option.bind b (\<lambda>i. List.find (\<lambda>k. cn_id (conns ! k) = i) [0..<length conns])
                        in (found, on_affinity (\<lambda>_. if b \<noteq> None \<and> found = None
                              then affinity_evict (sv_sha sel) (fq_provider q) (fq_model q) (fq_session q) a else a) s))
                  else (None, s))
            in case bound of
                 Some k \<Rightarrow> (move_front k conns, s)
               | None \<Rightarrow>
                   (let (conns, t) = apply_connection_strategy (sv_persisted sel) (sv_dice sel) (fs_now s)
                          (sticky_one (fq_session q) strat) conns (st_table (fs_select s))
                    in (conns, on_table (\<lambda>_. t) s))))"

section \<open>The whole request\<close>

text \<open>The key of an account of \<open>opencode-zen\<close>, which the provider without accounts of its own may use.\<close>

fun borrow_zen_key :: "fallback_env \<Rightarrow> fallback_request \<Rightarrow> conn_row list \<Rightarrow> fallback_state \<Rightarrow> conn_row option \<times> fallback_state" where
  "borrow_zen_key env q [] s = (None, s)"
| "borrow_zen_key env q (c # cs) s =
     (case choose_account env (q\<lparr>fq_provider := ''opencode-zen''\<rparr>) (cn_id c) [] s of
        (Inl _, s) \<Rightarrow> borrow_zen_key env q cs s
      | (Inr conn, s) \<Rightarrow>
          (if extract_account_key conn \<noteq> [] then (Some conn, s) else borrow_zen_key env q cs s))"

definition keyed_row :: "fallback_env \<Rightarrow> fallback_request \<Rightarrow> string \<Rightarrow> string \<Rightarrow> conn_row" where
  "keyed_row env q i key =
     (public_connection (fq_provider q))\<lparr>cn_id := i, cn_api_key := key, cn_access_token := [],
       cn_pool := sv_pool (fo_select (fb_failover env)) (fq_provider q) []\<rparr>"

definition send_once :: "fallback_env \<Rightarrow> conn_row \<Rightarrow> fallback_state \<Rightarrow> fallback_error option \<times> fallback_state" where
  "send_once env c s = (case send_over env c s of (Sent, s) \<Rightarrow> (None, s) | (Failed f, s) \<Rightarrow> (Some (SendFailure f), s))"

text \<open>A provider without accounts: a borrowed key, the key everybody may use, or none.\<close>

definition without_accounts :: "fallback_env \<Rightarrow> fallback_request \<Rightarrow> fallback_state \<Rightarrow> fallback_error option \<times> fallback_state" where
  "without_accounts env q s =
     (let (zen, s) = (if fq_provider q = ''opencode-go''
            then borrow_zen_key env q (get_provider_connections ''opencode-zen'' True (st_table (fs_select s))) s else (None, s))
      in case zen of
           Some c \<Rightarrow> send_once env (keyed_row env q (cn_id c) (extract_account_key c)) s
         | None \<Rightarrow>
             (case fb_keyless env (fq_provider q) of
                None \<Rightarrow> (Some NoAccounts, s)
              | Some key \<Rightarrow> (let (r, s) = send_once env (keyed_row env q ''default'' (if key = [] then ''public'' else key)) s
                             in (map_option (closure_error env q) r, s))))"

definition handle_account_fallback :: "fallback_env \<Rightarrow> fallback_request \<Rightarrow> fallback_state \<Rightarrow> fallback_error option \<times> fallback_state" where
  "handle_account_fallback env q s =
     (if fq_pin q \<noteq> []
      then (case choose_account env q (fq_pin q) [] s of
              (Inl e, s) \<Rightarrow> (Some (NotSelected e), s)
            | (Inr c, s) \<Rightarrow> send_once env c s)
      else if \<not> fq_probe q \<and> \<not> is_provider_available (fq_provider q) (fq_model q) (fs_now s) (st_table (fs_select s))
      then (Some Unhealthy, s)
      else let conns = get_provider_connections (fq_provider q) True (st_table (fs_select s))
        in if conns = [] then without_accounts env q s
           else (let (conns, s) = order_accounts env q conns s in account_loop env q conns [] [] None s))"

end
