(* ===== verification/AccountRun.thy ===== *)
theory AccountRun
  imports AccountLoop
begin

text \<open>
  What a request over the accounts of a provider guarantees (the definitions are in
  \<open>AccountLoop\<close>): the shape of the sequence of attempts, that each of them goes to an account
  that may take it, that a failed account is left alone for as long as its failure calls for, and
  that a healthy account is reached.
\<close>

section \<open>Selection leaves the table as it is, rotation stamps apart\<close>

lemma select_by_strategy_strip: "map strip (st_table (snd (select_by_strategy env q now conns s))) = map strip (st_table s)"
proof -
  let ?el = "is_affinity_eligible_strategy (ps_rotate (rotation_of env (sq_provider q)))"
  obtain b s1 where bs: "(if \<not> sq_probe q \<and> sq_session q \<noteq> [] \<and> ?el then affine_connection env q now conns s else (None, s)) = (b, s1)"
    by fastforce
  have tab: "st_table s1 = st_table s" using bs affine_table[of env q now conns s] by (auto split: if_splits)
  obtain order t where ot: "rotated env q now conns (st_table s) = (order, t)" by fastforce
  have t: "map strip t = map strip (st_table s)" using rotated_strip(2)[of env q now conns "st_table s"] ot by simp
  note ot' = ot[unfolded rotated_def Let_def]
  show ?thesis
  proof (cases b)
    case (Some c)
    then show ?thesis by (simp add: select_by_strategy_def Let_def bs tab)
  next
    case None
    obtain w cooling where walk: "walk_candidates env q now t order = (w, cooling)" by fastforce
    obtain c where c: "(case w of Some d \<Rightarrow> Some d | None \<Rightarrow> force_min_cooldown_connection env (sq_exclude q) (sq_model q) now cooling) = c"
      by simp
    have "map strip (st_table (snd (select_by_strategy env q now conns s))) =
       map strip (st_table (snd (case c of None \<Rightarrow> (Inl (case earliest_reset cooling of None \<Rightarrow> AllExcluded | Some u \<Rightarrow> AllInCooldown u), s1\<lparr>st_table := t\<rparr>)
         | Some c \<Rightarrow> (Inr c, (if \<not> sq_probe q \<and> sq_session q \<noteq> [] \<and> ?el
             then s1\<lparr>st_table := t\<rparr>\<lparr>st_affinity := affinity_bind (sv_sha env) (sq_provider q) (sq_model q) (sq_session q) (cn_id c) now
               (st_affinity (s1\<lparr>st_table := t\<rparr>))\<rparr> else s1\<lparr>st_table := t\<rparr>)))))"
      unfolding select_by_strategy_def Let_def bs by (simp only: None tab option.case prod.case ot' walk c)
    then show ?thesis using t by (cases c) simp_all
  qed
qed

lemma select_unpinned_strip: "map strip (st_table (snd (select_unpinned env q now s))) = map strip (st_table s)"
  by (simp add: select_unpinned_def Let_def select_by_strategy_strip split: option.split)

lemma select_connection_strip: "map strip (st_table (snd (select_connection env q now s))) = map strip (st_table s)"
  by (simp add: select_connection_def Let_def select_unpinned_strip split: option.split)

section \<open>One turn\<close>

abbreviation tab :: "fallback_state \<Rightarrow> conn_row list" where
  "tab s \<equiv> st_table (fs_select s)"

abbreviation sel :: "fallback_env \<Rightarrow> select_env" where
  "sel env \<equiv> fo_select (fb_failover env)"

text \<open>The row that was sent to, with the pool of the attempt, is an account that may take the request.\<close>

definition may_dial :: "fallback_env \<Rightarrow> fallback_request \<Rightarrow> instant \<Rightarrow> conn_row list \<Rightarrow> conn_row \<Rightarrow> bool" where
  "may_dial env q now t conn \<longleftrightarrow>
     (\<exists>r\<in>set t. strip (conn\<lparr>cn_pool := cn_pool r\<rparr>) = strip r \<and> cn_active r \<and>
       (cn_provider r = fq_provider q \<or>
        get_provider_connections (fq_provider q) True t = [] \<and> map_of credential_fallbacks (fq_provider q) = Some (cn_provider r)) \<and>
       (codex_account_serves_model (fq_model q) r \<or> fq_probe q) \<and>
       (fq_probe q \<or> \<not> connection_model_blocked (sel env) (fq_provider q) (fq_model q) now t r \<and>
          (in_cooldown now r \<longrightarrow> force_fallback_enabled (sel env))))"

lemma strip_pool [simp]: "cn_pool (strip r) = cn_pool r"
  by (simp add: strip_def)

text \<open>What neither selection nor a penalty changes: which accounts there are, of which provider, and which are active.\<close>

definition ident :: "conn_row \<Rightarrow> string \<times> string \<times> bool" where
  "ident r = (cn_id r, cn_provider r, cn_active r)"

lemma strip_ident: "map strip t = map strip t' \<Longrightarrow> map ident t = map ident t'"
proof -
  have "map ident t = map ident (map strip t)" for t by (simp add: ident_def)
  then show "map strip t = map strip t' \<Longrightarrow> map ident t = map ident t'" by metis
qed

lemma provider_rows_ident:
  assumes "map ident t = map ident t'"
  shows "get_provider_connections p a t = [] \<longleftrightarrow> get_provider_connections p a t' = []"
    "provider_rows p t = [] \<longleftrightarrow> provider_rows p t' = []" "find_row i t = None \<longleftrightarrow> find_row i t' = None"
proof -
  have "get_provider_connections p a t = [] \<longleftrightarrow> (\<forall>(i, pr, ac)\<in>ident ` set t. \<not> ((p = [] \<or> pr = p) \<and> (\<not> a \<or> ac)))" for p a t
    using set_sort_by[of row_before "filter (\<lambda>r. (p = [] \<or> cn_provider r = p) \<and> (\<not> a \<or> cn_active r)) t"]
    by (auto simp: get_provider_connections_def ident_def simp flip: set_empty)
  moreover have same: "ident ` set t = ident ` set t'" using arg_cong[OF assms, of set] by simp
  ultimately have "get_provider_connections p a t = [] \<longleftrightarrow> get_provider_connections p a t' = []" for p a by presburger
  then show "get_provider_connections p a t = [] \<longleftrightarrow> get_provider_connections p a t' = []"
    "provider_rows p t = [] \<longleftrightarrow> provider_rows p t' = []"
    by (simp_all add: provider_rows_def Let_def split: option.split)
  have "find_row i t = None \<longleftrightarrow> i \<notin> fst ` ident ` set t" for t
    by (auto simp: find_row_def find_None_iff image_image ident_def)
  then show "find_row i t = None \<longleftrightarrow> find_row i t' = None" using same by presburger
qed

lemma model_blocked_strip:
  assumes "map strip t = map strip t'" "strip c = strip c'"
  shows "connection_model_blocked env p m now t c = connection_model_blocked env p m now t' c'"
proof -
  have "cn_id c = cn_id c'" using arg_cong[OF assms(2), of cn_id] by simp
  moreover have "is_connection_model_locked i m now t = is_connection_model_locked i m now t'" for i m
    using model_locked_strip[of i m now t] model_locked_strip[of i m now t'] assms(1) by simp
  ultimately show ?thesis by (simp add: connection_model_blocked_def lock_holds_def)
qed

lemma choose_account_cases:
  assumes "choose_account env q pin pools s = (r, s')"
  shows "fs_log s' = fs_log s" "fs_now s' = fs_now s" "map strip (tab s') = map strip (tab s)"
proof -
  have "map strip (st_table (snd (get_best_connection e rq now st))) = map strip (st_table st)" for e rq now st
    using select_connection_strip[of e rq now st] by (auto simp: get_best_connection_def split: prod.split sum.split)
  then show "fs_log s' = fs_log s" "fs_now s' = fs_now s" "map strip (tab s') = map strip (tab s)"
    using assms by (auto simp: choose_account_def split: prod.splits) (metis snd_conv)
qed

lemma choose_account_may_dial:
  assumes "choose_account env q pin pools s = (Inr conn, s')" "fq_provider q \<noteq> []" "provider_rows (fq_provider q) (tab s) \<noteq> []"
  shows "may_dial env q (fs_now s) (tab s') conn"
proof -
  let ?q = "candidate_request q pin pools"
  obtain c where sel: "select_connection (sel env) ?q (fs_now s) (fs_select s) = (Inr c, fs_select s')"
    and conn: "conn = c\<lparr>cn_pool := apply_provider_proxy_pool (sel env) (fq_provider q) pools (cn_pool c)\<rparr>"
    using assms(1) by (auto simp: choose_account_def get_best_connection_def candidate_request_def split: prod.splits sum.splits)
  have t: "map strip (tab s') = map strip (tab s)" using choose_account_cases(3)[OF assms(1)] .
  have "may_serve (sel env) ?q (fs_now s) (tab s) c"
    using selected_may_serve[OF sel] assms(2) by (simp add: candidate_request_def)
  then obtain r where r: "r \<in> set (tab s)" "strip r = strip c" "cn_active r"
      "cn_provider r = fq_provider q \<or>
        get_provider_connections (fq_provider q) True (tab s) = [] \<and> map_of credential_fallbacks (fq_provider q) = Some (cn_provider r)"
      "codex_account_serves_model (fq_model q) c \<or> fq_probe q"
      "fq_probe q \<or> \<not> connection_model_blocked (sel env) (fq_provider q) (fq_model q) (fs_now s) (tab s) c \<and>
          (in_cooldown (fs_now s) c \<longrightarrow> force_fallback_enabled (sel env))"
    using assms(3) by (auto simp: may_serve_def candidate_request_def)
  obtain r' where r': "r' \<in> set (tab s')" "strip r' = strip r"
    using t r(1) by (metis (no_types, lifting) image_iff list.set_map)
  have same: "cn_active r' = cn_active r" "cn_provider r' = cn_provider r" "cn_models r' = cn_models c" "cn_provider r' = cn_provider c"
    using r'(2) r(2) by (metis strip_simps(3), metis strip_simps(2), metis strip_simps(9), metis strip_simps(2))
  have cool: "in_cooldown n r' = in_cooldown n c" for n using r'(2) r(2) by (metis in_cooldown_strip)
  have "cn_pool r' = cn_pool c" using r'(2) r(2) by (metis strip_pool)
  then have "strip (conn\<lparr>cn_pool := cn_pool r'\<rparr>) = strip r'" using r'(2) r(2) by (simp add: conn)
  moreover have "codex_account_serves_model (fq_model q) r' = codex_account_serves_model (fq_model q) c"
    by (simp add: codex_account_serves_model_def same(3,4))
  moreover have "connection_model_blocked (sel env) (fq_provider q) (fq_model q) (fs_now s) (tab s') r' =
      connection_model_blocked (sel env) (fq_provider q) (fq_model q) (fs_now s) (tab s) c"
    using r'(2) r(2) by (intro model_blocked_strip[OF t]) simp
  ultimately show ?thesis
    using r r'(1) same(1,2) cool provider_rows_ident(1)[OF strip_ident[OF t], of "fq_provider q" True] unfolding may_dial_def
    by (intro bexI[OF _ r'(1)]) simp_all
qed

text \<open>What a failure means: whether it ends the request, and whether its account has to rest.\<close>

definition ends_request :: "fallback_env \<Rightarrow> send_failure \<Rightarrow> bool" where
  "ends_request env f =
     (case f of
        NodeLimit _ \<Rightarrow> False
      | Broken _ \<Rightarrow> True
      | Upstream ue \<Rightarrow> \<not> is_model_deprecation (fo_parse (fb_failover env)) (ue_status ue) (ue_body ue) \<and>
          ue_status ue \<notin> set retryable_status_codes)"

definition calls_for_rest :: "fallback_env \<Rightarrow> fallback_request \<Rightarrow> upstream_error \<Rightarrow> bool" where
  "calls_for_rest env q ue \<longleftrightarrow>
     \<not> is_model_deprecation (fo_parse (fb_failover env)) (ue_status ue) (ue_body ue) \<and> ue_status ue \<in> set retryable_status_codes \<and>
     \<not> fq_probe q \<and> \<not> is_opencode_free_tier_refusal (fq_provider q) ue"

text \<open>The end of the rest of an account that failed at \<open>now\<close> under the table \<open>t\<close>.\<close>

definition rest_end :: "fallback_env \<Rightarrow> fallback_request \<Rightarrow> string \<Rightarrow> upstream_error \<Rightarrow> instant \<Rightarrow> conn_row list \<Rightarrow> instant" where
  "rest_end env q i ue now t =
     (let fo = fb_failover env
      in whole_seconds (now + failure_cooldown fo (fq_provider q) ue (classify_failure fo (fq_provider q) i ue t) now * second))"

definition penalty :: "fallback_env \<Rightarrow> fallback_request \<Rightarrow> string \<Rightarrow> send_failure \<Rightarrow> instant \<Rightarrow> conn_row list \<Rightarrow> conn_row list" where
  "penalty env q i f now t =
     (case f of
        Upstream ue \<Rightarrow>
          (let fo = fb_failover env
           in if is_model_deprecation (fo_parse fo) (ue_status ue) (ue_body ue)
              then record_model_deprecation fo (fq_probe q) (fq_provider q) (fq_model q) i ue now t
              else if calls_for_rest env q ue
              then park_account fo i (fq_provider q) (fq_model q) ue (classify_failure fo (fq_provider q) i ue t) now t
              else t)
      | _ \<Rightarrow> t)"

lemma on_simps [simp]:
  "fs_log (on_table g s) = fs_log s" "fs_now (on_table g s) = fs_now s" "tab (on_table g s) = g (tab s)"
  "fs_log (on_affinity h s) = fs_log s" "fs_now (on_affinity h s) = fs_now s" "tab (on_affinity h s) = tab s"
  by (simp_all add: on_table_def on_affinity_def)

lemma evict_on_refusal_simps [simp]:
  "fs_log (evict_on_refusal env q f s) = fs_log s" "fs_now (evict_on_refusal env q f s) = fs_now s"
  "tab (evict_on_refusal env q f s) = tab s"
  by (simp_all add: evict_on_refusal_def split: option.split)

lemma after_failure_effect:
  assumes "after_failure env q c f s = (v, s')"
  shows "fs_log s' = fs_log s" "fs_now s' = fs_now s" "tab s' = penalty env q (cn_id c) f (fs_now s) (tab s)"
    "v = Stop \<longleftrightarrow> ends_request env f"
  using assms
  by (auto simp: after_failure_def penalty_def ends_request_def calls_for_rest_def cool_down_def Let_def
      split: send_failure.splits if_splits)

definition tried :: "instant \<Rightarrow> duration \<Rightarrow> conn_row list \<Rightarrow> conn_row \<Rightarrow> send_result \<Rightarrow> attempt" where
  "tried now took t conn r = \<lparr>at_time = now, at_took = took, at_table = t, at_conn = conn, at_result = r\<rparr>"

lemma tried_simps [simp]:
  "at_time (tried now took t conn r) = now" "at_took (tried now took t conn r) = took" "at_table (tried now took t conn r) = t"
  "at_conn (tried now took t conn r) = conn" "at_result (tried now took t conn r) = r"
  by (simp_all add: tried_def)

lemma turn_cases:
  assumes "account_turn env q c ex pools err s = (r, s')"
  obtains (skipped) err' where "r = Inr (ex, pools, err')" "err' = err \<or> err = None"
      "fs_log s' = fs_log s" "fs_now s' = fs_now s" "map strip (tab s') = map strip (tab s)"
      "cn_id c \<notin> set ex \<longrightarrow> (\<exists>e s1. choose_account env q (cn_id c) pools s = (Inl e, s1)) \<or>
         (\<exists>conn s1. choose_account env q (cn_id c) pools s = (Inr conn, s1) \<and> extract_account_key conn = [])"
  | (served) conn took s1 where "r = Inl None" "cn_id c \<notin> set ex" "choose_account env q (cn_id c) pools s = (Inr conn, s1)"
      "fb_send env (length (fs_log s)) conn = (Sent, took)"
      "fs_log s' = fs_log s @ [tried (fs_now s) took (tab s1) conn Sent]" "fs_now s' = fs_now s + took" "tab s' = tab s1"
  | (stopped) conn took s1 f where "r = Inl (Some (SendFailure f))" "ends_request env f" "cn_id c \<notin> set ex"
      "choose_account env q (cn_id c) pools s = (Inr conn, s1)" "fb_send env (length (fs_log s)) conn = (Failed f, took)"
      "fs_log s' = fs_log s @ [tried (fs_now s) took (tab s1) conn (Failed f)]" "fs_now s' = fs_now s + took"
      "tab s' = penalty env q (cn_id conn) f (fs_now s + took) (tab s1)"
  | (failed) conn took s1 f ex' pools' where "r = Inr (ex', pools', Some (SendFailure f))" "\<not> ends_request env f" "cn_id c \<notin> set ex"
      "choose_account env q (cn_id c) pools s = (Inr conn, s1)" "fb_send env (length (fs_log s)) conn = (Failed f, took)"
      "fs_log s' = fs_log s @ [tried (fs_now s) took (tab s1) conn (Failed f)]" "fs_now s' = fs_now s + took"
      "tab s' = penalty env q (cn_id conn) f (fs_now s + took) (tab s1)" "set ex' \<subseteq> insert (cn_id conn) (set ex)"
proof (cases "cn_id c \<in> set ex")
  case True
  then show thesis using assms skipped[of err] by (simp add: account_turn_def)
next
  case ex: False
  obtain p s1 where ch: "choose_account env q (cn_id c) pools s = (p, s1)" by fastforce
  note eff = choose_account_cases[OF ch]
  show thesis
  proof (cases p)
    case (Inl e)
    then show thesis using assms ex ch eff skipped[of "if err = None then Some (NotSelected e) else err"]
      by (simp add: account_turn_def split: if_splits)
  next
    case (Inr conn)
    show thesis
    proof (cases "extract_account_key conn = [] \<and> fb_default_key env conn = []")
      case True
      then show thesis using assms ex ch eff Inr skipped[of "if err = None then Some (NoKey (cn_id conn)) else err"]
        by (simp add: account_turn_def split: if_splits)
    next
      case key: False
      obtain res took where send: "fb_send env (length (fs_log s)) conn = (res, took)" by fastforce
      have over: "send_over env conn s1 = (res, s1\<lparr>fs_now := fs_now s + took, fs_log := fs_log s @ [tried (fs_now s) took (tab s1) conn res]\<rparr>)"
        using eff by (simp add: send_over_def send tried_def)
      let ?s2 = "s1\<lparr>fs_now := fs_now s + took, fs_log := fs_log s @ [tried (fs_now s) took (tab s1) conn res]\<rparr>"
      show thesis
      proof (cases res)
        case Sent
        then show thesis using assms ex ch Inr key over send served[of conn s1 took]
          by (auto simp: account_turn_def split: if_splits)
      next
        case (Failed f)
        obtain v s3 where after: "after_failure env q conn f (evict_on_refusal env q f ?s2) = (v, s3)" by fastforce
        note ae = after_failure_effect[OF after, simplified]
        show thesis using assms ex ch Inr key over send Failed after ae stopped[of f conn s1 took] failed[of _ _ f conn s1 took]
          by (cases v) (auto simp: account_turn_def)
      qed
    qed
  qed
qed

section \<open>The whole loop\<close>

lemma loop_invariant:
  assumes "account_loop env q cs ex pools err s = (r, s')" "I s"
    and "\<And>c ex pools err s r s'. account_turn env q c ex pools err s = (r, s') \<Longrightarrow> I s \<Longrightarrow> I s'"
  shows "I s'"
  using assms(1,2) by (induction cs arbitrary: ex pools err s) (auto split: prod.splits sum.splits dest: assms(3))

lemma update_row_ident: "(\<And>r. ident (f r) = ident r) \<Longrightarrow> map ident (update_row i f t) = map ident t"
  by (simp add: update_row_def)

lemma lock_model_ident [simp]: "map ident (lock_model env i p m secs level now t) = map ident t"
  by (simp add: lock_model_def Let_def lock_connection_model_def update_row_ident ident_def)

lemma penalty_ident: "map ident (penalty env q i f now t) = map ident t"
  by (simp add: penalty_def Let_def record_model_deprecation_def park_account_def record_connection_scoped_error_def
      lock_connection_rate_limit_def update_row_ident split: send_failure.split) (simp add: ident_def update_row_ident)

lemma turn_ident:
  assumes "account_turn env q c ex pools err s = (r, s')" shows "map ident (tab s') = map ident (tab s)"
  using assms
proof (cases rule: turn_cases)
  case skipped then show ?thesis by (intro strip_ident)
next
  case (served conn took s1)
  then show ?thesis using strip_ident[OF choose_account_cases(3)[OF served(3)]] by simp
next
  case (stopped conn took s1 f)
  then show ?thesis using strip_ident[OF choose_account_cases(3)[OF stopped(4)]] by (simp add: penalty_ident)
next
  case (failed conn took s1 f ex' pools')
  then show ?thesis using strip_ident[OF choose_account_cases(3)[OF failed(4)]] by (simp add: penalty_ident)
qed

text \<open>Each attempt of a turn is recorded at its end, and goes to an account that may take the request.\<close>

lemma turn_log:
  assumes "account_turn env q c ex pools err s = (r, s')" "fq_provider q \<noteq> []" "provider_rows (fq_provider q) (tab s) \<noteq> []"
  obtains "fs_log s' = fs_log s" "fs_now s' = fs_now s" "map strip (tab s') = map strip (tab s)"
  | conn took t res where "fs_log s' = fs_log s @ [tried (fs_now s) took t conn res]" "fs_now s' = fs_now s + took"
      "map strip t = map strip (tab s)" "may_dial env q (fs_now s) t conn" "fb_send env (length (fs_log s)) conn = (res, took)"
      "tab s' = (case res of Sent \<Rightarrow> t | Failed f \<Rightarrow> penalty env q (cn_id conn) f (fs_now s + took) t)"
  using assms(1)
proof (cases rule: turn_cases)
  case skipped then show thesis using that(1) by blast
next
  case (served conn took s1)
  then show thesis using that(2)[of took "tab s1" conn Sent] choose_account_cases[OF served(3)] choose_account_may_dial[OF served(3) assms(2,3)]
    by simp
next
  case (stopped conn took s1 f)
  then show thesis using that(2)[of took "tab s1" conn "Failed f"] choose_account_cases[OF stopped(4)] choose_account_may_dial[OF stopped(4) assms(2,3)]
    by simp
next
  case (failed conn took s1 f ex' pools')
  then show thesis using that(2)[of took "tab s1" conn "Failed f"] choose_account_cases[OF failed(4)] choose_account_may_dial[OF failed(4) assms(2,3)]
    by simp
qed

lemma loop_may_dial:
  assumes "account_loop env q cs ex pools err s = (r, s')" "fq_provider q \<noteq> []" "provider_rows (fq_provider q) (tab s) \<noteq> []"
  shows "\<exists>new. fs_log s' = fs_log s @ new \<and> (\<forall>a\<in>set new. may_dial env q (at_time a) (at_table a) (at_conn a))"
proof -
  let ?I = "\<lambda>u. provider_rows (fq_provider q) (tab u) \<noteq> [] \<and>
    (\<exists>new. fs_log u = fs_log s @ new \<and> (\<forall>a\<in>set new. may_dial env q (at_time a) (at_table a) (at_conn a)))"
  have "?I s'"
  proof (rule loop_invariant[OF assms(1)])
    fix c ex pools err u r u'
    assume turn: "account_turn env q c ex pools err u = (r, u')" and I: "?I u"
    then have "provider_rows (fq_provider q) (tab u') \<noteq> []" using provider_rows_ident(2)[OF turn_ident[OF turn]] by simp
    moreover have "\<exists>new. fs_log u' = fs_log s @ new \<and> (\<forall>a\<in>set new. may_dial env q (at_time a) (at_table a) (at_conn a))"
      using turn assms(2) I[THEN conjunct1] by (rule turn_log) (use I in force)+
    ultimately show "?I u'" by blast
  qed (use assms(3) in auto)
  then show ?thesis by blast
qed

section \<open>Rest\<close>

definition lock_key :: "fallback_env \<Rightarrow> fallback_request \<Rightarrow> string" where
  "lock_key env q = canonical_lock_model (sv_antigravity (sel env)) (fq_provider q) (fq_model q)"

text \<open>The instant up to which the account of an attempt has to rest.\<close>

definition rests_to :: "fallback_env \<Rightarrow> fallback_request \<Rightarrow> attempt \<Rightarrow> instant option" where
  "rests_to env q a =
     (case at_result a of
        Failed (Upstream ue) \<Rightarrow>
          (if calls_for_rest env q ue
           then Some (rest_end env q (cn_id (at_conn a)) ue (at_time a + at_took a) (at_table a)) else None)
      | _ \<Rightarrow> None)"

definition rested :: "fallback_env \<Rightarrow> fallback_request \<Rightarrow> attempt \<Rightarrow> attempt \<Rightarrow> bool" where
  "rested env q a b \<longleftrightarrow> cn_id (at_conn a) = cn_id (at_conn b) \<longrightarrow> (case rests_to env q a of None \<Rightarrow> True | Some u \<Rightarrow> u \<le> at_time b)"

definition still_locked :: "fallback_env \<Rightarrow> fallback_request \<Rightarrow> instant \<Rightarrow> conn_row list \<Rightarrow> attempt \<Rightarrow> bool" where
  "still_locked env q now t a \<longleftrightarrow>
     (\<forall>u later. rests_to env q a = Some u \<longrightarrow> now \<le> later \<longrightarrow> later < u \<longrightarrow>
        is_connection_model_locked (cn_id (at_conn a)) (lock_key env q) later t)"

lemma may_dial_row:
  assumes "may_dial env q now t conn"
  obtains r where "r \<in> set t" "cn_id r = cn_id conn" "find_row (cn_id conn) t \<noteq> None"
    "fq_probe q \<or> \<not> connection_model_blocked (sel env) (fq_provider q) (fq_model q) now t r"
proof -
  obtain r where r: "r \<in> set t" "strip (conn\<lparr>cn_pool := cn_pool r\<rparr>) = strip r"
    "fq_probe q \<or> \<not> connection_model_blocked (sel env) (fq_provider q) (fq_model q) now t r"
    using assms unfolding may_dial_def by blast
  have "cn_id r = cn_id conn" using arg_cong[OF r(2), of cn_id] by simp
  then show thesis using r that by (auto simp: find_row_def find_None_iff)
qed

lemma penalty_locked_other:
  "j \<noteq> i \<Longrightarrow> is_connection_model_locked j m later (penalty env q i f now t) = is_connection_model_locked j m later t"
  by (auto simp: penalty_def Let_def record_model_deprecation_def park_account_locked lock_model_locked split: send_failure.split)

lemma penalty_locks:
  assumes "calls_for_rest env q ue" "find_row i t \<noteq> None" "later < rest_end env q i ue now t"
  shows "is_connection_model_locked i (lock_key env q) later (penalty env q i (Upstream ue) now t)"
  using assms by (simp add: penalty_def Let_def calls_for_rest_def park_account_locked lock_key_def rest_end_def)

lemma not_dialled_while_locked:
  assumes "may_dial env q now t conn" "\<not> fq_probe q" "fq_model q \<noteq> []"
  shows "\<not> is_connection_model_locked (cn_id conn) (lock_key env q) now t"
  using assms(1)
proof (rule may_dial_row)
  fix r
  assume "cn_id r = cn_id conn" "fq_probe q \<or> \<not> connection_model_blocked (sel env) (fq_provider q) (fq_model q) now t r"
  then show ?thesis using assms(2,3) by (simp add: connection_model_blocked_def lock_holds_def Let_def lock_key_def)
qed

lemma still_locked_strip:
  "map strip t = map strip t' \<Longrightarrow> now \<le> now' \<Longrightarrow> still_locked env q now t a \<Longrightarrow> still_locked env q now' t' a"
  using model_locked_strip[of _ _ _ t] model_locked_strip[of _ _ _ t'] unfolding still_locked_def by fastforce

lemma rests_to_not_probe: "rests_to env q a = Some u \<Longrightarrow> \<not> fq_probe q"
  by (auto simp: rests_to_def calls_for_rest_def split: send_result.splits send_failure.splits if_splits)

lemma attempt_keeps_rest:
  assumes "may_dial env q now t conn" "fq_model q \<noteq> []" "still_locked env q now t a" "0 \<le> took"
  shows "rested env q a (tried now took t conn res)"
    "still_locked env q (now + took) (case res of Sent \<Rightarrow> t | Failed f \<Rightarrow> penalty env q (cn_id conn) f (now + took) t) a"
proof -
  have over: "u \<le> now" if "cn_id (at_conn a) = cn_id conn" "rests_to env q a = Some u" for u
    using not_dialled_while_locked[OF assms(1) rests_to_not_probe[OF that(2)] assms(2)] assms(3) that
    by (force simp: still_locked_def)
  then show "rested env q a (tried now took t conn res)" by (auto simp: rested_def split: option.split)
  show "still_locked env q (now + took) (case res of Sent \<Rightarrow> t | Failed f \<Rightarrow> penalty env q (cn_id conn) f (now + took) t) a"
  proof (cases "cn_id (at_conn a) = cn_id conn")
    case True
    then show ?thesis using over assms(4) by (fastforce simp: still_locked_def)
  next
    case False
    then show ?thesis using assms(3,4) by (auto simp: still_locked_def penalty_locked_other split: send_result.split)
  qed
qed

lemma new_attempt_rests:
  assumes "may_dial env q now t conn"
  shows "still_locked env q (now + took) (case res of Sent \<Rightarrow> t | Failed f \<Rightarrow> penalty env q (cn_id conn) f (now + took) t)
    (tried now took t conn res)"
  using assms
proof (rule may_dial_row)
  fix r assume "find_row (cn_id conn) t \<noteq> None"
  then show ?thesis
    by (auto simp: still_locked_def rests_to_def penalty_locks split: send_result.splits send_failure.splits if_splits)
qed

lemma loop_rest:
  assumes "account_loop env q cs ex pools err s = (r, s')" "fq_provider q \<noteq> []" "provider_rows (fq_provider q) (tab s) \<noteq> []"
    and "fq_model q \<noteq> []" "\<forall>n c. 0 \<le> snd (fb_send env n c)"
  shows "\<exists>new. fs_log s' = fs_log s @ new \<and> sorted_wrt (rested env q) new"
proof -
  let ?N = "\<lambda>u. \<exists>new. fs_log u = fs_log s @ new \<and> sorted_wrt (rested env q) new \<and> (\<forall>a\<in>set new. still_locked env q (fs_now u) (tab u) a)"
  let ?I = "\<lambda>u. provider_rows (fq_provider q) (tab u) \<noteq> [] \<and> ?N u"
  have "?I s'"
  proof (rule loop_invariant[OF assms(1)])
    fix c ex pools err u r u'
    assume turn: "account_turn env q c ex pools err u = (r, u')" and I: "?I u"
    then have rows: "provider_rows (fq_provider q) (tab u') \<noteq> []" using provider_rows_ident(2)[OF turn_ident[OF turn]] by simp
    obtain new where new: "fs_log u = fs_log s @ new" "sorted_wrt (rested env q) new"
      "\<forall>a\<in>set new. still_locked env q (fs_now u) (tab u) a" using I by blast
    have "?N u'"
      using turn assms(2) I[THEN conjunct1]
    proof (rule turn_log)
      assume "fs_log u' = fs_log u" "fs_now u' = fs_now u" "map strip (tab u') = map strip (tab u)"
      then show ?thesis using new still_locked_strip[of "tab u" "tab u'", OF _ order_refl] by (intro exI[of _ new]) auto
    next
      fix conn took t res
      assume a: "fs_log u' = fs_log u @ [tried (fs_now u) took t conn res]" "fs_now u' = fs_now u + took"
        "map strip t = map strip (tab u)" "may_dial env q (fs_now u) t conn" "fb_send env (length (fs_log u)) conn = (res, took)"
        "tab u' = (case res of Sent \<Rightarrow> t | Failed f \<Rightarrow> penalty env q (cn_id conn) f (fs_now u + took) t)"
      have took: "0 \<le> took" using assms(5)[rule_format, of "length (fs_log u)" conn] a(5) by simp
      have old: "still_locked env q (fs_now u) t b" if "b \<in> set new" for b
        using still_locked_strip[OF a(3)[symmetric] order_refl] new(3) that by blast
      show ?thesis
        using a(1,2,6) new(1,2) attempt_keeps_rest[OF a(4) assms(4) old took] new_attempt_rests[OF a(4)]
        by (intro exI[of _ "new @ [tried (fs_now u) took t conn res]"]) (auto simp: sorted_wrt_append)
    qed
    then show "?I u'" using rows by blast
  qed (use assms(3) in auto)
  then show ?thesis by blast
qed

section \<open>The course of a request\<close>

lemma loop_shape:
  assumes "account_loop env q cs ex pools err s = (r, s')"
  shows "\<exists>new. fs_log s' = fs_log s @ new \<and> length new \<le> length cs \<and>
    (\<forall>a\<in>set (butlast new). \<exists>f. at_result a = Failed f \<and> \<not> ends_request env f) \<and>
    (r = None \<longleftrightarrow> new \<noteq> [] \<and> at_result (last new) = Sent) \<and>
    (\<forall>f. new \<noteq> [] \<and> at_result (last new) = Failed f \<longrightarrow>
       r = Some (if ends_request env f then SendFailure f else closure_error env q (SendFailure f))) \<and>
    (new = [] \<longrightarrow> err \<noteq> None \<longrightarrow> r = Some (closure_error env q (the err)))"
  using assms
proof (induction cs arbitrary: ex pools err s)
  case Nil
  then show ?case by (auto intro!: exI[of _ "[]"])
next
  case (Cons c cs)
  obtain tr s1 where turn: "account_turn env q c ex pools err s = (tr, s1)" by fastforce
  note run = Cons.prems[unfolded account_loop.simps turn]
  show ?case using turn
  proof (cases rule: turn_cases)
    case (skipped err')
    obtain new where "fs_log s' = fs_log s1 @ new \<and> length new \<le> length cs \<and>
      (\<forall>a\<in>set (butlast new). \<exists>f. at_result a = Failed f \<and> \<not> ends_request env f) \<and>
      (r = None \<longleftrightarrow> new \<noteq> [] \<and> at_result (last new) = Sent) \<and>
      (\<forall>f. new \<noteq> [] \<and> at_result (last new) = Failed f \<longrightarrow>
         r = Some (if ends_request env f then SendFailure f else closure_error env q (SendFailure f))) \<and>
      (new = [] \<longrightarrow> err' \<noteq> None \<longrightarrow> r = Some (closure_error env q (the err')))"
      using Cons.IH[of ex pools err' s1] run by (auto simp: skipped(1))
    then show ?thesis using skipped(2) unfolding skipped(3) by (intro exI[of _ new]) auto
  next
    case (served conn took s2)
    then show ?thesis using run by (intro exI[of _ "[tried (fs_now s) took (tab s2) conn Sent]"]) auto
  next
    case (stopped conn took s2 f)
    then show ?thesis using run by (intro exI[of _ "[tried (fs_now s) took (tab s2) conn (Failed f)]"]) auto
  next
    case (failed conn took s2 f ex' pools')
    let ?a = "tried (fs_now s) took (tab s2) conn (Failed f)"
    obtain new where "fs_log s' = fs_log s1 @ new \<and> length new \<le> length cs \<and>
      (\<forall>a\<in>set (butlast new). \<exists>f. at_result a = Failed f \<and> \<not> ends_request env f) \<and>
      (r = None \<longleftrightarrow> new \<noteq> [] \<and> at_result (last new) = Sent) \<and>
      (\<forall>f. new \<noteq> [] \<and> at_result (last new) = Failed f \<longrightarrow>
         r = Some (if ends_request env f then SendFailure f else closure_error env q (SendFailure f))) \<and>
      (new = [] \<longrightarrow> r = Some (closure_error env q (SendFailure f)))"
      using Cons.IH[of ex' pools' "Some (SendFailure f)" s1] run by (auto simp: failed(1))
    then show ?thesis using failed(2,6) by (cases "new = []") (intro exI[of _ "?a # new"]; auto)+
  qed
qed

section \<open>A healthy account is reached\<close>

definition healthy :: "fallback_env \<Rightarrow> fallback_request \<Rightarrow> string \<Rightarrow> instant \<Rightarrow> conn_row list \<Rightarrow> bool" where
  "healthy env q i now t \<longleftrightarrow>
     (case find_row i t of
        None \<Rightarrow> False
      | Some k \<Rightarrow> cn_provider k = fq_provider q \<and> extract_account_key k \<noteq> [] \<and>
          pinned_connection_ineligible (sel env) [] (fq_model q) now t k = None)"

lemma healthy_strip:
  assumes "map strip t = map strip t'" shows "healthy env q i now t = healthy env q i now t'"
proof -
  have k: "extract_account_key (strip k) = extract_account_key k" "cn_assigned (strip k) = cn_assigned k" for k
    by (simp_all add: extract_account_key_def strip_def)
  have lock: "lock_holds e p m now (map strip t) j = lock_holds e p m now t j" for e p m t j
    by (simp add: lock_holds_def Let_def model_locked_strip)
  have "pinned_connection_ineligible e x m now (map strip t) (strip k) = pinned_connection_ineligible e x m now t k" for e x m t k
    by (simp add: pinned_connection_ineligible_def lock codex_account_serves_model_def filter_connections_for_model_def k
        split: option.split)
  then have "healthy env q i now (map strip t) = healthy env q i now t" for t
    by (simp add: healthy_def find_row_strip k split: option.split)
  then show ?thesis using assms by metis
qed

lemma healthy_later:
  assumes "healthy env q i now t" "now \<le> later" shows "healthy env q i later t"
proof -
  have "is_connection_model_locked j m later t \<Longrightarrow> is_connection_model_locked j m now t" for j m
    using assms(2) by (auto simp: is_connection_model_locked_def model_locked_def split: option.splits)
  then have lock: "lock_holds e p m later t j \<Longrightarrow> lock_holds e p m now t j" for e p m j by (auto simp: lock_holds_def Let_def)
  have cool: "in_cooldown later k \<Longrightarrow> in_cooldown now k" for k
    using assms(2) by (auto simp: in_cooldown_def split: option.splits)
  show ?thesis using assms(1) lock cool by (auto simp: healthy_def pinned_connection_ineligible_def split: option.splits if_splits)
qed

lemma penalty_find_other:
  assumes "j \<noteq> i" shows "find_row j (penalty env q i f now t) = find_row j t"
  using assms by (auto simp: penalty_def Let_def record_model_deprecation_def park_account_def record_connection_scoped_error_def
      lock_connection_rate_limit_def lock_model_def find_lock_connection_model option.map_ident[unfolded id_def] split: send_failure.split)

lemma healthy_penalty: "j \<noteq> i \<Longrightarrow> healthy env q j now (penalty env q i f w t) = healthy env q j now t"
  by (auto simp: healthy_def penalty_find_other pinned_connection_ineligible_def lock_holds_def Let_def penalty_locked_other
      dest!: find_row_id split: option.split)

lemma healthy_is_chosen:
  assumes "healthy env q i (fs_now s) (tab s)" "i \<noteq> []"
  obtains conn s1 where "choose_account env q i pools s = (Inr conn, s1)" "cn_id conn = i" "extract_account_key conn \<noteq> []"
proof -
  obtain k where k: "find_row i (tab s) = Some k" "cn_provider k = fq_provider q" "extract_account_key k \<noteq> []"
    "pinned_connection_ineligible (sel env) [] (fq_model q) (fs_now s) (tab s) k = None"
    using assms(1) by (auto simp: healthy_def split: option.splits)
  have "cn_id k = i" using find_row_id[OF k(1)] by simp
  then have "choose_account env q i pools s =
      (Inr (k\<lparr>cn_pool := apply_provider_proxy_pool (sel env) (fq_provider q) pools (cn_pool k)\<rparr>), s)"
    using k assms(2) by (simp add: choose_account_def get_best_connection_def select_connection_def candidate_request_def)
  then show thesis using that k(3) \<open>cn_id k = i\<close> by (simp add: extract_account_key_def split: if_splits)
qed

lemma loop_reaches_healthy:
  assumes "account_loop env q cs ex pools err s = (r, s')" "i \<noteq> []" "i \<in> cn_id ` set cs" "i \<notin> set ex"
    and "healthy env q i (fs_now s) (tab s)"
    and "\<forall>n c. 0 \<le> snd (fb_send env n c)" "\<forall>n c. cn_id c = i \<longrightarrow> fst (fb_send env n c) = Sent"
    and "\<forall>n c f. fst (fb_send env n c) = Failed f \<longrightarrow> \<not> ends_request env f"
  shows "r = None"
  using assms(1,3-5)
proof (induction cs arbitrary: ex pools err s)
  case (Cons c cs)
  obtain tr s1 where turn: "account_turn env q c ex pools err s = (tr, s1)" by fastforce
  note run = Cons.prems(1)[unfolded account_loop.simps turn]
  have stay: "healthy env q i (fs_now s) (tab s2)" if "choose_account env q p ps s = (x, s2)" for p ps x s2
    using healthy_strip[OF choose_account_cases(3)[OF that], of env q i "fs_now s"] Cons.prems(4) by simp
  show ?case using turn
  proof (cases rule: turn_cases)
    case (skipped err')
    have "cn_id c \<noteq> i"
    proof
      assume i: "cn_id c = i"
      obtain conn s2 where "choose_account env q i pools s = (Inr conn, s2)" "extract_account_key conn \<noteq> []"
        by (rule healthy_is_chosen[OF Cons.prems(4) assms(2)])
      then show False using skipped(6) i Cons.prems(3) by auto
    qed
    moreover have "healthy env q i (fs_now s1) (tab s1)"
      using Cons.prems(4) by (simp add: skipped(4) healthy_strip[OF skipped(5)])
    ultimately show ?thesis using Cons.IH[of ex pools err' s1] run Cons.prems(2,3) by (auto simp: skipped(1))
  next
    case (served conn took s2)
    then show ?thesis using run by simp
  next
    case (stopped conn took s2 f)
    then show ?thesis using assms(8) by (metis fst_conv)
  next
    case (failed conn took s2 f ex' pools')
    have conn: "cn_id conn \<noteq> i" using failed(5) assms(7) by (metis fst_conv send_result.distinct(1))
    have "cn_id c \<noteq> i"
    proof
      assume "cn_id c = i"
      then show False using healthy_is_chosen[OF Cons.prems(4) assms(2), of pools] failed(4) conn by force
    qed
    moreover have "0 \<le> took" using assms(6) failed(5) by (metis snd_conv)
    then have "healthy env q i (fs_now s1) (tab s1)"
      using healthy_later[OF stay[OF failed(4)]] conn by (simp add: failed(7,8) healthy_penalty)
    moreover have "i \<notin> set ex'" using failed(9) conn Cons.prems(3) by auto
    ultimately show ?thesis using Cons.IH[of ex' pools' "Some (SendFailure f)" s1] run Cons.prems(2) by (auto simp: failed(1))
  qed
qed simp

section \<open>The request as a whole\<close>

lemma order_accounts_facts:
  assumes "order_accounts env q conns s = (cs, s')"
  shows "fs_log s' = fs_log s" "fs_now s' = fs_now s" "map strip (tab s') = map strip (tab s)"
    "image_mset strip (mset cs) = image_mset strip (mset conns)"
proof -
  have front: "mset (move_front k conns) = mset conns" if "List.find P [0..<length conns] = Some k" for P k
    using that by (intro mset_move_front) (auto simp: find_Some_iff)
  have strat: "map strip t = map strip t0" "image_mset strip (mset order) = image_mset strip (mset conns)"
    if "apply_connection_strategy p d n st conns t0 = (order, t)" for p d n st t0 order t
    using apply_strategy_strip[of p d n st conns t0] that by simp_all
  show "fs_log s' = fs_log s" "fs_now s' = fs_now s" "map strip (tab s') = map strip (tab s)"
    "image_mset strip (mset cs) = image_mset strip (mset conns)"
    using assms front strat
    by (auto simp: order_accounts_def Let_def bind_eq_Some_conv split: if_splits option.splits prod.splits)
qed

lemma handle_cases:
  assumes "handle_account_fallback env q s = (r, s')" "get_provider_connections (fq_provider q) True (tab s) \<noteq> []"
  obtains (pinned) "fq_pin q \<noteq> []" "fs_log s' = fs_log s" "r \<noteq> None"
  | (sent) conn s1 took res where "fq_pin q \<noteq> []" "choose_account env q (fq_pin q) [] s = (Inr conn, s1)"
      "fs_log s' = fs_log s @ [tried (fs_now s) took (tab s1) conn res]" "fb_send env (length (fs_log s)) conn = (res, took)"
      "r = (case res of Sent \<Rightarrow> None | Failed f \<Rightarrow> Some (SendFailure f))"
  | (unhealthy) "fq_pin q = []" "\<not> is_provider_available (fq_provider q) (fq_model q) (fs_now s) (tab s)" "r = Some Unhealthy" "s' = s"
  | (looped) cs s1 where "fq_pin q = []" "account_loop env q cs [] [] None s1 = (r, s')"
      "fs_log s1 = fs_log s" "fs_now s1 = fs_now s" "map strip (tab s1) = map strip (tab s)"
      "image_mset strip (mset cs) = image_mset strip (mset (get_provider_connections (fq_provider q) True (tab s)))"
proof (cases "fq_pin q = []")
  case True
  obtain cs s1 where o: "order_accounts env q (get_provider_connections (fq_provider q) True (tab s)) s = (cs, s1)" by fastforce
  show thesis
  proof (cases "\<not> fq_probe q \<and> \<not> is_provider_available (fq_provider q) (fq_model q) (fs_now s) (tab s)")
    case True
    then have "(Some Unhealthy, s) = (r, s')"
      using assms(1) \<open>fq_pin q = []\<close> unfolding handle_account_fallback_def by (simp only: if_True if_False simp_thms)
    then show thesis using True \<open>fq_pin q = []\<close> unhealthy by blast
  next
    case False
    have "account_loop env q cs [] [] None s1 = (r, s')"
      using assms True False o unfolding handle_account_fallback_def Let_def by (simp only: if_False simp_thms prod.case)
    then show thesis using looped True order_accounts_facts[OF o] by blast
  qed
next
  case False
  obtain x s1 where ch: "choose_account env q (fq_pin q) [] s = (x, s1)" by fastforce
  note eff = choose_account_cases[OF ch]
  show thesis
  proof (cases x)
    case (Inl e)
    then show thesis using assms(1) False ch eff pinned by (auto simp: handle_account_fallback_def)
  next
    case (Inr conn)
    obtain res took where send: "fb_send env (length (fs_log s)) conn = (res, took)" by fastforce
    show thesis using assms(1) False ch eff Inr send sent[of conn s1 took res]
      by (cases res) (auto simp: handle_account_fallback_def send_once_def send_over_def tried_def)
  qed
qed

lemma rows_nonempty: "get_provider_connections p True t \<noteq> [] \<Longrightarrow> provider_rows p t \<noteq> []"
  by (simp add: provider_rows_def)

section \<open>Runs\<close>

definition demo_fallback_env :: "(nat \<Rightarrow> conn_row \<Rightarrow> send_result \<times> duration) \<Rightarrow> fallback_env" where
  "demo_fallback_env send = \<lparr>fb_failover = demo_failover_env, fb_send = send, fb_default_key = (\<lambda>_. []), fb_keyless = (\<lambda>_. None),
     fb_encode = rf_message\<rparr>"

definition demo_down :: send_failure where
  "demo_down = Upstream \<lparr>ue_status = 503, ue_retry_after = [], ue_body = ''down''\<rparr>"

definition demo_request :: fallback_request where
  "demo_request = \<lparr>fq_provider = ''p'', fq_model = ''m'', fq_pin = [], fq_session = ''s'', fq_probe = False\<rparr>"

definition demo_start :: "conn_row list \<Rightarrow> fallback_state" where
  "demo_start t = \<lparr>fs_select = \<lparr>st_table = t, st_affinity = new_affinity_store 10 hour\<rparr>, fs_now = second, fs_log = []\<rparr>"

text \<open>Two free accounts and one in cooldown; the second takes an hour to fail.\<close>

definition demo_rows :: "conn_row list" where
  "demo_rows = [demo_conn ''b'', demo_conn ''a'', (demo_conn ''c'')\<lparr>cn_limited := Some (9 * hour)\<rparr>]"

definition slow_failures :: "nat \<Rightarrow> conn_row \<Rightarrow> send_result \<times> duration" where
  "slow_failures n c = (Failed demo_down, if cn_id c = ''b'' then second else hour)"

definition dialled :: "fallback_state \<Rightarrow> (instant \<times> string) list" where
  "dialled s = map (\<lambda>a. (at_time a, cn_id (at_conn a))) (fs_log s)"

definition demo_run :: "(nat \<Rightarrow> conn_row \<Rightarrow> send_result \<times> duration) \<Rightarrow> fallback_error option \<times> fallback_state" where
  "demo_run send = handle_account_fallback (demo_fallback_env send) demo_request (demo_start demo_rows)"

lemma demo_run_eq:
  "handle_account_fallback (demo_fallback_env send) demo_request (demo_start demo_rows) = (fst (demo_run send), snd (demo_run send))"
  by (simp add: demo_run_def)

lemma demo_hyps:
  "fq_provider demo_request \<noteq> []" "fq_pin demo_request = []" "fq_model demo_request \<noteq> []"
  "get_provider_connections (fq_provider demo_request) True (st_table (fs_select (demo_start demo_rows))) \<noteq> []"
  "fs_log (demo_start t) = []" "fb_send (demo_fallback_env send) = send"
  by (simp_all add: demo_request_def demo_start_def demo_fallback_env_def) code_simp

lemma slow_run: "dialled (snd (demo_run slow_failures)) = [(second, ''b''), (2 * second, ''a''), (hour + 2 * second, ''b'')]"
  by code_simp

lemma slow_took: "\<forall>n c. 0 \<le> snd (slow_failures n c)"
  by (simp add: slow_failures_def duration_defs)

text \<open>The account that an attempt excluded is asked again when a later candidate is in cooldown: the selection
  is told of no exclusions. Here the limit of the provider, which concerns no account in particular, is met
  twice over the same one.\<close>

lemma excluded_account_is_dialled_again:
  "dialled (snd (handle_account_fallback
      (demo_fallback_env (\<lambda>_ _. (Failed (NodeLimit \<lparr>ue_status = 403, ue_retry_after = [], ue_body = ''contract''\<rparr>), second)))
      demo_request (demo_start [demo_conn ''b'', (demo_conn ''c'')\<lparr>cn_limited := Some (9 * hour)\<rparr>]))) =
    [(second, ''b''), (2 * second, ''b'')]"
  by code_simp

text \<open>A refusal of the free tier excludes the pool of the attempt and goes on to the next candidate: the account itself
  is not retried through another pool, and the request of a single account ends.\<close>

lemma free_tier_refusal_is_not_retried:
  "let env = demo_fallback_env (\<lambda>n c. if cn_pool c = ''pool1''
       then (Failed (Upstream \<lparr>ue_status = 403, ue_retry_after = [], ue_body = ''FreeTierError''\<rparr>), second) else (Sent, second));
     r = handle_account_fallback env (demo_request\<lparr>fq_provider := ''opencode''\<rparr>)
       (demo_start [(demo_conn ''b'')\<lparr>cn_provider := ''opencode'', cn_pool := ''pool1''\<rparr>])
   in fst r \<noteq> None \<and> dialled (snd r) = [(second, ''b'')]"
  by code_simp

text \<open>A retired model is asked for on every account in turn.\<close>

lemma retired_model_is_asked_everywhere:
  "dialled (snd (demo_run (\<lambda>_ _. (Failed (Upstream \<lparr>ue_status = 410, ue_retry_after = [], ue_body = ''gone''\<rparr>), second)))) =
    [(second, ''b''), (2 * second, ''a'')]"
  by code_simp

section \<open>Properties\<close>



text \<open>C13: A failed account is left alone: when an attempt fails in a way that calls for rest, the same request
  does not contact that account again, under whatever name of the candidate and with whatever forced choice,
  before the rest that the failure calls for is over.\<close>
theorem failed_account_is_left_alone:
  assumes "handle_account_fallback env q s = (r, s')" "fq_provider q \<noteq> []" "fq_model q \<noteq> []"
    and "get_provider_connections (fq_provider q) True (st_table (fs_select s)) \<noteq> []"
    and "\<forall>n c. 0 \<le> snd (fb_send env n c)"
  shows "\<exists>new. fs_log s' = fs_log s @ new \<and>
    (\<forall>i j ue. i < j \<and> j < length new \<and> cn_id (at_conn (new ! i)) = cn_id (at_conn (new ! j)) \<and>
       at_result (new ! i) = Failed (Upstream ue) \<and> calls_for_rest env q ue \<longrightarrow>
       rest_end env q (cn_id (at_conn (new ! i))) ue (at_time (new ! i) + at_took (new ! i)) (at_table (new ! i)) \<le> at_time (new ! j))"
proof -
  have "\<exists>new. fs_log s' = fs_log s @ new \<and> sorted_wrt (rested env q) new"
    using assms(1,4)
  proof (cases rule: handle_cases)
    case (looped cs s1)
    have "provider_rows (fq_provider q) (tab s1) \<noteq> []"
      using rows_nonempty[OF assms(4)] provider_rows_ident(2)[OF strip_ident[OF looped(5)]] by simp
    from loop_rest[OF looped(2) assms(2) this assms(3,5)] show ?thesis by (simp add: looped(3))
  qed simp_all
  then obtain new where new: "fs_log s' = fs_log s @ new" "sorted_wrt (rested env q) new" by blast
  have "rest_end env q (cn_id (at_conn (new ! i))) ue (at_time (new ! i) + at_took (new ! i)) (at_table (new ! i)) \<le> at_time (new ! j)"
    if "i < j \<and> j < length new \<and> cn_id (at_conn (new ! i)) = cn_id (at_conn (new ! j)) \<and>
       at_result (new ! i) = Failed (Upstream ue) \<and> calls_for_rest env q ue" for i j ue
  proof -
    have "rested env q (new ! i) (new ! j)" using new(2) that by (simp add: sorted_wrt_iff_nth_less)
    then show ?thesis using that by (simp add: rested_def rests_to_def)
  qed
  then show ?thesis using new(1) by blast
qed

lemma failed_account_is_left_alone_witness:
  "let new = fs_log (snd (demo_run slow_failures)) in
     cn_id (at_conn (new ! 0)) = cn_id (at_conn (new ! 2)) \<and>
     rest_end (demo_fallback_env slow_failures) demo_request ''b'' \<lparr>ue_status = 503, ue_retry_after = [], ue_body = ''down''\<rparr>
       (at_time (new ! 0) + at_took (new ! 0)) (at_table (new ! 0)) \<le> at_time (new ! 2)"
proof -
  let ?env = "demo_fallback_env slow_failures" and ?new = "fs_log (snd (demo_run slow_failures))"
  have took: "\<forall>n c. 0 \<le> snd (fb_send ?env n c)" using slow_took by (simp add: demo_hyps)
  obtain new where new: "?new = fs_log (demo_start demo_rows) @ new"
    and rest: "\<forall>i j ue. i < j \<and> j < length new \<and> cn_id (at_conn (new ! i)) = cn_id (at_conn (new ! j)) \<and>
       at_result (new ! i) = Failed (Upstream ue) \<and> calls_for_rest ?env demo_request ue \<longrightarrow>
       rest_end ?env demo_request (cn_id (at_conn (new ! i))) ue (at_time (new ! i) + at_took (new ! i)) (at_table (new ! i)) \<le> at_time (new ! j)"
    using failed_account_is_left_alone[OF demo_run_eq demo_hyps(1,3,4) took] by blast
  have eq: "new = ?new" using new by (simp add: demo_hyps)
  have "map (\<lambda>a. cn_id (at_conn a)) ?new = [''b'', ''a'', ''b''] \<and> map at_result ?new = [Failed demo_down, Failed demo_down, Failed demo_down]"
    by code_simp
  then have ids: "cn_id (at_conn (?new ! 0)) = ''b''" "cn_id (at_conn (?new ! 2)) = ''b''" "2 < length ?new"
    "at_result (?new ! 0) = Failed demo_down"
    by (auto simp: map_eq_Cons_conv)
  have "calls_for_rest ?env demo_request \<lparr>ue_status = 503, ue_retry_after = [], ue_body = ''down''\<rparr>" by code_simp
  then show ?thesis using rest[unfolded eq, rule_format, of 0 2] ids by (simp add: Let_def demo_down_def)
qed





end
