(* ===== verification/Thinking.thy ===== *)
theory Thinking
  imports GoJson
begin

text \<open>
  The reasoning intent of a request and its many spellings: \<open>internal/thinking\<close> (files
  \<open>intent.go\<close>, \<open>levels.go\<close>, \<open>modes.go\<close>, \<open>suffix.go\<close>, \<open>clamp.go\<close>, \<open>claude.go\<close>). A body is a decoded JSON object; a
  number is exact, where Go has a 64-bit float that is exact below 2^53.
\<close>

section \<open>Levels and budgets\<close>

text \<open>The mode of an intent; \<open>ModeUnset\<close> is the empty string of an intent with a tier only.\<close>

datatype thinking_mode = ModeUnset | ModeNone | ModeAuto | ModeLevel | ModeBudget

record intent =
  in_mode :: thinking_mode
  in_level :: string
  in_budget :: int
  in_tier :: string
  in_display :: string

definition plain_intent :: "thinking_mode \<Rightarrow> intent" where
  "plain_intent m = \<lparr>in_mode = m, in_level = [], in_budget = 0, in_tier = [], in_display = []\<rparr>"

definition level_intent :: "string \<Rightarrow> intent" where
  "level_intent l = (plain_intent ModeLevel)\<lparr>in_level := l\<rparr>"

definition budget_intent :: "int \<Rightarrow> intent" where
  "budget_intent b = (plain_intent ModeBudget)\<lparr>in_budget := b\<rparr>"

definition effort_levels :: "string list" where
  "effort_levels = [''minimal'', ''low'', ''medium'', ''high'', ''xhigh'', ''max'']"

definition level_to_budget :: "(string \<times> int) list" where
  "level_to_budget = [(''none'', 0), (''minimal'', 512), (''low'', 1024), (''medium'', 8192), (''high'', 24576),
     (''xhigh'', 32768), (''max'', 128000)]"

definition effort_to_budget :: "string \<Rightarrow> int option" where
  "effort_to_budget level = (if level = [] then None else map_of level_to_budget (to_lower level))"

definition budget_for_level :: "string \<Rightarrow> int" where
  "budget_for_level level = (case effort_to_budget level of Some b \<Rightarrow> if b > 0 then b else 8192 | None \<Rightarrow> 8192)"

definition budget_to_level :: "int \<Rightarrow> string" where
  "budget_to_level b =
     (if b \<le> 0 then [] else if b \<le> 768 then ''minimal'' else if b \<le> 4096 then ''low'' else if b \<le> 16384 then ''medium''
      else if b \<le> 28672 then ''high'' else if b \<le> 80384 then ''xhigh'' else ''max'')"

definition budget_to_effort :: "int \<Rightarrow> string" where
  "budget_to_effort b = (if b \<le> 0 then [] else if b \<le> 2048 then ''low'' else if b \<le> 16384 then ''medium'' else ''high'')"

definition effort_to_thinking_level :: "string \<Rightarrow> string" where
  "effort_to_thinking_level effort =
     (let e = to_lower (trim_space effort)
      in if e \<in> {''none'', ''off''} then ''minimal''
         else if e \<in> {''xhigh'', ''max'', ''ultra''} then ''high''
         else if e \<in> {''minimal'', ''low'', ''medium'', ''high''} then e else ''high'')"

definition known_effort :: "string \<Rightarrow> bool" where
  "known_effort level \<longleftrightarrow> to_lower (trim_space level) \<in> set effort_levels"

text \<open>The place of a level in the order; \<open>None\<close> is Go's -1.\<close>

definition effort_rank :: "string \<Rightarrow> nat option" where
  "effort_rank level = List.find (\<lambda>i. effort_levels ! i = level) [0..<length effort_levels]"

definition normalize_openai_level :: "string \<Rightarrow> string list \<Rightarrow> string" where
  "normalize_openai_level level supported =
     (if level \<noteq> ''max'' \<and> level \<noteq> ''ultra''
      then (if known_effort level then to_lower (trim_space level) else ''medium'')
      else if level \<in> set supported then level
      else if level = ''ultra'' \<and> ''max'' \<in> set supported then ''max'' else ''xhigh'')"

definition to_level :: "intent option \<Rightarrow> string" where
  "to_level cfg =
     (case cfg of
        None \<Rightarrow> []
      | Some i \<Rightarrow>
          (case in_mode i of
             ModeLevel \<Rightarrow> in_level i
           | ModeBudget \<Rightarrow> (let l = budget_to_level (in_budget i) in if l \<noteq> [] then l else ''medium'')
           | ModeAuto \<Rightarrow> ''auto''
           | _ \<Rightarrow> []))"

record thinking_range =
  tr_min :: int
  tr_max :: int

definition clamp_range :: "thinking_range option \<Rightarrow> int \<Rightarrow> int" where
  "clamp_range rg b =
     (case rg of
        None \<Rightarrow> b
      | Some r \<Rightarrow>
          (let b = (if tr_min r > 0 \<and> b < tr_min r then tr_min r else b)
           in if tr_max r > 0 \<and> b > tr_max r then tr_max r else b))"

definition to_budget :: "intent option \<Rightarrow> thinking_range option \<Rightarrow> int option" where
  "to_budget cfg rg =
     (let fit = (\<lambda>b. Some (clamp_range rg (if b < 0 then 0 else b)))
      in case cfg of
           None \<Rightarrow> None
         | Some i \<Rightarrow>
             (case in_mode i of
                ModeBudget \<Rightarrow> fit (in_budget i)
              | ModeLevel \<Rightarrow> Option.bind (effort_to_budget (in_level i)) fit
              | ModeAuto \<Rightarrow> Some (- 1)
              | _ \<Rightarrow> None))"

definition to_gemini_thinking_level :: "intent option \<Rightarrow> string" where
  "to_gemini_thinking_level cfg =
     (let raw = (case cfg of
            None \<Rightarrow> ''high''
          | Some i \<Rightarrow> if in_mode i = ModeAuto \<or> to_level cfg = [] then ''high'' else to_level cfg)
      in effort_to_thinking_level raw)"

definition to_kimi_reasoning_effort :: "intent option \<Rightarrow> string" where
  "to_kimi_reasoning_effort cfg =
     (let level = to_level cfg
      in if level = ''auto'' then ''high'' else if level = ''minimal'' then ''low'' else if level = ''xhigh'' then ''max''
         else if level \<in> {''low'', ''medium'', ''high'', ''max''} then level else [])"

definition provider_thinking_modes :: "string list" where
  "provider_thinking_modes = [''auto'', ''on'', ''off'', ''none''] @ effort_levels"

definition normalize_provider_thinking_mode :: "string \<Rightarrow> string option" where
  "normalize_provider_thinking_mode mode =
     (let m = to_lower (trim_space mode) in if m \<noteq> [] \<and> m \<in> set provider_thinking_modes then Some m else None)"

section \<open>Reading the intent of a body\<close>

type_synonym body = "(string \<times> json) list"

definition max_token_count :: int where
  "max_token_count = 2 ^ 30"

definition number_field :: "json \<Rightarrow> int option" where
  "number_field v =
     (case v of
        JNum n \<Rightarrow> (if n \<le> of_int max_token_count then Some (if n < 0 then \<lceil>n\<rceil> else \<lfloor>n\<rfloor>) else None)
      | JStr s \<Rightarrow> (case atoi (trim_space s) of Some n \<Rightarrow> if n \<le> max_token_count then Some n else None | None \<Rightarrow> None)
      | _ \<Rightarrow> None)"

definition effort_string :: "string \<Rightarrow> intent" where
  "effort_string s =
     (let e = to_lower (trim_space s)
      in if e \<in> {''none'', ''off''} then plain_intent ModeNone
         else if e = ''auto'' then plain_intent ModeAuto else level_intent e)"

text \<open>The field \<open>k\<close> of the object under \<open>f\<close>, where there is one.\<close>

definition sub_object :: "body \<Rightarrow> string \<Rightarrow> body option" where
  "sub_object body f = as_object (obj_get body f)"

definition gemini_thinking_configs :: "body \<Rightarrow> body list" where
  "gemini_thinking_configs body =
     List.map_filter id
       [sub_object body ''thinkingConfig'',
        Option.bind (sub_object body ''generationConfig'') (\<lambda>gc. sub_object gc ''thinkingConfig''),
        Option.bind (Option.bind (sub_object body ''request'') (\<lambda>r. sub_object r ''generationConfig''))
          (\<lambda>gc. sub_object gc ''thinkingConfig'')]"

definition gemini_intent :: "body \<Rightarrow> intent option" where
  "gemini_intent tc =
     (if obj_string tc ''thinkingLevel'' \<noteq> [] then Some (level_intent (to_lower (trim_space (obj_string tc ''thinkingLevel''))))
      else case (if has_key tc ''thinkingBudget'' then number_field (obj_get tc ''thinkingBudget'') else None) of
             None \<Rightarrow> None
           | Some b \<Rightarrow> Some (if b = 0 then plain_intent ModeNone else if b < 0 then plain_intent ModeAuto else budget_intent b))"

text \<open>The first of some optional answers.\<close>

fun first_answer :: "'a option list \<Rightarrow> 'a option" where
  "first_answer [] = None"
| "first_answer (None # xs) = first_answer xs"
| "first_answer (Some x # xs) = Some x"

definition effort_of :: "body option \<Rightarrow> intent option" where
  "effort_of o' = (case o' of None \<Rightarrow> None | Some m \<Rightarrow> if obj_string m ''effort'' \<noteq> [] then Some (effort_string (obj_string m ''effort'')) else None)"

definition responses_intent :: "body \<Rightarrow> intent option" where
  "responses_intent body =
     first_answer [effort_of (sub_object body ''reasoning''),
       (case Option.bind (sub_object body ''reasoning'') (\<lambda>r. as_bool (obj_get r ''enabled'')) of
          None \<Rightarrow> None
        | Some en \<Rightarrow> Some (plain_intent (if en then ModeAuto else ModeNone)))]"

definition positive_budget :: "json \<Rightarrow> intent" where
  "positive_budget v = (case number_field v of Some b \<Rightarrow> if b > 0 then budget_intent b else plain_intent ModeAuto
     | None \<Rightarrow> plain_intent ModeAuto)"

definition claude_intent :: "body \<Rightarrow> intent option" where
  "claude_intent body =
     (case sub_object body ''thinking'' of
        None \<Rightarrow> None
      | Some t \<Rightarrow>
          (if obj_string t ''type'' = ''disabled'' then Some (plain_intent ModeNone)
           else if obj_string t ''type'' \<in> {''adaptive'', ''enabled''} then Some (positive_budget (obj_get t ''budget_tokens''))
           else None))"

definition qwen_intent :: "body \<Rightarrow> intent option" where
  "qwen_intent body =
     (case as_bool (obj_get body ''enable_thinking'') of
        None \<Rightarrow> None
      | Some en \<Rightarrow> Some (if en then positive_budget (obj_get body ''thinking_budget'') else plain_intent ModeNone))"

definition extract_thinking :: "body \<Rightarrow> intent option" where
  "extract_thinking body =
     first_answer ([effort_of (sub_object body ''output_config''),
       (if obj_string body ''reasoning_effort'' \<noteq> [] then Some (effort_string (obj_string body ''reasoning_effort'')) else None),
       responses_intent body, claude_intent body]
       @ map gemini_intent (gemini_thinking_configs body) @ [qwen_intent body])"

definition openai_thinking_display :: "body \<Rightarrow> string" where
  "openai_thinking_display body =
     (case sub_object body ''reasoning'' of
        Some r \<Rightarrow> (if obj_string r ''summary'' \<noteq> [] \<and> obj_string r ''summary'' \<noteq> ''none'' then ''summarized'' else [])
      | None \<Rightarrow> (if obj_string body ''reasoning_effort'' \<noteq> [] then ''summarized'' else []))"

definition capture_thinking :: "body \<Rightarrow> intent option" where
  "capture_thinking body =
     (case extract_thinking body of
        None \<Rightarrow> None
      | Some i \<Rightarrow> Some (if in_mode i \<noteq> ModeNone \<and> openai_thinking_display body \<noteq> []
                       then i\<lparr>in_display := openai_thinking_display body\<rparr> else i))"

section \<open>The suffix of a model name\<close>

definition contains_char :: "string \<Rightarrow> char \<Rightarrow> bool" where
  "contains_char s c \<longleftrightarrow> c \<in> set s"

text \<open>What one part of a suffix adds to the intent; \<open>None\<close> for a part that makes the whole intent unknown.\<close>

record suffix_state =
  sx_intent :: intent
  sx_tier :: bool
  sx_mode :: bool

definition set_mode :: "(intent \<Rightarrow> intent) \<Rightarrow> suffix_state \<Rightarrow> suffix_state option" where
  "set_mode f x = (if sx_mode x then None else Some (x\<lparr>sx_intent := f (sx_intent x), sx_mode := True\<rparr>))"

definition set_tier :: "string \<Rightarrow> suffix_state \<Rightarrow> suffix_state option" where
  "set_tier tier x = (if sx_tier x then None else Some (x\<lparr>sx_intent := (sx_intent x)\<lparr>in_tier := tier\<rparr>, sx_tier := True\<rparr>))"

definition suffix_part :: "string \<Rightarrow> suffix_state \<Rightarrow> suffix_state option" where
  "suffix_part p x =
     (let raw = to_lower (trim_space p)
      in if raw = [] then None
         else if raw \<in> {''fast'', ''priority''} then set_tier ''priority'' x
         else if raw \<in> {''standard'', ''default''} then set_tier ''default'' x
         else if raw \<in> {''none'', ''off''} then set_mode (\<lambda>i. i\<lparr>in_mode := ModeNone\<rparr>) x
         else if raw = ''auto'' then set_mode (\<lambda>i. i\<lparr>in_mode := ModeAuto\<rparr>) x
         else if raw = ''ultra'' then set_mode (\<lambda>i. i\<lparr>in_mode := ModeLevel, in_level := ''ultra''\<rparr>) x
         else if list_all is_digit raw
         then (case atoi raw of None \<Rightarrow> None | Some n \<Rightarrow> set_mode (\<lambda>i. i\<lparr>in_mode := ModeBudget, in_budget := n\<rparr>) x)
         else if map_of level_to_budget raw \<noteq> None then set_mode (\<lambda>i. i\<lparr>in_mode := ModeLevel, in_level := raw\<rparr>) x
         else None)"

fun suffix_parts :: "string list \<Rightarrow> suffix_state \<Rightarrow> intent option" where
  "suffix_parts [] x = (if sx_tier x \<or> sx_mode x then Some (sx_intent x) else None)"
| "suffix_parts (p # ps) x = (case suffix_part p x of None \<Rightarrow> None | Some x \<Rightarrow> suffix_parts ps x)"

definition trim_blanks :: "string \<Rightarrow> string" where
  "trim_blanks s = rev (dropWhile (\<lambda>c. c = CHR '' '' \<or> c = CHR 0x09) (rev s))"

definition parse_suffix :: "string \<Rightarrow> string \<times> intent option" where
  "parse_suffix model =
     (let trimmed = trim_blanks model
      in if \<not> has_suffix '')'' trimmed then (model, None)
         else case last_index_byte CHR ''('' trimmed of
                None \<Rightarrow> (model, None)
              | Some i \<Rightarrow>
                  (let inner = take (length trimmed - 1 - Suc i) (drop (Suc i) trimmed)
                   in if inner = [] \<or> contains_char inner CHR ''('' \<or> contains_char inner CHR '')'' then (model, None)
                      else (trim_space (take i trimmed),
                        suffix_parts (split_on CHR '','' inner) \<lparr>sx_intent = plain_intent ModeUnset, sx_tier = False, sx_mode = False\<rparr>)))"

definition strip_suffix :: "string \<Rightarrow> string" where
  "strip_suffix model = fst (parse_suffix model)"

section \<open>Removing every spelling\<close>

definition strip_keys :: "string list" where
  "strip_keys = [''thinking'', ''reasoning_effort'', ''reasoning'', ''thinkingConfig'', ''enable_thinking'', ''thinking_budget'',
     ''output_config'']"

definition delete_keys :: "string list \<Rightarrow> body \<Rightarrow> body" where
  "delete_keys ks body = filter (\<lambda>(k, v). k \<notin> set ks) body"

text \<open>The object under \<open>k\<close> is changed in place, where there is one.\<close>

definition in_object :: "string \<Rightarrow> (body \<Rightarrow> body) \<Rightarrow> body \<Rightarrow> body" where
  "in_object k f body = (case sub_object body k of None \<Rightarrow> body | Some m \<Rightarrow> AList.update k (JObj (f m)) body)"

definition strip_thinking :: "body \<Rightarrow> body" where
  "strip_thinking body =
     (let body = delete_keys strip_keys body;
          body = in_object ''generationConfig'' (delete_keys [''thinkingConfig'']) body;
          body = in_object ''request'' (in_object ''generationConfig'' (delete_keys [''thinkingConfig''])) body
      in in_object ''params'' (delete_keys [''reasoning_effort'', ''thinking'']) body)"

definition dialect_key_present :: "body \<Rightarrow> bool" where
  "dialect_key_present body \<longleftrightarrow>
     (let holds_key = (\<lambda>o' ks. case o' of None \<Rightarrow> False | Some m \<Rightarrow> \<exists>k\<in>set ks. has_key m k)
      in (\<exists>k\<in>set strip_keys. has_key body k) \<or>
         holds_key (sub_object body ''generationConfig'') [''thinkingConfig''] \<or>
         holds_key (Option.bind (sub_object body ''request'') (\<lambda>r. sub_object r ''generationConfig'')) [''thinkingConfig''] \<or>
         holds_key (sub_object body ''params'') [''reasoning_effort'', ''thinking''])"

definition is_last_message_from_user :: "body \<Rightarrow> bool" where
  "is_last_message_from_user body =
     (let msgs = (case as_array (obj_get body ''messages'') of Some ms \<Rightarrow> ms
            | None \<Rightarrow> (case as_array (obj_get body ''contents'') of Some ms \<Rightarrow> ms | None \<Rightarrow> []))
      in msgs = [] \<or> (case as_object (last msgs) of
           None \<Rightarrow> True | Some m \<Rightarrow> obj_string m ''role'' \<in> {''user'', ''tool'', ''function''}))"

definition normalize_thinking_config :: "body \<Rightarrow> body" where
  "normalize_thinking_config body = (if is_last_message_from_user body then body else delete_keys [''thinking''] body)"

section \<open>Disabling\<close>

definition is_disable_effort :: "string \<Rightarrow> bool" where
  "is_disable_effort v \<longleftrightarrow> to_lower (trim_space v) \<in> {''none'', ''off''}"

definition claude_min_thinking_budget :: int where
  "claude_min_thinking_budget = 1024"

definition clamp_effort :: "string \<Rightarrow> body \<Rightarrow> body" where
  "clamp_effort k m =
     (case as_string (obj_get m k) of Some v \<Rightarrow> (if is_disable_effort v then AList.update k (JStr ''minimal'') m else m) | None \<Rightarrow> m)"

definition clamp_enabled :: "body \<Rightarrow> body" where
  "clamp_enabled r =
     (if as_bool (obj_get r ''enabled'') = Some False then AList.update ''effort'' (JStr ''minimal'') (delete_keys [''enabled''] r) else r)"

definition clamp_claude_type :: "body \<Rightarrow> body" where
  "clamp_claude_type t =
     (if obj_string t ''type'' = ''disabled''
      then AList.update ''budget_tokens'' (JNum (of_int claude_min_thinking_budget)) (AList.update ''type'' (JStr ''enabled'') t) else t)"

definition clamp_disable_value :: "body \<Rightarrow> body" where
  "clamp_disable_value m =
     in_object ''thinking'' clamp_claude_type
       (in_object ''reasoning'' (clamp_enabled \<circ> clamp_effort ''effort'') (clamp_effort ''reasoning_effort'' m))"

text \<open>What the writers read of the capabilities of a model.\<close>

record thinking_caps =
  tc_reasoning :: bool
  tc_format :: string
  tc_can_disable :: bool
  tc_range :: "thinking_range option"
  tc_effort :: bool
  tc_max_output :: int

definition clamp_disable_to_minimal :: "thinking_caps \<Rightarrow> body \<Rightarrow> body" where
  "clamp_disable_to_minimal caps body = (if tc_can_disable caps then body else clamp_disable_value body)"

definition claude_budget_for_level :: "string \<Rightarrow> thinking_caps \<Rightarrow> int" where
  "claude_budget_for_level level caps =
     (let b = clamp_range (tc_range caps) (budget_for_level level)
      in if b < claude_min_thinking_budget then claude_min_thinking_budget else b)"

definition apply_claude_thinking_override :: "string \<Rightarrow> thinking_caps \<Rightarrow> body \<Rightarrow> body" where
  "apply_claude_thinking_override level caps body =
     (if has_key body ''thinking'' then body
      else if level \<in> {''none'', ''off''} then AList.update ''thinking'' (JObj [(''type'', JStr ''disabled'')]) body
      else if tc_format caps = ''claude-adaptive''
      then (let oc = (case sub_object body ''output_config'' of None \<Rightarrow> [] | Some m \<Rightarrow> m);
                oc = (if has_key oc ''effort'' then oc else AList.update ''effort'' (JStr level) oc)
            in AList.update ''output_config'' (JObj oc) (AList.update ''thinking'' (JObj [(''type'', JStr ''adaptive'')]) body))
      else AList.update ''thinking'' (JObj [(''type'', JStr ''enabled''),
             (''budget_tokens'', JNum (of_int (claude_budget_for_level level caps)))]) body)"

section \<open>Facts\<close>

lemma map_of_delete_keys: "map_of (delete_keys ks m) k = (if k \<in> set ks then None else map_of m k)"
  by (induction m) (auto simp: delete_keys_def)

lemma obj_get_delete [simp]: "obj_get (delete_keys ks m) k = (if k \<in> set ks then JNull else obj_get m k)"
  by (simp add: obj_get_def map_of_delete_keys)

lemma has_key_delete [simp]: "has_key (delete_keys ks m) k \<longleftrightarrow> k \<notin> set ks \<and> has_key m k"
  by (simp add: has_key_def map_of_delete_keys)

lemma has_key_update [simp]: "has_key (AList.update k v m) j \<longleftrightarrow> j = k \<or> has_key m j"
  by (simp add: has_key_def)

lemma sub_object_update [simp]: "sub_object (AList.update k v m) j = (if j = k then as_object v else sub_object m j)"
  by (simp add: sub_object_def)

lemma sub_object_delete [simp]: "sub_object (delete_keys ks m) j = (if j \<in> set ks then None else sub_object m j)"
  by (simp add: sub_object_def)

lemma obj_string_update [simp]:
  "obj_string (AList.update k v m) j = (if j = k then (case as_string v of None \<Rightarrow> [] | Some s \<Rightarrow> s) else obj_string m j)"
  by (simp add: obj_string_def)

lemma obj_string_delete [simp]: "obj_string (delete_keys ks m) j = (if j \<in> set ks then [] else obj_string m j)"
  by (simp add: obj_string_def)

lemma sub_object_in [simp]: "sub_object (in_object k f m) j = (if j = k then map_option f (sub_object m k) else sub_object m j)"
  by (simp add: in_object_def split: option.split)

lemma obj_get_in: "j \<noteq> k \<Longrightarrow> obj_get (in_object k f m) j = obj_get m j"
  by (simp add: in_object_def split: option.split)

lemma obj_string_in: "j \<noteq> k \<Longrightarrow> obj_string (in_object k f m) j = obj_string m j"
  by (simp add: obj_string_def obj_get_in)

lemma sub_object_key: "sub_object m k \<noteq> None \<Longrightarrow> has_key m k"
  by (auto simp: sub_object_def obj_get_def has_key_def split: option.splits)

lemma has_key_in [simp]: "has_key (in_object k f m) j = has_key m j"
  using sub_object_key[of m k] by (auto simp: in_object_def split: option.split)

lemma no_key_get [simp]: "\<not> has_key m k \<Longrightarrow> obj_get m k = JNull"
  by (simp add: has_key_def obj_get_def)

text \<open>The top-level fields are gone after the strip.\<close>

lemma strip_no_key: "k \<in> set strip_keys \<Longrightarrow> \<not> has_key (strip_thinking body) k"
  by (simp add: strip_thinking_def Let_def)

lemma strip_gets:
  assumes "k \<in> set strip_keys"
  shows "obj_get (strip_thinking body) k = JNull" "sub_object (strip_thinking body) k = None" "obj_string (strip_thinking body) k = []"
  using no_key_get[OF strip_no_key[OF assms]] by (simp_all add: sub_object_def obj_string_def)

lemma strip_keys_list: "strip_keys = [''thinking'', ''reasoning_effort'', ''reasoning'', ''thinkingConfig'', ''enable_thinking'', ''thinking_budget'',
     ''output_config'']" by (simp add: strip_keys_def)

lemma strip_nested:
  "Option.bind (sub_object (strip_thinking body) ''generationConfig'') (\<lambda>gc. sub_object gc ''thinkingConfig'') = None"
  "Option.bind (Option.bind (sub_object (strip_thinking body) ''request'') (\<lambda>r. sub_object r ''generationConfig''))
     (\<lambda>gc. sub_object gc ''thinkingConfig'') = None"
proof -
  show "Option.bind (sub_object (strip_thinking body) ''generationConfig'') (\<lambda>gc. sub_object gc ''thinkingConfig'') = None"
    by (cases "sub_object body ''generationConfig''") (simp_all add: strip_thinking_def Let_def strip_keys_def)
  show "Option.bind (Option.bind (sub_object (strip_thinking body) ''request'') (\<lambda>r. sub_object r ''generationConfig''))
     (\<lambda>gc. sub_object gc ''thinkingConfig'') = None"
  proof (cases "sub_object body ''request''")
    case (Some r)
    then show ?thesis
      by (cases "sub_object r ''generationConfig''") (simp_all add: strip_thinking_def Let_def strip_keys_def)
  qed (simp add: strip_thinking_def Let_def strip_keys_def)
qed

lemma stripped_configs: "gemini_thinking_configs (strip_thinking body) = []"
  using strip_nested[of body] strip_gets(2)[of "''thinkingConfig''" body]
  by (simp add: gemini_thinking_configs_def strip_keys_def List.map_filter_simps)

lemma effort_ranks [simp]:
  "effort_rank ''minimal'' = Some 0" "effort_rank ''low'' = Some 1" "effort_rank ''medium'' = Some 2"
  "effort_rank ''high'' = Some 3" "effort_rank ''xhigh'' = Some 4" "effort_rank ''max'' = Some 5"
  by code_simp+

text \<open>A disable is read from six spellings but only three are clamped, so on a model that must reason the others stay.\<close>

lemma clamp_misses_other_disables:
  "extract_thinking (clamp_disable_value [(''enable_thinking'', JBool False)]) = Some (plain_intent ModeNone)"
  "extract_thinking (clamp_disable_value [(''output_config'', JObj [(''effort'', JStr ''none'')])]) = Some (plain_intent ModeNone)"
  "extract_thinking (clamp_disable_value [(''thinkingConfig'', JObj [(''thinkingBudget'', JNum 0)])]) = Some (plain_intent ModeNone)"
  by code_simp+

section \<open>Properties\<close>

text \<open>Stripping leaves no reasoning field behind: whatever the body, afterwards none of the fields is present at the
  top level, in the generation configs or in the params, and no intent can be read from it.\<close>
theorem stripped_body_has_no_intent:
  "\<not> dialect_key_present (strip_thinking body) \<and> extract_thinking (strip_thinking body) = None"
proof
  have keys: "\<not> has_key (strip_thinking body) k" if "k \<in> set strip_keys" for k using strip_no_key[OF that] .
  have "case sub_object (strip_thinking body) ''generationConfig'' of None \<Rightarrow> True | Some m \<Rightarrow> \<not> has_key m ''thinkingConfig''"
    "case sub_object (strip_thinking body) ''params'' of None \<Rightarrow> True | Some m \<Rightarrow> \<not> has_key m ''reasoning_effort'' \<and> \<not> has_key m ''thinking''"
    by (auto simp: strip_thinking_def Let_def strip_keys_def split: option.split)
  moreover have "case Option.bind (sub_object (strip_thinking body) ''request'') (\<lambda>r. sub_object r ''generationConfig'') of
      None \<Rightarrow> True | Some m \<Rightarrow> \<not> has_key m ''thinkingConfig''"
    by (cases "sub_object body ''request''") (auto simp: strip_thinking_def Let_def strip_keys_def split: option.split)
  ultimately show "\<not> dialect_key_present (strip_thinking body)"
    unfolding dialect_key_present_def Let_def using keys by (auto split: option.splits)
  show "extract_thinking (strip_thinking body) = None"
    using strip_gets[of _ body] by (simp add: extract_thinking_def stripped_configs effort_of_def responses_intent_def
        claude_intent_def qwen_intent_def strip_keys_def)
qed

text \<open>Levels survive the way over budgets: the budget of a level reads back as that level, for every level, and a
  larger budget never reads back as a lower level.\<close>
theorem level_budget_round_trip:
  "list_all (\<lambda>l. budget_to_level (budget_for_level l) = l) effort_levels \<and>
   (if 0 < b \<and> b \<le> c then the (effort_rank (budget_to_level b)) \<le> the (effort_rank (budget_to_level c)) else True)"
proof
  show "list_all (\<lambda>l. budget_to_level (budget_for_level l) = l) effort_levels" by code_simp
  show "if 0 < b \<and> b \<le> c then the (effort_rank (budget_to_level b)) \<le> the (effort_rank (budget_to_level c)) else True"
    by (simp add: budget_to_level_def)
qed

end
