(* ===== verification/ThinkingWrite.thy ===== *)
theory ThinkingWrite
  imports Thinking
begin

text \<open>
  Writing one spelling of the reasoning intent: \<open>format.go\<close>, \<open>writers.go\<close>, \<open>writers_table.go\<close> and
  \<open>gemini.go\<close> of \<open>internal/thinking\<close>. The capability, level and format tables of the providers are
  parameters, as is the byte scan that skips bodies without any of the fields.
\<close>

section \<open>Levels a model advertises\<close>

definition known_level :: "string \<Rightarrow> string" where
  "known_level level = (if known_effort level then to_lower (trim_space level) else ''medium'')"

text \<open>The best level at most \<open>want\<close> and the lowest one, over the ranked levels; \<open>none\<close> does not count.\<close>

fun closest_levels :: "nat option \<Rightarrow> string list \<Rightarrow> (string \<times> nat) option \<Rightarrow> (string \<times> nat) option \<Rightarrow>
  (string \<times> nat) option \<times> (string \<times> nat) option" where
  "closest_levels want [] best lowest = (best, lowest)"
| "closest_levels want (s # ss) best lowest =
     (case (if s = ''none'' then None else effort_rank s) of
        None \<Rightarrow> closest_levels want ss best lowest
      | Some r \<Rightarrow>
          closest_levels want ss
            (if (case want of None \<Rightarrow> False | Some w \<Rightarrow> r \<le> w) \<and> (case best of None \<Rightarrow> True | Some (_, b) \<Rightarrow> r > b)
             then Some (s, r) else best)
            (if (case lowest of None \<Rightarrow> True | Some (_, l) \<Rightarrow> r < l) then Some (s, r) else lowest))"

definition level_for :: "string \<Rightarrow> string list \<Rightarrow> string" where
  "level_for level supported =
     (if level \<in> {''max'', ''ultra''} then normalize_openai_level level supported
      else if level = ''auto'' then level
      else let level = (if known_effort level then level else ''medium'') in
        if supported = [] \<or> level \<in> set supported then level
        else if level = ''minimal'' \<and> ''low'' \<in> set supported then ''low''
        else case closest_levels (effort_rank level) supported None None of
               (Some (best, _), _) \<Rightarrow> best
             | (None, Some (lowest, _)) \<Rightarrow> lowest
             | (None, None) \<Rightarrow> level)"

section \<open>Gemini\<close>

definition gemini_level_output_floor :: "string \<Rightarrow> int" where
  "gemini_level_output_floor level =
     (if level = ''minimal'' then 4096 else if level = ''low'' then 8192 else if level = ''medium'' then 16384 else 65535)"

definition gemini_budget_output_floor :: "int \<Rightarrow> int" where
  "gemini_budget_output_floor b =
     (if b = - 1 then 32768 else if b \<le> 1024 then 8192 else if b \<le> 8192 then 16384 else if b \<le> 24576 then 32768 else 65535)"

definition clamp_gemini_level :: "string \<Rightarrow> string list \<Rightarrow> string" where
  "clamp_gemini_level level supported =
     (if supported = [] \<or> level \<in> set supported then level
      else case List.find (\<lambda>l. l \<noteq> ''none'') supported of None \<Rightarrow> level | Some l \<Rightarrow> l)"

text \<open>The object to write and the least number of output tokens, where 0 leaves the client's own.\<close>

definition gemini_level_config :: "intent \<Rightarrow> string list \<Rightarrow> body \<times> int" where
  "gemini_level_config i supported =
     (let level = clamp_gemini_level (if in_mode i = ModeNone then ''minimal'' else to_gemini_thinking_level (Some i)) supported
      in ([(''thinkingLevel'', JStr level), (''includeThoughts'', JBool (level \<noteq> ''minimal''))], gemini_level_output_floor level))"

definition gemini_budget_config :: "intent \<Rightarrow> thinking_caps \<Rightarrow> body \<times> int" where
  "gemini_budget_config i caps =
     (if in_mode i = ModeNone \<and> tc_can_disable caps
      then ([(''thinkingBudget'', JNum 0), (''includeThoughts'', JBool False)], 0)
      else let b = (case to_budget (Some i) (tc_range caps) of None \<Rightarrow> - 1 | Some b \<Rightarrow> b)
        in ([(''thinkingBudget'', JNum (of_int b)), (''includeThoughts'', JBool True)], gemini_budget_output_floor b))"

text \<open>The generation config of the envelope, where there is one, or of the body; it is made when it is missing.\<close>

definition in_generation_config :: "(body \<Rightarrow> body) \<Rightarrow> body \<Rightarrow> body" where
  "in_generation_config f body =
     (let put = (\<lambda>m. AList.update ''generationConfig'' (JObj (f (case sub_object m ''generationConfig'' of None \<Rightarrow> [] | Some gc \<Rightarrow> gc))) m)
      in case sub_object body ''request'' of
           Some r \<Rightarrow> AList.update ''request'' (JObj (put r)) body
         | None \<Rightarrow> put body)"

definition set_gemini_thinking :: "body \<Rightarrow> body \<Rightarrow> body" where
  "set_gemini_thinking tc body = in_generation_config (AList.update ''thinkingConfig'' (JObj tc)) body"

definition ensure_gemini_output_floor :: "int \<Rightarrow> thinking_caps \<Rightarrow> body \<Rightarrow> body" where
  "ensure_gemini_output_floor floor_tokens caps body =
     (let limit = (if tc_max_output caps > 0 \<and> tc_max_output caps < floor_tokens then tc_max_output caps else floor_tokens)
      in in_generation_config (\<lambda>gc.
           case number_field (obj_get gc ''maxOutputTokens'') of
             Some cur \<Rightarrow> (if cur < limit then AList.update ''maxOutputTokens'' (JNum (of_int limit)) gc else gc)
           | None \<Rightarrow> AList.update ''maxOutputTokens'' (JNum (of_int limit)) gc) body)"

definition write_gemini :: "thinking_caps \<Rightarrow> body \<times> int \<Rightarrow> body \<Rightarrow> body" where
  "write_gemini caps config body =
     (let body = set_gemini_thinking (fst config) body
      in if snd config > 0 then ensure_gemini_output_floor (snd config) caps body else body)"

section \<open>The writers\<close>

record writer_ctx =
  wc_eff :: intent
  wc_off :: bool
  wc_supported :: "string list"
  wc_display :: string
  wc_caps :: thinking_caps

text \<open>\<open>off\<close>: the request disables reasoning and the model can.\<close>

definition put_effort :: "string \<Rightarrow> body \<Rightarrow> body" where
  "put_effort level = AList.update ''reasoning_effort'' (JStr level)"

definition put_thinking :: "body \<Rightarrow> body \<Rightarrow> body" where
  "put_thinking t = AList.update ''thinking'' (JObj t)"

definition with_display :: "string \<Rightarrow> body \<Rightarrow> body" where
  "with_display display t = (if display \<noteq> [] then t @ [(''display'', JStr display)] else t)"

abbreviation disabled_block :: body where
  "disabled_block \<equiv> [(''type'', JStr ''disabled'')]"

abbreviation enabled_block :: body where
  "enabled_block \<equiv> [(''type'', JStr ''enabled'')]"

definition wc_level :: "writer_ctx \<Rightarrow> string" where
  "wc_level c = to_level (Some (wc_eff c))"

definition write_openai :: "writer_ctx \<Rightarrow> body \<Rightarrow> body" where
  "write_openai c body =
     (if wc_off c then put_effort ''none'' body
      else if wc_level c \<noteq> [] then put_effort (level_for (wc_level c) (wc_supported c)) body else body)"

definition write_openai_responses :: "writer_ctx \<Rightarrow> body \<Rightarrow> body" where
  "write_openai_responses c body =
     (if wc_off c then delete_keys [''reasoning''] body
      else delete_keys [''reasoning_effort'']
        (if wc_level c \<noteq> []
         then (let cur = (case sub_object body ''reasoning'' of None \<Rightarrow> [] | Some r \<Rightarrow> r);
                   cur = AList.update ''effort'' (JStr (level_for (wc_level c) (wc_supported c))) cur;
                   cur = (if has_key cur ''summary'' then cur else AList.update ''summary'' (JStr ''auto'') cur)
               in AList.update ''reasoning'' (JObj cur) body)
         else body))"

definition write_claude_adaptive :: "writer_ctx \<Rightarrow> body \<Rightarrow> body" where
  "write_claude_adaptive c body =
     (if wc_off c then put_thinking disabled_block body
      else let body = (if tc_can_disable (wc_caps c) then put_thinking (with_display (wc_display c) [(''type'', JStr ''adaptive'')]) body
                       else delete_keys [''thinking''] body);
               effort = (if wc_level c = ''minimal'' then ''low'' else if wc_level c = ''auto'' then ''high''
                         else level_for (wc_level c) (wc_supported c))
        in AList.update ''output_config'' (JObj [(''effort'', JStr effort)]) body)"

text \<open>A budget that is missing or not positive becomes 8192; \<open>None\<close> is the budget of \<open>auto\<close>.\<close>

definition block_budget :: "writer_ctx \<Rightarrow> int option" where
  "block_budget c =
     (case to_budget (Some (wc_eff c)) (tc_range (wc_caps c)) of
        None \<Rightarrow> Some 8192
      | Some b \<Rightarrow> if b = - 1 then None else Some (if b \<le> 0 then 8192 else b))"

definition write_claude_budget :: "writer_ctx \<Rightarrow> body \<Rightarrow> body" where
  "write_claude_budget c body =
     (if wc_off c then put_thinking disabled_block body
      else put_thinking (with_display (wc_display c) (case block_budget c of
             None \<Rightarrow> enabled_block
           | Some b \<Rightarrow> enabled_block @ [(''budget_tokens'', JNum (of_int (max b claude_min_thinking_budget)))])) body)"

definition write_zai :: "writer_ctx \<Rightarrow> body \<Rightarrow> body" where
  "write_zai c body =
     (if wc_off c then delete_keys [''thinking''] (AList.update ''enable_thinking'' (JBool False) body)
      else let body = put_thinking enabled_block body
        in if \<not> tc_effort (wc_caps c) then body
           else put_effort (if wc_level c \<in> {''low'', ''minimal''} then ''low''
                            else if wc_level c \<in> {''high'', ''medium''} then ''high'' else ''max'') body)"

definition write_qwen :: "writer_ctx \<Rightarrow> body \<Rightarrow> body" where
  "write_qwen c body =
     (if wc_off c then AList.update ''enable_thinking'' (JBool False) body
      else let body = AList.update ''enable_thinking'' (JBool True) body
        in case to_budget (Some (wc_eff c)) (tc_range (wc_caps c)) of
             Some b \<Rightarrow> (if b > 0 then AList.update ''thinking_budget'' (JNum (of_int b)) body else body)
           | None \<Rightarrow> body)"

definition write_deepseek :: "writer_ctx \<Rightarrow> body \<Rightarrow> body" where
  "write_deepseek c body =
     (if wc_off c then put_thinking disabled_block body
      else let want = (if wc_level c \<in> {''xhigh'', ''max''} then ''max'' else ''high'');
               want = (if want = ''max'' \<and> wc_supported c \<noteq> [] \<and> ''max'' \<notin> set (wc_supported c) then ''high'' else want)
        in put_effort want (put_thinking enabled_block body))"

definition write_kimi :: "writer_ctx \<Rightarrow> body \<Rightarrow> body" where
  "write_kimi c body =
     (if wc_off c then put_thinking disabled_block body
      else let e = to_kimi_reasoning_effort (Some (wc_eff c)) in if e \<noteq> [] then put_effort e body else body)"

definition write_minimax :: "writer_ctx \<Rightarrow> body \<Rightarrow> body" where
  "write_minimax c body = put_thinking [(''type'', JStr (if wc_off c then ''disabled'' else ''adaptive''))] body"

definition write_hunyuan :: "writer_ctx \<Rightarrow> body \<Rightarrow> body" where
  "write_hunyuan c body =
     (if wc_off c then put_thinking disabled_block body
      else put_thinking (case block_budget c of
             None \<Rightarrow> enabled_block
           | Some b \<Rightarrow> enabled_block @ [(''budget_tokens'', JNum (of_int b))]) body)"

definition write_step :: "writer_ctx \<Rightarrow> body \<Rightarrow> body" where
  "write_step c body =
     (if wc_off c \<or> wc_level c = [] then body
      else let l = level_for (wc_level c) (wc_supported c) in put_effort (if l \<in> {''xhigh'', ''max''} then ''high'' else l) body)"

definition write_tokenrouter :: "writer_ctx \<Rightarrow> body \<Rightarrow> body" where
  "write_tokenrouter c body =
     (if wc_off c \<or> in_mode (wc_eff c) = ModeAuto \<or> wc_level c = [] then body
      else let l = known_level (wc_level c) in put_effort (if l = ''minimal'' then ''low'' else l) body)"

definition write_commandcode :: "writer_ctx \<Rightarrow> body \<Rightarrow> body" where
  "write_commandcode c body =
     (let level = level_for (wc_level c) (wc_supported c)
      in case sub_object body ''params'' of
           Some _ \<Rightarrow> in_object ''params'' (\<lambda>p. if wc_off c then delete_keys [''reasoning_effort''] p
             else if wc_level c \<noteq> [] then put_effort level p else p) body
         | None \<Rightarrow> (if wc_off c \<or> wc_level c = [] then body else put_effort level body))"

definition format_writers :: "string \<Rightarrow> (writer_ctx \<Rightarrow> body \<Rightarrow> body) option" where
  "format_writers = map_of
     [(''openai'', write_openai), (''openai-responses'', write_openai_responses), (''claude-adaptive'', write_claude_adaptive),
      (''claude-budget'', write_claude_budget),
      (''gemini-level'', \<lambda>c. write_gemini (wc_caps c) (gemini_level_config (wc_eff c) (wc_supported c))),
      (''gemini-budget'', \<lambda>c. write_gemini (wc_caps c) (gemini_budget_config (wc_eff c) (wc_caps c))),
      (''zai'', write_zai), (''qwen'', write_qwen), (''deepseek'', write_deepseek), (''kimi'', write_kimi),
      (''minimax'', write_minimax), (''hunyuan'', write_hunyuan), (''step'', write_step), (''tokenrouter'', write_tokenrouter),
      (''kiro'', \<lambda>_ body. body), (''commandcode'', write_commandcode)]"

definition apply_format ::
  "string \<Rightarrow> intent \<Rightarrow> thinking_caps \<Rightarrow> string list \<Rightarrow> string \<Rightarrow> body \<Rightarrow> body" where
  "apply_format fmt cfg caps supported display body =
     (let off = (in_mode cfg = ModeNone);
          eff = (if off \<and> \<not> tc_can_disable caps then level_intent ''minimal'' else cfg)
      in case format_writers fmt of
           None \<Rightarrow> body
         | Some w \<Rightarrow> w \<lparr>wc_eff = eff, wc_off = (off \<and> tc_can_disable caps), wc_supported = supported, wc_display = display, wc_caps = caps\<rparr> body)"

section \<open>The pass\<close>

text \<open>On a model that cannot reason the fields are removed by the second operand of an \<open>||\<close> whose first one says
  that the model name was rewritten, so they stay when it was.\<close>

definition format_to_native :: "(string \<times> string) list" where
  "format_to_native = [(''openai'', ''openai''), (''openai-responses'', ''openai''), (''openai-response'', ''openai''), (''codex'', ''openai''),
     (''claude'', ''claude-budget''), (''gemini'', ''gemini-budget''), (''gemini-cli'', ''gemini-budget''), (''vertex'', ''gemini-budget''),
     (''antigravity'', ''gemini-budget''), (''kiro'', ''kiro''), (''commandcode'', ''commandcode'')]"

definition native_only_formats :: "string list" where
  "native_only_formats = [''gemini-level'', ''gemini-budget'', ''claude-budget'', ''claude-adaptive'', ''kiro'']"

text \<open>\<open>registry\<close> is the format the provider is registered with, empty for none.\<close>

definition resolve_format :: "string \<Rightarrow> string \<Rightarrow> thinking_caps \<Rightarrow> string" where
  "resolve_format tgt registry caps =
     (if tgt = ''commandcode'' then ''commandcode''
      else if tgt = ''openai-responses'' \<and> tc_format caps \<notin> set native_only_formats then ''openai-responses''
      else if registry \<noteq> [] then registry
      else if tc_format caps \<noteq> [] \<and> (tgt \<notin> {''openai'', ''openai-responses''} \<or> tc_format caps \<notin> set native_only_formats)
      then tc_format caps
      else (case map_of format_to_native tgt of Some f \<Rightarrow> f | None \<Rightarrow> ''openai''))"

definition has_writer :: "string \<Rightarrow> bool" where
  "has_writer fmt \<longleftrightarrow> fmt \<in> {''openai'', ''openai-responses'', ''claude-adaptive'', ''claude-budget'', ''gemini-level'', ''gemini-budget'',
     ''zai'', ''qwen'', ''kimi'', ''deepseek'', ''minimax'', ''hunyuan'', ''step'', ''tokenrouter'', ''kiro'', ''commandcode''}"

record thinking_tables =
  tt_caps :: "string \<Rightarrow> string \<Rightarrow> thinking_caps"
  tt_levels :: "string \<Rightarrow> string \<Rightarrow> string list"
  tt_registry :: "string \<Rightarrow> string"

definition strip_model_field :: "body \<Rightarrow> body" where
  "strip_model_field body =
     (let m = obj_string body ''model''
      in if m \<noteq> [] \<and> strip_suffix m \<noteq> m then AList.update ''model'' (JStr (strip_suffix m)) body else body)"

definition apply_thinking ::
  "thinking_tables \<Rightarrow> string \<Rightarrow> string \<Rightarrow> string \<Rightarrow> intent option \<Rightarrow> body \<Rightarrow> body" where
  "apply_thinking tables tgt provider model override body =
     (if body = [] then body
      else let (clean, suffix) = parse_suffix model;
               renamed = (strip_model_field body \<noteq> body);
               body = strip_model_field body;
               caps = tt_caps tables provider clean
        in if \<not> tc_reasoning caps then (if renamed then body else strip_thinking body)
           else case first_answer [override, suffix, extract_thinking body] of
                  None \<Rightarrow> body
                | Some cfg \<Rightarrow>
                    (let fmt = resolve_format tgt (tt_registry tables provider) caps
                     in if \<not> has_writer fmt then body
                        else let own = (case sub_object body ''thinking'' of None \<Rightarrow> [] | Some t \<Rightarrow> obj_string t ''display'');
                                 display = (if own = [] then (case override of None \<Rightarrow> [] | Some i \<Rightarrow> in_display i) else own)
                          in apply_format fmt cfg caps (tt_levels tables provider clean) display (strip_thinking body)))"

section \<open>The level that is written\<close>

abbreviation ranked :: "string \<Rightarrow> bool" where
  "ranked s \<equiv> s \<in> set effort_levels"

abbreviation rank :: "string \<Rightarrow> nat" where
  "rank s \<equiv> the (effort_rank s)"

lemma ranked_iff: "ranked s \<longleftrightarrow> effort_rank s \<noteq> None"
  by (auto simp: effort_rank_def find_None_iff in_set_conv_nth)

lemma rank_some: "effort_rank s = Some r \<Longrightarrow> ranked s"
  using ranked_iff[of s] by simp

lemma rank_of: "ranked s \<Longrightarrow> effort_rank s = Some (rank s)"
  by (simp add: ranked_iff)

lemma none_unranked [simp]: "effort_rank ''none'' = None"
  by code_simp

lemma rank_unless_none [simp]: "(if s = ''none'' then None else effort_rank s) = effort_rank s"
  by simp

definition best_step :: "nat \<Rightarrow> string \<Rightarrow> (string \<times> nat) option \<Rightarrow> (string \<times> nat) option" where
  "best_step w s best =
     (case effort_rank s of
        None \<Rightarrow> best
      | Some r \<Rightarrow> if r \<le> w \<and> (case best of None \<Rightarrow> True | Some (_, b) \<Rightarrow> r > b) then Some (s, r) else best)"

definition low_step :: "string \<Rightarrow> (string \<times> nat) option \<Rightarrow> (string \<times> nat) option" where
  "low_step s low =
     (case effort_rank s of
        None \<Rightarrow> low
      | Some r \<Rightarrow> if (case low of None \<Rightarrow> True | Some (_, l) \<Rightarrow> r < l) then Some (s, r) else low)"

lemma closest_fold: "closest_levels (Some w) ss best low = (fold (best_step w) ss best, fold low_step ss low)"
  by (induction ss arbitrary: best low) (simp_all add: best_step_def low_step_def split: option.split)

text \<open>The state of the search after some levels: the highest rank up to \<open>w\<close>, and the lowest one.\<close>

definition best_ok :: "nat \<Rightarrow> string set \<Rightarrow> (string \<times> nat) option \<Rightarrow> bool" where
  "best_ok w S best \<longleftrightarrow>
     (case best of
        None \<Rightarrow> \<forall>s\<in>S. ranked s \<longrightarrow> w < rank s
      | Some (x, r) \<Rightarrow> x \<in> S \<and> effort_rank x = Some r \<and> r \<le> w \<and> (\<forall>s\<in>S. ranked s \<longrightarrow> rank s \<le> w \<longrightarrow> rank s \<le> r))"

definition low_ok :: "string set \<Rightarrow> (string \<times> nat) option \<Rightarrow> bool" where
  "low_ok S low \<longleftrightarrow>
     (case low of
        None \<Rightarrow> \<forall>s\<in>S. \<not> ranked s
      | Some (x, r) \<Rightarrow> x \<in> S \<and> effort_rank x = Some r \<and> (\<forall>s\<in>S. ranked s \<longrightarrow> r \<le> rank s))"

lemma best_step_ok:
  assumes "best_ok w S best" shows "best_ok w (insert s S) (best_step w s best)"
proof (cases "effort_rank s")
  case None
  then have "\<not> ranked s" using ranked_iff by simp
  then show ?thesis using assms None unfolding best_ok_def best_step_def by (cases best) auto
next
  case (Some r)
  then have s: "ranked s" "rank s = r" using ranked_iff[of s] by simp_all
  show ?thesis
  proof (cases best)
    case None
    then show ?thesis using assms s Some unfolding best_ok_def best_step_def by auto
  next
    case best: (Some p)
    obtain x b where p: "p = (x, b)" by fastforce
    have ok: "x \<in> S" "effort_rank x = Some b" "b \<le> w" "\<forall>s\<in>S. ranked s \<longrightarrow> rank s \<le> w \<longrightarrow> rank s \<le> b"
      using assms best p unfolding best_ok_def by simp_all
    show ?thesis
    proof (cases "r \<le> w \<and> b < r")
      case True
      then have "\<forall>s\<in>S. ranked s \<longrightarrow> rank s \<le> w \<longrightarrow> rank s \<le> r" using ok(4) by (meson dual_order.trans less_imp_le)
      then show ?thesis using True Some s best p unfolding best_ok_def best_step_def by simp
    next
      case False
      then show ?thesis using ok Some s best p unfolding best_ok_def best_step_def by (auto simp del: s)
    qed
  qed
qed

lemma low_step_ok:
  assumes "low_ok S low" shows "low_ok (insert s S) (low_step s low)"
proof (cases "effort_rank s")
  case None
  then have "\<not> ranked s" using ranked_iff by simp
  then show ?thesis using assms None unfolding low_ok_def low_step_def by (cases low) auto
next
  case (Some r)
  then have s: "ranked s" "rank s = r" using ranked_iff[of s] by simp_all
  show ?thesis
  proof (cases low)
    case None
    then show ?thesis using assms s Some unfolding low_ok_def low_step_def by auto
  next
    case low: (Some p)
    obtain x b where p: "p = (x, b)" by fastforce
    have ok: "x \<in> S" "effort_rank x = Some b" "\<forall>s\<in>S. ranked s \<longrightarrow> b \<le> rank s"
      using assms low p unfolding low_ok_def by simp_all
    show ?thesis
    proof (cases "r < b")
      case True
      then have "\<forall>s\<in>S. ranked s \<longrightarrow> r \<le> rank s" using ok(3) by (meson dual_order.trans less_imp_le)
      then show ?thesis using True Some s low p unfolding low_ok_def low_step_def by simp
    next
      case False
      then show ?thesis using ok Some s low p unfolding low_ok_def low_step_def by auto
    qed
  qed
qed

lemma closest_ok: "best_ok w S best \<Longrightarrow> low_ok S low \<Longrightarrow>
  best_ok w (set ss \<union> S) (fold (best_step w) ss best) \<and> low_ok (set ss \<union> S) (fold low_step ss low)"
proof (induction ss arbitrary: S best low)
  case (Cons s ss)
  then show ?case using Cons.IH[OF best_step_ok[OF Cons.prems(1), of s] low_step_ok[OF Cons.prems(2), of s]] by simp
qed simp

lemma known_ranked: "to_lower (trim_space l) = l \<Longrightarrow> known_effort l \<longleftrightarrow> ranked l"
  by (simp add: known_effort_def)

lemma rank_zero: "ranked s \<Longrightarrow> rank ''minimal'' \<le> rank s"
  by simp

lemma low_next: "ranked s \<Longrightarrow> s \<noteq> ''minimal'' \<Longrightarrow> rank ''low'' \<le> rank s"
  by (auto simp: effort_levels_def)

lemma level_for_closest:
  assumes "ranked l" "to_lower (trim_space l) = l" "l \<noteq> ''max''" "s \<in> set adv" "ranked s"
  shows "level_for l adv \<in> set adv" "ranked (level_for l adv)"
    "\<forall>s'\<in>set adv. ranked s' \<longrightarrow> rank s' \<le> rank l \<longrightarrow> rank s' \<le> rank (level_for l adv)"
    "rank (level_for l adv) \<le> rank l \<or> (\<forall>s'\<in>set adv. ranked s' \<longrightarrow> rank (level_for l adv) \<le> rank s')"
proof -
  have plain: "l \<noteq> ''ultra''" "l \<noteq> ''auto''" "known_effort l" using assms(1,2) known_ranked[OF assms(2)] by (auto simp: effort_levels_def)
  obtain w where w: "effort_rank l = Some w" using assms(1) ranked_iff by auto
  obtain b lo where cl: "closest_levels (Some w) adv None None = (b, lo)" by fastforce
  have "best_ok w {} None" "low_ok {} None" by (simp_all add: best_ok_def low_ok_def)
  from closest_ok[OF this, of adv] have best: "best_ok w (set adv) b" and low: "low_ok (set adv) lo"
    using cl by (simp_all add: closest_fold)
  have all: "level_for l adv \<in> set adv \<and> ranked (level_for l adv) \<and>
    (\<forall>s'\<in>set adv. ranked s' \<longrightarrow> rank s' \<le> rank l \<longrightarrow> rank s' \<le> rank (level_for l adv)) \<and>
    (rank (level_for l adv) \<le> rank l \<or> (\<forall>s'\<in>set adv. ranked s' \<longrightarrow> rank (level_for l adv) \<le> rank s'))"
  proof (cases "l \<in> set adv")
    case True
    then have "level_for l adv = l" using plain assms(3) by (simp add: level_for_def Let_def)
    then show ?thesis using assms(1) True by simp
  next
    case out: False
    show ?thesis
    proof (cases "l = ''minimal'' \<and> ''low'' \<in> set adv")
      case True
      then have "adv \<noteq> []" by auto
      then have "level_for l adv = ''low''" using plain out True by (simp add: level_for_def Let_def)
      moreover have "ranked ''low''" by (simp add: effort_levels_def)
      moreover have "rank ''low'' \<le> rank s'" if "s' \<in> set adv" "ranked s'" for s' using that out True low_next by blast
      ultimately show ?thesis using True by auto
    next
    case False
    have lf: "level_for l adv = (case (b, lo) of (Some (x, _), _) \<Rightarrow> x | (None, Some (y, _)) \<Rightarrow> y | (None, None) \<Rightarrow> l)"
      using plain assms(3,4) out False w cl by (auto simp: level_for_def Let_def)
    show ?thesis
    proof (cases b)
      case (Some x)
      then obtain y r where b: "b = Some (y, r)" by (cases x) auto
      then have "level_for l adv = y" using lf by simp
      moreover have "y \<in> set adv" "effort_rank y = Some r" "r \<le> w" "\<forall>s'\<in>set adv. ranked s' \<longrightarrow> rank s' \<le> w \<longrightarrow> rank s' \<le> r"
        using best b by (simp_all add: best_ok_def)
      ultimately show ?thesis using rank_some w by auto
    next
      case None
      then have above: "\<forall>s'\<in>set adv. ranked s' \<longrightarrow> w < rank s'" using best by (simp add: best_ok_def)
      have "lo \<noteq> None" using low assms(4,5) unfolding low_ok_def by (cases lo) auto
      then obtain y r where lo: "lo = Some (y, r)" by auto
      then have "level_for l adv = y" using lf None by simp
      moreover have "y \<in> set adv" "effort_rank y = Some r" "\<forall>s'\<in>set adv. ranked s' \<longrightarrow> r \<le> rank s'" using low lo by (simp_all add: low_ok_def)
      moreover have "\<forall>s'\<in>set adv. ranked s' \<longrightarrow> \<not> rank s' \<le> rank l" using above w by auto
      ultimately show ?thesis using rank_some[of y r] by auto
    qed
    qed
  qed
  then show "level_for l adv \<in> set adv" "ranked (level_for l adv)"
    "\<forall>s'\<in>set adv. ranked s' \<longrightarrow> rank s' \<le> rank l \<longrightarrow> rank s' \<le> rank (level_for l adv)"
    "rank (level_for l adv) \<le> rank l \<or> (\<forall>s'\<in>set adv. ranked s' \<longrightarrow> rank (level_for l adv) \<le> rank s')" by blast+
qed

text \<open>A request for \<open>max\<close> on a model that does not advertise it is written as \<open>xhigh\<close>, advertised or not.\<close>

lemma max_becomes_unadvertised_level: "level_for ''max'' [''minimal'', ''low'', ''medium'', ''high''] = ''xhigh''"
  by code_simp

section \<open>Writing twice\<close>

lemma delete_update: "k \<in> set ks \<Longrightarrow> delete_keys ks (AList.update k v m) = delete_keys ks m"
  by (induction m) (auto simp: delete_keys_def)

lemma delete_keys_twice: "set js \<subseteq> set ks \<Longrightarrow> delete_keys ks (delete_keys js m) = delete_keys ks m"
  by (induction m) (auto simp: delete_keys_def)

lemma strip_update [simp]: "k \<in> set strip_keys \<Longrightarrow> strip_thinking (AList.update k v m) = strip_thinking m"
  by (simp add: strip_thinking_def delete_update)

lemma strip_delete [simp]: "set ks \<subseteq> set strip_keys \<Longrightarrow> strip_thinking (delete_keys ks m) = strip_thinking m"
  by (simp add: strip_thinking_def delete_keys_twice)

lemma delete_in: "k \<notin> set ks \<Longrightarrow> delete_keys ks (in_object k f m) = in_object k f (delete_keys ks m)"
proof -
  assume k: "k \<notin> set ks"
  then have "delete_keys ks (AList.update k v m) = AList.update k v (delete_keys ks m)" for v
    by (induction m) (auto simp: delete_keys_def)
  then show ?thesis using k by (simp add: in_object_def split: option.split)
qed

lemma update_commute:
  assumes "j \<noteq> k" "has_key m j" "has_key m k"
  shows "AList.update j v (AList.update k w m) = AList.update k w (AList.update j v m)"
proof -
  show ?thesis using assms
  proof (induction m)
    case (Cons e m)
    obtain i x where e: "e = (i, x)" by fastforce
    show ?case
    proof (cases "i = j \<or> i = k")
      case False
      then show ?thesis using Cons by (auto simp: e has_key_def)
    next
      case True
      then show ?thesis using Cons.prems by (auto simp: e)
    qed
  qed (simp add: has_key_def)
qed

lemma in_object_commute: "j \<noteq> k \<Longrightarrow> in_object j f (in_object k g m) = in_object k g (in_object j f m)"
proof (cases "sub_object m j"; cases "sub_object m k")
  fix x y
  assume "j \<noteq> k" "sub_object m j = Some x" "sub_object m k = Some y"
  moreover from this have "has_key m j" "has_key m k" using sub_object_key[of m] by auto
  ultimately show ?thesis using update_commute[of j k m "JObj (f x)" "JObj (g y)"] by (simp add: in_object_def)
qed (simp_all add: in_object_def)

lemma in_object_twice: "in_object k f (in_object k g m) = in_object k (f \<circ> g) m"
  by (simp add: in_object_def split: option.split)

lemma delete_keys_idem: "delete_keys ks \<circ> delete_keys ks = delete_keys ks"
  by (simp add: fun_eq_iff delete_keys_twice)

lemma strip_strip [simp]: "strip_thinking (strip_thinking m) = strip_thinking m"
proof -
  let ?D = "delete_keys strip_keys" and ?G = "in_object ''generationConfig'' (delete_keys [''thinkingConfig''])"
  let ?R = "in_object ''request'' ?G" and ?P = "in_object ''params'' (delete_keys [''reasoning_effort'', ''thinking''])"
  have eq: "strip_thinking m = ?P (?R (?G (?D m)))" for m by (simp add: strip_thinking_def Let_def)
  have "?G \<circ> ?G = ?G" by (simp add: fun_eq_iff in_object_twice delete_keys_idem)
  then have idem: "?P (?P x) = ?P x" "?R (?R x) = ?R x" "?G (?G x) = ?G x" for x
    by (simp_all add: in_object_twice delete_keys_idem)
  have "?D (?P (?R (?G (?D m)))) = ?P (?R (?G (?D m)))"
    by (simp add: delete_in strip_keys_def delete_keys_twice)
  moreover have "?P (?R (?G (?P (?R (?G x))))) = ?P (?R (?G x))" for x
  proof -
    have "?G (?P (?R (?G x))) = ?P (?R (?G x))" using idem(3) by (simp add: in_object_commute[of "''generationConfig''"])
    moreover have "?R (?P (?R (?G x))) = ?P (?R (?G x))" using idem(2) by (simp add: in_object_commute[of "''request''" "''params''"])
    ultimately show ?thesis using idem(1) by simp
  qed
  ultimately show ?thesis by (simp add: eq)
qed

text \<open>A body with nothing to strip, as the writers get it.\<close>

definition bare :: "body \<Rightarrow> bool" where
  "bare b \<longleftrightarrow> strip_thinking b = b"

lemma bare_strip [simp]: "bare (strip_thinking b)"
  by (simp add: bare_def)

lemma bare_gets:
  assumes "bare b" "k \<in> set strip_keys"
  shows "obj_get b k = JNull" "sub_object b k = None" "obj_string b k = []" "\<not> has_key b k"
  using strip_gets[OF assms(2), of b] strip_no_key[OF assms(2), of b] assms(1) by (simp_all add: bare_def)

lemma bare_configs: "bare b \<Longrightarrow> gemini_thinking_configs b = []"
  using stripped_configs[of b] by (simp add: bare_def)

lemma strip_in_params:
  assumes "\<And>p. delete_keys [''reasoning_effort'', ''thinking''] (f p) = delete_keys [''reasoning_effort'', ''thinking''] p"
  shows "strip_thinking (in_object ''params'' f m) = strip_thinking m"
proof -
  have "in_object ''params'' (delete_keys [''reasoning_effort'', ''thinking'']) (in_object ''params'' f x) =
    in_object ''params'' (delete_keys [''reasoning_effort'', ''thinking'']) x" for x
    using assms by (simp add: in_object_twice comp_def)
  then show ?thesis
    by (simp add: strip_thinking_def Let_def delete_in strip_keys_def in_object_commute[of "''generationConfig''" "''params''"]
        in_object_commute[of "''request''" "''params''"])
qed

lemma strip_key_members [simp]:
  "''thinking'' \<in> set strip_keys" "''reasoning_effort'' \<in> set strip_keys" "''reasoning'' \<in> set strip_keys"
  "''enable_thinking'' \<in> set strip_keys" "''thinking_budget'' \<in> set strip_keys" "''output_config'' \<in> set strip_keys"
  by (simp_all add: strip_keys_def)

definition gemini_format :: "string \<Rightarrow> bool" where
  "gemini_format fmt \<longleftrightarrow> fmt \<in> {''gemini-level'', ''gemini-budget''}"

lemmas writer_defs = write_openai_def write_openai_responses_def write_claude_adaptive_def write_claude_budget_def write_zai_def
  write_qwen_def write_deepseek_def write_kimi_def write_minimax_def write_hunyuan_def write_step_def write_tokenrouter_def
  write_commandcode_def put_effort_def put_thinking_def

text \<open>What a writer adds is what the strip removes.\<close>

lemma writer_then_strip:
  assumes "format_writers fmt = Some w" "\<not> gemini_format fmt"
  shows "strip_thinking (w c b) = strip_thinking b"
proof -
  have params: "strip_thinking (write_commandcode c b) = strip_thinking b"
    unfolding write_commandcode_def put_effort_def
    by (auto simp: Let_def strip_in_params delete_update delete_keys_twice split: option.split)
  have "w \<in> {write_openai, write_openai_responses, write_claude_adaptive, write_claude_budget, write_zai, write_qwen, write_deepseek,
      write_kimi, write_minimax, write_hunyuan, write_step, write_tokenrouter, (\<lambda>_ body. body), write_commandcode}"
    using assms unfolding format_writers_def gemini_format_def by (auto split: if_splits)
  then consider "w = write_commandcode" | "w = (\<lambda>_ body. body)" | "w \<in> {write_openai, write_openai_responses, write_claude_adaptive, write_claude_budget,
      write_zai, write_qwen, write_deepseek, write_kimi, write_minimax, write_hunyuan, write_step, write_tokenrouter}" by blast
  then show ?thesis
  proof cases
    case 3
    then show ?thesis by (auto simp: writer_defs Let_def split: option.split)
  qed (simp_all add: params)
qed

lemma writers_are_listed: "has_writer fmt \<longleftrightarrow> format_writers fmt \<noteq> None"
  by (auto simp: has_writer_def format_writers_def)

lemma strip_keeps_model [simp]: "obj_string (strip_thinking b) ''model'' = obj_string b ''model''"
  by (simp add: strip_thinking_def Let_def strip_keys_def obj_string_in)

text \<open>The display a second pass finds in the body that was written.\<close>

definition block_display :: "body \<Rightarrow> string" where
  "block_display b = (case sub_object b ''thinking'' of None \<Rightarrow> [] | Some t \<Rightarrow> obj_string t ''display'')"

lemma display_of_block [simp]:
  "block_display (put_thinking t b) = obj_string t ''display''"
  "block_display (AList.update ''output_config'' v b) = block_display b"
  by (simp_all add: block_display_def put_thinking_def)

lemma display_is_kept [simp]: "map_of t ''display'' = None \<Longrightarrow> obj_string (with_display d t) ''display'' = d"
  by (simp add: with_display_def obj_string_def obj_get_def map_add_def)

lemma with_no_display [simp]: "with_display [] t = t"
  by (simp add: with_display_def)

lemma writer_keeps_display:
  assumes "format_writers fmt = Some w" "wc_display c = [] \<Longrightarrow> od = []"
  shows "w (c\<lparr>wc_display := (if block_display (w c b) = [] then od else block_display (w c b))\<rparr>) b = w c b"
proof -
  have fields: "wc_off (c\<lparr>wc_display := d\<rparr>) = wc_off c" "wc_level (c\<lparr>wc_display := d\<rparr>) = wc_level c"
    "block_budget (c\<lparr>wc_display := d\<rparr>) = block_budget c" for d by (simp_all add: wc_level_def block_budget_def)
  have ad: "write_claude_adaptive (c\<lparr>wc_display := (if block_display (write_claude_adaptive c b) = [] then od else block_display (write_claude_adaptive c b))\<rparr>) b
      = write_claude_adaptive c b"
    using assms(2) by (auto simp: write_claude_adaptive_def fields Let_def)
  have bu: "write_claude_budget (c\<lparr>wc_display := (if block_display (write_claude_budget c b) = [] then od else block_display (write_claude_budget c b))\<rparr>) b
      = write_claude_budget c b"
    using assms(2) by (cases "block_budget c") (auto simp: write_claude_budget_def fields)
  have cc: "write_commandcode (c\<lparr>wc_display := d\<rparr>) b = write_commandcode c b" for d
    unfolding write_commandcode_def fields by simp
  have plain: "w (c\<lparr>wc_display := d\<rparr>) b = w c b" if "w \<noteq> write_claude_adaptive" "w \<noteq> write_claude_budget" for d
    using assms(1) that unfolding format_writers_def
    by (auto simp: fields cc write_openai_def write_openai_responses_def write_zai_def write_qwen_def write_deepseek_def
        write_kimi_def write_minimax_def write_hunyuan_def write_step_def write_tokenrouter_def Let_def split: if_splits option.split)
  show ?thesis
  proof (cases "w = write_claude_adaptive \<or> w = write_claude_budget")
    case True
    then show ?thesis using ad bu by blast
  next
    case False
    then show ?thesis using plain by simp
  qed
qed

section \<open>Properties\<close>

text \<open>The format and the capabilities a request meets.\<close>

definition request_caps :: "thinking_tables \<Rightarrow> string \<Rightarrow> string \<Rightarrow> thinking_caps" where
  "request_caps tables provider model = tt_caps tables provider (fst (parse_suffix model))"

definition request_format :: "thinking_tables \<Rightarrow> string \<Rightarrow> string \<Rightarrow> string \<Rightarrow> string" where
  "request_format tables tgt provider model = resolve_format tgt (tt_registry tables provider) (request_caps tables provider model)"

text \<open>The writer of a request that is written, with the intent, after the strip.\<close>

definition pass_ctx :: "thinking_tables \<Rightarrow> string \<Rightarrow> string \<Rightarrow> intent option \<Rightarrow> intent \<Rightarrow> string \<Rightarrow> writer_ctx" where
  "pass_ctx tables provider model override cfg own =
     (let caps = request_caps tables provider model; off = (in_mode cfg = ModeNone)
      in \<lparr>wc_eff = (if off \<and> \<not> tc_can_disable caps then level_intent ''minimal'' else cfg), wc_off = (off \<and> tc_can_disable caps),
          wc_supported = tt_levels tables provider (fst (parse_suffix model)),
          wc_display = (if own = [] then (case override of None \<Rightarrow> [] | Some i \<Rightarrow> in_display i) else own), wc_caps = caps\<rparr>)"

lemma pass_cases:
  obtains (kept) "apply_thinking tables tgt provider model override body = strip_model_field body"
      "body = [] \<or> \<not> tc_reasoning (request_caps tables provider model) \<or> format_writers (request_format tables tgt provider model) = None \<or>
       first_answer [override, snd (parse_suffix model), extract_thinking (strip_model_field body)] = None"
  | (stripped) "apply_thinking tables tgt provider model override body = strip_thinking (strip_model_field body)"
      "\<not> tc_reasoning (request_caps tables provider model)"
  | (written) w cfg where "format_writers (request_format tables tgt provider model) = Some w"
      "first_answer [override, snd (parse_suffix model), extract_thinking (strip_model_field body)] = Some cfg"
      "apply_thinking tables tgt provider model override body =
         w (pass_ctx tables provider model override cfg (block_display (strip_model_field body))) (strip_thinking (strip_model_field body))"
proof -
  let ?b = "strip_model_field body" and ?c = "request_caps tables provider model" and ?f = "request_format tables tgt provider model"
  obtain clean suffix where ps: "parse_suffix model = (clean, suffix)" by fastforce
  have empty: "strip_model_field [] = []" by (simp add: strip_model_field_def obj_string_def obj_get_def)
  consider "body = []" | "body \<noteq> []" "\<not> tc_reasoning ?c" | "body \<noteq> []" "tc_reasoning ?c"
    "first_answer [override, snd (parse_suffix model), extract_thinking ?b] = None \<or> \<not> has_writer ?f"
    | cfg where "body \<noteq> []" "tc_reasoning ?c" "first_answer [override, snd (parse_suffix model), extract_thinking ?b] = Some cfg" "has_writer ?f"
    by (cases "first_answer [override, snd (parse_suffix model), extract_thinking ?b]") auto
  then show thesis
  proof cases
    case 1
    then show ?thesis using kept empty by (simp add: apply_thinking_def)
  next
    case 2
    then show ?thesis using kept stripped
      by (cases "?b = body") (auto simp: apply_thinking_def request_caps_def Let_def ps)
  next
    case 3
    then show ?thesis using kept writers_are_listed
      by (cases "first_answer [override, snd (parse_suffix model), extract_thinking ?b]")
        (auto simp: apply_thinking_def request_caps_def request_format_def Let_def ps)
  next
    case (4 cfg)
    then obtain w where w: "format_writers ?f = Some w" using writers_are_listed by auto
    then show ?thesis using written[OF w 4(3)] 4
      by (auto simp: apply_thinking_def request_caps_def request_format_def Let_def apply_format_def pass_ctx_def block_display_def ps)
  qed
qed


lemma stripped_model: "strip_model_field (strip_model_field b) = strip_model_field b \<Longrightarrow>
  strip_thinking x = strip_thinking (strip_model_field b) \<Longrightarrow> strip_model_field x = x"
proof -
  let ?m = "obj_string (strip_model_field b) ''model''"
  assume fixed: "strip_model_field (strip_model_field b) = strip_model_field b" and eq: "strip_thinking x = strip_thinking (strip_model_field b)"
  then have same: "obj_string x ''model'' = ?m" using strip_keeps_model by metis
  have "?m = [] \<or> strip_suffix ?m = ?m"
  proof (rule ccontr)
    assume "\<not> (?m = [] \<or> strip_suffix ?m = ?m)"
    then have "obj_string (strip_model_field (strip_model_field b)) ''model'' = strip_suffix ?m"
      by (simp add: strip_model_field_def[of "strip_model_field b"])
    then show False using fixed \<open>\<not> (?m = [] \<or> strip_suffix ?m = ?m)\<close> by simp
  qed
  then show ?thesis using same by (auto simp: strip_model_field_def)
qed

text \<open>With an intent that comes with the request, as an override or as the suffix of the model name, a second pass over the
  result changes nothing, so a request may be rewritten again when it is sent to another account of the same format.\<close>
theorem explicit_pass_idempotent:
  assumes "tc_reasoning (request_caps tables provider model)" "\<not> gemini_format (request_format tables tgt provider model)"
    and "override \<noteq> None \<or> snd (parse_suffix model) \<noteq> None"
    and "strip_model_field (strip_model_field body) = strip_model_field body"
  shows "apply_thinking tables tgt provider model override (apply_thinking tables tgt provider model override body) =
    apply_thinking tables tgt provider model override body"
proof -
  let ?T = "apply_thinking tables tgt provider model override" and ?b = "strip_model_field body"
  have strip: "strip_thinking (?T body) = strip_thinking ?b"
    by (cases rule: pass_cases[of tables tgt provider model override body]) (simp_all add: writer_then_strip[OF _ assms(2)])
  have model: "strip_model_field (?T body) = ?T body" using stripped_model[OF assms(4) strip] .
  obtain i where i: "first_answer [override, snd (parse_suffix model), x] = Some i" for x
    using assms(3) by (cases override; cases "snd (parse_suffix model)") auto
  show ?thesis
  proof (cases rule: pass_cases[of tables tgt provider model override "?T body"])
    case kept
    then show ?thesis using model by simp
  next
    case stripped
    then show ?thesis using assms(1) by simp
  next
    case (written w cfg)
    let ?c = "pass_ctx tables provider model override i (block_display ?b)"
    have twice: "?T (?T body) = w (pass_ctx tables provider model override i (block_display (?T body))) (strip_thinking ?b)"
      using written i strip model by simp
    show ?thesis
    proof (cases rule: pass_cases[of tables tgt provider model override body])
      case kept
      then have "body = []" using assms(1) i \<open>format_writers _ = Some w\<close> by auto
      then have "?T body = []" by (simp add: apply_thinking_def)
      then show ?thesis by (simp add: apply_thinking_def)
    next
      case (written w' cfg')
      then have first: "?T body = w ?c (strip_thinking ?b)" using i \<open>format_writers _ = Some w\<close> by simp
      let ?d = "\<lambda>x. if block_display x = [] then case override of None \<Rightarrow> [] | Some i \<Rightarrow> in_display i else block_display x"
      have ctx: "pass_ctx tables provider model override i (block_display (?T body)) = ?c\<lparr>wc_display := ?d (?T body)\<rparr>"
        by (simp add: pass_ctx_def Let_def)
      have "w (?c\<lparr>wc_display := ?d (w ?c (strip_thinking ?b))\<rparr>) (strip_thinking ?b) = w ?c (strip_thinking ?b)"
        by (rule writer_keeps_display[OF \<open>format_writers _ = Some w\<close>]) (simp add: pass_ctx_def Let_def split: if_splits)
      then show ?thesis using twice ctx first by metis
    qed (use assms(1) in simp)
  qed
qed

text \<open>A model and a request the two properties apply to.\<close>

definition demo_tables :: "thinking_caps \<Rightarrow> string list \<Rightarrow> thinking_tables" where
  "demo_tables caps levels = \<lparr>tt_caps = (\<lambda>_ _. caps), tt_levels = (\<lambda>_ _. levels), tt_registry = (\<lambda>_. [])\<rparr>"

definition demo_thinking_caps :: thinking_caps where
  "demo_thinking_caps = \<lparr>tc_reasoning = True, tc_format = [], tc_can_disable = True, tc_range = None, tc_effort = True, tc_max_output = 0\<rparr>"


lemma explicit_pass_idempotent_witness:
  "let T = apply_thinking (demo_tables demo_thinking_caps []) ''claude'' ''p'' ''m(low)'' None in
   T (T [(''model'', JStr ''m(low)''), (''reasoning_effort'', JStr ''high'')]) = T [(''model'', JStr ''m(low)''), (''reasoning_effort'', JStr ''high'')]"
proof -
  let ?b = "[(''model'', JStr ''m(low)''), (''reasoning_effort'', JStr ''high'')]"
  have "tc_reasoning (request_caps (demo_tables demo_thinking_caps []) ''p'' ''m(low)'')" by code_simp
  moreover have "\<not> gemini_format (request_format (demo_tables demo_thinking_caps []) ''claude'' ''p'' ''m(low)'')" by code_simp
  moreover have "snd (parse_suffix ''m(low)'') \<noteq> None" by code_simp
  moreover have "strip_model_field (strip_model_field ?b) = strip_model_field ?b" by code_simp
  ultimately show ?thesis using explicit_pass_idempotent[of _ "''p''" "''m(low)''" _ None ?b] by (simp add: Let_def)
qed

text \<open>Without one the pass reads what it wrote itself, and the level can fall at each pass; and on a model that cannot
  reason the first pass over a suffixed name leaves the fields that the second one removes.\<close>

lemma second_pass_lowers_level:
  "let T = apply_thinking (demo_tables demo_thinking_caps [''low'', ''medium'', ''high'']) ''openai'' ''p'' ''m'' None;
       once = T [(''reasoning_effort'', JStr ''max'')]
   in obj_string once ''reasoning_effort'' = ''xhigh'' \<and> obj_string (T once) ''reasoning_effort'' = ''high''"
  by code_simp

lemma suffixed_name_keeps_reasoning_fields:
  "let T = apply_thinking (demo_tables (demo_thinking_caps\<lparr>tc_reasoning := False\<rparr>) []) ''openai'' ''p'' ''m'' None;
       once = T [(''model'', JStr ''m(high)''), (''reasoning_effort'', JStr ''high'')]
   in obj_string once ''reasoning_effort'' = ''high'' \<and> obj_string (T once) ''reasoning_effort'' = []"
  by code_simp



end
