(* ===== verification/Resolution.thy ===== *)
theory Resolution
  imports Selection Capability Thinking
begin

text \<open>
  From the model name of a request to a provider, its model and an account:
  \<open>internal/handlers/chat/resolution.go\<close> with the combo reads of \<open>internal/db/combos.go\<close> and the
  node reads of \<open>providernodes.go\<close>. The database reads succeed in the model. The alias table of
  the providers, the set of known providers and the stored model aliases are parameters. Choosing
  an account of a custom node changes the state of the selection, which is threaded through.
\<close>

section \<open>Combos and nodes\<close>

text \<open>A stored combo: its members (\<open>None\<close> when the column does not parse) and its kind.\<close>

record combo_row =
  cb_name :: string
  cb_models :: "string list option"
  cb_kind :: "string option"

record combo_settings =
  cs_strategy :: string
  cs_sticky :: int
  cs_judge :: string
  cs_timeout_ms :: int
  cs_grace_ms :: "int option"
  cs_stored_order :: bool
  cs_fallbacks :: "string list"

record combos_settings =
  gs_combos :: "(string \<times> combo_settings) list"
  gs_strategy :: string
  gs_sticky :: int

record provider_node =
  pn_id :: string
  pn_prefix :: "string option"

record model_info =
  mi_provider :: string
  mi_model :: string
  mi_conn :: string
  mi_combo :: "string list"
  mi_strategy :: string
  mi_sticky :: int
  mi_judge :: string

record resolve_env =
  re_select :: select_env
  re_combos :: "combo_row list"
  re_nodes :: "provider_node list"
  re_alias :: "string \<Rightarrow> string"
  re_provider_alias :: "string \<Rightarrow> string option"
  re_known :: "string \<Rightarrow> bool"
  re_settings :: "combos_settings option"

definition target :: "string \<Rightarrow> string \<Rightarrow> string \<Rightarrow> model_info" where
  "target provider model conn = \<lparr>mi_provider = provider, mi_model = model, mi_conn = conn, mi_combo = [], mi_strategy = [],
     mi_sticky = 0, mi_judge = []\<rparr>"

definition resolve_combo_strategy :: "string \<Rightarrow> combos_settings option \<Rightarrow> string" where
  "resolve_combo_strategy name settings =
     (case settings of
        None \<Rightarrow> ''fallback''
      | Some s \<Rightarrow>
          (case map_of (gs_combos s) name of
             Some c \<Rightarrow> (if cs_strategy c \<noteq> [] then cs_strategy c else if gs_strategy s \<noteq> [] then gs_strategy s else ''fallback'')
           | None \<Rightarrow> if gs_strategy s \<noteq> [] then gs_strategy s else ''fallback''))"

definition get_combo_by_name :: "resolve_env \<Rightarrow> string \<Rightarrow> (combo_row \<times> string) option" where
  "get_combo_by_name env name =
     map_option (\<lambda>c. (c, resolve_combo_strategy name (re_settings env))) (List.find (\<lambda>c. cb_name c = name) (re_combos env))"

text \<open>The members of a combo that exists and has some.\<close>

definition stored_members :: "resolve_env \<Rightarrow> string \<Rightarrow> string list option" where
  "stored_members env name =
     (case get_combo_by_name env name of
        None \<Rightarrow> None
      | Some (c, _) \<Rightarrow> (case cb_models c of None \<Rightarrow> None | Some ms \<Rightarrow> if ms = [] then None else Some ms))"

definition resolve_combo_routing :: "resolve_env \<Rightarrow> string \<Rightarrow> string \<Rightarrow> string \<times> int \<times> string" where
  "resolve_combo_routing env name fallback =
     (let strategy = (if fallback = [] then ''fallback'' else fallback)
      in case re_settings env of
           None \<Rightarrow> (strategy, 1, [])
         | Some s \<Rightarrow>
             (case map_of (gs_combos s) name of
                Some c \<Rightarrow> (if cs_strategy c \<noteq> [] then cs_strategy c else strategy, if cs_sticky c > 0 then cs_sticky c else 1, cs_judge c)
              | None \<Rightarrow> (if gs_strategy s \<noteq> [] then gs_strategy s else strategy, if gs_sticky s > 0 then gs_sticky s else 1, [])))"

text \<open>The routing of a combo that was found by its name.\<close>

definition combo_routing :: "resolve_env \<Rightarrow> string \<Rightarrow> string \<times> int \<times> string" where
  "combo_routing env name =
     resolve_combo_routing env name (case get_combo_by_name env name of None \<Rightarrow> [] | Some (_, strategy) \<Rightarrow> strategy)"

definition normalize_web_combo_seats :: "string option \<Rightarrow> string list \<Rightarrow> string list" where
  "normalize_web_combo_seats kind seats =
     (let suffix = (case kind of
            None \<Rightarrow> []
          | Some k \<Rightarrow> if k = ''webSearch'' then ''/search'' else if k = ''webFetch'' then ''/fetch'' else [])
      in if suffix = [] then seats else map (\<lambda>seat. if CHR ''/'' \<in> set seat then seat else seat @ suffix) seats)"

definition combo_seats :: "resolve_env \<Rightarrow> string \<Rightarrow> string list option" where
  "combo_seats env name =
     map_option (normalize_web_combo_seats (Option.bind (get_combo_by_name env name) (cb_kind \<circ> fst))) (stored_members env name)"

section \<open>Flattening\<close>

definition push_leaf :: "string \<Rightarrow> string list \<Rightarrow> string list" where
  "push_leaf m out = (if out \<noteq> [] \<and> last out = m then out else out @ [m])"

text \<open>\<open>expandComboModels\<close>, by the number of levels that are left; depth 0 has six.\<close>

fun expand_combo_models :: "resolve_env \<Rightarrow> nat \<Rightarrow> string list \<Rightarrow> string list \<Rightarrow> string list" where
  "expand_combo_models env 0 visiting ms = []"
| "expand_combo_models env (Suc r) visiting ms =
     fold (\<lambda>m out.
        if CHR ''/'' \<in> set m then push_leaf m out
        else if m \<in> set visiting then out
        else case combo_seats env m of
               Some sub \<Rightarrow> out @ expand_combo_models env r (m # visiting) sub
             | None \<Rightarrow> (if CHR ''/'' \<in> set (re_alias env m) then push_leaf (re_alias env m) out else out)) ms []"

definition max_combo_levels :: nat where
  "max_combo_levels = 6"

definition flatten_combo_models :: "resolve_env \<Rightarrow> string list \<Rightarrow> string list option" where
  "flatten_combo_models env ms =
     (let leaves = expand_combo_models env max_combo_levels [] ms in if leaves = [] then None else Some leaves)"

section \<open>One entry\<close>

definition resolve_provider_alias :: "resolve_env \<Rightarrow> string \<Rightarrow> string" where
  "resolve_provider_alias env p = (case re_provider_alias env p of None \<Rightarrow> p | Some c \<Rightarrow> c)"

definition node_by_prefix :: "resolve_env \<Rightarrow> string \<Rightarrow> provider_node option" where
  "node_by_prefix env prefix = List.find (\<lambda>n. pn_prefix n = Some prefix) (re_nodes env)"

text \<open>A choice outside of any request: no pin, no session, no exclusions.\<close>

definition plain_request :: "string \<Rightarrow> string \<Rightarrow> select_request" where
  "plain_request provider model = \<lparr>sq_provider = provider, sq_model = model, sq_pin = [], sq_session = [], sq_probe = False,
     sq_exclude = [], sq_excluded_pools = []\<rparr>"

definition resolve_prefix_provider ::
  "resolve_env \<Rightarrow> instant \<Rightarrow> string \<Rightarrow> string \<Rightarrow> select_state \<Rightarrow> model_info option \<times> select_state" where
  "resolve_prefix_provider env now prefix model s =
     (case node_by_prefix env prefix of
        None \<Rightarrow> (None, s)
      | Some n \<Rightarrow>
          (case get_best_connection (re_select env) (plain_request (pn_id n) model) now s of
             (Inr c, s) \<Rightarrow> (Some (target (pn_id n) model (cn_id c)), s)
           | (Inl (NodeRefused _), s) \<Rightarrow> (Some (target (pn_id n) model []), s)
           | (Inl _, s) \<Rightarrow> (None, s)))"

text \<open>A name \<open>prefix/model\<close>.\<close>

definition resolve_leaf :: "resolve_env \<Rightarrow> instant \<Rightarrow> string \<Rightarrow> string \<Rightarrow> select_state \<Rightarrow> model_info \<times> select_state" where
  "resolve_leaf env now prefix model s =
     (case resolve_prefix_provider env now prefix model s of
        (Some i, s) \<Rightarrow> (i, s)
      | (None, s) \<Rightarrow>
          (let provider = resolve_provider_alias env prefix
           in if provider = prefix then (target provider model [], s)
              else case resolve_prefix_provider env now provider model s of
                     (Some i, s) \<Rightarrow> (i, s)
                   | (None, s) \<Rightarrow>
                       (case node_by_prefix env prefix of
                          Some n \<Rightarrow> (if get_provider_connections provider True (st_table s) = []
                                    then (target (pn_id n) model [], s) else (target provider model [], s))
                        | None \<Rightarrow> (target provider model [], s))))"

definition combo_names :: "resolve_env \<Rightarrow> string set" where
  "combo_names env = cb_name ` set (re_combos env)"

lemma stored_members_name: "stored_members env n = Some ms \<Longrightarrow> n \<in> combo_names env \<and> ms \<noteq> []"
  by (auto simp: stored_members_def get_combo_by_name_def combo_names_def find_Some_iff split: option.splits if_splits)

text \<open>\<open>resolveModelEntryGuarded\<close> and its loop over the members of a combo. A combo on the path is not entered
  again, which is why the recursion ends: each level takes one name out of the stored ones.\<close>

function resolve_entry :: "resolve_env \<Rightarrow> instant \<Rightarrow> string list \<Rightarrow> string \<Rightarrow> select_state \<Rightarrow> model_info option \<times> select_state"
  and resolve_first :: "resolve_env \<Rightarrow> instant \<Rightarrow> string list \<Rightarrow> string list \<Rightarrow> select_state \<Rightarrow> model_info option \<times> select_state" where
  "resolve_entry env now visiting e s =
     (case cut_byte CHR ''/'' e of
        Some (prefix, model) \<Rightarrow> (let (i, s) = resolve_leaf env now prefix model s in (Some i, s))
      | None \<Rightarrow>
          (if e \<in> set visiting then (None, s)
           else case stored_members env e of
                  None \<Rightarrow> (None, s)
                | Some ms \<Rightarrow>
                    (case resolve_first env now (e # visiting) ms s of
                       (None, s) \<Rightarrow> (None, s)
                     | (Some i, s) \<Rightarrow>
                         (let (strategy, sticky, judge) = combo_routing env e
                          in (Some (i\<lparr>mi_combo := ms, mi_strategy := strategy, mi_sticky := sticky, mi_judge := judge\<rparr>), s)))))"
| "resolve_first env now visiting [] s = (None, s)"
| "resolve_first env now visiting (m # ms) s =
     (case resolve_entry env now visiting m s of
        (Some i, s) \<Rightarrow> (Some i, s)
      | (None, s) \<Rightarrow> resolve_first env now visiting ms s)"
  by pat_completeness auto

termination
proof (relation "measures [\<lambda>x. case x of Inl (env, _, v, _, _) \<Rightarrow> card (combo_names env - set v) | Inr (env, _, v, _, _) \<Rightarrow> card (combo_names env - set v),
    \<lambda>x. case x of Inl _ \<Rightarrow> 0 | Inr (_, _, _, ms, _) \<Rightarrow> Suc (length ms)]", goal_cases)
  case (2 env now visiting e s ms)
  then have "e \<in> combo_names env - set visiting" using stored_members_name by auto
  moreover have "finite (combo_names env)" by (simp add: combo_names_def)
  ultimately have "card (combo_names env - insert e (set visiting)) < card (combo_names env - set visiting)"
    by (metis Diff_insert card_Diff1_less finite_Diff)
  then show ?case by simp
qed auto

section \<open>A name from a request\<close>

datatype resolve_error = MissingModel | NoLeaves | Unresolved string

definition strip_model_context_marker :: "string \<Rightarrow> string" where
  "strip_model_context_marker model =
     (let trimmed = trim_space model;
          n = length trimmed
      in if n < 4 then model
         else if equal_fold (drop (n - 4) trimmed) ''[1m]'' then trim_space (take (n - 4) trimmed) else model)"

definition codex_only_model_slug :: "string \<Rightarrow> bool" where
  "codex_only_model_slug model \<longleftrightarrow>
     (let lower = to_lower (trim_space model)
      in lower \<noteq> [] \<and>
         (lower = ''codex-auto-review'' \<or>
          length lower > 7 \<and> (has_prefix ''gpt-5.'' lower \<or> has_prefix ''gpt-6.'' lower) \<or>
          has_prefix ''gpt-6-'' lower \<or> has_prefix ''gpt-daybreak-'' lower \<or> has_prefix ''gpt-reserve'' lower))"

text \<open>The combo of that name. Every leaf of a flattened combo is a \<open>prefix/model\<close>, so resolving the first one
  always answers (\<open>leaf_answers\<close> below) and the second attempt of the code is never made.\<close>

definition resolve_combo ::
  "resolve_env \<Rightarrow> instant \<Rightarrow> string \<Rightarrow> select_state \<Rightarrow> (resolve_error + model_info) option \<times> select_state" where
  "resolve_combo env now name s =
     (case combo_seats env name of
        None \<Rightarrow> (None, s)
      | Some ms \<Rightarrow>
          (case flatten_combo_models env ms of
             None \<Rightarrow> (Some (Inl NoLeaves), s)
           | Some leaves \<Rightarrow>
               (case resolve_entry env now [] (hd leaves) s of
                  (None, s) \<Rightarrow> (None, s)
                | (Some i, s) \<Rightarrow>
                    (let (strategy, sticky, judge) = combo_routing env name
                     in (Some (Inr (i\<lparr>mi_combo := leaves, mi_strategy := strategy, mi_sticky := sticky, mi_judge := judge\<rparr>)), s)))))"

definition connected :: "string \<Rightarrow> select_state \<Rightarrow> bool" where
  "connected provider s \<longleftrightarrow> get_provider_connections provider True (st_table s) \<noteq> []"

definition resolve_bare ::
  "resolve_env \<Rightarrow> instant \<Rightarrow> string \<Rightarrow> select_state \<Rightarrow> (resolve_error + model_info) \<times> select_state" where
  "resolve_bare env now name s =
     (if codex_only_model_slug name then (Inr (target ''codex'' name []), s)
      else case resolve_prefix_provider env now name [] s of
             (Some i, s) \<Rightarrow> (Inr i, s)
           | (None, s) \<Rightarrow>
               (let canonical = resolve_provider_alias env name
                in if canonical \<noteq> name \<and> re_known env canonical \<and> connected canonical s then (Inr (target canonical [] []), s)
                   else if re_known env name \<and> connected name s then (Inr (target name [] []), s)
                   else case List.find (\<lambda>p. connected p s) [''openai'', ''anthropic'', ''deepseek''] of
                          Some p \<Rightarrow> (Inr (target p name []), s)
                        | None \<Rightarrow> (Inl (Unresolved name), s)))"

definition resolve_model ::
  "resolve_env \<Rightarrow> instant \<Rightarrow> string \<Rightarrow> select_state \<Rightarrow> (resolve_error + model_info) \<times> select_state" where
  "resolve_model env now model s =
     (if model = [] then (Inl MissingModel, s)
      else let name = fst (parse_suffix (strip_model_context_marker model))
        in case cut_byte CHR ''/'' name of
             Some (prefix, m) \<Rightarrow> apfst Inr (resolve_leaf env now prefix m s)
           | None \<Rightarrow>
               (case cut_byte CHR ''/'' (re_alias env name) of
                  Some (prefix, m) \<Rightarrow> apfst Inr (resolve_leaf env now prefix m s)
                | None \<Rightarrow>
                    (case resolve_combo env now name s of
                       (Some r, s) \<Rightarrow> (r, s)
                     | (None, s) \<Rightarrow> resolve_bare env now name s)))"

definition is_compatible_provider_id :: "string \<Rightarrow> bool" where
  "is_compatible_provider_id p \<longleftrightarrow>
     has_prefix ''openai-compatible-'' p \<or> has_prefix ''anthropic-compatible-'' p \<or> has_prefix ''custom-embedding-'' p"

text \<open>The prefix a node is registered with; the identifiers of the nodes are unique.\<close>

definition provider_node_prefix :: "resolve_env \<Rightarrow> string \<Rightarrow> string" where
  "provider_node_prefix env node =
     (case List.find (\<lambda>n. pn_id n = node) (re_nodes env) of
        None \<Rightarrow> []
      | Some n \<Rightarrow> (case pn_prefix n of None \<Rightarrow> [] | Some p \<Rightarrow> p))"

definition wire_model_for_node :: "resolve_env \<Rightarrow> string \<Rightarrow> string \<Rightarrow> string" where
  "wire_model_for_node env provider model =
     (if \<not> is_compatible_provider_id provider then model
      else let prefix = provider_node_prefix env provider
        in if prefix = [] then model
           else case cut_prefix (prefix @ ''/'') model of Some rest \<Rightarrow> rest | None \<Rightarrow> model)"

section \<open>What flattening reaches\<close>

text \<open>\<open>leaf_in env k ms l\<close>: the members \<open>ms\<close> lead to the leaf \<open>l\<close> through at most \<open>k\<close> nested combos. Nothing
  in it says that a combo is entered once only.\<close>

inductive leaf_in :: "resolve_env \<Rightarrow> nat \<Rightarrow> string list \<Rightarrow> string \<Rightarrow> bool" for env where
  member: "l \<in> set ms \<Longrightarrow> CHR ''/'' \<in> set l \<Longrightarrow> leaf_in env k ms l"
| alias_of: "m \<in> set ms \<Longrightarrow> CHR ''/'' \<notin> set m \<Longrightarrow> combo_seats env m = None \<Longrightarrow> l = re_alias env m \<Longrightarrow> CHR ''/'' \<in> set l \<Longrightarrow>
    leaf_in env k ms l"
| nested: "m \<in> set ms \<Longrightarrow> CHR ''/'' \<notin> set m \<Longrightarrow> combo_seats env m = Some sub \<Longrightarrow> leaf_in env k sub l \<Longrightarrow>
    leaf_in env (Suc k) ms l"

inductive_cases leaf_inE: "leaf_in env k ms l"

text \<open>The contribution of one member.\<close>

definition member_leaves :: "resolve_env \<Rightarrow> nat \<Rightarrow> string list \<Rightarrow> string \<Rightarrow> string set" where
  "member_leaves env r visiting m =
     (if CHR ''/'' \<in> set m then {m}
      else if m \<in> set visiting then {}
      else case combo_seats env m of
             Some sub \<Rightarrow> set (expand_combo_models env r (m # visiting) sub)
           | None \<Rightarrow> {l. l = re_alias env m \<and> CHR ''/'' \<in> set l})"

lemma set_push_leaf [simp]: "set (push_leaf m out) = insert m (set out)"
  by (cases out rule: rev_cases) (auto simp: push_leaf_def)

lemma set_expand: "set (expand_combo_models env (Suc r) visiting ms) = (\<Union>m\<in>set ms. member_leaves env r visiting m)"
proof -
  let ?f = "\<lambda>m out. if CHR ''/'' \<in> set m then push_leaf m out
        else if m \<in> set visiting then out
        else case combo_seats env m of
               Some sub \<Rightarrow> out @ expand_combo_models env r (m # visiting) sub
             | None \<Rightarrow> (if CHR ''/'' \<in> set (re_alias env m) then push_leaf (re_alias env m) out else out)"
  have step: "set (?f m out) = set out \<union> member_leaves env r visiting m" for m out
    by (auto simp: member_leaves_def split: option.splits)
  have "set (fold ?f ms out) = set out \<union> (\<Union>m\<in>set ms. member_leaves env r visiting m)" for out
    by (induction ms arbitrary: out) (auto simp: step)
  from this[of "[]"] show ?thesis by simp
qed

lemma expanded_is_leaf: "l \<in> set (expand_combo_models env r visiting ms) \<Longrightarrow> CHR ''/'' \<in> set l"
  by (induction r arbitrary: visiting ms)
    (auto simp del: expand_combo_models.simps(2) simp: set_expand member_leaves_def split: if_splits option.splits)

text \<open>The same with the names on the path, which is what the expansion sees; without a repeated name on it.\<close>

fun leaf_path :: "resolve_env \<Rightarrow> string list \<Rightarrow> string list \<Rightarrow> string \<Rightarrow> bool" where
  "leaf_path env [] ms l \<longleftrightarrow> CHR ''/'' \<in> set l \<and> (l \<in> set ms \<or> (\<exists>m\<in>set ms. CHR ''/'' \<notin> set m \<and> combo_seats env m = None \<and> l = re_alias env m))"
| "leaf_path env (c # cs) ms l \<longleftrightarrow> c \<in> set ms \<and> CHR ''/'' \<notin> set c \<and> (\<exists>sub. combo_seats env c = Some sub \<and> leaf_path env cs sub l)"

lemma leaf_in_path: "leaf_in env k ms l \<longleftrightarrow> (\<exists>cs. length cs \<le> k \<and> leaf_path env cs ms l)"
proof
  assume "leaf_in env k ms l"
  then show "\<exists>cs. length cs \<le> k \<and> leaf_path env cs ms l"
  proof induction
    case (nested m ms sub k l)
    then obtain cs where "length cs \<le> k" "leaf_path env cs sub l" by blast
    then show ?case using nested by (intro exI[of _ "m # cs"]) auto
  qed (auto intro!: exI[of _ "[]"])
next
  have "leaf_path env cs ms l \<Longrightarrow> length cs \<le> k \<Longrightarrow> leaf_in env k ms l" for cs
  proof (induction cs arbitrary: k ms)
    case (Cons c cs)
    then show ?case by (cases k) (auto intro: leaf_in.nested)
  qed (auto intro: leaf_in.intros)
  then show "\<exists>cs. length cs \<le> k \<and> leaf_path env cs ms l \<Longrightarrow> leaf_in env k ms l" by blast
qed

text \<open>A path that comes back to a combo can be cut short there.\<close>

lemma leaf_path_suffix: "leaf_path env (xs @ c # ys) ms l \<Longrightarrow> \<exists>sub. combo_seats env c = Some sub \<and> leaf_path env ys sub l"
  by (induction xs arbitrary: ms) auto

lemma simple_leaf_path: "leaf_path env cs ms l \<Longrightarrow> \<exists>ds. distinct ds \<and> length ds \<le> length cs \<and> leaf_path env ds ms l"
proof (induction "length cs" arbitrary: cs ms rule: less_induct)
  case less
  show ?case
  proof (cases cs)
    case Nil
    then show ?thesis using less.prems by (intro exI[of _ "[]"]) simp
  next
    case (Cons c cs')
    then obtain sub where sub: "c \<in> set ms" "CHR ''/'' \<notin> set c" "combo_seats env c = Some sub" "leaf_path env cs' sub l"
      using less.prems by auto
    then obtain ds where ds: "distinct ds" "length ds \<le> length cs'" "leaf_path env ds sub l" using less.hyps[of cs' sub] Cons by auto
    show ?thesis
    proof (cases "c \<in> set ds")
      case False
      then show ?thesis using ds sub Cons by (intro exI[of _ "c # ds"]) auto
    next
      case True
      then obtain xs ys where split: "ds = xs @ c # ys" by (meson split_list)
      then have "leaf_path env (c # ys) ms l" using leaf_path_suffix[of env xs c ys sub l] ds(3) sub by auto
      moreover have "distinct (c # ys)" "length (c # ys) \<le> length cs" using ds split Cons by auto
      ultimately show ?thesis by blast
    qed
  qed
qed

lemma plain_member_leaves:
  assumes "\<forall>v\<in>set visiting. combo_seats env v \<noteq> None" "CHR ''/'' \<in> set m \<or> combo_seats env m = None"
  shows "l \<in> member_leaves env r visiting m \<longleftrightarrow> CHR ''/'' \<in> set l \<and> (l = m \<or> CHR ''/'' \<notin> set m \<and> l = re_alias env m)"
proof (cases "CHR ''/'' \<in> set m")
  case False
  then have "m \<notin> set visiting" "combo_seats env m = None" using assms by auto
  then show ?thesis using False by (auto simp: member_leaves_def)
qed (auto simp: member_leaves_def)

lemma leaf_path_member:
  assumes "\<forall>v\<in>set visiting. combo_seats env v \<noteq> None"
  shows "leaf_path env [] ms l \<longleftrightarrow> (\<exists>m\<in>set ms. l \<in> member_leaves env r visiting m \<and> (CHR ''/'' \<in> set m \<or> combo_seats env m = None))"
proof
  assume "leaf_path env [] ms l"
  then obtain m where "m \<in> set ms" "CHR ''/'' \<in> set m \<or> combo_seats env m = None" "CHR ''/'' \<in> set l"
    "l = m \<or> CHR ''/'' \<notin> set m \<and> l = re_alias env m" by auto
  then show "\<exists>m\<in>set ms. l \<in> member_leaves env r visiting m \<and> (CHR ''/'' \<in> set m \<or> combo_seats env m = None)"
    using plain_member_leaves[OF assms] by blast
next
  assume "\<exists>m\<in>set ms. l \<in> member_leaves env r visiting m \<and> (CHR ''/'' \<in> set m \<or> combo_seats env m = None)"
  then obtain m where m: "m \<in> set ms" "l \<in> member_leaves env r visiting m" "CHR ''/'' \<in> set m \<or> combo_seats env m = None" by blast
  then show "leaf_path env [] ms l" using plain_member_leaves[OF assms m(3)] by auto
qed

lemma no_levels_left: "CHR ''/'' \<notin> set m \<Longrightarrow> combo_seats env m \<noteq> None \<Longrightarrow> member_leaves env 0 visiting m = {}"
  by (auto simp: member_leaves_def)

lemma expand_paths:
  assumes "\<forall>v\<in>set visiting. combo_seats env v \<noteq> None"
  shows "l \<in> set (expand_combo_models env (Suc r) visiting ms) \<longleftrightarrow>
    (\<exists>cs. distinct cs \<and> set cs \<inter> set visiting = {} \<and> length cs \<le> r \<and> leaf_path env cs ms l)"
  using assms
proof (induction r arbitrary: visiting ms)
  case 0
  have "(\<exists>m\<in>set ms. l \<in> member_leaves env 0 visiting m) \<longleftrightarrow> leaf_path env [] ms l"
    unfolding leaf_path_member[OF 0, of _ _ 0] using no_levels_left by blast
  then show ?case by (auto simp del: expand_combo_models.simps(2) simp: set_expand)
next
  case (Suc r)
  have nested: "l \<in> member_leaves env (Suc r) visiting m \<longleftrightarrow>
      (\<exists>cs. distinct (m # cs) \<and> set (m # cs) \<inter> set visiting = {} \<and> length cs \<le> r \<and> leaf_path env cs sub l)"
    if "CHR ''/'' \<notin> set m" "combo_seats env m = Some sub" for m sub
  proof (cases "m \<in> set visiting")
    case False
    then show ?thesis using that Suc.IH[of "m # visiting" sub] Suc.prems by (auto simp: member_leaves_def simp del: expand_combo_models.simps(2))
  qed (simp add: member_leaves_def that)
  have "(\<exists>m\<in>set ms. l \<in> member_leaves env (Suc r) visiting m) \<longleftrightarrow>
    (\<exists>cs. distinct cs \<and> set cs \<inter> set visiting = {} \<and> length cs \<le> Suc r \<and> leaf_path env cs ms l)" (is "?L \<longleftrightarrow> ?R")
  proof
    assume ?L
    then obtain m where m: "m \<in> set ms" "l \<in> member_leaves env (Suc r) visiting m" by blast
    show ?R
    proof (cases "CHR ''/'' \<in> set m \<or> combo_seats env m = None")
      case True
      then have "leaf_path env [] ms l" unfolding leaf_path_member[OF Suc.prems, of _ _ "Suc r"] using m by blast
      then show ?thesis by (intro exI[of _ "[]"]) simp
    next
      case False
      then obtain sub where sub: "CHR ''/'' \<notin> set m" "combo_seats env m = Some sub" by auto
      then obtain cs where "distinct (m # cs)" "set (m # cs) \<inter> set visiting = {}" "length cs \<le> r" "leaf_path env cs sub l"
        using nested m(2) by blast
      then show ?thesis using m(1) sub by (intro exI[of _ "m # cs"]) simp
    qed
  next
    assume ?R
    then obtain cs where cs: "distinct cs" "set cs \<inter> set visiting = {}" "length cs \<le> Suc r" "leaf_path env cs ms l" by blast
    show ?L
    proof (cases cs)
      case Nil
      then have "leaf_path env [] ms l" using cs(4) by simp
      then show ?thesis unfolding leaf_path_member[OF Suc.prems, of _ _ "Suc r"] by blast
    next
      case (Cons c cs')
      then obtain sub where sub: "c \<in> set ms" "CHR ''/'' \<notin> set c" "combo_seats env c = Some sub" "leaf_path env cs' sub l"
        using cs(4) by auto
      then have "l \<in> member_leaves env (Suc r) visiting c" using nested[of c sub] cs Cons by auto
      then show ?thesis using sub(1) by blast
    qed
  qed
  then show ?case by (simp add: set_expand del: expand_combo_models.simps(2))
qed

lemma expand_reaches: "l \<in> set (expand_combo_models env (Suc r) [] ms) \<longleftrightarrow> leaf_in env r ms l"
proof -
  have "l \<in> set (expand_combo_models env (Suc r) [] ms) \<longleftrightarrow> (\<exists>cs. distinct cs \<and> length cs \<le> r \<and> leaf_path env cs ms l)"
    using expand_paths[of "[]"] by simp
  also have "\<dots> \<longleftrightarrow> (\<exists>cs. length cs \<le> r \<and> leaf_path env cs ms l)" using simple_leaf_path by (meson le_trans)
  finally show ?thesis by (simp add: leaf_in_path)
qed

section \<open>What one entry leads to\<close>

text \<open>\<open>entry_leaf env e l\<close>: the entry is the leaf, or a stored combo with a member that leads to it.\<close>

inductive entry_leaf :: "resolve_env \<Rightarrow> string \<Rightarrow> string \<Rightarrow> bool" for env where
  here: "CHR ''/'' \<in> set l \<Longrightarrow> entry_leaf env l l"
| below: "CHR ''/'' \<notin> set e \<Longrightarrow> stored_members env e = Some ms \<Longrightarrow> m \<in> set ms \<Longrightarrow> entry_leaf env m l \<Longrightarrow> entry_leaf env e l"

text \<open>The combos on the way.\<close>

fun entry_path :: "resolve_env \<Rightarrow> string list \<Rightarrow> string \<Rightarrow> bool" where
  "entry_path env [] e \<longleftrightarrow> CHR ''/'' \<in> set e"
| "entry_path env (m # cs) e \<longleftrightarrow> CHR ''/'' \<notin> set e \<and> (\<exists>ms. stored_members env e = Some ms \<and> m \<in> set ms) \<and> entry_path env cs m"

lemma entry_leaf_path: "entry_leaf env e l \<Longrightarrow> \<exists>cs. entry_path env cs e"
proof (induction rule: entry_leaf.induct)
  case (below e ms m l)
  then obtain cs where "entry_path env cs m" by blast
  then show ?case using below by (intro exI[of _ "m # cs"]) auto
qed (auto intro: exI[of _ "[]"])

lemma entry_path_suffix: "entry_path env (xs @ c # ys) e \<Longrightarrow> entry_path env ys c"
  by (induction xs arbitrary: e) auto

lemma simple_entry_path: "entry_path env cs e \<Longrightarrow> \<exists>ds. distinct (e # ds) \<and> length ds \<le> length cs \<and> entry_path env ds e"
proof (induction "length cs" arbitrary: cs e rule: less_induct)
  case less
  show ?case
  proof (cases cs)
    case Nil
    then show ?thesis using less.prems by (intro exI[of _ "[]"]) simp
  next
    case (Cons m cs')
    then have step: "CHR ''/'' \<notin> set e" "\<exists>ms. stored_members env e = Some ms \<and> m \<in> set ms" "entry_path env cs' m" using less.prems by auto
    then obtain ds where ds: "distinct (m # ds)" "length ds \<le> length cs'" "entry_path env ds m" using less.hyps[of cs' m] Cons by auto
    show ?thesis
    proof (cases "e \<in> set (m # ds)")
      case False
      then show ?thesis using ds step Cons by (intro exI[of _ "m # ds"]) auto
    next
      case True
      then obtain xs ys where split: "m # ds = xs @ e # ys" by (meson split_list)
      then have "entry_path env ys e" using entry_path_suffix[of env xs e ys e] ds(3) step by (metis entry_path.simps(2))
      moreover have "distinct (e # ys)" using ds(1) unfolding split by auto
      moreover have "length (m # ds) = length (xs @ e # ys)" by (simp only: split)
      then have "length ys \<le> length cs" using ds(2) Cons by simp
      ultimately show ?thesis by blast
    qed
  qed
qed

declare resolve_entry.simps [simp del] resolve_first.simps(2) [simp del]

lemma entry_slash: "cut_byte CHR ''/'' e = Some (prefix, model) \<Longrightarrow>
  resolve_entry env now v e s = (let (i, s) = resolve_leaf env now prefix model s in (Some i, s))"
  by (simp add: resolve_entry.simps)

lemma entry_combo: "CHR ''/'' \<notin> set e \<Longrightarrow> e \<notin> set v \<Longrightarrow> stored_members env e = Some ms \<Longrightarrow>
  fst (resolve_entry env now v e s) = (case fst (resolve_first env now (e # v) ms s) of
    None \<Rightarrow> None
  | Some i \<Rightarrow> (case combo_routing env e of (strategy, sticky, judge) \<Rightarrow>
      Some (i\<lparr>mi_combo := ms, mi_strategy := strategy, mi_sticky := sticky, mi_judge := judge\<rparr>)))"
  by (simp add: resolve_entry.simps cut_byte_None[THEN iffD2] split: prod.split option.split)

lemma first_more: "fst (resolve_first env now v (m # ms) s) =
  (case fst (resolve_entry env now v m s) of Some i \<Rightarrow> Some i | None \<Rightarrow> fst (resolve_first env now v ms (snd (resolve_entry env now v m s))))"
  by (cases "resolve_entry env now v m s") (simp add: resolve_first.simps(2) split: option.split)

lemma first_answers:
  "m \<in> set ms \<Longrightarrow> \<forall>s. fst (resolve_entry env now v m s) \<noteq> None \<Longrightarrow> fst (resolve_first env now v ms s) \<noteq> None"
proof (induction ms arbitrary: s)
  case (Cons n ms)
  show ?case
  proof (cases "fst (resolve_entry env now v n s)")
    case None
    then have "m \<in> set ms" using Cons.prems by (metis set_ConsD)
    then show ?thesis using None Cons by (simp add: first_more)
  qed (simp add: first_more)
qed simp

lemma leaf_answers: "CHR ''/'' \<in> set e \<Longrightarrow> fst (resolve_entry env now v e s) \<noteq> None"
  using cut_byte_Some[of "CHR ''/''" e] by (auto simp: entry_slash split: prod.split)

lemma path_answers:
  "entry_path env cs e \<Longrightarrow> distinct (e # cs) \<Longrightarrow> set (e # cs) \<inter> set v = {} \<Longrightarrow> fst (resolve_entry env now v e s) \<noteq> None"
proof (induction cs arbitrary: e v s)
  case (Cons m cs)
  then obtain ms where ms: "stored_members env e = Some ms" "m \<in> set ms" "CHR ''/'' \<notin> set e" "e \<notin> set v" by auto
  have "fst (resolve_entry env now (e # v) m s) \<noteq> None" for s using Cons.IH[of m "e # v" s] Cons.prems by auto
  then have "fst (resolve_first env now (e # v) ms s) \<noteq> None" using first_answers[OF ms(2)] by blast
  then show ?case using entry_combo[OF ms(3,4,1), of now s] by (auto split: option.splits prod.splits)
qed (simp add: leaf_answers)

text \<open>What a choice among leaves comes from.\<close>

definition from_leaf :: "resolve_env \<Rightarrow> instant \<Rightarrow> string \<Rightarrow> model_info \<Rightarrow> bool" where
  "from_leaf env now l i \<longleftrightarrow>
     (\<exists>prefix model s. cut_byte CHR ''/'' l = Some (prefix, model) \<and>
       (let t = fst (resolve_leaf env now prefix model s) in
        mi_provider i = mi_provider t \<and> mi_model i = mi_model t \<and> mi_conn i = mi_conn t))"

lemma entry_cases:
  assumes "fst (resolve_entry env now v e s) = Some i"
  obtains (leaf) "CHR ''/'' \<in> set e" "from_leaf env now e i"
  | (combo) ms j where "CHR ''/'' \<notin> set e" "e \<notin> set v" "stored_members env e = Some ms" "fst (resolve_first env now (e # v) ms s) = Some j"
      "mi_provider i = mi_provider j" "mi_model i = mi_model j" "mi_conn i = mi_conn j"
proof (cases "CHR ''/'' \<in> set e")
  case True
  then obtain p m where cut: "cut_byte CHR ''/'' e = Some (p, m)" using cut_byte_Some by blast
  then have "i = fst (resolve_leaf env now p m s)" using assms by (simp add: entry_slash split: prod.splits)
  then show ?thesis using leaf True cut unfolding from_leaf_def by (auto simp: Let_def)
next
  case False
  have fresh: "e \<notin> set v" using assms False by (auto simp: resolve_entry.simps cut_byte_None[THEN iffD2])
  moreover obtain ms where ms: "stored_members env e = Some ms"
    using assms False fresh by (auto simp: resolve_entry.simps cut_byte_None[THEN iffD2] split: option.splits)
  moreover obtain j where "fst (resolve_first env now (e # v) ms s) = Some j"
    using assms entry_combo[OF False fresh ms, of now s] by (cases "fst (resolve_first env now (e # v) ms s)") auto
  moreover from this have "mi_provider i = mi_provider j" "mi_model i = mi_model j" "mi_conn i = mi_conn j"
    using assms entry_combo[OF False fresh ms, of now s] by (auto split: prod.splits)
  ultimately show ?thesis using combo False by blast
qed

lemma answer_is_leaf:
  "fst (resolve_entry env now v e s) = Some i \<Longrightarrow> \<exists>l. entry_leaf env e l \<and> from_leaf env now l i"
  "fst (resolve_first env now v ms s) = Some i \<Longrightarrow> \<exists>m\<in>set ms. \<exists>l. entry_leaf env m l \<and> from_leaf env now l i"
proof (induction env now v e s and env now v ms s arbitrary: i and i rule: resolve_entry_resolve_first.induct)
  case (1 env now v e s)
  from 1(2) show ?case
  proof (cases rule: entry_cases)
    case leaf
    then show ?thesis by (auto intro: entry_leaf.here)
  next
    case (combo ms j)
    then obtain m l where m: "m \<in> set ms" "entry_leaf env m l" "from_leaf env now l j"
      using 1(1)[of ms j] cut_byte_None[THEN iffD2, OF combo(1)] by auto
    then have "from_leaf env now l i" using combo by (simp add: from_leaf_def)
    then show ?thesis using m combo entry_leaf.below by blast
  qed
next
  case (3 env now v m ms s)
  then show ?case by (cases "resolve_entry env now v m s") (auto simp: first_more split: option.splits)
qed simp

section \<open>The suffix and the marker\<close>

lemma trim_blanks_paren [simp]: "trim_blanks (m @ ''('' @ l @ '')'') = m @ ''('' @ l @ '')''"
  by (simp add: trim_blanks_def)

lemma parse_suffix_level:
  assumes "l \<noteq> []" "CHR ''('' \<notin> set l" "CHR '')'' \<notin> set l"
  shows "fst (parse_suffix (m @ ''('' @ l @ '')'')) = trim_space m"
proof -
  have "last_index_byte CHR ''('' (m @ CHR ''('' # l @ '')'') = Some (length m)"
    using last_index_append[of "CHR ''(''" "l @ '')''" m] assms by simp
  then show ?thesis using assms trim_blanks_paren[of m l]
    by (simp add: parse_suffix_def Let_def has_suffix_def contains_char_def)
qed

lemma trimmed_ends:
  assumes "trim_space m = m" "m \<noteq> []"
  shows "\<not> is_space (hd m)"
proof -
  have "length (trim_left m) \<ge> length m"
    using assms(1) length_dropWhile_le[of is_space "rev (trim_left m)"] by (metis length_rev trim_right_def trim_space_def)
  moreover have "length (takeWhile is_space m) + length (trim_left m) = length m"
    by (metis length_append takeWhile_dropWhile_id trim_left_def)
  ultimately have "takeWhile is_space m = []" by (simp flip: length_0_conv)
  then have "trim_left m = m" using takeWhile_dropWhile_id[of is_space m] by (simp add: trim_left_def)
  then show ?thesis using assms(2) hd_dropWhile[of is_space m] by (simp add: trim_left_def)
qed

lemma trim_space_more:
  assumes "trim_space m = m" "m \<noteq> []" "x \<noteq> []" "\<not> is_space (last x)"
  shows "trim_space (m @ x) = m @ x"
  using trimmed_ends[OF assms(1,2)] assms(2-4)
  by (simp add: trim_space_def trim_left_def trim_right_def dropWhile_not_space hd_rev)

lemma marker_strips: "trim_space m = m \<Longrightarrow> m \<noteq> [] \<Longrightarrow> strip_model_context_marker (m @ ''[1m]'') = m"
  using trim_space_more[of m "''[1m]''"]
  by (simp add: strip_model_context_marker_def Let_def equal_fold_def is_space_def)

lemma marker_misses: "trim_space m = m \<Longrightarrow> m \<noteq> [] \<Longrightarrow> strip_model_context_marker (m @ ''('' @ l @ '')'') = m @ ''('' @ l @ '')''"
proof -
  assume m: "trim_space m = m" "m \<noteq> []"
  have "trim_space (m @ ''('' @ l @ '')'') = m @ ''('' @ l @ '')''" using trim_space_more[OF m, of "''('' @ l @ '')''"] by (simp add: is_space_def)
  moreover have "\<not> equal_fold (drop (length (a @ '')'') - 4) (a @ '')'')) ''[1m]''" for a
  proof
    assume "equal_fold (drop (length (a @ '')'') - 4) (a @ '')'')) ''[1m]''"
    moreover have "drop (length (a @ '')'') - 4) (a @ '')'') = drop (length a - 3) a @ '')''" by simp
    ultimately have "last (to_lower (drop (length a - 3) a @ '')'')) = last (to_lower ''[1m]'')" unfolding equal_fold_def by metis
    then show False by (simp add: to_lower_def lower_char_def)
  qed
  from this[of "m @ ''('' @ l"] have "\<not> equal_fold (drop (length (m @ ''('' @ l @ '')'') - 4) (m @ ''('' @ l @ '')'')) ''[1m]''" by simp
  ultimately show ?thesis by (simp add: strip_model_context_marker_def Let_def)
qed

text \<open>C18: a reasoning suffix, the one-million-context marker, or the marker after the suffix, changes nothing in what a
  model name resolves to nor in the account that is chosen: the annotations are taken off before aliases, combos and
  providers are looked up.\<close>

theorem annotations_keep_target:
  assumes "m \<noteq> []" "trim_space m = m" "strip_model_context_marker m = m" "fst (parse_suffix m) = m"
    and "l \<noteq> []" "CHR ''('' \<notin> set l" "CHR '')'' \<notin> set l"
  shows "resolve_model env now (m @ ''('' @ l @ '')'') s = resolve_model env now m s \<and>
    resolve_model env now (m @ ''[1m]'') s = resolve_model env now m s \<and>
    resolve_model env now ((m @ ''('' @ l @ '')'') @ ''[1m]'') s = resolve_model env now m s"
proof -
  have "trim_space (m @ ''('' @ l @ '')'') = m @ ''('' @ l @ '')''" using trim_space_more[OF assms(2,1), of "''('' @ l @ '')''"] by (simp add: is_space_def)
  then have strip: "strip_model_context_marker (m @ ''('' @ l @ '')'') = m @ ''('' @ l @ '')''" "strip_model_context_marker (m @ ''[1m]'') = m"
    "strip_model_context_marker ((m @ ''('' @ l @ '')'') @ ''[1m]'') = m @ ''('' @ l @ '')''"
    using marker_misses[OF assms(2,1)] marker_strips[OF assms(2,1)] marker_strips[of "m @ ''('' @ l @ '')''"] by simp_all
  have "fst (parse_suffix (m @ ''('' @ l @ '')'')) = m" using parse_suffix_level[OF assms(5-7), of m] assms(2) by simp
  then show ?thesis
    using assms(1,3,4) strip unfolding resolve_model_def by simp_all
qed

theorem annotations_keep_target_witness:
  "\<forall>env now s. resolve_model env now ''cc/opus(high,fast)[1m]'' s = resolve_model env now ''cc/opus'' s"
proof -
  have "trim_space ''cc/opus'' = ''cc/opus''" "strip_model_context_marker ''cc/opus'' = ''cc/opus''" "fst (parse_suffix ''cc/opus'') = ''cc/opus''"
    by code_simp+
  then show ?thesis using annotations_keep_target[of "''cc/opus''" "''high,fast''"] by simp
qed

text \<open>The other order is not taken apart: the marker stays in the name that is looked up.\<close>

lemma marker_before_suffix_stays:
  "fst (parse_suffix (strip_model_context_marker ''claude-opus-5[1m](high)'')) = ''claude-opus-5[1m]''"
  by code_simp

section \<open>The two readings of a combo\<close>

definition demo_resolve_env :: "combo_row list \<Rightarrow> resolve_env" where
  "demo_resolve_env cs = \<lparr>re_select = demo_select_env demo_round_robin False, re_combos = cs, re_nodes = [\<lparr>pn_id = ''p'', pn_prefix = Some ''mine''\<rparr>],
     re_alias = (\<lambda>_. []), re_provider_alias = (\<lambda>_. None), re_known = (\<lambda>_. False), re_settings = None\<rparr>"

definition demo_combo :: "string \<Rightarrow> string list \<Rightarrow> combo_row" where
  "demo_combo n ms = \<lparr>cb_name = n, cb_models = Some ms, cb_kind = None\<rparr>"

text \<open>A nested combo can bring a leaf in right after the same one: only the leaves pushed at one level are compared.\<close>

lemma nested_leaf_is_duplicated:
  "flatten_combo_models (demo_resolve_env [demo_combo ''fast'' [''a/x'', ''b/y'']]) [''a/x'', ''fast''] = Some [''a/x'', ''a/x'', ''b/y'']"
  by code_simp

text \<open>Resolving a name of a custom node chooses one of its accounts, which counts as a turn of the rotation: the next
  resolution of the same name finds another one first.\<close>

lemma resolving_takes_a_turn:
  "let s = \<lparr>st_table = [demo_conn ''a'', demo_conn ''b''], st_affinity = new_affinity_store 10 hour\<rparr>;
       (r1, s1) = resolve_model (demo_resolve_env []) 50 ''mine/m'' s;
       (r2, s2) = resolve_model (demo_resolve_env []) 60 ''mine/m'' s1
   in map_sum id mi_conn r1 = Inr ''a'' \<and> map_sum id mi_conn r2 = Inr ''b''"
  by code_simp

text \<open>C16: flattening a combo finds exactly the leaves that its members lead to through at most five nested combos,
  stored aliases included, although it never enters a combo that is already being expanded: a way that comes back to a
  combo can always be cut short, so the guard against cycles loses no leaf, and the bound on the depth only those
  whose every way is longer.\<close>

theorem flatten_reaches:
  "set (case flatten_combo_models env ms of None \<Rightarrow> [] | Some leaves \<Rightarrow> leaves) = {l. leaf_in env 5 ms l}"
  using expand_reaches[of _ env 5 ms]
  by (auto simp: flatten_combo_models_def max_combo_levels_def numeral_eq_Suc Let_def simp del: expand_combo_models.simps(2))


end
