(* ===== verification/ComboLoop.thy ===== *)
theory ComboLoop
  imports AccountLoop Resolution Rotation
begin

text \<open>
  One request to a combo: \<open>handleComboFallback\<close> and \<open>handleComboFallbackWithVisited\<close> of
  \<open>internal/handlers/chat/combo.go\<close> with the response deadline of \<open>combo_timeout.go\<close>. The sending of
  a request over one seat (a member of the combo, over one account) is a parameter that tells what
  the upstream delivered, when it wrote to the client and how long it took; so are the moment the
  client went away and the JSON texts of errors. The body is a JSON object that every member can be
  sent. The smart order and its pins are parameters of the order.
\<close>

section \<open>Seats\<close>

text \<open>What the upstream did: answered, answered without any content, or failed.\<close>

datatype delivery = Delivered | Hollow string | Undelivered send_failure

text \<open>What the loop sees of it.\<close>

datatype seat_result = SeatOk | SeatLate | SeatEmpty upstream_error | SeatGone | SeatFailed send_failure

record seat =
  se_entry :: string
  se_info :: model_info
  se_conn :: "conn_row option"
  se_last :: bool

text \<open>A seat as it is recorded: with the exclusions and the accounts it was chosen under.\<close>

record seat_log =
  sl_seat :: seat
  sl_time :: instant
  sl_excluded :: "string list"
  sl_before :: "conn_row list"
  sl_result :: seat_result

record combo_env =
  ce_failover :: failover_env
  ce_resolve :: resolve_env
  ce_order :: order_env
  ce_default_key :: "string \<Rightarrow> string"
  ce_send :: "nat \<Rightarrow> seat \<Rightarrow> delivery \<times> duration option \<times> duration"
  ce_gone :: "instant \<Rightarrow> bool"
  ce_jitter :: int
  ce_error_body :: "string \<Rightarrow> string"
  ce_refusal_body :: "string \<Rightarrow> string"

text \<open>What a request brings along.\<close>

record combo_call =
  cq_session :: string
  cq_probe :: bool
  cq_stream :: bool
  cq_new_turn :: bool
  cq_required :: "string list"

record combo_state =
  ck_select :: select_state
  ck_now :: instant
  ck_log :: "seat_log list"
  ck_committed :: bool
  ck_bench :: bench
  ck_sticky :: sticky_map

text \<open>What a pass over the members keeps: the exclusions, the last error, the wait the errors call for,
  whether a member was too late, and the member that is tried last, by the exclusions it was found under.\<close>

record combo_pass =
  pa_ex :: "string list"
  pa_err :: "upstream_error option"
  pa_retry :: pass_retry
  pa_late :: bool
  pa_last :: "(string list \<times> nat option) option"

definition keyless :: "combo_env \<Rightarrow> string \<Rightarrow> bool" where
  "keyless env provider \<longleftrightarrow> sv_no_auth (fo_select (ce_failover env)) provider \<or> ce_default_key env provider \<noteq> []"

definition ck_table :: "combo_state \<Rightarrow> conn_row list" where
  "ck_table s = st_table (ck_select s)"

definition on_rows :: "(conn_row list \<Rightarrow> conn_row list) \<Rightarrow> combo_state \<Rightarrow> combo_state" where
  "on_rows f s = s\<lparr>ck_select := (ck_select s)\<lparr>st_table := f (ck_table s)\<rparr>\<rparr>"

section \<open>Errors\<close>

definition plain_upstream :: "int \<Rightarrow> string \<Rightarrow> upstream_error" where
  "plain_upstream status body = \<lparr>ue_status = status, ue_retry_after = [], ue_body = body\<rparr>"

definition combo_timeout_error :: upstream_error where
  "combo_timeout_error = plain_upstream 504
     ''{\"error\":{\"message\":\"model response timeout\",\"type\":\"timeout_error\",\"code\":504}}''"

definition client_closed_error :: upstream_error where
  "client_closed_error = plain_upstream 499
     ''{\"error\":{\"message\":\"client closed request\",\"type\":\"client_closed_request\",\"code\":499}}''"

definition locked_provider_error :: upstream_error where
  "locked_provider_error = plain_upstream 429
     ''{\"error\":{\"message\":\"all connections for this provider are rate-limited\",\"type\":\"rate_limit_error\",\"code\":429}}''"

definition zero_content_error :: "bool \<Rightarrow> string \<Rightarrow> upstream_error" where
  "zero_content_error stream body =
     plain_upstream 200 (if stream then ''{\"error\":{\"message\":\"streaming zero content\"}}'' else body)"

definition provider_refusal_status :: "string \<Rightarrow> int" where
  "provider_refusal_status axis = (if axis \<in> {''contract'', ''token_quota''} then 403 else 429)"

definition is_guardrail_block :: "upstream_error option \<Rightarrow> bool" where
  "is_guardrail_block e \<longleftrightarrow> (case e of None \<Rightarrow> False | Some ue \<Rightarrow> ue_status ue = 451)"

definition is_retryable_combo_error :: "upstream_error option \<Rightarrow> bool" where
  "is_retryable_combo_error e \<longleftrightarrow>
     (case e of None \<Rightarrow> False | Some ue \<Rightarrow> \<not> (ue_status ue \<ge> 400 \<and> ue_status ue < 500 \<and> ue_status ue \<noteq> 429))"

section \<open>The last member\<close>

definition combo_entry_sendable :: "combo_env \<Rightarrow> model_info \<Rightarrow> string list \<Rightarrow> instant \<Rightarrow> conn_row list \<Rightarrow> bool" where
  "combo_entry_sendable env i ex now t \<longleftrightarrow>
     keyless env (mi_provider i) \<or>
     (\<exists>c\<in>set (provider_rows (mi_provider i) t).
        cn_id c \<notin> set ex \<and>
        \<not> connection_model_blocked (fo_select (ce_failover env)) (mi_provider i) (mi_model i) now t c \<and>
        \<not> in_cooldown now c)"

text \<open>The entries from the last one on, with their positions; resolving one can move the rotation of a node.\<close>

fun last_sendable :: "combo_env \<Rightarrow> string list \<Rightarrow> (nat \<times> string) list \<Rightarrow> combo_state \<Rightarrow> nat option \<times> combo_state" where
  "last_sendable env ex [] s = (None, s)"
| "last_sendable env ex ((k, e) # es) s =
     (case resolve_entry (ce_resolve env) (ck_now s) [] e (ck_select s) of
        (None, x) \<Rightarrow> last_sendable env ex es (s\<lparr>ck_select := x\<rparr>)
      | (Some i, x) \<Rightarrow>
          (if combo_entry_sendable env i ex (ck_now s) (st_table x) then (Some k, s\<lparr>ck_select := x\<rparr>)
           else last_sendable env ex es (s\<lparr>ck_select := x\<rparr>)))"

definition last_tried :: "combo_env \<Rightarrow> string list \<Rightarrow> combo_pass \<Rightarrow> combo_state \<Rightarrow> nat option \<times> combo_pass \<times> combo_state" where
  "last_tried env ms pa s =
     (case pa_last pa of
        Some (seen, k) \<Rightarrow>
          (if seen = pa_ex pa then (k, pa, s)
           else (let (k, s) = last_sendable env (pa_ex pa) (rev (enumerate 0 ms)) s in (k, pa\<lparr>pa_last := Some (pa_ex pa, k)\<rparr>, s)))
      | None \<Rightarrow> (let (k, s) = last_sendable env (pa_ex pa) (rev (enumerate 0 ms)) s in (k, pa\<lparr>pa_last := Some (pa_ex pa, k)\<rparr>, s)))"

section \<open>One seat\<close>

text \<open>The deadline cancels a seat that has written nothing when it passes. The probes for answers without content
  hold an answer back, except for the member that is tried last, whose answer goes out as it is.\<close>

definition seat_outcome :: "combo_env \<Rightarrow> combo_call \<Rightarrow> seat \<Rightarrow> delivery \<Rightarrow> bool \<Rightarrow> instant \<Rightarrow> seat_result" where
  "seat_outcome env call seat d late finish =
     (if late then (if ce_gone env finish then SeatGone else SeatLate)
      else case d of
             Delivered \<Rightarrow> SeatOk
           | Hollow body \<Rightarrow> (if se_last seat then SeatOk else SeatEmpty (zero_content_error (cq_stream call) body))
           | Undelivered f \<Rightarrow> (if ce_gone env finish then SeatGone else SeatFailed f))"

definition send_seat :: "combo_env \<Rightarrow> combo_call \<Rightarrow> instant option \<Rightarrow> string list \<Rightarrow> conn_row list \<Rightarrow> seat \<Rightarrow> combo_state \<Rightarrow> seat_result \<times> combo_state" where
  "send_seat env call deadline ex rows seat s =
     (let (d, written, took) = ce_send env (length (ck_log s)) seat;
          written = (case d of Hollow _ \<Rightarrow> if se_last seat then written else None | _ \<Rightarrow> written);
          late = (case deadline of None \<Rightarrow> False | Some u \<Rightarrow> ck_now s + (case written of None \<Rightarrow> took | Some w \<Rightarrow> w) \<ge> u);
          finish = (if late then max (ck_now s) (the deadline) else ck_now s + took);
          r = seat_outcome env call seat d late finish
      in (r, s\<lparr>ck_now := finish, ck_committed := (ck_committed s \<or> \<not> late \<and> written \<noteq> None),
               ck_log := ck_log s @ [\<lparr>sl_seat = seat, sl_time = ck_now s, sl_excluded = ex, sl_before = rows, sl_result = r\<rparr>]\<rparr>))"

text \<open>What the loop does about a seat: the request is served, the member is given up, or another account is tried. A
  member that cannot be sent anything is skipped. Identifiers of accounts are not empty.\<close>

datatype seat_verdict = Served | TooLate | NextEntry | NextSeat | Skipped

definition after_seat ::
  "combo_env \<Rightarrow> combo_call \<Rightarrow> seat \<Rightarrow> seat_result \<Rightarrow> combo_pass \<Rightarrow> combo_state \<Rightarrow> seat_verdict \<times> combo_pass \<times> combo_state" where
  "after_seat env call seat r pa s =
     (let fo = ce_failover env; i = se_info seat; conn = (case se_conn seat of None \<Rightarrow> [] | Some c \<Rightarrow> cn_id c);
          again = (if keyless env (mi_provider i) then NextEntry else NextSeat)
      in case r of
           SeatOk \<Rightarrow> (Served, pa, s)
         | SeatLate \<Rightarrow> (TooLate, pa\<lparr>pa_err := Some combo_timeout_error\<rparr>, s)
         | SeatEmpty ue \<Rightarrow> (NextEntry, pa\<lparr>pa_err := Some ue\<rparr>, s)
         | SeatGone \<Rightarrow> (NextEntry, pa\<lparr>pa_err := Some client_closed_error\<rparr>, s)
         | SeatFailed f \<Rightarrow>
             (if is_guardrail_block (failure_upstream f) then (NextEntry, pa\<lparr>pa_err := failure_upstream f\<rparr>, s)
              else case f of
                     NodeLimit ue \<Rightarrow> (again, pa\<lparr>pa_err := Some ue\<rparr>, s)
                   | Broken m \<Rightarrow> (again, pa\<lparr>pa_err := Some (plain_upstream 502 (ce_error_body env (''upstream error: '' @ m)))\<rparr>, s)
                   | Upstream ue \<Rightarrow>
                       (let noted = pa\<lparr>pa_retry := pass_note (fo_decoders fo) (ck_now s) ue (pa_retry pa), pa_err := Some ue\<rparr>
                        in if is_model_deprecation (fo_parse fo) (ue_status ue) (ue_body ue)
                           then (NextEntry, noted,
                             on_rows (record_model_deprecation fo (cq_probe call) (mi_provider i) (mi_model i) conn ue (ck_now s)) s)
                           else if is_model_fit_error (ue_status ue) (ue_body ue) then (NextEntry, noted, s)
                           else if ue_status ue \<in> set retryable_status_codes
                           then (let (ex, t) = combo_lock_retryable fo (cq_probe call) (pa_ex pa) conn (mi_provider i) (mi_model i) ue
                                       (ck_now s) (ck_table s)
                                 in (again, noted\<lparr>pa_ex := ex\<rparr>, on_rows (\<lambda>_. t) s))
                           else (again, noted, s))))"

section \<open>One member\<close>

definition seat_request :: "combo_call \<Rightarrow> model_info \<Rightarrow> string list \<Rightarrow> select_request" where
  "seat_request call i ex =
     \<lparr>sq_provider = mi_provider i, sq_model = mi_model i, sq_pin = mi_conn i, sq_session = cq_session call, sq_probe = cq_probe call,
      sq_exclude = ex, sq_excluded_pools = []\<rparr>"

text \<open>A selected account that is locked for the model nevertheless.\<close>

definition seat_locked :: "combo_env \<Rightarrow> model_info \<Rightarrow> conn_row \<Rightarrow> combo_state \<Rightarrow> bool" where
  "seat_locked env i c s \<longleftrightarrow>
     (let key = canonical_lock_model (sv_antigravity (fo_select (ce_failover env))) (mi_provider i) (mi_model i)
      in cn_id c \<noteq> [] \<and>
         (is_connection_model_locked (cn_id c) key (ck_now s) (ck_table s) \<or>
          key \<noteq> mi_model i \<and> is_connection_model_locked (cn_id c) (mi_model i) (ck_now s) (ck_table s)))"

text \<open>Up to \<open>n\<close> accounts for the member; \<open>tried\<close> are the ones it was sent to.\<close>

fun entry_seats ::
  "combo_env \<Rightarrow> combo_call \<Rightarrow> instant option \<Rightarrow> string \<Rightarrow> model_info \<Rightarrow> bool \<Rightarrow> nat \<Rightarrow> string list \<Rightarrow> combo_pass \<Rightarrow> combo_state \<Rightarrow>
   seat_verdict \<times> combo_pass \<times> combo_state" where
  "entry_seats env call deadline e i lst 0 tried pa s = (NextEntry, pa, s)"
| "entry_seats env call deadline e i lst (Suc n) tried pa s =
     (if keyless env (mi_provider i)
      then (let seat = \<lparr>se_entry = e, se_info = i, se_conn = None, se_last = lst\<rparr>;
                (r, s) = send_seat env call deadline [] (ck_table s) seat s
            in case after_seat env call seat r pa s of
                 (NextSeat, pa, s) \<Rightarrow> entry_seats env call deadline e i lst n tried pa s
               | done \<Rightarrow> done)
      else
        (let rows = ck_table s; ex = pa_ex pa @ tried;
             (choice, x) = get_best_connection (fo_select (ce_failover env)) (seat_request call i ex) (ck_now s) (ck_select s);
             s = s\<lparr>ck_select := x\<rparr>
         in case choice of
              Inl err \<Rightarrow>
                (NextEntry,
                 (case err of NodeRefused axis \<Rightarrow> pa\<lparr>pa_err := Some (plain_upstream (provider_refusal_status axis) (ce_refusal_body env axis))\<rparr>
                  | _ \<Rightarrow> pa), s)
            | Inr c \<Rightarrow>
                (if seat_locked env i c s
                 then entry_seats env call deadline e i lst n tried (pa\<lparr>pa_ex := pa_ex pa @ [cn_id c]\<rparr>) s
                 else
                   (let seat = \<lparr>se_entry = e, se_info = i, se_conn = Some c, se_last = lst\<rparr>;
                        (r, s) = send_seat env call deadline ex rows seat s
                    in case after_seat env call seat r pa s of
                         (NextSeat, pa, s) \<Rightarrow> entry_seats env call deadline e i lst n (tried @ [cn_id c]) pa s
                       | done \<Rightarrow> done))))"

text \<open>The member \<open>e\<close> at position \<open>k\<close> of the combo.\<close>

definition try_entry ::
  "combo_env \<Rightarrow> combo_call \<Rightarrow> string \<Rightarrow> duration \<Rightarrow> duration \<Rightarrow> string list \<Rightarrow> nat \<times> string \<Rightarrow> combo_pass \<Rightarrow> combo_state \<Rightarrow>
   seat_verdict \<times> combo_pass \<times> combo_state" where
  "try_entry env call name timeout grace ms ke pa s =
     (case resolve_entry (ce_resolve env) (ck_now s) [] (snd ke) (ck_select s) of
        (None, x) \<Rightarrow> (Skipped, pa, s\<lparr>ck_select := x\<rparr>)
      | (Some i, x) \<Rightarrow>
          (let (l, pa, s) = last_tried env ms pa (s\<lparr>ck_select := x\<rparr>); lst = (l = Some (fst ke))
           in if \<not> is_provider_available (mi_provider i) (mi_model i) (ck_now s) (ck_table s)
              then (Skipped, if pa_err pa = None then pa\<lparr>pa_err := Some locked_provider_error\<rparr> else pa, s)
              else case entry_seats env call (if timeout > 0 \<and> \<not> lst then Some (ck_now s + timeout) else None) (snd ke) i lst 10 [] pa s of
                     (TooLate, pa, s) \<Rightarrow>
                       (TooLate, pa\<lparr>pa_late := True\<rparr>, s\<lparr>ck_bench := bench_timed_out_model name (snd ke) grace (ck_now s) (ck_bench s)\<rparr>)
                   | r \<Rightarrow> r))"

section \<open>The passes\<close>

datatype pass_end = Finished | Blocked | Exhausted

fun try_members ::
  "combo_env \<Rightarrow> combo_call \<Rightarrow> string \<Rightarrow> duration \<Rightarrow> duration \<Rightarrow> string list \<Rightarrow> (nat \<times> string) list \<Rightarrow> combo_pass \<Rightarrow> combo_state \<Rightarrow>
   pass_end \<times> combo_pass \<times> combo_state" where
  "try_members env call name timeout grace ms [] pa s = (Exhausted, pa, s)"
| "try_members env call name timeout grace ms (ke # kes) pa s =
     (case try_entry env call name timeout grace ms ke pa s of
        (v, pa, s) \<Rightarrow>
          (if v = Skipped then try_members env call name timeout grace ms kes pa s
           else if v = Served \<or> ce_gone env (ck_now s) then (Finished, pa, s)
           else if is_guardrail_block (pa_err pa) then (Blocked, pa, s)
           else try_members env call name timeout grace ms kes pa s))"

definition new_pass :: combo_pass where
  "new_pass = \<lparr>pa_ex = [], pa_err = None, pa_retry = fresh_pass, pa_late = False, pa_last = None\<rparr>"

text \<open>How a combo ends: it returned, there is no first of its members, or it gave up with its last error.\<close>

datatype combo_end = Returned | Panicked | Gave "upstream_error option"

definition combo_passes ::
  "combo_env \<Rightarrow> combo_call \<Rightarrow> string \<Rightarrow> duration \<Rightarrow> duration \<Rightarrow> string list \<Rightarrow> combo_state \<Rightarrow> combo_end \<times> combo_state" where
  "combo_passes env call name timeout grace ms s =
     (case try_members env call name timeout grace ms (enumerate 0 ms) new_pass s of
        (Finished, pa, s) \<Rightarrow> (Returned, s)
      | (Blocked, pa, s) \<Rightarrow> (Gave (pa_err pa), s)
      | (Exhausted, pa, s) \<Rightarrow>
          (let w = pass_wait (ce_jitter env) (pa_retry pa)
           in if pa_err pa = None \<or> ce_gone env (ck_now s) \<or> pa_late pa \<or> w = 0 then (Gave (pa_err pa), s)
              else if ce_gone env (ck_now s + w) then (Returned, s\<lparr>ck_now := ck_now s + w\<rparr>)
              else case try_members env call name timeout grace ms (enumerate 0 ms) new_pass (s\<lparr>ck_now := ck_now s + w\<rparr>) of
                     (Finished, pa, s) \<Rightarrow> (Returned, s)
                   | (_, pa, s) \<Rightarrow> (Gave (pa_err pa), s)))"

section \<open>Settings of a combo\<close>

definition settings_of :: "combo_env \<Rightarrow> string \<Rightarrow> combo_settings option" where
  "settings_of env name = Option.bind (re_settings (ce_resolve env)) (\<lambda>s. map_of (gs_combos s) name)"

definition default_first_token_grace_ms :: int where
  "default_first_token_grace_ms = 5 * 60 * 1000"

definition combo_timeout_policy :: "combo_env \<Rightarrow> string \<Rightarrow> duration \<times> duration" where
  "combo_timeout_policy env name =
     (case settings_of env name of
        None \<Rightarrow> (0, 0)
      | Some c \<Rightarrow>
          (if cs_timeout_ms c \<le> 0 then (0, 0)
           else (cs_timeout_ms c * millisecond,
                 (case cs_grace_ms c of None \<Rightarrow> default_first_token_grace_ms | Some g \<Rightarrow> g) * millisecond)))"

definition combo_respects_stored_order :: "combo_env \<Rightarrow> string \<Rightarrow> bool" where
  "combo_respects_stored_order env name \<longleftrightarrow>
     name \<noteq> [] \<and> (case settings_of env name of None \<Rightarrow> False | Some c \<Rightarrow> cs_stored_order c)"

definition combo_fallback_combos :: "combo_env \<Rightarrow> string \<Rightarrow> string list" where
  "combo_fallback_combos env name =
     (if name = [] then [] else case settings_of env name of None \<Rightarrow> [] | Some c \<Rightarrow> cs_fallbacks c)"

section \<open>A combo and its fallback combos\<close>

record combo_plan =
  cp_name :: string
  cp_members :: "string list"
  cp_strategy :: string
  cp_limit :: int

definition plan_request :: "combo_env \<Rightarrow> combo_call \<Rightarrow> combo_plan \<Rightarrow> combo_request" where
  "plan_request env call p =
     \<lparr>co_name = cp_name p, co_strategy = cp_strategy p, co_members = cp_members p, co_limit = cp_limit p,
      co_stored_order = combo_respects_stored_order env (cp_name p), co_new_turn = cq_new_turn call, co_required = cq_required call,
      co_grace = snd (combo_timeout_policy env (cp_name p))\<rparr>"

definition run_members :: "combo_env \<Rightarrow> combo_call \<Rightarrow> combo_plan \<Rightarrow> combo_state \<Rightarrow> combo_end \<times> combo_state" where
  "run_members env call p s =
     (case combo_order (ce_order env) (plan_request env call p) (ck_now s) (ck_bench s) (ck_sticky s) of
        None \<Rightarrow> (Panicked, s)
      | Some (ms, st) \<Rightarrow>
          (let (timeout, grace) = combo_timeout_policy env (cp_name p)
           in combo_passes env call (cp_name p) timeout grace ms (s\<lparr>ck_sticky := st\<rparr>)))"

text \<open>A fallback combo that is stored and has leaves.\<close>

definition fallback_plan :: "combo_env \<Rightarrow> string \<Rightarrow> combo_plan option" where
  "fallback_plan env name =
     (case stored_members (ce_resolve env) name of
        None \<Rightarrow> None
      | Some ms \<Rightarrow>
          (case flatten_combo_models (ce_resolve env) ms of
             None \<Rightarrow> None
           | Some leaves \<Rightarrow>
               (let (strategy, sticky, _) = combo_routing (ce_resolve env) name
                in Some \<lparr>cp_name = name, cp_members = leaves, cp_strategy = strategy, cp_limit = sticky\<rparr>)))"

lemma fallback_plan_stored: "fallback_plan env f = Some p \<Longrightarrow> f \<in> combo_names (ce_resolve env)"
  using stored_members_name[of "ce_resolve env" f] by (auto simp: fallback_plan_def split: option.splits)

lemma fewer_names: "finite N \<Longrightarrow> f \<in> N \<Longrightarrow> f \<notin> V \<Longrightarrow> card (N - insert f V) < card (N - V)"
  by (intro psubset_card_mono) auto

lemma combo_names_finite [simp]: "finite (combo_names env)"
  by (simp add: combo_names_def)

text \<open>\<open>visited\<close> are the combos on the way here; a fallback combo is a stored one that is not among them, so the
  recursion ends.\<close>

function run_combo :: "combo_env \<Rightarrow> combo_call \<Rightarrow> string list \<Rightarrow> combo_plan \<Rightarrow> combo_state \<Rightarrow> combo_end \<times> combo_state"
  and run_fallbacks :: "combo_env \<Rightarrow> combo_call \<Rightarrow> string list \<Rightarrow> string list \<Rightarrow> combo_state \<Rightarrow> combo_state" where
  "run_combo env call visited p s =
     (case run_members env call p s of
        (Gave err, s) \<Rightarrow>
          (Gave err, if \<not> ck_committed s \<and> is_retryable_combo_error err
             then run_fallbacks env call (cp_name p # visited) (combo_fallback_combos env (cp_name p)) s else s)
      | (r, s) \<Rightarrow> (r, s))"
| "run_fallbacks env call visited [] s = s"
| "run_fallbacks env call visited (f # fs) s =
     (if f \<in> set visited then run_fallbacks env call visited fs s
      else case fallback_plan env f of
             None \<Rightarrow> run_fallbacks env call visited fs s
           | Some p \<Rightarrow>
               (if ck_committed s then s
                else let s = snd (run_combo env call (f # visited) p s)
                  in if ck_committed s then s else run_fallbacks env call visited fs s))"
  by pat_completeness auto

termination
proof (relation "measures [\<lambda>x. case x of Inl (env, _, v, _, _) \<Rightarrow> card (combo_names (ce_resolve env) - set v)
      | Inr (env, _, v, _, _) \<Rightarrow> card (combo_names (ce_resolve env) - set v),
    \<lambda>x. case x of Inl _ \<Rightarrow> 1 | Inr _ \<Rightarrow> 0, \<lambda>x. case x of Inl _ \<Rightarrow> 0 | Inr (_, _, _, fs, _) \<Rightarrow> length fs]", goal_cases)
  case (2 env call visited p s)
  have "card (combo_names (ce_resolve env) - insert (cp_name p) (set visited)) \<le> card (combo_names (ce_resolve env) - set visited)"
    by (intro card_mono) auto
  then show ?case by auto
next
  case (5 env call visited f fs s p)
  then show ?case using fewer_names[of "combo_names (ce_resolve env)" f "set visited"] fallback_plan_stored[of env f p] by simp
qed auto

declare run_combo.simps [simp del] run_fallbacks.simps(2) [simp del]

text \<open>The answer of the whole request.\<close>

datatype combo_answer = Answered | Walked | Crashed | Failed_with upstream_error | No_entries

definition handle_combo_fallback :: "combo_env \<Rightarrow> combo_call \<Rightarrow> combo_plan \<Rightarrow> combo_state \<Rightarrow> combo_answer \<times> combo_state" where
  "handle_combo_fallback env call p s =
     (case run_combo env call [] p s of
        (r, s) \<Rightarrow>
          (if ck_committed s then Answered
           else case r of
                  Returned \<Rightarrow> Walked
                | Panicked \<Rightarrow> Crashed
                | Gave (Some ue) \<Rightarrow> Failed_with ue
                | Gave None \<Rightarrow> No_entries, s))"

end
