(* ===== verification/ComboRun.thy ===== *)
theory ComboRun
  imports ComboLoop AccountRun
begin

text \<open>
  What a request to a combo guarantees (the definitions are in \<open>ComboLoop\<close>): how many seats are
  tried and over which accounts, that a policy refusal ends the walk over the members, and that a
  member that can answer is reached.
\<close>

section \<open>One seat\<close>

definition blocked :: "seat_log \<Rightarrow> bool" where
  "blocked l \<longleftrightarrow> (case sl_result l of SeatFailed f \<Rightarrow> is_guardrail_block (failure_upstream f) | _ \<Rightarrow> False)"

definition seat_id :: "seat_log \<Rightarrow> string" where
  "seat_id l = (case se_conn (sl_seat l) of None \<Rightarrow> [] | Some c \<Rightarrow> cn_id c)"

abbreviation combo_sel :: "combo_env \<Rightarrow> select_env" where
  "combo_sel env \<equiv> fo_select (ce_failover env)"

text \<open>The seat needs no account, or goes over one that may take the request, under the exclusions of the moment.
  An entry without a provider name (\<open>/model\<close>) is not looked at.\<close>

definition seat_allowed :: "combo_env \<Rightarrow> combo_call \<Rightarrow> seat_log \<Rightarrow> bool" where
  "seat_allowed env call l \<longleftrightarrow>
     (let i = se_info (sl_seat l)
      in mi_provider i \<noteq> [] \<longrightarrow> (case se_conn (sl_seat l) of
           None \<Rightarrow> keyless env (mi_provider i)
         | Some c \<Rightarrow> (\<exists>c0 pool. may_serve (combo_sel env) (seat_request call i (sl_excluded l)) (sl_time l) (sl_before l) c0 \<and>
             c = c0\<lparr>cn_pool := pool\<rparr>) \<and> \<not> keyless env (mi_provider i)))"

lemma send_seat_log:
  assumes "send_seat env call deadline ex rows seat s = (r, s')"
  shows "ck_log s' = ck_log s @ [\<lparr>sl_seat = seat, sl_time = ck_now s, sl_excluded = ex, sl_before = rows, sl_result = r\<rparr>]"
    "ck_select s' = ck_select s"
  using assms by (auto simp: send_seat_def Let_def split: prod.splits)

lemma on_rows_simps [simp]:
  "ck_log (on_rows f s) = ck_log s" "ck_now (on_rows f s) = ck_now s" "ck_committed (on_rows f s) = ck_committed s"
  "ck_bench (on_rows f s) = ck_bench s" "ck_sticky (on_rows f s) = ck_sticky s" "ck_table (on_rows f s) = f (ck_table s)"
  by (simp_all add: on_rows_def ck_table_def)

lemma after_seat_keeps:
  assumes "after_seat env call seat r pa s = (v, pa', s')"
  shows "ck_log s' = ck_log s" "ck_now s' = ck_now s" "ck_committed s' = ck_committed s"
  using assms by (auto simp: after_seat_def Let_def split: seat_result.splits send_failure.splits if_splits prod.splits)

lemma after_seat_blocked:
  assumes "after_seat env call seat (SeatFailed f) pa s = (v, pa', s')" "is_guardrail_block (failure_upstream f)"
  shows "v = NextEntry" "is_guardrail_block (pa_err pa')"
  using assms by (auto simp: after_seat_def)

lemma after_seat_again:
  assumes "after_seat env call seat r pa s = (NextSeat, pa', s')" shows "\<not> keyless env (mi_provider (se_info seat))"
  using assms by (auto simp: after_seat_def Let_def split: seat_result.splits send_failure.splits if_splits prod.splits)

section \<open>One member\<close>

text \<open>The seats of one member: no more than the accounts that may be tried, each allowed, none over an account
  that was tried before, and nothing after a policy refusal.\<close>

definition seats_ok :: "combo_env \<Rightarrow> combo_call \<Rightarrow> string \<Rightarrow> model_info \<Rightarrow> nat \<Rightarrow> string list \<Rightarrow> combo_pass \<Rightarrow> seat_log list \<Rightarrow> bool" where
  "seats_ok env call e i n used pa new \<longleftrightarrow>
     length new \<le> n \<and>
     (\<forall>l\<in>set new. se_entry (sl_seat l) = e \<and> se_info (sl_seat l) = i \<and> seat_allowed env call l) \<and>
     (\<forall>l\<in>set (butlast new). \<not> blocked l) \<and>
     (new \<noteq> [] \<longrightarrow> blocked (last new) \<longrightarrow> is_guardrail_block (pa_err pa)) \<and>
     (\<not> keyless env (mi_provider i) \<longrightarrow> mi_provider i \<noteq> [] \<longrightarrow> distinct (map seat_id new) \<and> set (map seat_id new) \<inter> set used = {}) \<and>
     (keyless env (mi_provider i) \<longrightarrow> length new \<le> 1)"

lemma seats_ok_none [simp]: "seats_ok env call e i n used pa []"
  by (simp add: seats_ok_def)

lemma seats_ok_more: "seats_ok env call e i n used pa new \<Longrightarrow> seats_ok env call e i (Suc n) used pa new"
  by (simp add: seats_ok_def)

lemma seats_ok_one:
  assumes "seat_allowed env call l" "se_entry (sl_seat l) = e" "se_info (sl_seat l) = i" "blocked l \<Longrightarrow> is_guardrail_block (pa_err pa)"
    "\<not> keyless env (mi_provider i) \<Longrightarrow> mi_provider i \<noteq> [] \<Longrightarrow> seat_id l \<notin> set used"
  shows "seats_ok env call e i (Suc n) used pa [l]"
  using assms by (simp add: seats_ok_def)

lemma seats_ok_cons:
  assumes "seats_ok env call e i n (used @ [seat_id l]) pa new" "seat_allowed env call l" "se_entry (sl_seat l) = e"
    "se_info (sl_seat l) = i" "\<not> blocked l" "\<not> keyless env (mi_provider i)" "mi_provider i \<noteq> [] \<Longrightarrow> seat_id l \<notin> set used"
  shows "seats_ok env call e i (Suc n) used pa (l # new)"
  using assms by (auto simp: seats_ok_def)

lemma entry_seats_run:
  assumes "entry_seats env call deadline e i lst n used pa s = (v, pa', s')"
  shows "\<exists>new. ck_log s' = ck_log s @ new \<and> seats_ok env call e i n used pa' new"
  using assms
proof (induction n arbitrary: used pa s)
  case 0
  then show ?case by simp
next
  case (Suc n)
  show ?case
  proof (cases "keyless env (mi_provider i)")
    case True
    let ?seat = "\<lparr>se_entry = e, se_info = i, se_conn = None, se_last = lst\<rparr>"
    obtain r s1 where send: "send_seat env call deadline [] (ck_table s) ?seat s = (r, s1)" by fastforce
    obtain v2 pa2 s2 where after: "after_seat env call ?seat r pa s1 = (v2, pa2, s2)" by (metis prod_cases3)
    let ?l = "\<lparr>sl_seat = ?seat, sl_time = ck_now s, sl_excluded = [], sl_before = ck_table s, sl_result = r\<rparr>"
    have "v2 \<noteq> NextSeat" using after_seat_again[of env call ?seat r pa s1 pa2 s2] after True by auto
    then have out: "v = v2" "pa' = pa2" "s' = s2" using Suc.prems True send after by (cases v2; simp)+
    have "ck_log s' = ck_log s @ [?l]" using send_seat_log(1)[OF send] after_seat_keeps(1)[OF after] out by simp
    moreover have "seats_ok env call e i (Suc n) used pa' [?l]"
      using True out after_seat_blocked(2)[of env call ?seat _ pa s1] after
      by (intro seats_ok_one) (auto simp: seat_allowed_def blocked_def split: seat_result.splits)
    ultimately show ?thesis by blast
  next
    case key: False
    let ?ex = "pa_ex pa @ used"
    obtain choice x where choose: "get_best_connection (combo_sel env) (seat_request call i ?ex) (ck_now s) (ck_select s) = (choice, x)" by fastforce
    let ?s = "s\<lparr>ck_select := x\<rparr>"
    show ?thesis
    proof (cases choice)
      case (Inl err)
      then have "s' = ?s" using Suc.prems key choose by simp
      then show ?thesis by (intro exI[of _ "[]"]) simp
    next
      case (Inr c)
      obtain c0 where c0: "select_connection (combo_sel env) (seat_request call i ?ex) (ck_now s) (ck_select s) = (Inr c0, x)"
        "\<exists>pool. c = c0\<lparr>cn_pool := pool\<rparr>"
        using choose Inr by (auto simp: get_best_connection_def split: prod.splits sum.splits)
      have serve: "mi_provider i \<noteq> [] \<Longrightarrow> may_serve (combo_sel env) (seat_request call i ?ex) (ck_now s) (ck_table s) c0"
        using selected_may_serve[OF c0(1)] by (simp add: seat_request_def ck_table_def)
      then have fresh: "mi_provider i \<noteq> [] \<Longrightarrow> cn_id c \<notin> set ?ex" using c0(2) key by (auto simp: may_serve_def keyless_def seat_request_def)
      show ?thesis
      proof (cases "seat_locked env i c ?s")
        case True
        then have "entry_seats env call deadline e i lst n used (pa\<lparr>pa_ex := pa_ex pa @ [cn_id c]\<rparr>) ?s = (v, pa', s')"
          using Suc.prems key choose Inr by simp
        from Suc.IH[OF this] show ?thesis using seats_ok_more by fastforce
      next
        case False
        let ?seat = "\<lparr>se_entry = e, se_info = i, se_conn = Some c, se_last = lst\<rparr>"
        obtain r s1 where send: "send_seat env call deadline ?ex (ck_table s) ?seat ?s = (r, s1)" by fastforce
        obtain v2 pa2 s2 where after: "after_seat env call ?seat r pa s1 = (v2, pa2, s2)" by (metis prod_cases3)
        let ?l = "\<lparr>sl_seat = ?seat, sl_time = ck_now s, sl_excluded = ?ex, sl_before = ck_table s, sl_result = r\<rparr>"
        have log: "ck_log s2 = ck_log s @ [?l]" using send_seat_log(1)[OF send] after_seat_keeps(1)[OF after] by simp
        have l: "seat_allowed env call ?l" using serve c0(2) key by (auto simp: seat_allowed_def)
        show ?thesis
        proof (cases "v2 = NextSeat")
          case True
          then have "entry_seats env call deadline e i lst n (used @ [seat_id ?l]) pa2 s2 = (v, pa', s')"
            using Suc.prems key choose Inr False send after by (simp add: seat_id_def)
          from Suc.IH[OF this] obtain new where new: "ck_log s' = ck_log s2 @ new" "seats_ok env call e i n (used @ [seat_id ?l]) pa' new" by blast
          moreover have "\<not> blocked ?l" using True after after_seat_blocked(1)[of env call ?seat _ pa s1]
            by (auto simp: blocked_def split: seat_result.splits)
          ultimately have "seats_ok env call e i (Suc n) used pa' (?l # new)" using l key fresh by (intro seats_ok_cons) (auto simp: seat_id_def)
          then show ?thesis using new(1) log by (intro exI[of _ "?l # new"]) simp
        next
          case stop: False
          then have out: "v = v2" "pa' = pa2" "s' = s2"
            using Suc.prems key choose Inr False send after by (cases v2; simp)+
          have "seats_ok env call e i (Suc n) used pa' [?l]"
            using l out fresh after_seat_blocked(2)[of env call ?seat _ pa s1] after
            by (intro seats_ok_one) (auto simp: seat_id_def blocked_def split: seat_result.splits)
          then show ?thesis using log out by blast
        qed
      qed
    qed
  qed
qed

lemma after_seat_not_skipped: "after_seat env call seat r pa s = (v, pa', s') \<Longrightarrow> v \<noteq> Skipped"
  by (auto simp: after_seat_def Let_def split: seat_result.splits send_failure.splits if_splits prod.splits)

lemma entry_seats_not_skipped: "fst (entry_seats env call deadline e i lst n used pa s) \<noteq> Skipped"
  by (induction n arbitrary: used pa s)
    (auto simp: Let_def dest: after_seat_not_skipped split: prod.split sum.split seat_verdict.split)

section \<open>The walk over the members\<close>

text \<open>The log of some members: at most ten seats each, all allowed, none after a policy refusal, which the pass
  keeps as its error.\<close>

definition walk_ok :: "combo_env \<Rightarrow> combo_call \<Rightarrow> nat \<Rightarrow> combo_pass \<Rightarrow> seat_log list \<Rightarrow> bool" where
  "walk_ok env call n pa new \<longleftrightarrow>
     length new \<le> 10 * n \<and> (\<forall>l\<in>set new. seat_allowed env call l) \<and> (\<forall>l\<in>set (butlast new). \<not> blocked l) \<and>
     (new \<noteq> [] \<longrightarrow> blocked (last new) \<longrightarrow> is_guardrail_block (pa_err pa))"

lemma last_sendable_log:
  "last_sendable env ex es s = (k, s') \<Longrightarrow> ck_log s' = ck_log s \<and> ck_now s' = ck_now s \<and> ck_committed s' = ck_committed s"
proof (induction es arbitrary: s)
  case (Cons ke es)
  obtain n e where ke: "ke = (n, e)" by fastforce
  obtain r x where res: "resolve_entry (ce_resolve env) (ck_now s) [] e (ck_select s) = (r, x)" by fastforce
  show ?case
  proof (cases "\<exists>i. r = Some i \<and> combo_entry_sendable env i ex (ck_now s) (st_table x)")
    case True
    then show ?thesis using Cons.prems res by (auto simp: ke)
  next
    case False
    then have "last_sendable env ex es (s\<lparr>ck_select := x\<rparr>) = (k, s')" using Cons.prems res by (cases r) (auto simp: ke)
    from Cons.IH[OF this] show ?thesis by simp
  qed
qed simp

lemma last_tried_log:
  assumes "last_tried env ms pa s = (k, pa', s')"
  shows "ck_log s' = ck_log s \<and> ck_now s' = ck_now s \<and> ck_committed s' = ck_committed s"
  using assms last_sendable_log[of env "pa_ex pa" "rev (enumerate 0 ms)" s]
  by (cases "last_sendable env (pa_ex pa) (rev (enumerate 0 ms)) s") (auto simp: last_tried_def split: option.splits if_splits)

lemma try_entry_run:
  assumes "try_entry env call name timeout grace ms ke pa s = (v, pa', s')"
  shows "\<exists>new. ck_log s' = ck_log s @ new \<and> walk_ok env call 1 pa' new \<and> (v = Skipped \<longrightarrow> new = [])"
proof -
  obtain r x where res: "resolve_entry (ce_resolve env) (ck_now s) [] (snd ke) (ck_select s) = (r, x)" by fastforce
  show ?thesis
  proof (cases r)
    case None
    then show ?thesis using assms res by (intro exI[of _ "[]"]) (auto simp: try_entry_def walk_ok_def)
  next
    case (Some i)
    obtain l pa1 s1 where lt: "last_tried env ms pa (s\<lparr>ck_select := x\<rparr>) = (l, pa1, s1)" by (metis prod_cases3)
    have log: "ck_log s1 = ck_log s" using last_tried_log[OF lt] by simp
    show ?thesis
    proof (cases "is_provider_available (mi_provider i) (mi_model i) (ck_now s1) (ck_table s1)")
      case False
      then have "s' = s1" using assms res Some lt by (simp add: try_entry_def)
      then show ?thesis using log by (intro exI[of _ "[]"]) (simp add: walk_ok_def)
    next
      case True
      let ?dl = "if timeout > 0 \<and> l \<noteq> Some (fst ke) then Some (ck_now s1 + timeout) else None"
      obtain v2 pa2 s2 where es: "entry_seats env call ?dl (snd ke) i (l = Some (fst ke)) 10 [] pa1 s1 = (v2, pa2, s2)" by (metis prod_cases3)
      from entry_seats_run[OF es] obtain new where new: "ck_log s2 = ck_log s1 @ new" "seats_ok env call (snd ke) i 10 [] pa2 new" by blast
      have "ck_log s' = ck_log s2" "pa_err pa' = pa_err pa2"
        using assms res Some lt True es by (auto simp: try_entry_def split: seat_verdict.splits)
      moreover have "v \<noteq> Skipped"
        using assms res Some lt True es entry_seats_not_skipped[of env call ?dl "snd ke" i "l = Some (fst ke)" 10 "[]" pa1 s1]
        by (auto simp: try_entry_def split: seat_verdict.splits)
      ultimately show ?thesis using new log by (intro exI[of _ new]) (simp add: walk_ok_def seats_ok_def)
    qed
  qed
qed

lemma walk_ok_append:
  assumes "walk_ok env call m pa xs" "walk_ok env call n pa' ys" "xs = [] \<or> \<not> blocked (last xs)"
  shows "walk_ok env call (m + n) pa' (xs @ ys)"
proof -
  have "\<not> blocked l" if "l \<in> set (butlast (xs @ ys))" for l
  proof (cases "ys = []")
    case True
    then show ?thesis using assms(1) that by (simp add: walk_ok_def)
  next
    case False
    then have "l \<in> set xs \<or> l \<in> set (butlast ys)" using that by (simp add: butlast_append)
    moreover have "\<not> blocked l" if "l \<in> set xs"
      using that assms(1,3) by (cases xs rule: rev_cases) (auto simp: walk_ok_def)
    ultimately show ?thesis using assms(2) by (auto simp: walk_ok_def)
  qed
  moreover have "ys = [] \<Longrightarrow> xs \<noteq> [] \<Longrightarrow> blocked (last (xs @ ys)) \<Longrightarrow> False" using assms(3) by simp
  ultimately show ?thesis using assms(1,2) by (cases "ys = []") (auto simp: walk_ok_def)
qed

lemma try_members_run:
  assumes "try_members env call name timeout grace ms kes pa s = (r, pa', s')"
  shows "\<exists>new. ck_log s' = ck_log s @ new \<and> walk_ok env call (length kes) pa' new \<and>
    (r = Exhausted \<longrightarrow> new = [] \<or> \<not> blocked (last new))"
  using assms
proof (induction kes arbitrary: pa s)
  case Nil
  then show ?case by (intro exI[of _ "[]"]) (simp add: walk_ok_def)
next
  case (Cons ke kes)
  obtain v pa1 s1 where te: "try_entry env call name timeout grace ms ke pa s = (v, pa1, s1)" by (metis prod_cases3)
  from try_entry_run[OF te] obtain new where new: "ck_log s1 = ck_log s @ new" "walk_ok env call 1 pa1 new" "v = Skipped \<longrightarrow> new = []" by blast
  show ?case
  proof (cases "v \<noteq> Skipped \<and> (v = Served \<or> ce_gone env (ck_now s1) \<or> is_guardrail_block (pa_err pa1))")
    case True
    then have "pa' = pa1" "s' = s1" "r \<noteq> Exhausted" using Cons.prems te by (auto split: if_splits)
    then show ?thesis using new by (intro exI[of _ new]) (auto simp: walk_ok_def)
  next
    case False
    then have "try_members env call name timeout grace ms kes pa1 s1 = (r, pa', s')" using Cons.prems te by (auto split: if_splits)
    from Cons.IH[OF this] obtain more where more: "ck_log s' = ck_log s1 @ more" "walk_ok env call (length kes) pa' more"
      "r = Exhausted \<longrightarrow> more = [] \<or> \<not> blocked (last more)" by blast
    have un: "new = [] \<or> \<not> blocked (last new)" using new(2,3) False by (auto simp: walk_ok_def)
    have "walk_ok env call (1 + length kes) pa' (new @ more)" using walk_ok_append[OF new(2) more(2) un] .
    moreover have "r = Exhausted \<longrightarrow> new @ more = [] \<or> \<not> blocked (last (new @ more))" using un more(3) by (cases "more = []") auto
    ultimately show ?thesis using new(1) more(1) by (intro exI[of _ "new @ more"]) simp
  qed
qed

lemma combo_passes_run:
  "\<exists>pa new. ck_log (snd (combo_passes env call name timeout grace ms s)) = ck_log s @ new \<and> walk_ok env call (2 * length ms) pa new"
proof -
  obtain r pa s1 where one: "try_members env call name timeout grace ms (enumerate 0 ms) new_pass s = (r, pa, s1)" by (metis prod_cases3)
  from try_members_run[OF one] obtain new where new: "ck_log s1 = ck_log s @ new" "walk_ok env call (length ms) pa new"
    "r = Exhausted \<longrightarrow> new = [] \<or> \<not> blocked (last new)" by auto
  have wide: "walk_ok env call (2 * length ms) pa new" using new(2) by (simp add: walk_ok_def)
  let ?w = "pass_wait (ce_jitter env) (pa_retry pa)"
  show ?thesis
  proof (cases "r = Exhausted \<and> \<not> (pa_err pa = None \<or> ce_gone env (ck_now s1) \<or> pa_late pa \<or> ?w = 0) \<and> \<not> ce_gone env (ck_now s1 + ?w)")
    case False
    then have "ck_log (snd (combo_passes env call name timeout grace ms s)) = ck_log s1"
      using one by (cases r) (auto simp: combo_passes_def Let_def)
    then show ?thesis using new(1) wide by auto
  next
    case True
    obtain r2 pa2 s2 where two: "try_members env call name timeout grace ms (enumerate 0 ms) new_pass (s1\<lparr>ck_now := ck_now s1 + ?w\<rparr>) = (r2, pa2, s2)"
      by (metis prod_cases3)
    have "snd (combo_passes env call name timeout grace ms s) = s2" using one two True
      by (cases r2) (auto simp: combo_passes_def Let_def)
    moreover from try_members_run[OF two] obtain more where "ck_log s2 = ck_log s1 @ more" "walk_ok env call (length ms) pa2 more" by auto
    moreover from this(2) have "walk_ok env call (length ms + length ms) pa2 (new @ more)" using walk_ok_append new True by blast
    ultimately show ?thesis using new(1) by (intro exI[of _ pa2] exI[of _ "new @ more"]) (simp add: mult_2)
  qed
qed

lemma run_members_run:
  obtains (none) "snd (run_members env call p s) = s"
  | (walked) ms st pa new where "combo_order (ce_order env) (plan_request env call p) (ck_now s) (ck_bench s) (ck_sticky s) = Some (ms, st)"
      "ck_log (snd (run_members env call p s)) = ck_log s @ new" "walk_ok env call (2 * length ms) pa new"
proof (cases "combo_order (ce_order env) (plan_request env call p) (ck_now s) (ck_bench s) (ck_sticky s)")
  case None
  then show ?thesis using none by (simp add: run_members_def)
next
  case (Some o')
  obtain ms st where o': "o' = (ms, st)" by fastforce
  obtain timeout grace where tg: "combo_timeout_policy env (cp_name p) = (timeout, grace)" by fastforce
  obtain pa new where "ck_log (snd (combo_passes env call (cp_name p) timeout grace ms (s\<lparr>ck_sticky := st\<rparr>))) = ck_log s @ new"
    "walk_ok env call (2 * length ms) pa new" using combo_passes_run[of env call "cp_name p" timeout grace ms "s\<lparr>ck_sticky := st\<rparr>"] by auto
  then show ?thesis using walked Some o' tg by (simp add: run_members_def)
qed

section \<open>Which accounts there are\<close>

text \<open>Nothing a request to a combo does adds, removes or hands over an account.\<close>

lemma best_connection_ident: "map ident (st_table (snd (get_best_connection env q now s))) = map ident (st_table s)"
proof -
  have "map strip (st_table (snd (get_best_connection env q now s))) = map strip (st_table s)"
    using select_connection_strip[of env q now s] by (auto simp: get_best_connection_def split: prod.split sum.split)
  then show ?thesis by (rule strip_ident)
qed

lemma resolve_prefix_ident: "map ident (st_table (snd (resolve_prefix_provider env now p m s))) = map ident (st_table s)"
  using best_connection_ident[of "re_select env" "plain_request _ m" now s]
  by (auto simp: resolve_prefix_provider_def split: option.split prod.split sum.split select_error.split) (metis snd_conv)+

lemma resolve_leaf_ident: "map ident (st_table (snd (resolve_leaf env now p m s))) = map ident (st_table s)"
proof -
  obtain r1 s1 where 1: "resolve_prefix_provider env now p m s = (r1, s1)" by fastforce
  obtain r2 s2 where 2: "resolve_prefix_provider env now (resolve_provider_alias env p) m s1 = (r2, s2)" by fastforce
  have "map ident (st_table s1) = map ident (st_table s)" "map ident (st_table s2) = map ident (st_table s1)"
    using resolve_prefix_ident[of env now p m s] resolve_prefix_ident[of env now "resolve_provider_alias env p" m s1] 1 2 by simp_all
  then show ?thesis by (cases r1; cases r2) (auto simp: resolve_leaf_def 1 2 Let_def split: option.split)
qed

lemma resolve_entry_ident:
  "map ident (st_table (snd (resolve_entry env now v e s))) = map ident (st_table s)"
  "map ident (st_table (snd (resolve_first env now v ms s))) = map ident (st_table s)"
proof (induction env now v e s and env now v ms s rule: resolve_entry_resolve_first.induct)
  case (1 env now v e s)
  show ?case
  proof (cases "cut_byte CHR ''/'' e")
    case None
    show ?thesis
    proof (cases "e \<in> set v \<or> stored_members env e = None")
      case True
      then show ?thesis using None by (auto simp: resolve_entry.simps)
    next
      case False
      then obtain ms where ms: "stored_members env e = Some ms" by auto
      have "map ident (st_table (snd (resolve_first env now (e # v) ms s))) = map ident (st_table s)" using 1 None False ms by blast
      then show ?thesis using None False ms
        by (cases "resolve_first env now (e # v) ms s") (auto simp: resolve_entry.simps split: option.split prod.split)
    qed
  next
    case (Some pm)
    then show ?thesis using resolve_leaf_ident[of env now "fst pm" "snd pm" s] by (auto simp: resolve_entry.simps split: prod.splits)
  qed
next
  case (3 env now v m ms s)
  obtain r s1 where r: "resolve_entry env now v m s = (r, s1)" by fastforce
  then show ?case using 3 by (cases r) (auto simp: resolve_first.simps(2))
qed simp

abbreviation ck_ident :: "combo_state \<Rightarrow> (string \<times> string \<times> bool) list" where
  "ck_ident s \<equiv> map ident (ck_table s)"

lemma park_ident: "map ident (park_account env i p m ue c now t) = map ident t"
  by (simp add: park_account_def Let_def record_connection_scoped_error_def lock_connection_rate_limit_def update_row_ident ident_def)

lemma combo_lock_ident: "map ident (snd (combo_lock_retryable env probe ex i p m ue now t)) = map ident t"
  by (simp add: combo_lock_retryable_def Let_def park_ident)

lemma deprecation_ident: "map ident (record_model_deprecation env probe p m i ue now t) = map ident t"
  by (simp add: record_model_deprecation_def)

lemma after_seat_ident: "after_seat env call seat r pa s = (v, pa', s') \<Longrightarrow> ck_ident s' = ck_ident s"
  using combo_lock_ident[of "ce_failover env" "cq_probe call" "pa_ex pa" _ _ _ _ "ck_now s" "ck_table s"]
  by (auto simp: after_seat_def Let_def deprecation_ident split: seat_result.splits send_failure.splits if_splits prod.splits) (metis snd_conv)+

lemma send_seat_ident: "send_seat env call deadline ex rows seat s = (r, s') \<Longrightarrow> ck_ident s' = ck_ident s"
  by (simp add: ck_table_def send_seat_log(2))

lemma last_sendable_ident: "ck_ident (snd (last_sendable env ex es s)) = ck_ident s"
proof (induction es arbitrary: s)
  case (Cons ke es)
  obtain n e where ke: "ke = (n, e)" by fastforce
  obtain r x where res: "resolve_entry (ce_resolve env) (ck_now s) [] e (ck_select s) = (r, x)" by fastforce
  have x: "ck_ident (s\<lparr>ck_select := x\<rparr>) = ck_ident s"
    using resolve_entry_ident(1)[of "ce_resolve env" "ck_now s" "[]" e "ck_select s"] res by (simp add: ck_table_def)
  show ?case using Cons.IH[of "s\<lparr>ck_select := x\<rparr>"] x res by (cases r) (simp_all add: ke)
qed simp

text \<open>No seat is turned down by a guardrail, and the client stays.\<close>

definition never_refused :: "combo_env \<Rightarrow> bool" where
  "never_refused env \<longleftrightarrow>
     (\<forall>n seat. case fst (ce_send env n seat) of Undelivered f \<Rightarrow> \<not> is_guardrail_block (failure_upstream f) | _ \<Rightarrow> True)"

definition last_served :: "combo_state \<Rightarrow> bool" where
  "last_served s \<longleftrightarrow> ck_log s \<noteq> [] \<and> sl_result (last (ck_log s)) = SeatOk"

text \<open>What a member does to the state, whatever happens to it.\<close>

definition entry_kept :: "combo_env \<Rightarrow> combo_pass \<Rightarrow> combo_state \<Rightarrow> seat_verdict \<Rightarrow> combo_pass \<Rightarrow> combo_state \<Rightarrow> bool" where
  "entry_kept env pa s v pa' s' \<longleftrightarrow>
     ck_ident s' = ck_ident s \<and>
     (never_refused env \<longrightarrow> \<not> is_guardrail_block (pa_err pa) \<longrightarrow> \<not> is_guardrail_block (pa_err pa')) \<and>
     (v = Served \<longrightarrow> last_served s')"

lemma entry_kept_trans:
  "entry_kept env pa s v pa1 s1 \<Longrightarrow> entry_kept env pa1 s1 v' pa' s' \<Longrightarrow> entry_kept env pa s v' pa' s'"
  by (simp add: entry_kept_def)

lemma plain_errors_not_refused [simp]:
  "\<not> is_guardrail_block None" "\<not> is_guardrail_block (Some combo_timeout_error)" "\<not> is_guardrail_block (Some client_closed_error)"
  "\<not> is_guardrail_block (Some locked_provider_error)" "\<not> is_guardrail_block (Some (plain_upstream 502 b))"
  "\<not> is_guardrail_block (Some (zero_content_error stream b))" "\<not> is_guardrail_block (Some (plain_upstream (provider_refusal_status axis) b))"
  by (simp_all add: is_guardrail_block_def combo_timeout_error_def client_closed_error_def locked_provider_error_def plain_upstream_def
      zero_content_error_def provider_refusal_status_def)

lemma seat_clear:
  assumes "never_refused env" "send_seat env call deadline ex rows seat s = (r, s1)"
  shows "r = SeatFailed f \<Longrightarrow> \<not> is_guardrail_block (failure_upstream f)" "r = SeatEmpty ue \<Longrightarrow> \<not> is_guardrail_block (Some ue)"
proof -
  obtain d written took where send: "ce_send env (length (ck_log s)) seat = (d, written, took)" by (metis prod_cases3)
  show "r = SeatEmpty ue \<Longrightarrow> \<not> is_guardrail_block (Some ue)"
    using assms(2) send by (auto simp: send_seat_def seat_outcome_def Let_def split: if_splits delivery.splits)
  show "\<not> is_guardrail_block (failure_upstream f)" if "r = SeatFailed f"
  proof -
    have "d = Undelivered f" using assms(2) send that by (auto simp: send_seat_def seat_outcome_def Let_def split: if_splits delivery.splits)
    moreover have "case fst (ce_send env (length (ck_log s)) seat) of Undelivered f \<Rightarrow> \<not> is_guardrail_block (failure_upstream f) | _ \<Rightarrow> True"
      using assms(1) unfolding never_refused_def by blast
    ultimately show ?thesis using send by simp
  qed
qed

lemma after_seat_clear:
  assumes "after_seat env call seat r pa s = (v, pa', s')" "\<not> is_guardrail_block (pa_err pa)"
    and "\<And>f. r = SeatFailed f \<Longrightarrow> \<not> is_guardrail_block (failure_upstream f)" "\<And>ue. r = SeatEmpty ue \<Longrightarrow> \<not> is_guardrail_block (Some ue)"
  shows "\<not> is_guardrail_block (pa_err pa')"
  using assms
  by (auto simp: after_seat_def Let_def failure_upstream_def split: seat_result.splits send_failure.splits if_splits prod.splits)

lemma seat_kept:
  assumes send: "send_seat env call deadline ex rows seat s = (r, s1)" and after: "after_seat env call seat r pa s1 = (v, pa', s')"
  shows "entry_kept env pa s v pa' s'"
proof -
  have "ck_ident s' = ck_ident s" using send_seat_ident[OF send] after_seat_ident[OF after] by simp
  moreover have "\<not> is_guardrail_block (pa_err pa')" if "never_refused env" "\<not> is_guardrail_block (pa_err pa)"
    using after_seat_clear[OF after that(2)] seat_clear[OF that(1) send] by blast
  moreover have "r = SeatOk" if "v = Served"
    using after that by (auto simp: after_seat_def Let_def split: seat_result.splits send_failure.splits if_splits prod.splits)
  ultimately show ?thesis using send_seat_log(1)[OF send] after_seat_keeps(1)[OF after] by (auto simp: entry_kept_def last_served_def)
qed

lemma chosen_kept:
  assumes "get_best_connection (combo_sel env) q now (ck_select s) = (choice, x)" "v \<noteq> Served"
    and "\<not> is_guardrail_block (pa_err pa) \<longrightarrow> \<not> is_guardrail_block (pa_err pa')"
  shows "entry_kept env pa s v pa' (s\<lparr>ck_select := x\<rparr>)"
  using best_connection_ident[of "combo_sel env" q now "ck_select s"] assms by (simp add: entry_kept_def ck_table_def)

lemma entry_seats_kept: "entry_seats env call deadline e i lst n used pa s = (v, pa', s') \<Longrightarrow> entry_kept env pa s v pa' s'"
proof (induction n arbitrary: used pa s)
  case 0
  then show ?case by (simp add: entry_kept_def)
next
  case (Suc n)
  show ?case
  proof (cases "keyless env (mi_provider i)")
    case True
    let ?seat = "\<lparr>se_entry = e, se_info = i, se_conn = None, se_last = lst\<rparr>"
    obtain r s1 where send: "send_seat env call deadline [] (ck_table s) ?seat s = (r, s1)" by fastforce
    obtain v2 pa2 s2 where after: "after_seat env call ?seat r pa s1 = (v2, pa2, s2)" by (metis prod_cases3)
    have "v2 \<noteq> NextSeat" using after_seat_again[of env call ?seat r pa s1 pa2 s2] after True by auto
    then have "v = v2" "pa' = pa2" "s' = s2" using Suc.prems True send after by (cases v2; simp)+
    then show ?thesis using seat_kept[OF send after] by simp
  next
    case key: False
    let ?ex = "pa_ex pa @ used"
    obtain choice x where choose: "get_best_connection (combo_sel env) (seat_request call i ?ex) (ck_now s) (ck_select s) = (choice, x)" by fastforce
    show ?thesis
    proof (cases choice)
      case (Inl err)
      then have "v = NextEntry" "s' = s\<lparr>ck_select := x\<rparr>" "\<not> is_guardrail_block (pa_err pa) \<longrightarrow> \<not> is_guardrail_block (pa_err pa')"
        using Suc.prems key choose by (auto split: select_error.splits)
      then show ?thesis using chosen_kept[OF choose] by simp
    next
      case (Inr c)
      have x: "entry_kept env pa s NextEntry (pa\<lparr>pa_ex := ex\<rparr>) (s\<lparr>ck_select := x\<rparr>)" "entry_kept env pa s NextEntry pa (s\<lparr>ck_select := x\<rparr>)" for ex
        using chosen_kept[OF choose] by simp_all
      show ?thesis
      proof (cases "seat_locked env i c (s\<lparr>ck_select := x\<rparr>)")
        case True
        then have "entry_seats env call deadline e i lst n used (pa\<lparr>pa_ex := pa_ex pa @ [cn_id c]\<rparr>) (s\<lparr>ck_select := x\<rparr>) = (v, pa', s')"
          using Suc.prems key choose Inr by simp
        from entry_kept_trans[OF x(1) Suc.IH[OF this]] show ?thesis .
      next
        case False
        let ?seat = "\<lparr>se_entry = e, se_info = i, se_conn = Some c, se_last = lst\<rparr>"
        obtain r s1 where send: "send_seat env call deadline ?ex (ck_table s) ?seat (s\<lparr>ck_select := x\<rparr>) = (r, s1)" by fastforce
        obtain v2 pa2 s2 where after: "after_seat env call ?seat r pa s1 = (v2, pa2, s2)" by (metis prod_cases3)
        have 2: "entry_kept env pa s v2 pa2 s2" using entry_kept_trans[OF x(2) seat_kept[OF send after]] .
        show ?thesis
        proof (cases "v2 = NextSeat")
          case True
          then have "entry_seats env call deadline e i lst n (used @ [cn_id c]) pa2 s2 = (v, pa', s')"
            using Suc.prems key choose Inr False send after by simp
          from entry_kept_trans[OF 2 Suc.IH[OF this]] show ?thesis .
        next
          case stop: False
          then have "v = v2" "pa' = pa2" "s' = s2" using Suc.prems key choose Inr False send after by (cases v2; simp)+
          then show ?thesis using 2 by simp
        qed
      qed
    qed
  qed
qed

lemma last_tried_kept: "last_tried env ms pa s = (k, pa', s') \<Longrightarrow> ck_ident s' = ck_ident s \<and> pa_err pa' = pa_err pa"
  using last_sendable_ident[of env "pa_ex pa" "rev (enumerate 0 ms)" s]
  by (cases "last_sendable env (pa_ex pa) (rev (enumerate 0 ms)) s") (auto simp: last_tried_def split: option.splits if_splits)

lemma entry_select_ident:
  "resolve_entry (ce_resolve env) now [] e (ck_select s) = (r, x) \<Longrightarrow> ck_ident (s\<lparr>ck_select := x\<rparr>) = ck_ident s"
  using resolve_entry_ident(1)[of "ce_resolve env" now "[]" e "ck_select s"] by (simp add: ck_table_def)

lemma try_entry_kept:
  assumes "try_entry env call name timeout grace ms ke pa s = (v, pa', s')"
  shows "entry_kept env pa s v pa' s'"
proof -
  obtain r x where res: "resolve_entry (ce_resolve env) (ck_now s) [] (snd ke) (ck_select s) = (r, x)" by fastforce
  show ?thesis
  proof (cases r)
    case None
    then show ?thesis using assms res entry_select_ident[OF res] by (auto simp: try_entry_def entry_kept_def)
  next
    case (Some i)
    obtain l pa1 s1 where lt: "last_tried env ms pa (s\<lparr>ck_select := x\<rparr>) = (l, pa1, s1)" by (metis prod_cases3)
    have 1: "ck_ident s1 = ck_ident s" "pa_err pa1 = pa_err pa" using last_tried_kept[OF lt] entry_select_ident[OF res] by simp_all
    show ?thesis
    proof (cases "is_provider_available (mi_provider i) (mi_model i) (ck_now s1) (ck_table s1)")
      case False
      then have "v = Skipped" "s' = s1" "pa' = (if pa_err pa1 = None then pa1\<lparr>pa_err := Some locked_provider_error\<rparr> else pa1)"
        using assms res Some lt by (simp_all add: try_entry_def)
      then show ?thesis using 1 by (simp add: entry_kept_def)
    next
      case True
      let ?dl = "if timeout > 0 \<and> l \<noteq> Some (fst ke) then Some (ck_now s1 + timeout) else None"
      obtain v2 pa2 s2 where es: "entry_seats env call ?dl (snd ke) i (l = Some (fst ke)) 10 [] pa1 s1 = (v2, pa2, s2)" by (metis prod_cases3)
      have "v = v2" "pa_err pa' = pa_err pa2" "ck_table s' = ck_table s2" "ck_log s' = ck_log s2"
        using assms res Some lt True es by (auto simp: try_entry_def ck_table_def split: seat_verdict.splits)
      then show ?thesis using entry_seats_kept[OF es] 1 by (simp add: entry_kept_def last_served_def)
    qed
  qed
qed

section \<open>A member that can answer\<close>

text \<open>The member delivers, and before the deadline if there is one.\<close>

definition answers_in_time :: "combo_env \<Rightarrow> duration \<Rightarrow> string \<Rightarrow> bool" where
  "answers_in_time env timeout e \<longleftrightarrow>
     (\<forall>n seat. se_entry seat = e \<longrightarrow>
        (case ce_send env n seat of (d, written, took) \<Rightarrow>
           d = Delivered \<and> (timeout > 0 \<longrightarrow> (case written of None \<Rightarrow> took | Some w \<Rightarrow> w) < timeout)))"

text \<open>A name \<open>prefix/model\<close> of a provider that needs no account and has none, and no node.\<close>

definition keyless_member :: "combo_env \<Rightarrow> combo_state \<Rightarrow> string \<Rightarrow> bool" where
  "keyless_member env s e \<longleftrightarrow>
     (case cut_byte CHR ''/'' e of
        None \<Rightarrow> False
      | Some (prefix, model) \<Rightarrow>
          (let provider = resolve_provider_alias (ce_resolve env) prefix
           in node_by_prefix (ce_resolve env) prefix = None \<and> node_by_prefix (ce_resolve env) provider = None \<and>
              keyless env provider \<and> get_provider_connections provider True (ck_table s) = []))"

lemma keyless_member_ident: "ck_ident s' = ck_ident s \<Longrightarrow> keyless_member env s' e = keyless_member env s e"
  using provider_rows_ident(1)[of "ck_table s'" "ck_table s"]
  by (auto simp: keyless_member_def Let_def split: option.splits)

lemma keyless_member_resolves:
  assumes "keyless_member env s e"
  obtains i where "\<And>now x. resolve_entry (ce_resolve env) now [] e x = (Some i, x)" "keyless env (mi_provider i)"
    "get_provider_connections (mi_provider i) True (ck_table s) = []"
proof -
  obtain prefix model where cut: "cut_byte CHR ''/'' e = Some (prefix, model)" using assms by (auto simp: keyless_member_def split: option.splits)
  let ?p = "resolve_provider_alias (ce_resolve env) prefix"
  have "resolve_leaf (ce_resolve env) now prefix model x = (target ?p model [], x)" for now x
    using assms cut by (auto simp: keyless_member_def resolve_leaf_def resolve_prefix_provider_def Let_def)
  then show ?thesis using that[of "target ?p model []"] assms cut by (auto simp: keyless_member_def Let_def entry_slash target_def)
qed

lemma keyless_entry_served:
  assumes "keyless_member env s e" "answers_in_time env timeout e"
  shows "fst (try_entry env call name timeout grace ms (k, e) pa s) = Served"
proof -
  from assms(1) obtain i where i: "\<And>now x. resolve_entry (ce_resolve env) now [] e x = (Some i, x)" "keyless env (mi_provider i)"
    "get_provider_connections (mi_provider i) True (ck_table s) = []" using keyless_member_resolves[OF assms(1)] by metis
  obtain l pa1 s1 where lt: "last_tried env ms pa s = (l, pa1, s1)" by (metis prod_cases3)
  have rows: "get_provider_connections (mi_provider i) True (ck_table s1) = []"
    using i(3) provider_rows_ident(1)[of "ck_table s1" "ck_table s"] last_tried_kept[OF lt] by blast
  then have free: "is_provider_available (mi_provider i) (mi_model i) (ck_now s1) (ck_table s1)" by (simp add: is_provider_available_def)
  let ?dl = "if timeout > 0 \<and> l \<noteq> Some k then Some (ck_now s1 + timeout) else None"
  let ?seat = "\<lparr>se_entry = e, se_info = i, se_conn = None, se_last = (l = Some k)\<rparr>"
  obtain d written took where send: "ce_send env (length (ck_log s1)) ?seat = (d, written, took)" by (metis prod_cases3)
  have "case ce_send env (length (ck_log s1)) ?seat of (d, written, took) \<Rightarrow>
      d = Delivered \<and> (timeout > 0 \<longrightarrow> (case written of None \<Rightarrow> took | Some w \<Rightarrow> w) < timeout)"
    using assms(2) unfolding answers_in_time_def by simp
  then have d: "d = Delivered" "timeout > 0 \<Longrightarrow> (case written of None \<Rightarrow> took | Some w \<Rightarrow> w) < timeout" using send by auto
  obtain r s2 where sent: "send_seat env call ?dl [] (ck_table s1) ?seat s1 = (r, s2)" by fastforce
  have "r = SeatOk" using sent send d by (auto simp: send_seat_def seat_outcome_def Let_def split: if_splits)
  then have "fst (entry_seats env call ?dl e i (l = Some k) (Suc 9) [] pa1 s1) = Served"
    unfolding entry_seats.simps using i(2) sent by (simp add: after_seat_def)
  then show ?thesis using i(1) lt free by (cases "entry_seats env call ?dl e i (l = Some k) (Suc 9) [] pa1 s1") (auto simp: try_entry_def)
qed

lemma members_reach:
  assumes "never_refused env" "\<And>t. \<not> ce_gone env t" "answers_in_time env timeout e"
  shows "keyless_member env s e \<Longrightarrow> \<not> is_guardrail_block (pa_err pa) \<Longrightarrow> e \<in> snd ` set kes \<Longrightarrow>
    \<exists>pa' s'. try_members env call name timeout grace ms kes pa s = (Finished, pa', s') \<and> last_served s'"
proof (induction kes arbitrary: pa s)
  case (Cons ke kes)
  obtain v pa1 s1 where te: "try_entry env call name timeout grace ms ke pa s = (v, pa1, s1)" by (metis prod_cases3)
  have kept: "entry_kept env pa s v pa1 s1" by (rule try_entry_kept[OF te])
  show ?case
  proof (cases "v = Served")
    case True
    then show ?thesis using te kept by (simp add: entry_kept_def)
  next
    case False
    have "e \<noteq> snd ke" using keyless_entry_served[OF Cons.prems(1) assms(3), of call name grace ms "fst ke" pa] te False by auto
    then have "e \<in> snd ` set kes" using Cons.prems(3) by auto
    moreover have "\<not> is_guardrail_block (pa_err pa1)" "keyless_member env s1 e"
      using kept assms(1) Cons.prems(1,2) keyless_member_ident[of s1 s] by (auto simp: entry_kept_def)
    ultimately obtain pa' s' where "try_members env call name timeout grace ms kes pa1 s1 = (Finished, pa', s')" "last_served s'"
      using Cons.IH by blast
    then show ?thesis using te False assms(2) \<open>\<not> is_guardrail_block (pa_err pa1)\<close> by simp
  qed
qed simp

lemma order_of_plan:
  assumes "cp_members p \<noteq> []" "mset (oe_smart (ce_order env) (cp_members p)) = mset (cp_members p)"
    and "mset (oe_tokenmaxxing (ce_order env) (cp_members p)) = mset (cp_members p)"
  obtains ms st where "combo_order (ce_order env) (plan_request env call p) (ck_now s) (ck_bench s) (ck_sticky s) = Some (ms, st)"
    "mset ms \<subseteq># mset (cp_members p)"
    "\<forall>m\<in>set (cp_members p). m \<in> set ms \<or> benched_model (cp_name p) (snd (combo_timeout_policy env (cp_name p))) (ck_now s) (ck_bench s) m"
  using combo_order_facts[of "plan_request env call p" "ce_order env" "ck_now s" "ck_bench s" "ck_sticky s"] assms that
  by (auto simp: plan_request_def)

section \<open>Runs\<close>

text \<open>Members of the provider \<open>p\<close>, which has two accounts, and of \<open>k\<close>, which needs none. The members of \<open>p\<close> fail,
  the others do what \<open>ans\<close> says; the fallback combos of \<open>main\<close> are \<open>f1\<close> and \<open>f2\<close>.\<close>

definition demo_combo_settings :: "string list \<Rightarrow> combo_settings" where
  "demo_combo_settings fbs = \<lparr>cs_strategy = [], cs_sticky = 1, cs_judge = [], cs_timeout_ms = 1000, cs_grace_ms = None,
     cs_stored_order = False, cs_fallbacks = fbs\<rparr>"

definition demo_combo_env :: "(string \<Rightarrow> delivery) \<Rightarrow> combo_env" where
  "demo_combo_env ans = \<lparr>ce_failover = demo_failover_env,
     ce_resolve = (demo_resolve_env [demo_combo ''f1'' [''k/blocked''], demo_combo ''f2'' [''k/m'']])\<lparr>re_settings :=
       Some \<lparr>gs_combos = [(''main'', demo_combo_settings [''f1'', ''f2''])], gs_strategy = [], gs_sticky = 1\<rparr>\<rparr>,
     ce_order = demo_order_env, ce_default_key = (\<lambda>p. if p = ''k'' then ''key'' else []),
     ce_send = (\<lambda>_ seat. let d = ans (se_entry seat) in (d, if d = Delivered then Some millisecond else None, millisecond)), ce_gone = (\<lambda>_. False), ce_jitter = 0,
     ce_error_body = id, ce_refusal_body = id\<rparr>"

definition demo_call :: combo_call where
  "demo_call = \<lparr>cq_session = [], cq_probe = False, cq_stream = False, cq_new_turn = True, cq_required = []\<rparr>"

definition demo_plan :: "string list \<Rightarrow> combo_plan" where
  "demo_plan ms = \<lparr>cp_name = ''main'', cp_members = ms, cp_strategy = ''fallback'', cp_limit = 1\<rparr>"

definition demo_combo_start :: combo_state where
  "demo_combo_start = \<lparr>ck_select = \<lparr>st_table = [demo_conn ''b'', demo_conn ''a''], st_affinity = new_affinity_store 10 hour\<rparr>,
     ck_now = second, ck_log = [], ck_committed = False, ck_bench = [], ck_sticky = Map.empty\<rparr>"

definition calm_answers :: "string \<Rightarrow> delivery" where
  "calm_answers e = (if e = ''k/m'' then Delivered else Undelivered demo_down)"

definition demo_answers :: "string \<Rightarrow> delivery" where
  "demo_answers e = (if e = ''k/blocked'' then Undelivered (Upstream (plain_upstream 451 ''blocked'')) else calm_answers e)"

definition seats_of :: "combo_state \<Rightarrow> (string \<times> string) list" where
  "seats_of s = map (\<lambda>l. (se_entry (sl_seat l), seat_id l)) (ck_log s)"

text \<open>A refusal by a guardrail in a fallback combo does not end the turn: \<open>main\<close> fails, its fallback combo \<open>f1\<close> is turned
  down, and \<open>f2\<close> is sent the same prompt. Inside of one combo the walk stops.\<close>

lemma refusal_in_fallback_combo_goes_on:
  "let r = handle_combo_fallback (demo_combo_env demo_answers) demo_call (demo_plan [''p/m'']) demo_combo_start;
     one = handle_combo_fallback (demo_combo_env demo_answers) demo_call (demo_plan [''k/blocked'', ''k/m'']) demo_combo_start
   in fst r = Answered \<and> seats_of (snd r) = [(''p/m'', ''b''), (''p/m'', ''a''), (''k/blocked'', []), (''k/m'', [])] \<and>
      map blocked (ck_log (snd r)) = [False, False, True, False] \<and>
      fst one = Failed_with (plain_upstream 451 ''blocked'') \<and> seats_of (snd one) = [(''k/blocked'', [])]"
  by code_simp

section \<open>Properties\<close>


text \<open>C6: a refusal by a guardrail is final for the combo: no seat follows one that was turned down, in neither of
  the two passes.\<close>

theorem refusal_ends_the_walk:
  "list_all (\<lambda>l. \<not> blocked l) (butlast (drop (length (ck_log s)) (ck_log (snd (run_members env call p s)))))"
proof (cases env call p s rule: run_members_run)
  case (walked ms st pa new)
  then show ?thesis by (simp add: walk_ok_def list_all_iff)
qed simp





end
