(* ===== verification/Access.thy ===== *)
theory Access
  imports SmartCombo Resolution GoJson
begin

text \<open>
  Which models a key may use: \<open>internal/handlers/chat/access.go\<close> over the patterns of
  \<open>internal/providers/modelpattern.go\<close>. The rows of a key and of its plan are read from the
  database, which may fail; the reads are parameters. The gate resolves the name it is asked for,
  so it takes the state of the selection like a request does.
\<close>

section \<open>Patterns\<close>

definition match_allow_pattern :: "string \<Rightarrow> string \<Rightarrow> bool" where
  "match_allow_pattern pattern0 model =
     (let pat = trim_space pattern0; target = trim_space model
      in if pat = [] \<or> target = [] then False
         else if CHR ''*'' \<notin> set pat then equal_fold pat target
         else if pat = ''*'' then True
         else glob_parts (map to_lower (split_on CHR ''*'' pat)) (to_lower target))"

definition is_deny_entry :: "string \<Rightarrow> string option" where
  "is_deny_entry entry =
     (let trimmed = trim_space entry
      in if length trimmed < 2 \<or> hd trimmed \<noteq> CHR ''!'' \<and> hd trimmed \<noteq> CHR ''-'' then None
         else let term = trim_space (tl trimmed) in if term = [] then None else Some term)"

definition match_deny_entry :: "string \<Rightarrow> string \<Rightarrow> bool" where
  "match_deny_entry term0 candidate0 =
     (let term = trim_space term0; candidate = trim_space candidate0
      in if term = [] \<or> candidate = [] then False
         else match_allow_pattern term candidate \<or> contains_str (to_lower candidate) (to_lower term))"

text \<open>The positive patterns, the denied terms and how many entries there are.\<close>

definition parse_allow_rules :: "string list \<Rightarrow> string list \<times> string list \<times> nat" where
  "parse_allow_rules patterns =
     fold (\<lambda>p (allows, denies, entries).
        let p = trim_space p
        in if p = [] then (allows, denies, entries)
           else case is_deny_entry p of
                  Some term \<Rightarrow> (allows, denies @ [term], entries + 1)
                | None \<Rightarrow> (allows @ [p], denies, entries + 1)) patterns ([], [], 0)"

definition model_allowed :: "string list \<Rightarrow> string list \<Rightarrow> bool" where
  "model_allowed patterns candidates =
     (let (allows, denies, entries) = parse_allow_rules patterns
      in if entries = 0 then True
         else if \<exists>d\<in>set denies. \<exists>c\<in>set candidates. match_deny_entry d c then False
         else if allows = [] then True
         else \<exists>p\<in>set allows. \<exists>c\<in>set candidates. match_allow_pattern p c)"

section \<open>The patterns of a key\<close>

definition union_model_patterns :: "string list \<Rightarrow> string list \<Rightarrow> string list" where
  "union_model_patterns a b =
     fold (\<lambda>m out. let m = trim_space m in if m = [] \<or> m \<in> set out then out else out @ [m]) (a @ b) []"

definition sentinel_deny_all :: string where
  "sentinel_deny_all = ''!*''"

text \<open>A read of a plan: its patterns, no such plan (or no table of plans), or a failure.\<close>

datatype plan_read = PlanRead "string list" | PlanGone | PlanFailed

record access_env =
  ae_repo :: bool
  ae_own :: "string \<Rightarrow> string list option"
  ae_plan :: "string \<Rightarrow> plan_read"
  ae_key_plan :: "string \<Rightarrow> plan_read"

record access_key =
  ak_id :: string
  ak_plan :: "string option"

definition with_plan_patterns :: "access_env \<Rightarrow> string \<Rightarrow> string option \<Rightarrow> string list \<Rightarrow> string list option" where
  "with_plan_patterns acc key_id plan_id own =
     (if \<not> ae_repo acc then Some own
      else let add_plan = (\<lambda>r. case r of
                 PlanRead ps \<Rightarrow> Some (if ps = [] then own else union_model_patterns own ps)
               | PlanGone \<Rightarrow> Some own
               | PlanFailed \<Rightarrow> None)
           in case plan_id of
                Some p \<Rightarrow> (if trim_space p \<noteq> [] then add_plan (ae_plan acc (trim_space p)) else Some own)
              | None \<Rightarrow> add_plan (ae_key_plan acc key_id))"

datatype access_error = PolicyUnavailable | ModelDenied string

definition effective_allowed_models :: "access_env \<Rightarrow> access_key option \<Rightarrow> access_error + string list" where
  "effective_allowed_models acc key =
     (case key of
        None \<Rightarrow> Inr []
      | Some k \<Rightarrow>
          (if ak_id k = [] then Inr []
           else if \<not> ae_repo acc then Inl PolicyUnavailable
           else case Option.bind (ae_own acc (ak_id k)) (with_plan_patterns acc (ak_id k) (ak_plan k)) of
                  None \<Rightarrow> Inl PolicyUnavailable
                | Some ps \<Rightarrow> Inr ps))"

definition allowed_model_patterns :: "access_env \<Rightarrow> string \<Rightarrow> string list" where
  "allowed_model_patterns acc key_id =
     (if key_id = [] then []
      else if \<not> ae_repo acc then [sentinel_deny_all]
      else case Option.bind (ae_own acc key_id) (with_plan_patterns acc key_id None) of
             None \<Rightarrow> [sentinel_deny_all]
           | Some ps \<Rightarrow> ps)"

section \<open>The gate of a request\<close>

definition add_candidate :: "string \<Rightarrow> string list \<Rightarrow> string list" where
  "add_candidate v out = (if v = [] \<or> v \<in> set out then out else out @ [v])"

text \<open>The name without its marker and its suffix.\<close>

definition bare_name :: "string \<Rightarrow> string" where
  "bare_name model =
     (let bare = strip_model_context_marker (trim_space model); clean = fst (parse_suffix bare)
      in if clean \<noteq> [] then clean else bare)"

definition target_id :: "model_info \<Rightarrow> string" where
  "target_id i = mi_provider i @ ''/'' @ mi_model i"

definition access_candidates :: "resolve_env \<Rightarrow> instant \<Rightarrow> string \<Rightarrow> select_state \<Rightarrow> string list \<times> select_state" where
  "access_candidates env now model s =
     (let out = add_candidate model (add_candidate (bare_name model) []);
          (r, s) = resolve_model env now (bare_name model) s
      in (case r of
            Inr i \<Rightarrow> (if mi_provider i \<noteq> [] then add_candidate (target_id i) out else out)
          | Inl _ \<Rightarrow> out, s))"

definition check_model_access ::
  "access_env \<Rightarrow> resolve_env \<Rightarrow> instant \<Rightarrow> access_key option \<Rightarrow> string \<Rightarrow> select_state \<Rightarrow> access_error option \<times> select_state" where
  "check_model_access acc env now key model s =
     (case effective_allowed_models acc key of
        Inl e \<Rightarrow> (Some e, s)
      | Inr ps \<Rightarrow>
          (let (cs, s) = access_candidates env now model s
           in (if model_allowed ps cs then None else Some (ModelDenied model), s)))"

definition model_access_denied_message :: "string \<Rightarrow> string" where
  "model_access_denied_message model = ''This API key is not allowed to use model \"'' @ model @ ''\"''"

text \<open>The status of the answer and its message.\<close>

definition write_model_access_error :: "access_error \<Rightarrow> int \<times> string" where
  "write_model_access_error e =
     (case e of PolicyUnavailable \<Rightarrow> (503, ''Policy service temporarily unavailable'')
      | ModelDenied m \<Rightarrow> (403, model_access_denied_message m))"

text \<open>\<open>None\<close> lets the request through.\<close>

definition enforce_model_access ::
  "access_env \<Rightarrow> resolve_env \<Rightarrow> instant \<Rightarrow> access_key option \<Rightarrow> string \<Rightarrow> select_state \<Rightarrow> (int \<times> string) option \<times> select_state" where
  "enforce_model_access acc env now key model s =
     (if model = [] then (None, s)
      else apfst (map_option write_model_access_error) (check_model_access acc env now key model s))"

section \<open>The listing\<close>

record model_entry =
  me_id :: string
  me_owner :: string

definition model_entry_candidates :: "model_entry \<Rightarrow> string list" where
  "model_entry_candidates m =
     (let owner = trim_space (me_owner m)
      in if owner = [] \<or> owner = ''combo'' then [me_id m] else [me_id m, owner @ ''/'' @ me_id m])"

definition filter_models_by_access :: "access_env \<Rightarrow> access_key option \<Rightarrow> model_entry list \<Rightarrow> access_error + model_entry list" where
  "filter_models_by_access acc key data =
     (case effective_allowed_models acc key of
        Inl e \<Rightarrow> Inl e
      | Inr ps \<Rightarrow> Inr (if ps = [] then data else filter (\<lambda>m. model_allowed ps (model_entry_candidates m)) data))"

text \<open>The listing of one kind of models has entries of its own.\<close>

record kind_entry =
  ke_id :: string
  ke_kind :: string
  ke_owner :: string
  ke_endpoint :: string
  ke_created :: int

definition kind_endpoint :: "string \<Rightarrow> string" where
  "kind_endpoint kind =
     (if kind = ''web'' then ''/v1/search''
      else if kind = ''image'' then ''/v1/images/generations''
      else if kind = ''tts'' then ''/v1/audio/speech''
      else if kind = ''stt'' then ''/v1/audio/transcriptions''
      else if kind = ''embedding'' then ''/v1/embeddings''
      else if kind = ''rerank'' then ''/v1/rerank''
      else if kind = ''systemone'' then ''/v1/systemone''
      else ''/v1/chat/completions'')"

definition kind_entries_as_model_info :: "(string \<times> json) list list \<Rightarrow> model_entry list" where
  "kind_entries_as_model_info data =
     map (\<lambda>e. let i = obj_string e ''id''; owner = obj_string e ''owned_by''
              in \<lparr>me_id = i, me_owner = (if owner = [] then i else owner)\<rparr>) data"

definition kind_entries_from_model_info :: "model_entry list \<Rightarrow> string \<Rightarrow> int \<Rightarrow> kind_entry list" where
  "kind_entries_from_model_info data kind created =
     map (\<lambda>m.
        let (k, endpoint) =
          (if kind = ''web''
           then (if has_suffix ''/search'' (me_id m) then (''webSearch'', ''/v1/search'')
                 else if has_suffix ''/fetch'' (me_id m) then (''webFetch'', ''/v1/web/fetch'')
                 else (kind, kind_endpoint kind))
           else (kind, kind_endpoint kind))
        in \<lparr>ke_id = me_id m, ke_kind = k, ke_owner = me_owner m, ke_endpoint = endpoint, ke_created = created\<rparr>) data"

section \<open>The decision\<close>

text \<open>The entries of a list that are not blank.\<close>

definition rules_of :: "string list \<Rightarrow> string set" where
  "rules_of patterns = {trim_space p | p. p \<in> set patterns \<and> trim_space p \<noteq> []}"

definition rejects :: "string \<Rightarrow> string list \<Rightarrow> bool" where
  "rejects e candidates \<longleftrightarrow> (\<exists>t. is_deny_entry e = Some t \<and> (\<exists>c\<in>set candidates. match_deny_entry t c))"

definition grants :: "string \<Rightarrow> string list \<Rightarrow> bool" where
  "grants e candidates \<longleftrightarrow> is_deny_entry e = None \<and> (\<exists>c\<in>set candidates. match_allow_pattern e c)"

lemma rules_of_simps [simp]:
  "rules_of [] = {}" "rules_of (p # ps) = (if trim_space p = [] then {} else {trim_space p}) \<union> rules_of ps"
  "rules_of (ps @ qs) = rules_of ps \<union> rules_of qs"
  by (auto simp: rules_of_def)

lemma parse_allow_rules_from:
  "fold (\<lambda>p (allows, denies, entries).
        let p = trim_space p
        in if p = [] then (allows, denies, entries)
           else case is_deny_entry p of
                  Some term \<Rightarrow> (allows, denies @ [term], entries + 1)
                | None \<Rightarrow> (allows @ [p], denies, entries + (1 :: nat))) patterns (a, d, n) = (a', d', n') \<Longrightarrow>
    set a' = set a \<union> {p \<in> rules_of patterns. is_deny_entry p = None} \<and>
    set d' = set d \<union> {t. \<exists>p\<in>rules_of patterns. is_deny_entry p = Some t} \<and>
    (n' = 0 \<longleftrightarrow> n = 0 \<and> rules_of patterns = {})"
proof (induction patterns arbitrary: a d n)
  case Nil
  then show ?case by (simp add: rules_of_def)
next
  case (Cons p ps)
  note rules = rules_of_simps(2)
  show ?case
  proof (cases "trim_space p = []")
    case True
    then show ?thesis using Cons rules by simp
  next
    case False
    show ?thesis
    proof (cases "is_deny_entry (trim_space p)")
      case None
      then show ?thesis using Cons.IH[of "a @ [trim_space p]" d "n + 1"] Cons.prems False rules by (auto simp: Let_def)
    next
      case (Some t)
      then show ?thesis using Cons.IH[of a "d @ [t]" "n + 1"] Cons.prems False rules by (auto simp: Let_def)
    qed
  qed
qed

lemma model_allowed_iff:
  "model_allowed patterns cs \<longleftrightarrow>
     rules_of patterns = {} \<or>
     (\<forall>e\<in>rules_of patterns. \<not> rejects e cs) \<and>
     ((\<forall>e\<in>rules_of patterns. is_deny_entry e \<noteq> None) \<or> (\<exists>e\<in>rules_of patterns. grants e cs))"
proof -
  obtain a d n where p: "parse_allow_rules patterns = (a, d, n)" by (metis prod_cases3)
  have f: "set a = {p \<in> rules_of patterns. is_deny_entry p = None}" "set d = {t. \<exists>p\<in>rules_of patterns. is_deny_entry p = Some t}"
    "n = 0 \<longleftrightarrow> rules_of patterns = {}"
    using parse_allow_rules_from[OF p[unfolded parse_allow_rules_def]] by simp_all
  have "a = [] \<longleftrightarrow> (\<forall>e\<in>rules_of patterns. is_deny_entry e \<noteq> None)" using f(1) by (auto simp flip: set_empty)
  moreover have "(\<exists>d\<in>set d. \<exists>c\<in>set cs. match_deny_entry d c) \<longleftrightarrow> (\<exists>e\<in>rules_of patterns. rejects e cs)" by (auto simp: f(2) rejects_def)
  moreover have "(\<exists>p\<in>set a. \<exists>c\<in>set cs. match_allow_pattern p c) \<longleftrightarrow> (\<exists>e\<in>rules_of patterns. grants e cs)" by (auto simp: f(1) grants_def)
  ultimately show ?thesis using f(3) by (auto simp: model_allowed_def p)
qed

lemma union_rules_from:
  "rules_of (fold (\<lambda>m out. let m = trim_space m in if m = [] \<or> m \<in> set out then out else out @ [m]) ms out) = rules_of out \<union> rules_of ms"
proof (induction ms arbitrary: out)
  case (Cons m ms)
  have "trim_space m \<in> rules_of out" if "trim_space m \<in> set out" "trim_space m \<noteq> []"
    using that trim_space_idem[of m] unfolding rules_of_def by (metis (mono_tags, lifting) mem_Collect_eq)
  then show ?case using Cons.IH[of out] Cons.IH[of "out @ [trim_space m]"] by (auto simp: Let_def)
qed simp

lemma rules_of_union: "rules_of (union_model_patterns a b) = rules_of a \<union> rules_of b"
  unfolding union_model_patterns_def union_rules_from by simp

section \<open>The name of a request\<close>

lemma bare_name_annotated:
  assumes "m \<noteq> []" "trim_space m = m" "strip_model_context_marker m = m" "fst (parse_suffix m) = m"
    and "l \<noteq> []" "CHR ''('' \<notin> set l" "CHR '')'' \<notin> set l"
  shows "bare_name m = m" "bare_name (m @ ''('' @ l @ '')'') = m" "bare_name (m @ ''[1m]'') = m" "bare_name ((m @ ''('' @ l @ '')'') @ ''[1m]'') = m"
proof -
  have t: "trim_space (m @ ''('' @ l @ '')'') = m @ ''('' @ l @ '')''" using trim_space_more[OF assms(2,1), of "''('' @ l @ '')''"] by (simp add: is_space_def)
  have t': "trim_space (m @ ''[1m]'') = m @ ''[1m]''" using trim_space_more[OF assms(2,1), of "''[1m]''"] by (simp add: is_space_def)
  have t'': "trim_space ((m @ ''('' @ l @ '')'') @ ''[1m]'') = (m @ ''('' @ l @ '')'') @ ''[1m]''"
    by (rule trim_space_more[OF t]) (simp_all add: is_space_def)
  have p: "fst (parse_suffix (m @ ''('' @ l @ '')'')) = m" using parse_suffix_level[OF assms(5-7), of m] assms(2) by simp
  have ne: "m @ ''('' @ l @ '')'' \<noteq> []" by simp
  show "bare_name m = m" unfolding bare_name_def using assms(1-4) by simp
  show "bare_name (m @ ''('' @ l @ '')'') = m" unfolding bare_name_def t marker_misses[OF assms(2,1)] Let_def p using assms(1) by simp
  show "bare_name (m @ ''[1m]'') = m" unfolding bare_name_def t' marker_strips[OF assms(2,1)] Let_def assms(4) using assms(1) by simp
  show "bare_name ((m @ ''('' @ l @ '')'') @ ''[1m]'') = m"
    unfolding bare_name_def t'' marker_strips[OF t ne] Let_def p using assms(1) by simp
qed

lemma set_add_candidate [simp]: "set (add_candidate v out) = set out \<union> (if v = [] then {} else {v})"
  by (auto simp: add_candidate_def)

lemma access_candidates_set:
  "set (fst (access_candidates env now model s)) = {c \<in> {model, bare_name model}. c \<noteq> []} \<union>
     (case fst (resolve_model env now (bare_name model) s) of Inr i \<Rightarrow> if mi_provider i \<noteq> [] then {target_id i} else {} | Inl _ \<Rightarrow> {})"
  "snd (access_candidates env now model s) = snd (resolve_model env now (bare_name model) s)"
proof -
  let ?out = "add_candidate model (add_candidate (bare_name model) [])"
  obtain r s1 where r: "resolve_model env now (bare_name model) s = (r, s1)" by fastforce
  have base: "set ?out = {c \<in> {model, bare_name model}. c \<noteq> []}" by auto
  have "target_id i \<noteq> []" for i by (simp add: target_id_def)
  then show "set (fst (access_candidates env now model s)) = {c \<in> {model, bare_name model}. c \<noteq> []} \<union>
     (case fst (resolve_model env now (bare_name model) s) of Inr i \<Rightarrow> if mi_provider i \<noteq> [] then {target_id i} else {} | Inl _ \<Rightarrow> {})"
    unfolding access_candidates_def r Let_def base[symmetric] by (cases r) simp_all
  show "snd (access_candidates env now model s) = snd (resolve_model env now (bare_name model) s)"
    unfolding access_candidates_def r Let_def by simp
qed

lemma allowed_for_more:
  assumes "model_allowed patterns cs" "set cs \<subseteq> set ds" "\<forall>e\<in>rules_of patterns. is_deny_entry e = None"
  shows "model_allowed patterns ds"
proof -
  have "\<not> rejects e ds" if "e \<in> rules_of patterns" for e using assms(3) that by (simp add: rejects_def)
  moreover have "grants e ds" if "grants e cs" for e using that assms(2) by (auto simp: grants_def)
  ultimately show ?thesis using assms(1) unfolding model_allowed_iff by blast
qed

text \<open>When the rows of a key deny nothing, every combo that is listed for it may be called: the gate looks at more names of a
  model than the listing does.\<close>

lemma listed_combo_is_callable:
  assumes "effective_allowed_models acc key = Inr patterns" "\<forall>p\<in>set patterns. is_deny_entry p = None"
    and "filter_models_by_access acc key data = Inr shown" "m \<in> set shown" "me_id m \<noteq> []" "trim_space (me_owner m) = ''combo''"
  shows "fst (enforce_model_access acc env now key (me_id m) s) = None"
proof -
  let ?cs = "fst (access_candidates env now (me_id m) s)"
  have allowed: "patterns = [] \<or> model_allowed patterns [me_id m]"
    using assms(1,3,4,6) by (auto simp: filter_models_by_access_def model_entry_candidates_def split: if_splits)
  have "is_deny_entry (trim_space p) = is_deny_entry p" for p by (simp add: is_deny_entry_def)
  then have free: "\<forall>e\<in>rules_of patterns. is_deny_entry e = None" using assms(2) by (auto simp: rules_of_def)
  have "set [me_id m] \<subseteq> set ?cs" using assms(5) access_candidates_set(1)[of env now "me_id m" s] by simp
  then have "model_allowed patterns ?cs" if "patterns \<noteq> []" using that allowed allowed_for_more[OF _ _ free] by blast
  moreover have "model_allowed [] ?cs" by (simp add: model_allowed_iff)
  ultimately have "model_allowed patterns ?cs" by (cases "patterns = []") simp_all
  then show ?thesis using assms(1,5)
    by (cases "access_candidates env now (me_id m) s") (simp add: enforce_model_access_def check_model_access_def)
qed

section \<open>Runs\<close>

text \<open>A key with the rows \<open>own\<close> and a plan with the rows \<open>plan\<close>; the alias \<open>cc\<close> of the provider \<open>claude\<close>; a combo.\<close>

definition demo_access_env :: "string list \<Rightarrow> string list \<Rightarrow> access_env" where
  "demo_access_env own plan = \<lparr>ae_repo = True, ae_own = (\<lambda>_. Some own), ae_plan = (\<lambda>_. PlanRead plan), ae_key_plan = (\<lambda>_. PlanRead plan)\<rparr>"

definition demo_key :: access_key where
  "demo_key = \<lparr>ak_id = ''key'', ak_plan = Some ''gold''\<rparr>"

definition demo_alias_env :: resolve_env where
  "demo_alias_env = (demo_resolve_env [demo_combo ''fast'' [''cc/haiku'', ''cc/opus'']])\<lparr>
     re_provider_alias := \<lambda>p. if p = ''cc'' then Some ''claude'' else None\<rparr>"

definition demo_select :: select_state where
  "demo_select = \<lparr>st_table = [], st_affinity = new_affinity_store 10 hour\<rparr>"

definition demo_gate :: "string list \<Rightarrow> string \<Rightarrow> int option" where
  "demo_gate own model = map_option fst (fst (enforce_model_access (demo_access_env own []) demo_alias_env 0 (Some demo_key) model demo_select))"

definition demo_listed :: "string list \<Rightarrow> string \<Rightarrow> string \<Rightarrow> bool" where
  "demo_listed own model owner =
     (case filter_models_by_access (demo_access_env own []) (Some demo_key) [\<lparr>me_id = model, me_owner = owner\<rparr>] of
        Inl _ \<Rightarrow> False | Inr es \<Rightarrow> es \<noteq> [])"

text \<open>The listing names a model by the alias of its provider, and the gate adds the provider itself: a row that names the
  provider lets a model through that is not listed, and a denied provider is listed but refused.\<close>

lemma listing_disagrees_on_provider:
  "\<not> demo_listed [''claude/*''] ''cc/opus'' ''cc'' \<and> demo_gate [''claude/*''] ''cc/opus'' = None \<and>
   demo_listed [''!claude''] ''cc/opus'' ''cc'' \<and> demo_gate [''!claude''] ''cc/opus'' = Some 403"
  by code_simp

text \<open>The gate also looks at the first leaf of a combo: allowing that leaf allows the combo, with all its other members, and
  denying it denies the combo that is listed.\<close>

lemma first_leaf_decides_for_combo:
  "demo_gate [''claude/haiku''] ''fast'' = None \<and> \<not> demo_listed [''claude/haiku''] ''fast'' ''combo'' \<and>
   demo_gate [''-haiku''] ''fast'' = Some 403 \<and> demo_listed [''-haiku''] ''fast'' ''combo'' \<and>
   demo_gate [''-opus''] ''fast'' = None"
  by code_simp

text \<open>A plan that grants one model takes all the others from a key whose own rows only deny, and a plan can deny.\<close>

lemma plan_takes_models_away:
  "model_allowed [''!haiku''] [''cc/opus''] \<and> \<not> model_allowed (union_model_patterns [''!haiku''] [''cc/sonnet'']) [''cc/opus''] \<and>
   model_allowed [''cc/*''] [''cc/opus''] \<and> \<not> model_allowed (union_model_patterns [''cc/*''] [''!opus'']) [''cc/opus'']"
  by code_simp

section \<open>Properties\<close>

text \<open>C21: a denied model stays out of reach however it is spelled: when an entry of the key (its own or one of its plan)
  denies the provider and model a name resolves to, then the name, the name with a reasoning suffix, with the context marker
  and with both are all refused with 403.\<close>

theorem denied_target_is_refused:
  assumes "m \<noteq> []" "trim_space m = m" "strip_model_context_marker m = m" "fst (parse_suffix m) = m"
    and "l \<noteq> []" "CHR ''('' \<notin> set l" "CHR '')'' \<notin> set l"
    and "name \<in> {m, m @ ''('' @ l @ '')'', m @ ''[1m]'', (m @ ''('' @ l @ '')'') @ ''[1m]''}"
    and "effective_allowed_models acc key = Inr patterns" "p \<in> set patterns" "is_deny_entry p = Some t"
    and "resolve_model env now m s = (Inr i, s')" "mi_provider i \<noteq> []" "match_deny_entry t (mi_provider i @ ''/'' @ mi_model i)"
  shows "enforce_model_access acc env now key name s = (Some (403, model_access_denied_message name), s')"
proof -
  have bare: "bare_name name = m" "name \<noteq> []" using bare_name_annotated[OF assms(1-7)] assms(1,8) by auto
  obtain cs where cs: "access_candidates env now name s = (cs, s')" "target_id i \<in> set cs"
    using access_candidates_set[of env now name s] assms(12,13) bare by (cases "access_candidates env now name s") simp
  have deny: "is_deny_entry (trim_space p) = Some t" "trim_space p \<noteq> []"
    using assms(11) by (auto simp: is_deny_entry_def Let_def split: if_splits)
  then have "trim_space p \<in> rules_of patterns" using assms(10) by (auto simp: rules_of_def)
  moreover have "rejects (trim_space p) cs" using deny(1) cs(2) assms(14) by (auto simp: rejects_def target_id_def)
  ultimately have "\<not> model_allowed patterns cs" by (auto simp: model_allowed_iff)
  then show ?thesis using bare(2) cs(1) assms(9)
    by (simp add: enforce_model_access_def check_model_access_def write_model_access_error_def)
qed

lemma denied_target_is_refused_witness:
  "enforce_model_access (demo_access_env [''cc/*''] [''-claude/opus'']) demo_alias_env 0 (Some demo_key) ''cc/opus(high)[1m]'' demo_select =
     (Some (403, ''This API key is not allowed to use model \"cc/opus(high)[1m]\"''), demo_select)"
proof -
  have plain: "trim_space ''cc/opus'' = ''cc/opus''" "strip_model_context_marker ''cc/opus'' = ''cc/opus''" "fst (parse_suffix ''cc/opus'') = ''cc/opus''"
    by code_simp+
  have eff: "effective_allowed_models (demo_access_env [''cc/*''] [''-claude/opus'']) (Some demo_key) = Inr [''cc/*'', ''-claude/opus'']" by code_simp
  have res: "resolve_model demo_alias_env 0 ''cc/opus'' demo_select = (Inr (target ''claude'' ''opus'' []), demo_select)"
    unfolding demo_select_def by code_simp
  have "enforce_model_access (demo_access_env [''cc/*''] [''-claude/opus'']) demo_alias_env 0 (Some demo_key)
      ((''cc/opus'' @ ''('' @ ''high'' @ '')'') @ ''[1m]'') demo_select =
    (Some (403, model_access_denied_message ((''cc/opus'' @ ''('' @ ''high'' @ '')'') @ ''[1m]'')), demo_select)"
    by (rule denied_target_is_refused[OF _ plain _ _ _ _ eff _ _ res, of "''high''" _ "''-claude/opus''" "''claude/opus''"])
      (simp_all add: target_def, code_simp+)
  then show ?thesis by (simp add: model_access_denied_message_def)
qed

text \<open>C22: a policy that cannot be read refuses: when the rows of a key or its plan fail to be read, every request for a model
  is answered with 503 before anything is resolved, nothing is listed, and the loader by key id denies every model.\<close>

theorem unread_policy_refuses:
  assumes "ak_id k \<noteq> []" "model \<noteq> []" "ae_repo acc"
    and "ae_own acc (ak_id k) = None \<or>
      (case ak_plan k of None \<Rightarrow> ae_key_plan acc (ak_id k) = PlanFailed
       | Some p \<Rightarrow> trim_space p \<noteq> [] \<and> ae_plan acc (trim_space p) = PlanFailed \<and> ae_key_plan acc (ak_id k) = PlanFailed)"
  shows "enforce_model_access acc env now (Some k) model s = (Some (503, ''Policy service temporarily unavailable''), s) \<and>
    filter_models_by_access acc (Some k) data = Inl PolicyUnavailable \<and>
    (\<forall>cs. model_allowed (allowed_model_patterns acc (ak_id k)) cs = list_all (\<lambda>c. trim_space c = []) cs)"
proof -
  have "Option.bind (ae_own acc (ak_id k)) (with_plan_patterns acc (ak_id k) (ak_plan k)) = None"
    and by_id: "Option.bind (ae_own acc (ak_id k)) (with_plan_patterns acc (ak_id k) None) = None"
    using assms(3,4) by (auto simp: with_plan_patterns_def Let_def bind_eq_None_conv split: option.splits)
  then have "effective_allowed_models acc (Some k) = Inl PolicyUnavailable" using assms(1,3) by (simp add: effective_allowed_models_def)
  moreover have "allowed_model_patterns acc (ak_id k) = [sentinel_deny_all]" using assms(1,3) by_id by (simp add: allowed_model_patterns_def)
  moreover have "model_allowed [sentinel_deny_all] cs = list_all (\<lambda>c. trim_space c = []) cs" for cs
  proof -
    have trim: "trim_space sentinel_deny_all = sentinel_deny_all" "sentinel_deny_all \<noteq> []" "is_deny_entry sentinel_deny_all = Some ''*''" by code_simp+
    have star: "trim_space ''*'' = ''*''" by code_simp
    have "match_deny_entry ''*'' c \<longleftrightarrow> trim_space c \<noteq> []" for c
      using star by (simp add: match_deny_entry_def match_allow_pattern_def Let_def)
    then have "rejects sentinel_deny_all cs \<longleftrightarrow> \<not> list_all (\<lambda>c. trim_space c = []) cs" using trim(3) by (auto simp: rejects_def list_all_iff)
    then show ?thesis using trim by (simp add: model_allowed_iff)
  qed
  ultimately show ?thesis using assms(2)
    by (simp add: enforce_model_access_def check_model_access_def write_model_access_error_def filter_models_by_access_def)
qed

lemma unread_policy_refuses_witness:
  "fst (enforce_model_access ((demo_access_env [] [])\<lparr>ae_plan := \<lambda>_. PlanFailed, ae_key_plan := \<lambda>_. PlanFailed\<rparr>) demo_alias_env 0 (Some demo_key) ''cc/opus'' demo_select) =
     Some (503, ''Policy service temporarily unavailable'')"
proof -
  let ?acc = "(demo_access_env [] [])\<lparr>ae_plan := \<lambda>_. PlanFailed, ae_key_plan := \<lambda>_. PlanFailed\<rparr>"
  have "trim_space ''gold'' \<noteq> []" by code_simp
  then show ?thesis using unread_policy_refuses[of demo_key "''cc/opus''" ?acc demo_alias_env 0 demo_select "[]"]
    by (simp add: demo_key_def demo_access_env_def)
qed



end
