(* ===== verification/NetGuard.thy ===== *)
theory NetGuard
  imports GoStrings "HOL-Library.Word"
begin

text \<open>
  Which addresses an outbound request may not reach: \<open>internal/netguard/netguard.go\<close> and
  \<open>internal/handlerutil/ssrf.go\<close>. An address of Go's \<open>net.IP\<close> is its sixteen bytes, a 128-bit
  word; an IPv4 address is the mapped one. The resolver and \<open>net.ParseIP\<close> are parameters, and a URL
  is given by its host, \<open>None\<close> when it does not parse.
\<close>

unbundle bit_operations_syntax

section \<open>IPv4\<close>

definition ip4 :: "8 word \<Rightarrow> 8 word \<Rightarrow> 8 word \<Rightarrow> 8 word \<Rightarrow> 32 word" where
  "ip4 a b c d = push_bit 24 (ucast a) OR push_bit 16 (ucast b) OR push_bit 8 (ucast c) OR ucast d"

definition blocked_ipv4_ranges :: "(32 word \<times> nat) list" where
  "blocked_ipv4_ranges =
     [(ip4 0 0 0 0, 8), (ip4 10 0 0 0, 8), (ip4 100 64 0 0, 10), (ip4 127 0 0 0, 8), (ip4 169 254 0 0, 16), (ip4 172 16 0 0, 12),
      (ip4 192 168 0 0, 16)]"

definition is_blocked_ipv4_int :: "32 word \<Rightarrow> bool" where
  "is_blocked_ipv4_int ip \<longleftrightarrow>
     (\<exists>(network, m)\<in>set blocked_ipv4_ranges. let k = push_bit (32 - m) 0xFFFFFFFF in ip AND k = network AND k)"

text \<open>One decimal part: no leading zero, at most 255.\<close>

definition ipv4_part :: "string \<Rightarrow> int option" where
  "ipv4_part p =
     (if p = [] then None
      else case atoi p of
             None \<Rightarrow> None
           | Some n \<Rightarrow> (if n < 0 \<or> n > 255 then None else if length p > 1 \<and> hd p = CHR ''0'' then None else Some n))"

definition ipv4_to_int :: "string \<Rightarrow> 32 word option" where
  "ipv4_to_int host =
     (let parts = split_on CHR ''.'' host
      in if length parts \<noteq> 4 then None
         else fold (\<lambda>p acc. case acc of
                None \<Rightarrow> None
              | Some ip \<Rightarrow> map_option (\<lambda>n. push_bit 8 ip OR word_of_int n) (ipv4_part p)) parts (Some 0))"

definition is_blocked_ipv4 :: "string \<Rightarrow> bool" where
  "is_blocked_ipv4 host \<longleftrightarrow> (case ipv4_to_int host of None \<Rightarrow> False | Some v \<Rightarrow> is_blocked_ipv4_int v)"

section \<open>IPv6\<close>

definition hex_val :: "char \<Rightarrow> int option" where
  "hex_val c =
     (let n = of_char c :: int
      in if 48 \<le> n \<and> n \<le> 57 then Some (n - 48)
         else if 97 \<le> n \<and> n \<le> 102 then Some (n - 87)
         else if 65 \<le> n \<and> n \<le> 70 then Some (n - 55)
         else None)"

definition hex_number :: "string \<Rightarrow> int" where
  "hex_number s = foldl (\<lambda>n c. 16 * n + the (hex_val c)) 0 s"

definition is_hextet :: "string \<Rightarrow> bool" where
  "is_hextet seg \<longleftrightarrow> seg \<noteq> [] \<and> length seg \<le> 4 \<and> list_all (\<lambda>c. hex_val c \<noteq> None) seg"

definition parse_hextets :: "string \<Rightarrow> int list option" where
  "parse_hextets s =
     (if s = [] then Some []
      else let segs = split_on CHR '':'' s in if list_all is_hextet segs then Some (map hex_number segs) else None)"

text \<open>The first place from which the rest of the host is four groups of one to three digits between dots.\<close>

definition dotted :: "string \<Rightarrow> bool" where
  "dotted s \<longleftrightarrow>
     (let parts = split_on CHR ''.'' s
      in length parts = 4 \<and> list_all (\<lambda>p. p \<noteq> [] \<and> length p \<le> 3 \<and> list_all is_digit p) parts)"

primrec ipv4_tail :: "string \<Rightarrow> string option" where
  "ipv4_tail [] = None"
| "ipv4_tail (c # s) = (if dotted (c # s) then Some (c # s) else ipv4_tail s)"

text \<open>\<open>strings.Split\<close> on \<open>::\<close>.\<close>

fun split_gap :: "string \<Rightarrow> string list" where
  "split_gap [] = [[]]"
| "split_gap [a] = [[a]]"
| "split_gap (a # b # s) =
     (if a = CHR '':'' \<and> b = CHR '':'' then [] # split_gap s
      else case split_gap (b # s) of [] \<Rightarrow> [[a]] | p # ps \<Rightarrow> (a # p) # ps)"

text \<open>The host without its dotted tail, and the two groups of the tail.\<close>

definition cut_ipv4_tail :: "string \<Rightarrow> (string \<times> int list) option" where
  "cut_ipv4_tail host =
     (case ipv4_tail host of
        None \<Rightarrow> Some (host, [])
      | Some m \<Rightarrow>
          (case ipv4_to_int m of
             None \<Rightarrow> None
           | Some v \<Rightarrow>
               (let host = take (length host - length m) host
                in Some (if has_suffix ''::'' host then host else if has_suffix '':'' host then butlast host else host,
                     [uint (drop_bit 16 v AND 0xFFFF), uint (v AND 0xFFFF)]))))"

definition parse_ipv6_to_groups :: "string \<Rightarrow> int list option" where
  "parse_ipv6_to_groups raw =
     (case cut_ipv4_tail (to_lower raw) of
        None \<Rightarrow> None
      | Some (host, v4) \<Rightarrow>
          (let parts = split_gap host;
               groups =
                 (if length parts > 2 then None
                  else if length parts = 2
                  then (case (parse_hextets (parts ! 0), parse_hextets (parts ! 1)) of
                          (Some head, Some tail) \<Rightarrow>
                            (let missing = 8 - int (length head) - int (length tail) - int (length v4)
                             in if missing < 0 then None else Some (head @ replicate (nat missing) 0 @ tail @ v4))
                        | _ \<Rightarrow> None)
                  else map_option (\<lambda>all. all @ v4) (parse_hextets host))
           in case groups of None \<Rightarrow> None | Some g \<Rightarrow> if length g \<noteq> 8 then None else Some g))"

definition low32 :: "int list \<Rightarrow> 32 word" where
  "low32 g = push_bit 16 (word_of_int (g ! 6)) OR word_of_int (g ! 7)"

definition is_blocked_ipv6_groups :: "int list \<Rightarrow> bool" where
  "is_blocked_ipv6_groups g \<longleftrightarrow>
     length g = 8 \<and>
     (let zero = (\<lambda>n. g ! n = 0)
      in if zero 0 \<and> zero 1 \<and> zero 2 \<and> zero 3 \<and> zero 4 \<and> zero 5 \<and> zero 6 \<and> g ! 7 = 1 then True
         else if zero 0 \<and> zero 1 \<and> zero 2 \<and> zero 3 \<and> zero 4 \<and> zero 5 \<and> zero 6 \<and> zero 7 then True
         else if g ! 0 AND 0xFFC0 = 0xFE80 then True
         else if g ! 0 AND 0xFE00 = 0xFC00 then True
         else if zero 0 \<and> zero 1 \<and> zero 2 \<and> zero 3 \<and> zero 4 \<and> g ! 5 = 0xFFFF then is_blocked_ipv4_int (low32 g)
         else if g ! 0 = 0x64 \<and> g ! 1 = 0xFF9B \<and> zero 2 \<and> zero 3 \<and> zero 4 \<and> zero 5 then is_blocked_ipv4_int (low32 g)
         else if zero 0 \<and> zero 1 \<and> zero 2 \<and> zero 3 \<and> zero 4 \<and> zero 5 \<and> low32 g \<noteq> 0 \<and> low32 g \<noteq> 1 then is_blocked_ipv4_int (low32 g)
         else False)"

section \<open>Hosts\<close>

definition normalize_host :: "string \<Rightarrow> string" where
  "normalize_host hostname = to_lower (rev (dropWhile (\<lambda>c. c = CHR ''.'') (rev hostname)))"

definition trim_brackets :: "string \<Rightarrow> string" where
  "trim_brackets s = (let cut = dropWhile (\<lambda>c. c = CHR ''['' \<or> c = CHR '']'') in rev (cut (rev (cut s))))"

definition blocked_hostnames :: "string list" where
  "blocked_hostnames = [''localhost'', ''ip6-localhost'', ''ip6-loopback'']"

definition blocked_suffixes :: "string list" where
  "blocked_suffixes = [''.internal'', ''.local'', ''.localhost'']"

definition is_blocked_host :: "string \<Rightarrow> bool" where
  "is_blocked_host host \<longleftrightarrow>
     host \<in> set blocked_hostnames \<or> list_ex (\<lambda>s. has_suffix s host) blocked_suffixes \<or> is_blocked_ipv4 host \<or>
     CHR '':'' \<in> set host \<and> (case parse_ipv6_to_groups (trim_brackets host) of None \<Rightarrow> False | Some g \<Rightarrow> is_blocked_ipv6_groups g)"

section \<open>Addresses of the resolver\<close>

type_synonym ip_addr = "128 word"

definition to4 :: "ip_addr \<Rightarrow> 32 word option" where
  "to4 ip = (if drop_bit 32 ip = 0xFFFF then Some (ucast ip) else None)"

definition of4 :: "32 word \<Rightarrow> ip_addr" where
  "of4 v = push_bit 32 0xFFFF OR ucast v"

definition byte :: "nat \<Rightarrow> ip_addr \<Rightarrow> int" where
  "byte i ip = uint (take_bit 8 (drop_bit (120 - 8 * i) ip))"

definition byte4 :: "nat \<Rightarrow> 32 word \<Rightarrow> int" where
  "byte4 i v = uint (take_bit 8 (drop_bit (24 - 8 * i) v))"

definition ip_is_loopback :: "ip_addr \<Rightarrow> bool" where
  "ip_is_loopback ip \<longleftrightarrow> (case to4 ip of Some v \<Rightarrow> byte4 0 v = 127 | None \<Rightarrow> ip = 1)"

definition ip_is_private :: "ip_addr \<Rightarrow> bool" where
  "ip_is_private ip \<longleftrightarrow>
     (case to4 ip of
        Some v \<Rightarrow> byte4 0 v = 10 \<or> byte4 0 v = 172 \<and> byte4 1 v AND 0xF0 = 16 \<or> byte4 0 v = 192 \<and> byte4 1 v = 168
      | None \<Rightarrow> byte 0 ip AND 0xFE = 0xFC)"

definition ip_is_link_local_unicast :: "ip_addr \<Rightarrow> bool" where
  "ip_is_link_local_unicast ip \<longleftrightarrow>
     (case to4 ip of Some v \<Rightarrow> byte4 0 v = 169 \<and> byte4 1 v = 254 | None \<Rightarrow> byte 0 ip = 0xFE \<and> byte 1 ip AND 0xC0 = 0x80)"

definition ip_is_link_local_multicast :: "ip_addr \<Rightarrow> bool" where
  "ip_is_link_local_multicast ip \<longleftrightarrow>
     (case to4 ip of Some v \<Rightarrow> byte4 0 v = 224 \<and> byte4 1 v = 0 \<and> byte4 2 v = 0 | None \<Rightarrow> byte 0 ip = 0xFF \<and> byte 1 ip AND 0x0F = 0x02)"

definition ip_is_unspecified :: "ip_addr \<Rightarrow> bool" where
  "ip_is_unspecified ip \<longleftrightarrow> ip = of4 0 \<or> ip = 0"

definition ip_is_multicast :: "ip_addr \<Rightarrow> bool" where
  "ip_is_multicast ip \<longleftrightarrow> (case to4 ip of Some v \<Rightarrow> byte4 0 v AND 0xF0 = 0xE0 | None \<Rightarrow> byte 0 ip = 0xFF)"

text \<open>Networks of \<open>net.ParseCIDR\<close> with \<open>IPNet.Contains\<close>: a network of one family has no address of the other.\<close>

datatype cidr = Cidr4 "32 word" nat | Cidr6 "128 word" nat

fun cidr_contains :: "cidr \<Rightarrow> ip_addr \<Rightarrow> bool" where
  "cidr_contains (Cidr4 network n) ip = (case to4 ip of None \<Rightarrow> False | Some v \<Rightarrow> drop_bit (32 - n) v = drop_bit (32 - n) network)"
| "cidr_contains (Cidr6 network n) ip = (to4 ip = None \<and> drop_bit (128 - n) ip = drop_bit (128 - n) network)"

section \<open>The guard of the dialler\<close>

record net_env =
  ne_parse_ip :: "string \<Rightarrow> ip_addr option"
  ne_lookup :: "string \<Rightarrow> ip_addr list option"

definition parse_ip_zoned :: "net_env \<Rightarrow> string \<Rightarrow> ip_addr option" where
  "parse_ip_zoned env host = ne_parse_ip env (case index_byte CHR ''%'' host of Some i \<Rightarrow> take i host | None \<Rightarrow> host)"

definition cidr_blocks :: "cidr list" where
  "cidr_blocks =
     [Cidr4 (ip4 100 64 0 0) 10, Cidr4 (ip4 192 0 0 0) 24, Cidr4 (ip4 198 18 0 0) 15, Cidr4 (ip4 192 88 99 0) 24,
      Cidr4 (ip4 198 51 100 0) 24, Cidr4 (ip4 203 0 113 0) 24, Cidr6 0 128,
      Cidr6 (0x64FF9B0001 * 2 ^ 80) 48, Cidr6 (0x20010DB8 * 2 ^ 96) 32]"

definition is_private_or_reserved :: "ip_addr option \<Rightarrow> bool" where
  "is_private_or_reserved addr \<longleftrightarrow>
     (case addr of
        None \<Rightarrow> False
      | Some ip \<Rightarrow>
          (if case to4 ip of
                Some v \<Rightarrow> ip_is_loopback ip \<or> ip_is_private ip \<or> ip_is_link_local_unicast ip \<or> ip_is_link_local_multicast ip \<or>
                  ip_is_unspecified ip \<or> ip_is_multicast ip \<or> byte4 0 v = 0
              | None \<Rightarrow> ip_is_loopback ip \<or> ip_is_private ip \<or> ip_is_link_local_unicast ip \<or> ip_is_link_local_multicast ip \<or>
                  ip_is_unspecified ip \<or> ip_is_multicast ip
           then True else list_ex (\<lambda>b. cidr_contains b ip) cidr_blocks))"

section \<open>Printing an address\<close>

text \<open>\<open>net.IP.String\<close> of an address that is not an IPv4 one: the longest run of at least two zero groups, the first of them,
  is left out.\<close>

definition groups_of :: "ip_addr \<Rightarrow> int list" where
  "groups_of ip = map (\<lambda>i. uint (take_bit 16 (drop_bit (112 - 16 * i) ip))) [0..<8]"

definition hex_char :: "nat \<Rightarrow> char" where
  "hex_char d = (if d < 10 then char_of (48 + d) else char_of (87 + d))"

fun hex_digits :: "nat \<Rightarrow> string" where
  "hex_digits n = (if n < 16 then [hex_char n] else hex_digits (n div 16) @ [hex_char (n mod 16)])"

definition zero_run :: "int list \<Rightarrow> nat \<Rightarrow> nat" where
  "zero_run g i = length (takeWhile (\<lambda>x. x = 0) (drop i g))"

text \<open>Where the run that is left out starts and its length.\<close>

definition longest_run :: "int list \<Rightarrow> (nat \<times> nat) option" where
  "longest_run g =
     fold (\<lambda>i best. let n = zero_run g i in
       if n \<ge> 2 \<and> (case best of None \<Rightarrow> True | Some (_, m) \<Rightarrow> n > m) then Some (i, n) else best) [0..<length g] None"

fun join_colon :: "string list \<Rightarrow> string" where
  "join_colon [] = []"
| "join_colon [s] = s"
| "join_colon (s # t # ts) = s @ '':'' @ join_colon (t # ts)"

definition print_hextets :: "int list \<Rightarrow> string" where
  "print_hextets g = join_colon (map (\<lambda>n. hex_digits (nat n)) g)"

definition print_ipv6 :: "int list \<Rightarrow> string" where
  "print_ipv6 g =
     (case longest_run g of
        None \<Rightarrow> print_hextets g
      | Some (i, n) \<Rightarrow> print_hextets (take i g) @ ''::'' @ print_hextets (drop (i + n) g))"

text \<open>The dotted text of an IPv4 address.\<close>

definition print_ipv4 :: "32 word \<Rightarrow> string" where
  "print_ipv4 v = (let part = (\<lambda>i. itoa_nat (nat (byte4 i v))) in part 0 @ ''.'' @ part 1 @ ''.'' @ part 2 @ ''.'' @ part 3)"

section \<open>The guard of a URL\<close>

datatype url_verdict = PublicUrl | InvalidUrl | EmptyHost | InternalHost | ResolvesInternal

definition resolves_internal :: "ip_addr \<Rightarrow> bool" where
  "resolves_internal ip \<longleftrightarrow>
     (if ip_is_loopback ip \<or> ip_is_link_local_unicast ip \<or> ip_is_unspecified ip \<or> ip_is_multicast ip then True
      else case to4 ip of
             Some v \<Rightarrow> is_blocked_ipv4_int v \<or> ip_is_private ip
           | None \<Rightarrow>
               (case parse_ipv6_to_groups (to_lower (print_ipv6 (groups_of ip))) of
                  Some g \<Rightarrow> is_blocked_ipv6_groups g
                | None \<Rightarrow> ip_is_private ip))"

definition assert_public_url :: "net_env \<Rightarrow> string option \<Rightarrow> url_verdict" where
  "assert_public_url env url =
     (case url of
        None \<Rightarrow> InvalidUrl
      | Some host \<Rightarrow>
          (let normalized = normalize_host host; trimmed = trim_brackets normalized
           in if host = [] then EmptyHost
              else if is_blocked_host normalized then InternalHost
              else if (ipv4_to_int trimmed \<noteq> None \<or> CHR '':'' \<in> set trimmed) \<and>
                (parse_ipv6_to_groups trimmed \<noteq> None \<or> ipv4_to_int trimmed \<noteq> None \<or> ne_parse_ip env trimmed \<noteq> None) then PublicUrl
              else case ne_lookup env normalized of
                     None \<Rightarrow> PublicUrl
                   | Some addrs \<Rightarrow> (if list_ex resolves_internal addrs then ResolvesInternal else PublicUrl)))"

section \<open>The metadata services\<close>

definition cloud_metadata_addrs :: "cidr list" where
  "cloud_metadata_addrs =
     [Cidr4 (ip4 169 254 0 0) 16, Cidr4 (ip4 100 100 100 200) 32, Cidr4 (ip4 192 0 0 192) 32, Cidr6 (0xFE80 * 2 ^ 112) 10,
      Cidr6 (0xFD000EC2 * 2 ^ 96 + 0x254) 128]"

definition is_cloud_metadata_ip :: "ip_addr \<Rightarrow> bool" where
  "is_cloud_metadata_ip ip \<longleftrightarrow> list_ex (\<lambda>b. cidr_contains b ip) cloud_metadata_addrs"

definition parse_uint32 :: "string \<Rightarrow> 32 word option" where
  "parse_uint32 s = (if s \<noteq> [] \<and> list_all is_digit s \<and> digits_val s < 2 ^ 32 then Some (word_of_int (digits_val s)) else None)"

definition is_cloud_metadata_url :: "net_env \<Rightarrow> string option \<Rightarrow> bool" where
  "is_cloud_metadata_url env url \<longleftrightarrow>
     (case url of
        None \<Rightarrow> False
      | Some hostname \<Rightarrow>
          (let host = normalize_host hostname; trimmed = trim_brackets host
           in if host = [] then False
              else case ne_parse_ip env trimmed of
                     Some ip \<Rightarrow> is_cloud_metadata_ip ip
                   | None \<Rightarrow>
                       (case parse_uint32 trimmed of
                          Some v \<Rightarrow> is_cloud_metadata_ip (of4 v)
                        | None \<Rightarrow>
                            host = ''metadata.google.internal'' \<or> has_suffix ''.metadata.google.internal'' host \<or>
                            list_ex (\<lambda>suffix. has_suffix suffix host \<and>
                              (case ne_parse_ip env (map (\<lambda>c. if c = CHR ''-'' then CHR ''.'' else c) (take (length host - length suffix) host)) of
                                 None \<Rightarrow> False | Some ip \<Rightarrow> is_cloud_metadata_ip ip)) [''.nip.io'', ''.sslip.io''] \<or>
                            (case ne_lookup env host of None \<Rightarrow> False | Some addrs \<Rightarrow> list_ex is_cloud_metadata_ip addrs))))"

end
