(* ===== verification/NetText.thy ===== *)
theory NetText
  imports NetGuard
begin

text \<open>
  The readers of \<open>ssrf.go\<close> take back what Go prints of an address: the dotted text of an IPv4
  address and the shortened text of an IPv6 one (the definitions are in \<open>NetGuard\<close>).
\<close>

unbundle bit_operations_syntax

section \<open>Reading what was printed\<close>

lemma hex_val_char: "d < 16 \<Longrightarrow> hex_val (hex_char d) = Some (int d) \<and> lower_char (hex_char d) = hex_char d"
proof -
  have "list_all (\<lambda>d. hex_val (hex_char d) = Some (int d) \<and> lower_char (hex_char d) = hex_char d) [0..<16]" by code_simp
  then show "d < 16 \<Longrightarrow> hex_val (hex_char d) = Some (int d) \<and> lower_char (hex_char d) = hex_char d" by (auto simp: list_all_iff)
qed

declare hex_digits.simps [simp del]

lemma hex_number_append: "hex_number (s @ [c]) = 16 * hex_number s + the (hex_val c)"
  by (simp add: hex_number_def)

lemma hex_digits_facts:
  "hex_number (hex_digits n) = int n \<and> hex_digits n \<noteq> [] \<and> list_all (\<lambda>c. hex_val c \<noteq> None) (hex_digits n) \<and>
   to_lower (hex_digits n) = hex_digits n"
proof (induction n rule: hex_digits.induct)
  case (1 n)
  show ?case
  proof (cases "n < 16")
    case True
    then show ?thesis using hex_val_char[of n] by (simp add: hex_digits.simps[of n] hex_number_def to_lower_def)
  next
    case False
    have "16 * (int n div 16) + int n mod 16 = int n" by presburger
    then show ?thesis using 1 False hex_val_char[of "n mod 16"]
      by (simp add: hex_digits.simps[of n] hex_number_append zdiv_int zmod_int) (simp add: to_lower_def)
  qed
qed

lemma hex_digits_length: "n < 16 ^ k \<Longrightarrow> 0 < k \<Longrightarrow> length (hex_digits n) \<le> k"
proof (induction k arbitrary: n)
  case (Suc k)
  show ?case
  proof (cases "n < 16")
    case False
    then have "0 < k" using Suc.prems by (cases k) auto
    moreover have "n div 16 < 16 ^ k" using Suc.prems(1) by (simp add: less_mult_imp_div_less mult.commute)
    ultimately have "length (hex_digits (n div 16)) \<le> k" using Suc.IH by blast
    then show ?thesis using False by (simp add: hex_digits.simps[of n])
  qed (simp add: hex_digits.simps[of n])
qed simp

lemma hex_digits_plain: "CHR '':'' \<notin> set (hex_digits n)" "CHR ''.'' \<notin> set (hex_digits n)"
proof -
  have "hex_val CHR '':'' = None" "hex_val CHR ''.'' = None" by code_simp+
  then show "CHR '':'' \<notin> set (hex_digits n)" "CHR ''.'' \<notin> set (hex_digits n)"
    using hex_digits_facts[of n] by (auto simp: list_all_iff)
qed

lemma hex_digits_hextet: "0 \<le> x \<Longrightarrow> x < 65536 \<Longrightarrow> is_hextet (hex_digits (nat x)) \<and> hex_number (hex_digits (nat x)) = x"
  using hex_digits_facts[of "nat x"] hex_digits_length[of "nat x" 4] by (simp add: is_hextet_def nat_less_iff)

lemma split_on_append: "d \<notin> set s \<Longrightarrow> split_on d (s @ d # t) = s # split_on d t"
  by (induction s) auto

lemma split_on_join: "ss \<noteq> [] \<Longrightarrow> \<forall>s\<in>set ss. CHR '':'' \<notin> set s \<Longrightarrow> split_on CHR '':'' (join_colon ss) = ss"
  by (induction ss rule: join_colon.induct) (simp_all add: split_on_single split_on_append)

lemma set_join_colon: "set (join_colon ss) \<subseteq> insert CHR '':'' (\<Union>s\<in>set ss. set s)"
  by (induction ss rule: join_colon.induct) auto

lemma join_colon_empty: "\<forall>s\<in>set ss. s \<noteq> [] \<Longrightarrow> join_colon ss = [] \<longleftrightarrow> ss = []"
  by (induction ss rule: join_colon.induct) auto

lemma parse_printed_hextets:
  assumes "\<forall>x\<in>set g. 0 \<le> x \<and> x < 65536"
  shows "parse_hextets (print_hextets g) = Some g"
proof (cases "g = []")
  case False
  let ?ss = "map (\<lambda>n. hex_digits (nat n)) g"
  have "split_on CHR '':'' (print_hextets g) = ?ss"
    unfolding print_hextets_def using False hex_digits_plain by (intro split_on_join) auto
  moreover have "print_hextets g \<noteq> []" unfolding print_hextets_def using False hex_digits_facts by (subst join_colon_empty) auto
  moreover have "list_all is_hextet ?ss" "map hex_number ?ss = g"
    using assms hex_digits_hextet by (auto simp: list_all_iff intro: map_idI)
  ultimately show ?thesis by (simp add: parse_hextets_def)
qed (simp add: parse_hextets_def print_hextets_def)

text \<open>Texts without two colons in a row.\<close>

fun no_gap :: "string \<Rightarrow> bool" where
  "no_gap (a # b # s) = (\<not> (a = CHR '':'' \<and> b = CHR '':'') \<and> no_gap (b # s))"
| "no_gap s = True"

lemma split_gap_none: "no_gap s \<Longrightarrow> split_gap s = [s]"
  by (induction s rule: no_gap.induct) auto

lemma split_gap_append: "no_gap s \<Longrightarrow> s = [] \<or> last s \<noteq> CHR '':'' \<Longrightarrow> split_gap (s @ CHR '':'' # CHR '':'' # t) = s # split_gap t"
  by (induction s rule: no_gap.induct) (auto split: if_splits)

lemma no_gap_plain: "CHR '':'' \<notin> set s \<Longrightarrow> no_gap t \<Longrightarrow> no_gap (s @ t)"
proof (induction s)
  case (Cons a s)
  then show ?case by (cases "s @ t") auto
qed simp

lemma no_gap_colon: "no_gap t \<Longrightarrow> t = [] \<or> hd t \<noteq> CHR '':'' \<Longrightarrow> no_gap (CHR '':'' # t)"
  by (cases t) auto

lemma no_gap_join:
  assumes "\<forall>s\<in>set ss. s \<noteq> [] \<and> CHR '':'' \<notin> set s"
  shows "no_gap (join_colon ss) \<and> (ss \<noteq> [] \<longrightarrow> hd (join_colon ss) \<noteq> CHR '':'' \<and> last (join_colon ss) \<noteq> CHR '':'')"
  using assms
proof (induction ss rule: join_colon.induct)
  case (2 s)
  then show ?case using no_gap_plain[of s "[]"] by (auto dest: hd_in_set last_in_set)
next
  case (3 s t ts)
  have "join_colon (t # ts) \<noteq> []" using 3(2) join_colon_empty[of "t # ts"] by simp
  then show ?case using 3 no_gap_plain[of s] no_gap_colon[of "join_colon (t # ts)"] by (auto dest: hd_in_set)
qed simp

lemma print_hextets_no_gap:
  "no_gap (print_hextets g)" "print_hextets g = [] \<or> last (print_hextets g) \<noteq> CHR '':''" "CHR ''.'' \<notin> set (print_hextets g)"
proof -
  have "\<forall>s\<in>set (map (\<lambda>n. hex_digits (nat n)) g). s \<noteq> [] \<and> CHR '':'' \<notin> set s" using hex_digits_facts hex_digits_plain by auto
  from no_gap_join[OF this] show "no_gap (print_hextets g)" "print_hextets g = [] \<or> last (print_hextets g) \<noteq> CHR '':''"
    by (cases "g = []"; simp add: print_hextets_def)+
  show "CHR ''.'' \<notin> set (print_hextets g)" using set_join_colon hex_digits_plain unfolding print_hextets_def by fastforce
qed

lemma longest_run_zero:
  assumes "longest_run g = Some (i, n)"
  shows "i + n \<le> length g \<and> take n (drop i g) = replicate n 0"
proof -
  let ?ok = "\<lambda>b. \<forall>i n. b = Some (i, n) \<longrightarrow> i + n \<le> length g \<and> take n (drop i g) = replicate n (0 :: int)"
  have run: "i + zero_run g i \<le> length g \<and> take (zero_run g i) (drop i g) = replicate (zero_run g i) 0" if "i < length g" for i
  proof
    have "length (takeWhile (\<lambda>x. x = 0) (drop i g)) \<le> length (drop i g)" by (rule length_takeWhile_le)
    then show "i + zero_run g i \<le> length g" using that unfolding zero_run_def by simp
    have "takeWhile (\<lambda>x. x = 0) (drop i g) = replicate (zero_run g i) 0"
      unfolding zero_run_def by (intro replicate_eqI) (auto dest: set_takeWhileD)
    then show "take (zero_run g i) (drop i g) = replicate (zero_run g i) 0" by (metis takeWhile_eq_take zero_run_def)
  qed
  let ?f = "\<lambda>i best. let n = zero_run g i in
       if n \<ge> 2 \<and> (case best of None \<Rightarrow> True | Some (_, m) \<Rightarrow> n > m) then Some (i, n) else best"
  have "?ok (fold ?f is b)" if "\<forall>i\<in>set is. i < length g" "?ok b" for "is" b
    using that
  proof (induction "is" arbitrary: b)
    case (Cons i "is")
    have "?ok (?f i b)"
    proof (cases "zero_run g i \<ge> 2 \<and> (case b of None \<Rightarrow> True | Some (_, m) \<Rightarrow> zero_run g i > m)")
      case True
      then have "?f i b = Some (i, zero_run g i)" unfolding Let_def by (rule if_P)
      then show ?thesis using run[of i] Cons.prems(1) by simp
    next
      case False
      then have "?f i b = b" unfolding Let_def by (rule if_not_P)
      then show ?thesis using Cons.prems(2) by simp
    qed
    from Cons.IH[OF _ this] Cons.prems(1) show ?case by simp
  qed simp
  from this[of "[0..<length g]" None] show ?thesis using assms unfolding longest_run_def by simp
qed

lemma no_dot_tail: "CHR ''.'' \<notin> set s \<Longrightarrow> ipv4_tail s = None"
  by (induction s) (simp_all add: dotted_def split_on_single)

lemma lower_join: "to_lower (join_colon ss) = join_colon (map to_lower ss)"
proof -
  have "lower_char CHR '':'' = CHR '':''" by code_simp
  then show ?thesis by (induction ss rule: join_colon.induct) (simp_all add: to_lower_def)
qed

lemma lower_hextets: "to_lower (print_hextets g) = print_hextets g"
  using hex_digits_facts by (simp add: print_hextets_def lower_join comp_def)

lemma lower_printed: "to_lower (print_ipv6 g) = print_ipv6 g"
proof -
  have "to_lower (CHR '':'' # CHR '':'' # s) = CHR '':'' # CHR '':'' # to_lower s" for s
  proof -
    have "lower_char CHR '':'' = CHR '':''" by code_simp
    then show ?thesis by (simp add: to_lower_def)
  qed
  then show ?thesis by (simp add: print_ipv6_def lower_hextets split: option.split)
qed

lemma parse_printed:
  assumes "length g = 8" "\<forall>x\<in>set g. 0 \<le> x \<and> x < 65536"
  shows "parse_ipv6_to_groups (print_ipv6 g) = Some g"
proof -
  have "CHR ''.'' \<notin> set (print_ipv6 g)" using print_hextets_no_gap(3) by (simp add: print_ipv6_def split: option.split)
  then have cut: "cut_ipv4_tail (to_lower (print_ipv6 g)) = Some (print_ipv6 g, [])"
    by (simp add: lower_printed cut_ipv4_tail_def no_dot_tail)
  show ?thesis
  proof (cases "longest_run g")
    case None
    then have "split_gap (print_ipv6 g) = [print_ipv6 g]" "parse_hextets (print_ipv6 g) = Some g"
      using split_gap_none[OF print_hextets_no_gap(1)] parse_printed_hextets[OF assms(2)] by (simp_all add: print_ipv6_def)
    then show ?thesis using cut assms(1) by (simp add: parse_ipv6_to_groups_def)
  next
    case (Some r)
    obtain i n where r: "r = (i, n)" by fastforce
    note z = longest_run_zero[OF Some[unfolded r]]
    have shown: "print_ipv6 g = print_hextets (take i g) @ CHR '':'' # CHR '':'' # print_hextets (drop (i + n) g)"
      using Some r by (simp add: print_ipv6_def)
    then have "split_gap (print_ipv6 g) = [print_hextets (take i g), print_hextets (drop (i + n) g)]"
      using split_gap_append[OF print_hextets_no_gap(1,2)] split_gap_none[OF print_hextets_no_gap(1)] by simp
    moreover have "parse_hextets (print_hextets (take i g)) = Some (take i g)" "parse_hextets (print_hextets (drop (i + n) g)) = Some (drop (i + n) g)"
      using assms(2) by (auto intro!: parse_printed_hextets dest: in_set_takeD in_set_dropD)
    moreover have "take i g @ replicate n 0 @ drop (i + n) g = g"
      using z by (metis add.commute append_take_drop_id drop_drop)
    moreover have "nat (8 - int (length (take i g)) - int (length (drop (i + n) g))) = n" using z assms(1) by simp
    moreover have "\<not> 8 - int (length (take i g)) - int (length (drop (i + n) g)) < 0" using z assms(1) by simp
    ultimately show ?thesis using cut assms(1) by (simp add: parse_ipv6_to_groups_def)
  qed
qed

lemma digit_char:
  "d < 10 \<Longrightarrow> is_digit (char_of (48 + d)) \<and> digit_val (char_of (48 + d)) = int d \<and> CHR ''.'' \<noteq> char_of (48 + d) \<and>
    (char_of (48 + d) = CHR ''0'' \<longrightarrow> d = 0)"
proof -
  have "list_all (\<lambda>d. is_digit (char_of (48 + d)) \<and> digit_val (char_of (48 + d)) = int d \<and> CHR ''.'' \<noteq> char_of (48 + d) \<and>
    (if char_of (48 + d) = CHR ''0'' then d = 0 else True)) [0..<10]" by code_simp
  then show "d < 10 \<Longrightarrow> is_digit (char_of (48 + d)) \<and> digit_val (char_of (48 + d)) = int d \<and> CHR ''.'' \<noteq> char_of (48 + d) \<and>
    (char_of (48 + d) = CHR ''0'' \<longrightarrow> d = 0)" by (auto simp: list_all_iff split: if_splits)
qed

lemma itoa_facts:
  "digits_val (itoa_nat n) = int n \<and> itoa_nat n \<noteq> [] \<and> list_all is_digit (itoa_nat n) \<and> CHR ''.'' \<notin> set (itoa_nat n) \<and>
   (hd (itoa_nat n) = CHR ''0'' \<longrightarrow> n = 0)"
proof (induction n rule: itoa_nat.induct)
  case (1 n)
  show ?case
  proof (cases "n < 10")
    case True
    then show ?thesis using digit_char[of n] by (simp add: itoa_nat.simps[of n] digits_val_def)
  next
    case False
    have "10 * (int n div 10) + int n mod 10 = int n" by presburger
    moreover have "digits_val (s @ [c]) = 10 * digits_val s + digit_val c" for s c by (simp add: digits_val_def)
    ultimately show ?thesis using 1 False digit_char[of "n mod 10"]
      by (auto simp: itoa_nat.simps[of n] zdiv_int zmod_int)
  qed
qed

lemma itoa_length: "n < 10 ^ k \<Longrightarrow> 0 < k \<Longrightarrow> length (itoa_nat n) \<le> k"
proof (induction k arbitrary: n)
  case (Suc k)
  show ?case
  proof (cases "n < 10")
    case False
    then have "0 < k" using Suc.prems by (cases k) auto
    moreover have "n div 10 < 10 ^ k" using Suc.prems(1) by (simp add: less_mult_imp_div_less mult.commute)
    ultimately have "length (itoa_nat (n div 10)) \<le> k" using Suc.IH by blast
    then show ?thesis using False by (simp add: itoa_nat.simps[of n])
  qed (simp add: itoa_nat.simps[of n])
qed simp

lemma digits_cases: "is_digit c \<Longrightarrow> c \<in> set ''0123456789''"
proof -
  assume "is_digit c"
  then have range: "48 \<le> (of_char c :: nat)" "(of_char c :: nat) \<le> 57" by (simp_all add: is_digit_def Let_def)
  define d :: nat where "d = of_char c - 48"
  have "d < 10" "48 + d = of_char c" using range by (simp_all add: d_def)
  then have "c = char_of (48 + d)" by (metis char_of_char)
  moreover have "list_all (\<lambda>d. char_of (48 + d) \<in> set ''0123456789'') [0..<10]" by code_simp
  ultimately show ?thesis using \<open>d < 10\<close> by (auto simp: list_all_iff)
qed

lemma atoi_of_digits:
  assumes "s \<noteq> []" "list_all is_digit s"
  shows "atoi s = atoi_digits s"
proof -
  obtain c t where s: "s = c # t" using assms(1) by (cases s) auto
  then have "c \<in> set ''0123456789''" using assms(2) digits_cases by simp
  then show ?thesis unfolding atoi_def s by auto
qed

lemma printed_part:
  assumes "0 \<le> b" "b < 256"
  shows "ipv4_part (itoa_nat (nat b)) = Some b \<and> CHR ''.'' \<notin> set (itoa_nat (nat b)) \<and> itoa_nat (nat b) \<noteq> [] \<and>
    length (itoa_nat (nat b)) \<le> 3 \<and> list_all is_digit (itoa_nat (nat b))"
proof -
  note f = itoa_facts[of "nat b"]
  have "atoi (itoa_nat (nat b)) = Some b" using f assms atoi_of_digits by (simp add: atoi_digits_def max_int_def)
  moreover have "length (itoa_nat (nat b)) \<le> 1" if "nat b = 0" using that itoa_length[of "nat b" 1] by simp
  ultimately show ?thesis using f assms itoa_length[of "nat b" 3] by (fastforce simp: ipv4_part_def)
qed

lemma byte4_range: "0 \<le> byte4 i v \<and> byte4 i v < 256"
  using take_bit_int_less_exp[of 8 "uint (drop_bit (24 - 8 * i) v)"] by (simp add: byte4_def unsigned_take_bit_eq)

lemma split_printed_ipv4:
  "split_on CHR ''.'' (print_ipv4 v) = map (\<lambda>i. itoa_nat (nat (byte4 i v))) [0, 1, 2, 3]"
  using printed_part[OF conjunct1[OF byte4_range] conjunct2[OF byte4_range]]
  by (simp add: print_ipv4_def split_on_append split_on_single)

lemma bytes_of_word:
  "push_bit 8 (push_bit 8 (push_bit 8 (push_bit 8 0 OR word_of_int (byte4 0 v)) OR word_of_int (byte4 1 v)) OR word_of_int (byte4 2 v)) OR
     word_of_int (byte4 3 v) = v"
proof -
  have b: "word_of_int (byte4 i v) = take_bit 8 (drop_bit (24 - 8 * i) v)" for i by (simp add: byte4_def)
  have step: "push_bit 8 (drop_bit (k + 8) v) OR take_bit 8 (drop_bit k v) = drop_bit k v" for k
  proof (rule bit_word_eqI)
    fix n assume "n < LENGTH(32)"
    then show "bit (push_bit 8 (drop_bit (k + 8) v) OR take_bit 8 (drop_bit k v)) n = bit (drop_bit k v) n"
      by (cases "n < 8") (simp_all add: bit_simps ac_simps)
  qed
  have "push_bit 8 0 OR take_bit 8 (drop_bit 24 v) = drop_bit 24 v"
    by (rule bit_word_eqI) (auto simp: bit_simps dest: bit_imp_le_length)
  then show ?thesis using step[of 16] step[of 8] step[of 0] by (simp add: b)
qed

lemma parse_printed_ipv4: "ipv4_to_int (print_ipv4 v) = Some v"
  using printed_part[OF conjunct1[OF byte4_range] conjunct2[OF byte4_range]] bytes_of_word[of v]
  by (simp add: ipv4_to_int_def split_printed_ipv4)

end
