(* ===== verification/NetCheck.thy ===== *)
theory NetCheck
  imports NetText
begin

text \<open>
  What the two guards of \<open>netguard.go\<close> and \<open>ssrf.go\<close> refuse, as networks, where they differ, and that
  the guard of a URL sees an address in whatever form it is written.
\<close>

unbundle bit_operations_syntax

section \<open>Blocks of addresses\<close>

lemma ip4_values:
  "ip4 0 0 0 0 = 0" "ip4 10 0 0 0 = 0x0A000000" "ip4 100 64 0 0 = 0x64400000" "ip4 127 0 0 0 = 0x7F000000"
  "ip4 169 254 0 0 = 0xA9FE0000" "ip4 172 16 0 0 = 0xAC100000" "ip4 192 168 0 0 = 0xC0A80000"
  "ip4 192 0 0 0 = 0xC0000000" "ip4 198 18 0 0 = 0xC6120000" "ip4 192 88 99 0 = 0xC0586300"
  "ip4 224 0 0 0 = 0xE0000000" "ip4 198 51 100 0 = 0xC6336400" "ip4 203 0 113 0 = 0xCB007100"
  by (simp_all add: ip4_def push_bit_eq_mult)

lemma masked_eq_iff:
  fixes a b :: "32 word"
  shows "a AND push_bit k 0xFFFFFFFF = b AND push_bit k 0xFFFFFFFF \<longleftrightarrow> drop_bit k a = drop_bit k b"
proof -
  have ones: "(0xFFFFFFFF :: 32 word) = - 1" by simp
  have "c AND push_bit k (- 1) = push_bit k (drop_bit k c)" for c :: "32 word"
    by (rule bit_word_eqI) (auto simp: bit_simps)
  moreover have "push_bit k (drop_bit k a) = push_bit k (drop_bit k b) \<longleftrightarrow> drop_bit k a = drop_bit k b"
  proof
    assume "push_bit k (drop_bit k a) = push_bit k (drop_bit k b)"
    then have "drop_bit k (push_bit k (drop_bit k a)) = drop_bit k (push_bit k (drop_bit k b))" by simp
    moreover have "drop_bit k (push_bit k (drop_bit k c)) = drop_bit k c" for c :: "32 word"
      by (rule bit_word_eqI) (auto simp: bit_simps dest: bit_imp_le_length)
    ultimately show "drop_bit k a = drop_bit k b" by simp
  qed simp
  ultimately show ?thesis unfolding ones by simp
qed

lemma drop_bit_iff:
  fixes a b :: "'a::len word"
  shows "drop_bit k a = drop_bit k b \<longleftrightarrow> uint a div 2 ^ k = uint b div 2 ^ k"
  by (simp add: word_uint_eq_iff unsigned_drop_bit_eq bintr_uint flip: drop_bit_eq_div)

section \<open>The guards as networks\<close>

definition in_net :: "32 word \<Rightarrow> 32 word \<Rightarrow> nat \<Rightarrow> bool" where
  "in_net v network n \<longleftrightarrow> drop_bit (32 - n) v = drop_bit (32 - n) network"

text \<open>The networks both guards refuse, and the ones only the guard of the dialler knows.\<close>

definition internal_net :: "32 word \<Rightarrow> bool" where
  "internal_net v \<longleftrightarrow> in_net v (ip4 0 0 0 0) 8 \<or> in_net v (ip4 10 0 0 0) 8 \<or> in_net v (ip4 100 64 0 0) 10 \<or> in_net v (ip4 127 0 0 0) 8 \<or>
     in_net v (ip4 169 254 0 0) 16 \<or> in_net v (ip4 172 16 0 0) 12 \<or> in_net v (ip4 192 168 0 0) 16"

definition special_net :: "32 word \<Rightarrow> bool" where
  "special_net v \<longleftrightarrow> in_net v (ip4 192 0 0 0) 24 \<or> in_net v (ip4 198 18 0 0) 15 \<or> in_net v (ip4 192 88 99 0) 24 \<or>
     in_net v (ip4 198 51 100 0) 24 \<or> in_net v (ip4 203 0 113 0) 24"

lemma blocked_ipv4_iff: "is_blocked_ipv4_int v \<longleftrightarrow> internal_net v"
  by (simp add: is_blocked_ipv4_int_def blocked_ipv4_ranges_def Let_def masked_eq_iff internal_net_def in_net_def)

lemma to4_of4 [simp]: "to4 (of4 v) = Some v"
proof -
  have "drop_bit 32 (ucast v :: 128 word) = 0"
    by (rule bit_word_eqI) (auto simp: bit_simps dest: bit_imp_le_length)
  moreover have "drop_bit 32 (push_bit 32 (0xFFFF :: 128 word)) = 0xFFFF" by simp
  ultimately have "drop_bit 32 (of4 v) = 0xFFFF" unfolding of4_def drop_bit_or by (simp only: or.right_neutral)
  moreover have "(ucast (push_bit 32 w OR ucast v :: 128 word) :: 32 word) = v" for w
    by (rule bit_word_eqI) (auto simp: bit_simps)
  then have "(ucast (of4 v) :: 32 word) = v" unfolding of4_def .
  ultimately show ?thesis by (simp add: to4_def)
qed

lemma and_shifted_mask: "(x :: int) AND push_bit k (mask n) = push_bit k (take_bit n (drop_bit k x))"
  by (rule bit_eqI) (auto simp: bit_simps)

lemma and_masks:
  fixes x :: int
  shows "x AND 0xF0 = 16 * (x div 16 mod 16)" "x AND 0xFE = 2 * (x div 2 mod 128)" "x AND 0xFE00 = 512 * (x div 512 mod 128)"
  using and_shifted_mask[of x 4 4] and_shifted_mask[of x 1 7] and_shifted_mask[of x 9 7]
  by (simp_all add: mask_eq_exp_minus_1 push_bit_eq_mult take_bit_eq_mod drop_bit_eq_div mult.commute)

lemma byte4_value: "byte4 i v = uint v div 2 ^ (24 - 8 * i) mod 256"
  unfolding byte4_def unsigned_take_bit_eq unsigned_drop_bit_eq bintr_uint[OF order_refl] unfolding take_bit_eq_mod drop_bit_eq_div by simp

lemma byte_value: "byte i ip = uint ip div 2 ^ (120 - 8 * i) mod 256"
  unfolding byte_def unsigned_take_bit_eq unsigned_drop_bit_eq bintr_uint[OF order_refl] unfolding take_bit_eq_mod drop_bit_eq_div by simp

lemma in_net_value: "in_net v w n \<longleftrightarrow> uint v div 2 ^ (32 - n) = uint w div 2 ^ (32 - n)"
  by (simp add: in_net_def drop_bit_iff)

lemma high_half:
  fixes h :: int
  shows "h div 256 = 169 \<and> h mod 256 = 254 \<longleftrightarrow> h = 43518" "h div 256 = 192 \<and> h mod 256 = 168 \<longleftrightarrow> h = 49320"
    "h div 256 = 172 \<and> 16 * (h mod 256 div 16 mod 16) = 16 \<longleftrightarrow> h div 16 = 2753"
    "h div 256 = 224 \<Longrightarrow> h div 4096 = 14"
    "0 \<le> h \<Longrightarrow> h < 65536 \<Longrightarrow> 16 * (h div 256 div 16 mod 16) = 224 \<longleftrightarrow> h div 4096 = 14"
    "0 \<le> h \<Longrightarrow> h < 65536 \<Longrightarrow> h div 256 mod 256 = h div 256"
proof -
  define a r where "a = h div 256" and "r = h mod 256"
  have h: "h = 256 * a + r" "0 \<le> r" "r < 256" by (simp_all add: a_def r_def)
  have only: "16 * a + q = 2753 \<Longrightarrow> 0 \<le> q \<Longrightarrow> q < 16 \<Longrightarrow> q = 1" for q by presburger
  have "h div 16 = 16 * a + r div 16" unfolding h(1) by simp
  moreover have q: "0 \<le> r div 16" "r div 16 < 16" using h(2,3) by auto
  then have "r div 16 mod 16 = r div 16" by simp
  ultimately show "h div 256 = 172 \<and> 16 * (h mod 256 div 16 mod 16) = 16 \<longleftrightarrow> h div 16 = 2753"
    using q only unfolding a_def[symmetric] r_def[symmetric] by auto
  show "h div 256 = 169 \<and> h mod 256 = 254 \<longleftrightarrow> h = 43518" "h div 256 = 192 \<and> h mod 256 = 168 \<longleftrightarrow> h = 49320"
    using h unfolding a_def[symmetric] r_def[symmetric] by presburger+
  have d: "h div 4096 = a div 16" using zdiv_zmult2_eq[of 16 h 256] by (simp add: a_def)
  then show "h div 256 = 224 \<Longrightarrow> h div 4096 = 14" by (simp add: a_def)
  assume b: "0 \<le> h" "h < 65536"
  then have a: "0 \<le> a" "a < 256" by (auto simp: a_def)
  then have "a div 16 mod 16 = a div 16" by simp
  then show "16 * (h div 256 div 16 mod 16) = 224 \<longleftrightarrow> h div 4096 = 14" unfolding d a_def[symmetric] by auto
  show "h div 256 mod 256 = h div 256" using a by (simp add: a_def)
qed

lemma in_net_number: "2 ^ (32 - n) = c \<Longrightarrow> uint w div c = k \<Longrightarrow> in_net v w n \<longleftrightarrow> uint v div c = k"
  by (auto simp: in_net_value)

text \<open>The address as numbers: \<open>h\<close> are its upper sixteen bits.\<close>

lemma nets_of:
  fixes v :: "32 word"
  defines "h \<equiv> uint v div 2 ^ 16"
  shows "0 \<le> h" "h < 65536" "byte4 0 v = h div 256" "byte4 1 v = h mod 256"
    "in_net v (ip4 0 0 0 0) 8 \<longleftrightarrow> h div 256 = 0" "in_net v (ip4 10 0 0 0) 8 \<longleftrightarrow> h div 256 = 10"
    "in_net v (ip4 100 64 0 0) 10 \<longleftrightarrow> h div 64 = 401" "in_net v (ip4 127 0 0 0) 8 \<longleftrightarrow> h div 256 = 127"
    "in_net v (ip4 169 254 0 0) 16 \<longleftrightarrow> h = 43518" "in_net v (ip4 172 16 0 0) 12 \<longleftrightarrow> h div 16 = 2753"
    "in_net v (ip4 192 168 0 0) 16 \<longleftrightarrow> h = 49320" "in_net v (ip4 224 0 0 0) 4 \<longleftrightarrow> h div 4096 = 14"
    "in_net v (ip4 192 0 0 0) 24 \<Longrightarrow> h = 49152" "in_net v (ip4 198 18 0 0) 15 \<longleftrightarrow> h div 2 = 25353"
    "in_net v (ip4 192 88 99 0) 24 \<Longrightarrow> h = 49240" "in_net v (ip4 198 51 100 0) 24 \<Longrightarrow> h = 50739"
    "in_net v (ip4 203 0 113 0) 24 \<Longrightarrow> h = 51968"
proof -
  have split: "x div c = x div 65536 div k" if "c = 65536 * k" "0 \<le> k" for x c k :: int
    unfolding that(1) by (rule zdiv_zmult2_eq[OF that(2)])
  have whole: "uint v div 65536 = h" by (simp add: h_def)
  have parts: "uint v div 16777216 = h div 256" "uint v div 4194304 = h div 64" "uint v div 1048576 = h div 16"
    "uint v div 268435456 = h div 4096" "uint v div 131072 = h div 2"
    unfolding whole[symmetric] by (rule split; simp)+
  have fine: "h = (uint v div 256) div 256" using zdiv_zmult2_eq[of 256 "uint v" 256] by (simp add: h_def)
  show b: "0 \<le> h" "h < 65536" using uint_lt2p[of v] by (simp_all add: h_def pos_imp_zdiv_nonneg_iff)
  then have top: "h div 256 mod 256 = h div 256" by (rule high_half)
  show "byte4 0 v = h div 256" using parts(1) top by (simp add: byte4_value)
  show "byte4 1 v = h mod 256" using whole by (simp add: byte4_value)
  show "in_net v (ip4 0 0 0 0) 8 \<longleftrightarrow> h div 256 = 0" unfolding parts(1)[symmetric] ip4_values by (rule in_net_number) simp_all
  show "in_net v (ip4 10 0 0 0) 8 \<longleftrightarrow> h div 256 = 10" unfolding parts(1)[symmetric] ip4_values by (rule in_net_number) simp_all
  show "in_net v (ip4 100 64 0 0) 10 \<longleftrightarrow> h div 64 = 401" unfolding parts(2)[symmetric] ip4_values by (rule in_net_number) simp_all
  show "in_net v (ip4 127 0 0 0) 8 \<longleftrightarrow> h div 256 = 127" unfolding parts(1)[symmetric] ip4_values by (rule in_net_number) simp_all
  show "in_net v (ip4 169 254 0 0) 16 \<longleftrightarrow> h = 43518" unfolding whole[symmetric] ip4_values by (rule in_net_number) simp_all
  show "in_net v (ip4 172 16 0 0) 12 \<longleftrightarrow> h div 16 = 2753" unfolding parts(3)[symmetric] ip4_values by (rule in_net_number) simp_all
  show "in_net v (ip4 192 168 0 0) 16 \<longleftrightarrow> h = 49320" unfolding whole[symmetric] ip4_values by (rule in_net_number) simp_all
  show "in_net v (ip4 224 0 0 0) 4 \<longleftrightarrow> h div 4096 = 14" unfolding parts(4)[symmetric] ip4_values by (rule in_net_number) simp_all
  show "in_net v (ip4 198 18 0 0) 15 \<longleftrightarrow> h div 2 = 25353" unfolding parts(5)[symmetric] ip4_values by (rule in_net_number) simp_all
  have "in_net v w 24 \<longleftrightarrow> uint v div 256 = uint w div 256" for w by (simp add: in_net_value)
  then show "in_net v (ip4 192 0 0 0) 24 \<Longrightarrow> h = 49152" "in_net v (ip4 192 88 99 0) 24 \<Longrightarrow> h = 49240"
    "in_net v (ip4 198 51 100 0) 24 \<Longrightarrow> h = 50739" "in_net v (ip4 203 0 113 0) 24 \<Longrightarrow> h = 51968"
    unfolding fine ip4_values by simp_all
qed

text \<open>The guard of the dialler refuses the networks of the guard of URLs, the multicast addresses and five more networks.\<close>

lemma classes_ipv4:
  assumes "to4 ip = Some v"
  shows "ip_is_loopback ip \<longleftrightarrow> in_net v (ip4 127 0 0 0) 8" "ip_is_link_local_unicast ip \<longleftrightarrow> in_net v (ip4 169 254 0 0) 16"
    "ip_is_private ip \<longleftrightarrow> in_net v (ip4 10 0 0 0) 8 \<or> in_net v (ip4 172 16 0 0) 12 \<or> in_net v (ip4 192 168 0 0) 16"
    "ip_is_multicast ip \<longleftrightarrow> in_net v (ip4 224 0 0 0) 4" "ip_is_link_local_multicast ip \<Longrightarrow> in_net v (ip4 224 0 0 0) 4"
    "ip_is_unspecified ip \<Longrightarrow> in_net v (ip4 0 0 0 0) 8" "byte4 0 v = 0 \<longleftrightarrow> in_net v (ip4 0 0 0 0) 8"
proof -
  note n = nets_of[of v]
  show "ip_is_loopback ip \<longleftrightarrow> in_net v (ip4 127 0 0 0) 8" unfolding ip_is_loopback_def assms option.case n ..
  show "ip_is_link_local_unicast ip \<longleftrightarrow> in_net v (ip4 169 254 0 0) 16"
    unfolding ip_is_link_local_unicast_def assms option.case n high_half ..
  show "ip_is_private ip \<longleftrightarrow> in_net v (ip4 10 0 0 0) 8 \<or> in_net v (ip4 172 16 0 0) 12 \<or> in_net v (ip4 192 168 0 0) 16"
    unfolding ip_is_private_def assms option.case n and_masks high_half ..
  show "ip_is_multicast ip \<longleftrightarrow> in_net v (ip4 224 0 0 0) 4"
    unfolding ip_is_multicast_def assms option.case n and_masks high_half(5)[OF n(1,2)] ..
  show "ip_is_link_local_multicast ip \<Longrightarrow> in_net v (ip4 224 0 0 0) 4"
    unfolding ip_is_link_local_multicast_def assms option.case n using high_half(4) by blast
  have "to4 0 = None" by (simp add: to4_def)
  then show "ip_is_unspecified ip \<Longrightarrow> in_net v (ip4 0 0 0 0) 8"
    using assms by (auto simp: ip_is_unspecified_def in_net_value ip4_values)
  show "byte4 0 v = 0 \<longleftrightarrow> in_net v (ip4 0 0 0 0) 8" unfolding n ..
qed

text \<open>The guard of the dialler refuses the networks of the guard of URLs, the multicast addresses and five more networks.\<close>

lemma reserved_ipv4:
  assumes "to4 ip = Some v"
  shows "is_private_or_reserved (Some ip) \<longleftrightarrow> internal_net v \<or> in_net v (ip4 224 0 0 0) 4 \<or> special_net v"
proof -
  have "list_ex (\<lambda>b. cidr_contains b ip) cidr_blocks \<longleftrightarrow> in_net v (ip4 100 64 0 0) 10 \<or> special_net v"
    by (simp add: cidr_blocks_def assms special_net_def in_net_def)
  then show ?thesis using classes_ipv4[OF assms] assms unfolding is_private_or_reserved_def internal_net_def by auto
qed

lemma internal_ipv4:
  assumes "to4 ip = Some v"
  shows "resolves_internal ip \<longleftrightarrow> internal_net v \<or> in_net v (ip4 224 0 0 0) 4"
  using classes_ipv4[OF assms] assms unfolding resolves_internal_def blocked_ipv4_iff internal_net_def by auto

lemma special_not_internal: "special_net v \<Longrightarrow> \<not> internal_net v \<and> \<not> in_net v (ip4 224 0 0 0) 4"
  unfolding special_net_def internal_net_def nets_of(5-12,14) by (auto dest!: nets_of(13,15-17))

section \<open>IPv6 addresses\<close>

lemma group_value: "groups_of ip ! 0 = uint ip div 2 ^ 112 mod 65536"
proof -
  have "groups_of ip ! 0 = uint (take_bit 16 (drop_bit 112 ip))" by (simp add: groups_of_def)
  then show ?thesis unfolding unsigned_take_bit_eq unsigned_drop_bit_eq bintr_uint[OF order_refl] unfolding take_bit_eq_mod drop_bit_eq_div by simp
qed

lemma groups_range: "length (groups_of ip) = 8" "\<forall>x\<in>set (groups_of ip). 0 \<le> x \<and> x < 65536"
  using take_bit_int_less_exp[of 16] by (auto simp: groups_of_def unsigned_take_bit_eq)

lemma private_groups:
  assumes "to4 ip = None" "ip_is_private ip"
  shows "is_blocked_ipv6_groups (groups_of ip)"
proof -
  let ?g = "groups_of ip ! 0"
  define x where "x = uint ip div 2 ^ 112"
  have g: "?g = x mod 65536" by (simp add: group_value x_def)
  have "uint ip div 2 ^ 120 = x div 256" using zdiv_zmult2_eq[of 256 "uint ip" "2 ^ 112"] by (simp add: x_def)
  then have "byte 0 ip = x div 256 mod 256" by (simp add: byte_value)
  moreover have "x div 256 mod 256 = ?g div 256"
  proof -
    define q where "q = x div 65536"
    have "x = 256 * (256 * q) + ?g" "0 \<le> ?g" "?g < 65536" by (simp_all add: g q_def)
    then have "x div 256 = 256 * q + ?g div 256" "0 \<le> ?g div 256" "?g div 256 < 256" by auto
    then show ?thesis by simp
  qed
  ultimately have "2 * (?g div 256 div 2 mod 128) = 252" using assms by (simp add: ip_is_private_def and_masks)
  moreover have "?g div 256 div 2 = ?g div 512" using zdiv_zmult2_eq[of 2 ?g 256] by simp
  ultimately have "?g AND 0xFE00 = 0xFC00" unfolding and_masks by simp
  then show ?thesis using groups_range(1)[of ip] by (simp add: is_blocked_ipv6_groups_def Let_def)
qed

definition unlisted_ipv6 :: "ip_addr \<Rightarrow> bool" where
  "unlisted_ipv6 ip \<longleftrightarrow> cidr_contains (Cidr6 (0x64FF9B0001 * 2 ^ 80) 48) ip \<or> cidr_contains (Cidr6 (0x20010DB8 * 2 ^ 96) 32) ip"

lemma reserved_ipv6:
  assumes "to4 ip = None" "is_private_or_reserved (Some ip)" "\<not> resolves_internal ip"
  shows "unlisted_ipv6 ip"
proof -
  have parse: "parse_ipv6_to_groups (to_lower (print_ipv6 (groups_of ip))) = Some (groups_of ip)"
    using parse_printed[OF groups_range] by (simp add: lower_printed)
  have pub: "\<not> ip_is_loopback ip" "\<not> ip_is_link_local_unicast ip" "\<not> ip_is_unspecified ip" "\<not> ip_is_multicast ip"
    "\<not> is_blocked_ipv6_groups (groups_of ip)"
    using assms(1,3) parse by (auto simp: resolves_internal_def split: if_splits)
  moreover have "\<not> ip_is_private ip" using pub(5) private_groups[OF assms(1)] by blast
  moreover have "\<not> ip_is_link_local_multicast ip" using pub(4) assms(1) by (simp add: ip_is_link_local_multicast_def ip_is_multicast_def)
  ultimately have "list_ex (\<lambda>b. cidr_contains b ip) cidr_blocks" using assms(1,2) by (simp add: is_private_or_reserved_def)
  moreover have "\<not> cidr_contains (Cidr6 0 128) ip" using pub(3) by (simp add: ip_is_unspecified_def)
  ultimately show ?thesis using assms(1) by (auto simp: cidr_blocks_def unlisted_ipv6_def simp del: cidr_contains.simps) (auto simp: assms(1))
qed

section \<open>Embedded IPv4 addresses\<close>

lemma dotted_print: "dotted (print_ipv4 v)"
  using printed_part[OF conjunct1[OF byte4_range] conjunct2[OF byte4_range]] by (simp add: dotted_def split_printed_ipv4)

lemma in_split_on: "x \<in> set s \<Longrightarrow> x \<noteq> d \<Longrightarrow> \<exists>p\<in>set (split_on d s). x \<in> set p"
proof (induction s)
  case (Cons a s)
  then show ?case by (cases "split_on d s") auto
qed simp

lemma not_digit_colon: "\<not> is_digit CHR '':''"
  by code_simp

lemma dotted_no_colon:
  assumes "dotted s" shows "CHR '':'' \<notin> set s"
proof
  assume "CHR '':'' \<in> set s"
  then obtain q where "q \<in> set (split_on CHR ''.'' s)" "CHR '':'' \<in> set q" using in_split_on[of "CHR '':''" s "CHR ''.''"] by auto
  then show False using assms not_digit_colon unfolding dotted_def Let_def list_all_iff by blast
qed

lemma tail_after_colon: "dotted t \<Longrightarrow> ipv4_tail (q @ CHR '':'' # t) = Some t"
proof (induction q)
  case Nil
  then show ?case using dotted_no_colon[of "CHR '':'' # t"] by (cases t) (auto simp: dotted_def)
next
  case (Cons c q)
  then show ?case using dotted_no_colon[of "c # q @ CHR '':'' # t"] by auto
qed

lemma half_words: "[uint (drop_bit 16 v AND 0xFFFF), uint (v AND 0xFFFF)] = [uint (drop_bit 16 v), uint (take_bit 16 v)]" for v :: "32 word"
proof -
  have m: "(0xFFFF :: 32 word) = mask 16" by (simp add: mask_eq_exp_minus_1)
  have "take_bit 16 (drop_bit 16 v) = drop_bit 16 v" by (rule bit_word_eqI) (auto simp: bit_simps dest: bit_imp_le_length)
  then show ?thesis unfolding m by (simp flip: take_bit_eq_mask)
qed

lemma low32_halves: "length zs = 6 \<Longrightarrow> low32 (zs @ [uint (drop_bit 16 v), uint (take_bit 16 v)]) = v"
proof -
  have "push_bit 16 (drop_bit 16 v) OR take_bit 16 v = v"
  proof (rule bit_word_eqI)
    fix n assume "n < LENGTH(32)"
    then show "bit (push_bit 16 (drop_bit 16 v) OR take_bit 16 v) n = bit v n" by (cases "n < 16") (simp_all add: bit_simps)
  qed
  then show "length zs = 6 \<Longrightarrow> low32 (zs @ [uint (drop_bit 16 v), uint (take_bit 16 v)]) = v" by (simp add: low32_def nth_append)
qed

lemma digit_lower: "is_digit c \<Longrightarrow> lower_char c = c"
  by (simp add: is_digit_def lower_char_def Let_def)

lemma print_ipv4_chars: "c \<in> set (print_ipv4 v) \<Longrightarrow> is_digit c \<or> c = CHR ''.''"
  using printed_part[OF conjunct1[OF byte4_range] conjunct2[OF byte4_range]] by (auto simp: print_ipv4_def Let_def list_all_iff)

lemma print_ipv4_ends: "print_ipv4 v \<noteq> [] \<and> is_digit (last (print_ipv4 v)) \<and> is_digit (hd (print_ipv4 v))"
proof -
  have "is_digit (hd p) \<and> is_digit (last p)" if "p \<noteq> []" "list_all is_digit p" for p using that by (auto simp: list_all_iff)
  then show ?thesis using printed_part[OF conjunct1[OF byte4_range] conjunct2[OF byte4_range]] by (simp add: print_ipv4_def Let_def)
qed

lemma lower_print_ipv4: "to_lower (print_ipv4 v) = print_ipv4 v"
proof -
  have "lower_char CHR ''.'' = CHR ''.''" by code_simp
  then have "lower_char c = c" if "c \<in> set (print_ipv4 v)" for c using print_ipv4_chars[OF that] digit_lower by auto
  then show ?thesis by (simp add: to_lower_def map_idI)
qed

text \<open>The three ways to write an IPv4 address as an IPv6 one.\<close>

definition ipv4_prefixes :: "string list" where
  "ipv4_prefixes = [''::ffff:'', ''64:ff9b::'', ''::'']"

lemma cut_prefixed:
  assumes "q @ [CHR '':''] \<in> set ipv4_prefixes"
  shows "cut_ipv4_tail (to_lower (q @ CHR '':'' # print_ipv4 v)) =
    Some (if q = ''::ffff'' then q else q @ '':'', [uint (drop_bit 16 v), uint (take_bit 16 v)])"
proof -
  have q: "q \<in> {''::ffff'', ''64:ff9b:'', '':''}" using assms by (auto simp: ipv4_prefixes_def append_eq_Cons_conv)
  have "to_lower q = q" "to_lower [CHR '':''] = [CHR '':'']" using q by (auto, code_simp+)
  then have lower: "to_lower (q @ CHR '':'' # print_ipv4 v) = q @ CHR '':'' # print_ipv4 v"
    using lower_print_ipv4[of v] by (simp add: to_lower_def)
  have "has_suffix ''::'' (q @ '':'') \<longleftrightarrow> q \<noteq> ''::ffff''" "has_suffix '':'' (q @ '':'')" using q by (auto simp: has_suffix_def)
  then show ?thesis unfolding lower cut_ipv4_tail_def tail_after_colon[OF dotted_print] parse_printed_ipv4 option.case half_words
    by (auto simp: Let_def butlast_append)
qed

lemma parse_prefixed:
  "parse_ipv6_to_groups (''::ffff:'' @ print_ipv4 v) = Some [0, 0, 0, 0, 0, 0xFFFF, uint (drop_bit 16 v), uint (take_bit 16 v)]"
  "parse_ipv6_to_groups (''64:ff9b::'' @ print_ipv4 v) = Some [0x64, 0xFF9B, 0, 0, 0, 0, uint (drop_bit 16 v), uint (take_bit 16 v)]"
  "parse_ipv6_to_groups (''::'' @ print_ipv4 v) = Some [0, 0, 0, 0, 0, 0, uint (drop_bit 16 v), uint (take_bit 16 v)]"
proof -
  have parts: "split_gap ''::ffff'' = [[], ''ffff'']" "split_gap ''64:ff9b::'' = [''64:ff9b'', []]" "split_gap ''::'' = [[], []]"
    "parse_hextets [] = Some []" "parse_hextets ''ffff'' = Some [0xFFFF]" "parse_hextets ''64:ff9b'' = Some [0x64, 0xFF9B]"
    by code_simp+
  show "parse_ipv6_to_groups (''::ffff:'' @ print_ipv4 v) = Some [0, 0, 0, 0, 0, 0xFFFF, uint (drop_bit 16 v), uint (take_bit 16 v)]"
    using cut_prefixed[of "''::ffff''" v] parts by (simp add: ipv4_prefixes_def parse_ipv6_to_groups_def numeral_eq_Suc)
  show "parse_ipv6_to_groups (''64:ff9b::'' @ print_ipv4 v) = Some [0x64, 0xFF9B, 0, 0, 0, 0, uint (drop_bit 16 v), uint (take_bit 16 v)]"
    using cut_prefixed[of "''64:ff9b:''" v] parts by (simp add: ipv4_prefixes_def parse_ipv6_to_groups_def numeral_eq_Suc)
  show "parse_ipv6_to_groups (''::'' @ print_ipv4 v) = Some [0, 0, 0, 0, 0, 0, uint (drop_bit 16 v), uint (take_bit 16 v)]"
    using cut_prefixed[of "'':''" v] parts by (simp add: ipv4_prefixes_def parse_ipv6_to_groups_def numeral_eq_Suc)
qed

lemma mask_consts: "(0x64 :: int) AND 0xFFC0 = 64" "(0x64 :: int) AND 0xFE00 = 0"
  by simp_all

lemma blocked_prefixed:
  fixes v :: "32 word"
  defines "ends \<equiv> [uint (drop_bit 16 v), uint (take_bit 16 v)]"
  shows "is_blocked_ipv6_groups ([0, 0, 0, 0, 0, 0xFFFF] @ ends) \<longleftrightarrow> is_blocked_ipv4_int v"
    "is_blocked_ipv6_groups ([0x64, 0xFF9B, 0, 0, 0, 0] @ ends) \<longleftrightarrow> is_blocked_ipv4_int v"
    "is_blocked_ipv6_groups ([0, 0, 0, 0, 0, 0] @ ends) \<longleftrightarrow> is_blocked_ipv4_int v"
proof -
  have low: "low32 (zs @ ends) = v" if "length zs = 6" for zs using low32_halves[OF that] by (simp add: ends_def)
  have len: "length ends = 2" by (simp add: ends_def)
  have "is_blocked_ipv4_int 0" "is_blocked_ipv4_int 1" by (simp_all add: blocked_ipv4_iff internal_net_def in_net_value ip4_values)
  moreover have "low32 [0, 0, 0, 0, 0, 0, 0, 0] = 0" "low32 [0, 0, 0, 0, 0, 0, 0, 1] = 1" by (simp_all add: low32_def)
  ultimately have small: "ends = [0, 0] \<or> ends = [0, 1] \<Longrightarrow> is_blocked_ipv4_int v" "v \<in> {0, 1} \<Longrightarrow> is_blocked_ipv4_int v"
    using low[of "[0, 0, 0, 0, 0, 0]"] by auto
  obtain a b where ab: "ends = [a, b]" by (simp add: ends_def)
  have only: "v = 0 \<Longrightarrow> ends = [0, 0]" "v = 1 \<Longrightarrow> ends = [0, 1]" by (simp_all add: ends_def)
  show "is_blocked_ipv6_groups ([0, 0, 0, 0, 0, 0xFFFF] @ ends) \<longleftrightarrow> is_blocked_ipv4_int v"
    using low[of "[0, 0, 0, 0, 0, 0xFFFF]"] by (simp add: is_blocked_ipv6_groups_def ab)
  show "is_blocked_ipv6_groups ([0x64, 0xFF9B, 0, 0, 0, 0] @ ends) \<longleftrightarrow> is_blocked_ipv4_int v"
    using low[of "[0x64, 0xFF9B, 0, 0, 0, 0]"] by (simp add: is_blocked_ipv6_groups_def ab mask_consts)
  show "is_blocked_ipv6_groups ([0, 0, 0, 0, 0, 0] @ ends) \<longleftrightarrow> is_blocked_ipv4_int v"
    using low[of "[0, 0, 0, 0, 0, 0]"] small only ab by (auto simp: is_blocked_ipv6_groups_def)
qed

section \<open>Literal hosts\<close>

lemma digits_no_colon: "list_all is_digit s \<Longrightarrow> CHR '':'' \<notin> set s"
  using not_digit_colon by (auto simp: list_all_iff)

lemma atoi_no_colon:
  assumes "CHR '':'' \<in> set s"
  shows "atoi s = None"
proof -
  have tail: "\<not> list_all is_digit t" if "CHR '':'' \<in> set t" for t using that digits_no_colon by blast
  obtain c t where s: "s = c # t" using assms by (cases s) auto
  show ?thesis
  proof (cases "c = CHR ''-'' \<or> c = CHR ''+''")
    case True
    then have "CHR '':'' \<in> set t" using assms s by auto
    then show ?thesis using True tail[of t] unfolding s by (auto simp: atoi_def atoi_digits_def)
  next
    case False
    have "atoi (c # t) = atoi_digits (c # t)" if "c \<noteq> CHR ''-''" "c \<noteq> CHR ''+''" for c t
      using that by (cases c) (auto simp: atoi_def split: bool.splits)
    moreover have "atoi_digits s = None" using tail[OF assms] by (simp add: atoi_digits_def)
    ultimately show ?thesis using False unfolding s by simp
  qed
qed

lemma ipv4_no_colon:
  assumes "CHR '':'' \<in> set host"
  shows "ipv4_to_int host = None"
proof -
  obtain q where "q \<in> set (split_on CHR ''.'' host)" "CHR '':'' \<in> set q" using in_split_on[OF assms, of "CHR ''.''"] by auto
  then have q: "\<exists>q\<in>set (split_on CHR ''.'' host). ipv4_part q = None" using atoi_no_colon by (auto simp: ipv4_part_def intro!: bexI[of _ q])
  let ?f = "\<lambda>p (acc :: 32 word option). case acc of None \<Rightarrow> None | Some ip \<Rightarrow> map_option (\<lambda>n. push_bit 8 ip OR word_of_int n) (ipv4_part p)"
  have none: "fold ?f ps None = None" for ps :: "string list" by (induction ps) simp_all
  have "fold ?f ps acc = None" if "\<exists>q\<in>set ps. ipv4_part q = None" for ps :: "string list" and acc
    using that
  proof (induction ps arbitrary: acc)
    case (Cons p ps)
    show ?case
    proof (cases "ipv4_part p")
      case None
      then have "?f p acc = None" by (simp split: option.split)
      then show ?thesis using none by simp
    next
      case (Some n)
      then show ?thesis using Cons by simp
    qed
  qed simp
  from this[OF q, of "Some 0"] show ?thesis unfolding ipv4_to_int_def Let_def by (simp only: if_cancel)
qed

text \<open>A host that ends in an address.\<close>

lemma ends_in_address:
  assumes "p \<in> set ([] # ipv4_prefixes)"
  shows "normalize_host (p @ print_ipv4 v) = p @ print_ipv4 v" "trim_brackets (p @ print_ipv4 v) = p @ print_ipv4 v"
    "p @ print_ipv4 v \<notin> set blocked_hostnames" "\<not> list_ex (\<lambda>s. has_suffix s (p @ print_ipv4 v)) blocked_suffixes"
proof -
  let ?h = "p @ print_ipv4 v"
  have ends: "print_ipv4 v \<noteq> []" "is_digit (last (print_ipv4 v))" "is_digit (hd (print_ipv4 v))" using print_ipv4_ends by auto
  then obtain u where u: "rev ?h = last (print_ipv4 v) # u" by (cases "print_ipv4 v" rule: rev_cases) auto
  have no: "\<not> is_digit c" if "c \<in> set ''.[]lt''" for c
  proof -
    have "list_all (\<lambda>c. \<not> is_digit c) ''.[]lt''" by code_simp
    then show ?thesis using that by (auto simp only: list_all_iff)
  qed
  have "to_lower p = p" using assms by (auto simp: ipv4_prefixes_def, code_simp+)
  then have "to_lower ?h = ?h" by (simp add: lower_print_ipv4)
  moreover have "last (print_ipv4 v) \<noteq> CHR ''.''" using ends(2) no[of "CHR ''.''"] by auto
  then have "dropWhile (\<lambda>c. c = CHR ''.'') (rev ?h) = rev ?h" unfolding u by simp
  ultimately show "normalize_host ?h = ?h" unfolding normalize_host_def by (simp only: rev_rev_ident)
  let ?B = "\<lambda>c. c = CHR ''['' \<or> c = CHR '']''"
  have digit: "\<not> ?B c" if "is_digit c" for c using that no[of "CHR ''[''"] no[of "CHR '']''"] by auto
  have ne: "?h \<noteq> []" "rev ?h \<noteq> []" using ends(1) by simp_all
  have first: "\<not> ?B (hd ?h)"
  proof (cases "p = []")
    case True
    then show ?thesis using digit[OF ends(3)] by simp
  next
    case False
    then have "hd ?h = hd p" by simp
    moreover have "hd p \<in> {CHR '':'', CHR ''6''}" using assms False by (auto simp: ipv4_prefixes_def)
    ultimately show ?thesis by auto
  qed
  have final: "\<not> ?B (hd (rev ?h))" unfolding u list.sel using digit[OF ends(2)] .
  show "trim_brackets ?h = ?h" 
    unfolding trim_brackets_def Let_def dropWhile_not_space[of ?h ?B, OF ne(1) first] dropWhile_not_space[of "rev ?h" ?B, OF ne(2) final]
    by (rule rev_rev_ident)
  have last: "is_digit (last ?h)" using ends by simp
  show "?h \<notin> set blocked_hostnames"
  proof
    assume "?h \<in> set blocked_hostnames"
    moreover have "list_all (\<lambda>n. \<not> is_digit (last n)) blocked_hostnames" by code_simp
    ultimately show False using last by (auto simp: list_all_iff)
  qed
  have "\<not> has_suffix s ?h" if "s \<in> set blocked_suffixes" for s
  proof
    assume "has_suffix s ?h"
    moreover have "s \<noteq> []" "\<not> is_digit (last s)"
    proof -
      have "list_all (\<lambda>s. s \<noteq> [] \<and> \<not> is_digit (last s)) blocked_suffixes" by code_simp
      then show "s \<noteq> []" "\<not> is_digit (last s)" using that by (auto simp: list_all_iff)
    qed
    ultimately show False using u ends(2) by (cases s rule: rev_cases) (auto simp: has_suffix_def)
  qed
  then show "\<not> list_ex (\<lambda>s. has_suffix s ?h) blocked_suffixes" by (auto simp: list_ex_iff)
qed

lemma literal_verdict:
  assumes "p \<in> set ([] # ipv4_prefixes)"
  shows "is_blocked_host (p @ print_ipv4 v) \<longleftrightarrow> is_blocked_ipv4_int v"
    "assert_public_url env (Some (p @ print_ipv4 v)) = (if is_blocked_ipv4_int v then InternalHost else PublicUrl)"
proof -
  let ?h = "p @ print_ipv4 v"
  note facts = ends_in_address[OF assms, of v]
  have plain: "CHR '':'' \<notin> set (print_ipv4 v)" using dotted_no_colon[OF dotted_print] .
  have colon: "p \<noteq> [] \<Longrightarrow> CHR '':'' \<in> set ?h" using assms by (auto simp: ipv4_prefixes_def)
  have v6: "p \<noteq> [] \<Longrightarrow> \<exists>g. parse_ipv6_to_groups ?h = Some g \<and> (is_blocked_ipv6_groups g \<longleftrightarrow> is_blocked_ipv4_int v)"
    using assms parse_prefixed[of v] blocked_prefixed[of v] by (auto simp: ipv4_prefixes_def)
  show host: "is_blocked_host ?h \<longleftrightarrow> is_blocked_ipv4_int v"
  proof (cases "p = []")
    case True
    then show ?thesis using facts plain unfolding is_blocked_host_def by (simp add: is_blocked_ipv4_def parse_printed_ipv4)
  next
    case False
    then show ?thesis using facts colon v6 ipv4_no_colon[OF colon] unfolding is_blocked_host_def by (auto simp: is_blocked_ipv4_def)
  qed
  have "(ipv4_to_int ?h \<noteq> None \<or> CHR '':'' \<in> set ?h) \<and> (parse_ipv6_to_groups ?h \<noteq> None \<or> ipv4_to_int ?h \<noteq> None)"
    using colon v6 parse_printed_ipv4[of v] by (cases "p = []") auto
  moreover have "?h \<noteq> []" using print_ipv4_ends by simp
  ultimately show "assert_public_url env (Some ?h) = (if is_blocked_ipv4_int v then InternalHost else PublicUrl)"
    using facts host by (auto simp: assert_public_url_def Let_def)
qed

section \<open>Where the guards differ\<close>

text \<open>A resolver that knows one name, and no address.\<close>

definition demo_net :: "ip_addr list \<Rightarrow> net_env" where
  "demo_net addrs = \<lparr>ne_parse_ip = (\<lambda>_. None), ne_lookup = (\<lambda>h. if h = ''example.org'' then Some addrs else None)\<rparr>"

text \<open>A multicast address is refused when a name resolves to it and accepted when it is written out.\<close>

lemma literal_multicast_passes:
  "assert_public_url (demo_net []) (Some ''224.0.0.1'') = PublicUrl \<and>
   assert_public_url (demo_net [of4 (ip4 224 0 0 1)]) (Some ''example.org'') = ResolvesInternal"
  by code_simp

text \<open>The metadata address of Oracle's cloud is known to the guard of the dialler and to the metadata check, and is a public
  address for the guard of URLs, written out or resolved.\<close>

lemma metadata_address_is_public:
  "is_cloud_metadata_ip (of4 (ip4 192 0 0 192)) \<and> is_private_or_reserved (Some (of4 (ip4 192 0 0 192))) \<and>
   assert_public_url (demo_net []) (Some ''192.0.0.192'') = PublicUrl \<and>
   assert_public_url (demo_net [of4 (ip4 192 0 0 192)]) (Some ''example.org.'') = PublicUrl"
  by code_simp

text \<open>The loopback address behind the prefix of NAT64 is refused by the guard of URLs only.\<close>

lemma nat64_passes_dialler:
  "is_blocked_host ''64:ff9b::7f00:1'' \<and> \<not> is_private_or_reserved (Some (0x64FF9B * 2 ^ 96 + 0x7F000001))"
  by code_simp

section \<open>Properties\<close>

text \<open>C26: the two guards of outbound requests refuse the same IPv4 networks up to a known difference: the dialler refuses what
  the guard of URLs refuses, the multicast addresses and the five networks of \<open>special_net\<close>; the guard of URLs refuses
  multicast addresses only behind a name.\<close>

theorem guards_compared:
  "(is_private_or_reserved (Some (of4 v)) \<longleftrightarrow> is_blocked_ipv4_int v \<or> in_net v (ip4 224 0 0 0) 4 \<or> special_net v) \<and>
   (resolves_internal (of4 v) \<longleftrightarrow> is_blocked_ipv4_int v \<or> in_net v (ip4 224 0 0 0) 4) \<and>
   (is_blocked_ipv4_int v \<longleftrightarrow> internal_net v)"
  using reserved_ipv4[OF to4_of4] internal_ipv4[OF to4_of4] by (simp add: blocked_ipv4_iff)

text \<open>C25: a host that the guard of URLs lets through and that is not an address itself resolves to no internal address: when
  one of its addresses is reserved for the dialler, it lies in one of the five IPv4 or two IPv6 networks that only the
  dialler knows.\<close>

theorem public_host_resolves_outside:
  assumes "assert_public_url env (Some host) = PublicUrl" "ne_lookup env (normalize_host host) = Some addrs" "ip \<in> set addrs"
    and "CHR '':'' \<notin> set (trim_brackets (normalize_host host))" "ipv4_to_int (trim_brackets (normalize_host host)) = None"
    and "is_private_or_reserved (Some ip)"
  shows "case to4 ip of Some v \<Rightarrow> special_net v \<and> \<not> internal_net v | None \<Rightarrow> unlisted_ipv6 ip"
proof -
  have "\<not> list_ex resolves_internal addrs"
    using assms(1,2,4,5) by (auto simp: assert_public_url_def Let_def split: if_splits)
  then have out: "\<not> resolves_internal ip" using assms(3) by (auto simp: list_ex_iff)
  show ?thesis
  proof (cases "to4 ip")
    case None
    then show ?thesis using reserved_ipv6[OF None assms(6) out] by simp
  next
    case (Some v)
    then show ?thesis using reserved_ipv4[OF Some] internal_ipv4[OF Some] assms(6) out by simp
  qed
qed

lemma public_host_resolves_outside_witness:
  "special_net (ip4 198 51 100 7) \<and> \<not> internal_net (ip4 198 51 100 7)"
proof -
  let ?ip = "of4 (ip4 198 51 100 7)"
  have "assert_public_url (demo_net [?ip]) (Some ''example.org'') = PublicUrl" by code_simp
  moreover have "ne_lookup (demo_net [?ip]) (normalize_host ''example.org'') = Some [?ip]" by code_simp
  moreover have "CHR '':'' \<notin> set (trim_brackets (normalize_host ''example.org''))" by code_simp
  moreover have "ipv4_to_int (trim_brackets (normalize_host ''example.org'')) = None" by code_simp
  moreover have "is_private_or_reserved (Some ?ip)" by code_simp
  ultimately have "case to4 ?ip of Some v \<Rightarrow> special_net v \<and> \<not> internal_net v | None \<Rightarrow> unlisted_ipv6 ?ip"
    by (intro public_host_resolves_outside[of "demo_net [?ip]" "''example.org''" "[?ip]"]) simp_all
  then show ?thesis by simp
qed

text \<open>C24: an IPv4 address written as the host of a URL is seen in every form: in dotted form, mapped into IPv6, behind the
  prefix of NAT64 and in the compatible form, the URL is refused just when the address is a blocked one.\<close>

theorem written_address_is_seen:
  "(let verdict = (if is_blocked_ipv4_int v then InternalHost else PublicUrl)
    in assert_public_url env (Some (print_ipv4 v)) = verdict \<and>
       assert_public_url env (Some (''::ffff:'' @ print_ipv4 v)) = verdict \<and>
       assert_public_url env (Some (''64:ff9b::'' @ print_ipv4 v)) = verdict \<and>
       assert_public_url env (Some (''::'' @ print_ipv4 v)) = verdict)"
proof -
  have mem: "[] \<in> set ([] # ipv4_prefixes)" "''::ffff:'' \<in> set ([] # ipv4_prefixes)" "''64:ff9b::'' \<in> set ([] # ipv4_prefixes)"
    "''::'' \<in> set ([] # ipv4_prefixes)"
    by (simp_all add: ipv4_prefixes_def)
  show ?thesis unfolding Let_def using literal_verdict(2)[OF mem(1), of env v] literal_verdict(2)[OF mem(2), of env v]
      literal_verdict(2)[OF mem(3), of env v] literal_verdict(2)[OF mem(4), of env v]
    by (intro conjI) (simp_all only: append_Nil)
qed

text \<open>C40: the readers of the guard take back the text of every address: the dotted text of an IPv4 address, and the text Go
  prints of an IPv6 address, with its longest run of zero groups left out.\<close>

theorem address_text_round_trip:
  "ipv4_to_int (print_ipv4 v) = Some v \<and> parse_ipv6_to_groups (print_ipv6 (groups_of ip)) = Some (groups_of ip)"
  by (simp add: parse_printed_ipv4 parse_printed[OF groups_range])

end
