(* ===== verification/Spec2Isabelle.thy ===== *)
theory Spec2Isabelle
  imports Breaker Semaphore SemLive Admission GoStrings SmartCombo Calendar Budget RateLimit Policy
    RateWindow RateHistory TokenBucket CacheBase GoJson SemanticStore SemanticCache PromptCache KeyCache
    Gateway Rotation Capability Affinity ErrorClass Cooldown Accounts Selection RoundRobin Failover
    AccountLoop AccountRun Thinking ThinkingWrite Resolution ComboLoop ComboRun Access
    NetGuard NetText NetCheck
begin

text \<open>
Verification of the request-routing core of 9router-go, a gateway that takes chat requests of
  clients and sends each of them to one of many model providers, over one of several accounts.

  \<^bold>\<open>The program and its parts\<close>

  A request passes the following parts, in this order; each is modelled by the theories named.

    \<^item> Authentication (\<open>internal/middleware/auth.go\<close>, \<open>internal/keikey/cache.go\<close>): \<open>KeyCache\<close>. The
      key of the request is looked up in a cache of verified rows, or in the repository, and checked
      against its stored hash.
    \<^item> Limits (\<open>internal/policy/policy.go\<close>, \<open>internal/middleware/ratelimit.go\<close>, \<open>ratelimit_tokens.go\<close>,
      \<open>internal/budget/budget.go\<close>): \<open>Policy\<close> decides the limits of a key from its plan and its own
      columns; \<open>Calendar\<close> and \<open>Budget\<close> are the spend ceiling per calendar period; \<open>RateLimit\<close> holds
      the state and operations of the limiter (sliding window, token bucket, concurrency counter,
      queue); \<open>RateWindow\<close>, \<open>RateHistory\<close> and \<open>TokenBucket\<close> what it guarantees; \<open>Gateway\<close> is the
      middleware that asks all of them in turn.
    \<^item> Model access (\<open>handlers/chat/access.go\<close>, \<open>providers/modelpattern.go\<close>): \<open>Access\<close>, the patterns that
      say which models a key may use, the gate of a request and the filter of the listings.
    \<^item> Caches of answers (\<open>internal/promptcache\<close>, \<open>internal/semanticcache\<close>): \<open>CacheBase\<close> is the list
      representation both use, \<open>PromptCache\<close> the cache of exact prompts with its byte budget,
      \<open>SemanticStore\<close> the store and \<open>SemanticCache\<close> the cache over any store.
    \<^item> Model names (\<open>handlers/chat/resolution.go\<close>): \<open>Resolution\<close> takes the annotations off a name
      and finds the provider, the model, and the members of a combo (a named list of models), over
      stored aliases, nested combos and custom nodes.
    \<^item> Combos (\<open>combos/smart/smart.go\<close>, \<open>handlers/chat/combo.go\<close>, \<open>combo_cascade.go\<close>,
      \<open>combo_timeout.go\<close>, \<open>capacity_adapter.go\<close>): \<open>SmartCombo\<close> keeps the members of a combo in step
      with rules; \<open>Capability\<close> is what a request needs of a model; \<open>Rotation\<close> is the order in which
      the members are tried. \<open>ComboLoop\<close> is a request to a combo: its passes over the members, the
      accounts tried for each, the response deadline and the fallback combos; \<open>ComboRun\<close> proves what
      it guarantees.
    \<^item> Accounts (\<open>internal/db/accounts.go\<close>, \<open>accounts_oauth_lock.go\<close>, \<open>connections.go\<close>, \<open>rotation.go\<close>,
      \<open>handlers/chat/connections.go\<close>, \<open>session_affinity.go\<close>): \<open>Accounts\<close> holds the rows and what is
      stored of their health, \<open>Affinity\<close> the sessions that stay on an account, \<open>Selection\<close> the
      choice of an account for a request, and \<open>RoundRobin\<close> what the choice promises over time.
    \<^item> Failures (\<open>providers/errorclassify.go\<close>, \<open>providers/deprecation.go\<close>, \<open>retry_after.go\<close>,
      \<open>fallback.go\<close>, \<open>deprecation.go\<close>): \<open>ErrorClass\<close> classifies an upstream error, \<open>Cooldown\<close>
      computes how long an account rests, \<open>Failover\<close> writes the consequences to the store, and
      \<open>AccountLoop\<close> is the loop of one request over the accounts of a provider; \<open>AccountRun\<close> proves
      what the loop guarantees.
    \<^item> Admission (\<open>internal/resilience\<close>): \<open>Breaker\<close> is the circuit breaker of a provider, \<open>Semaphore\<close>
      the gate of an account with its queue, both as sequential operations and as a step relation of
      interleaved goroutines, \<open>SemLive\<close> shows that no wake-up is lost, and \<open>Admission\<close> is the
      controller over both.
    \<^item> Reasoning (\<open>internal/thinking\<close>): \<open>Thinking\<close> reads the reasoning a request asks for from the
      dialects of the vendors, \<open>ThinkingWrite\<close> writes it in the dialect of the provider.
    \<^item> Addresses (\<open>internal/netguard\<close>, \<open>internal/handlerutil/ssrf.go\<close>): \<open>NetGuard\<close> has the guards that
      keep outbound requests from internal addresses, as 32-bit and 128-bit words, \<open>NetText\<close> the
      readers of written addresses, and \<open>NetCheck\<close> what the guards refuse.

  \<open>RouterPrelude\<close> has the shared types, list lemmas and the locales for components whose state is
  changed by a closed set of operations; \<open>GoStrings\<close> and \<open>GoJson\<close> are the parts of Go's library that
  the code uses.

  \<^bold>\<open>How code becomes definitions\<close>

  A struct is a record with the fields the code reads, an enumeration a datatype, a Go map an
  association list or a function, a linked list with its map an association list in the order of the
  list. An instant is the number of nanoseconds since Go's zero time and a duration one of
  nanoseconds, both unbounded integers; where the code can wrap (the page offset of a listing, the
  narrowing of a limit to 32 bits, a Retry-After that overflows) the wrap is written out. A string
  is its list of bytes, with the case mapping and white space of ASCII. JSON is the decoded tree. A
  handler that changes state takes the state and returns the new one with its answer; an error is a
  value of a sum type. The clock, where a critical section reads it, is an argument. Goroutines are
  modelled where they matter: the limiter and the semaphore as sequences of their critical sections
  in any order, the semaphore also with the program counter of each goroutine.

  Services outside of the repository are arguments: the database reads that feed the middleware,
  argon2id, SHA-256, the regular expressions, the JSON decoder, the clock formats, the alias and
  capability tables of the providers, and the sending of one attempt, which is a function from
  account and request to an outcome and a duration. No theorem assumes more of them than it says.

  \<^bold>\<open>What is shown\<close>

    \<^item> Limits: in no window of a minute more requests are admitted than the limit, whatever the order
      of the critical sections; the number of running requests stays under the cap; the tokens of a
      stretch of time are bounded by its refill; a refused request leaves no charge.
    \<^item> Admission: the accounting of a gate is exact, and a goroutine that waits while there is room
      is always about to be woken; a half-open breaker lets no more probes through than it may.
    \<^item> Caches: an answer is one that was stored for the request and has not expired; the byte budget
      holds after every operation; the LRU list refines a plain list ordered by recency.
    \<^item> Names: flattening reaches exactly the leaves within five levels although it cuts cycles, an
      entry is answered exactly when it leads to a leaf, annotations do not change the target.
    \<^item> Order and capabilities: the order of a combo is complete, turns rotate fairly, a request with
      an image starts at a member that can see.
    \<^item> Accounts: only an account that may serve is selected or dialled, rotation is fair, a session
      keeps its account, an account in cooldown is a last resort; over a whole request each attempt
      goes to an account that may be dialled, a failed account is left alone afterwards, a healthy one
      is found whatever failed before it, and a fault of the model does not take the account out for
      other models.
    \<^item> Combos: every seat that is tried is allowed, a refusal by a guardrail ends the walk over the
      members, a combo tries at most twenty seats for each member, and a member that needs no account
      and answers in time is reached whatever the others do.
    \<^item> Access: a denied model is refused however it is spelled, a policy that cannot be read refuses, a
      plan widens the rows of a key when it denies nothing.
    \<^item> Addresses: a written address is seen in dotted form and in the three forms of IPv6, a name that
      is let through resolves to no internal network but the ones listed, the two guards are compared
      network by network, and the readers take back what is printed.
    \<^item> Reasoning: the strip leaves nothing that reads as an intent, the pass changes nothing but
      reasoning fields and is idempotent for an explicit intent, the level written is advertised.

  Lemmas named in the manifest's findings evaluate the model where the code does something else than
  its comments say.

  \<^bold>\<open>Bounds and fuel\<close>

  The only bound on a recursion that is not structural is the nesting of combos in
  \<open>expand_combo_models\<close>, whose argument counts the levels that are left: six, as in the code, where
  the depth may be 0 to 5. All other recursive definitions end by themselves: the loop over accounts
  is bounded by the accounts it excludes, the resolution of an entry by the combos not yet on the
  path, the fallback combos by the stored combos not yet visited, the queue loops by the queue. Concrete runs in the witnesses are evaluated by the simplifier.

  \<^bold>\<open>What is not modelled\<close>

  The wire protocols: the executors of the providers, the translators between the formats of vendors,
  streaming and token counting depend on services outside of the repository. The dashboard, media,
  OAuth and SSO handlers are forms around single database statements or calls to outside services;
  SQL itself, migrations and the sealing of credentials are left out, and a statement is modelled as
  what it does to a list of rows. The SQLite write-through of the semantic cache, fusion and the
  smart router are not modelled. The loop of a combo is the one of chat completions: the one of
  Messages requests differs in the form of the body and has no seat budget, and is not repeated; the
  seat budget itself only shortens the sending, which is a parameter. Tunnels, the tray, the updater, the service manager and the token saver act
  on the host or are driven by data files.
\<close>

end
